(* ===== verification/Prelude.thy ===== *)
theory Prelude
  imports Main
begin

text \<open>
  Shared ground of the development: the collections the component theories extend, the
  generic facts about lists that several of them use, and the one interface that is not tied
  to a component, a consumer that is fed a byte stream in arbitrary pieces.

  \<^item> \<open>go_string\<close> collects the defining equations of the string functions of Go's
    standard library, so that \<open>simp add: go_string\<close> evaluates them on literals.
  \<^item> \<open>frame_simps\<close> collects the facts that say which fields of a state an operation
    leaves alone.
\<close>

named_theorems go_string "defining equations of the modelled Go string functions"
named_theorems frame_simps "fields an operation leaves unchanged"

type_synonym bytes = string

section \<open>Lists\<close>

lemma take_append_length [simp]: "take (length xs) (xs @ ys) = xs"
  by simp

lemma sum_list_map_filter_le:
  "sum_list (map (f :: 'a \<Rightarrow> nat) (filter P xs)) \<le> sum_list (map f xs)"
  by (induction xs) auto

lemma sum_list_take_drop:
  "sum_list (map (f :: 'a \<Rightarrow> nat) (take n xs)) + sum_list (map f (drop n xs))
     = sum_list (map f xs)"
  by (metis append_take_drop_id map_append sum_list_append)

lemma drop_length_diff_append:
  "n \<le> length ys \<Longrightarrow> drop (length (xs @ ys) - n) (xs @ ys) = drop (length ys - n) ys"
  by simp

lemma take_min_length [simp]: "take (min n (length xs)) xs = take n xs"
  by (simp add: min_def)

lemma drop_min_length [simp]: "drop (min n (length xs)) xs = drop n xs"
  by (simp add: min_def)

text \<open>The last \<open>n\<close> elements of a list: what a bounded buffer of size \<open>n\<close> keeps.\<close>

definition lastn :: "nat \<Rightarrow> 'a list \<Rightarrow> 'a list" where
  "lastn n xs = drop (length xs - n) xs"

lemma lastn_short [simp]: "length xs \<le> n \<Longrightarrow> lastn n xs = xs"
  by (simp add: lastn_def)

lemma length_lastn [simp]: "length (lastn n xs) = min n (length xs)"
  by (simp add: lastn_def)

lemma set_lastn: "set (lastn n xs) \<subseteq> set xs"
  by (simp add: lastn_def set_drop_subset)

lemma lastn_snoc_full:
  assumes "length ys = n" and "0 < n" and "ys = lastn n xs"
  shows "lastn n (xs @ [x]) = tl ys @ [x]"
proof -
  have "n \<le> length xs"
    using assms by (metis length_lastn min.cobounded2)
  then show ?thesis
    using assms by (simp add: lastn_def Suc_diff_le drop_Suc tl_drop)
qed

lemma lastn_lastn_append: "lastn n (lastn n xs @ ys) = lastn n (xs @ ys)"
proof (cases "length xs \<le> n")
  case False
  then have "xs = take (length xs - n) xs @ lastn n xs"
    by (simp add: lastn_def)
  moreover have "length (lastn n xs) = n"
    using False by simp
  ultimately show ?thesis
    by (metis append.assoc drop_length_diff_append lastn_def le_add1 length_append)
qed simp

section \<open>Feeding a stream in pieces\<close>

text \<open>
  A consumer keeps a state and is handed the next bytes of a stream as they arrive. Where the
  pieces are cut is up to the network, so the consumer is right only if the cuts do not
  matter. The two laws say so for one cut; the lemma lifts them to any sequence of pieces.
\<close>

locale chunked_consumer =
  fixes good :: "'s \<Rightarrow> bool"
    and feed :: "'s \<Rightarrow> 'b list \<Rightarrow> 's"
  assumes good_feed: "good s \<Longrightarrow> good (feed s xs)"
    and feed_Nil: "good s \<Longrightarrow> feed s [] = s"
    and feed_append: "good s \<Longrightarrow> feed s (xs @ ys) = feed (feed s xs) ys"
begin

lemma good_chunks: "good s \<Longrightarrow> good (foldl feed s chunks)"
  by (induction chunks arbitrary: s) (simp_all add: good_feed)

lemma feed_chunks: "good s \<Longrightarrow> foldl feed s chunks = feed s (concat chunks)"
  by (induction chunks arbitrary: s) (simp_all add: good_feed feed_Nil feed_append)

lemma feed_same_stream:
  "good s \<Longrightarrow> concat chunks = concat chunks' \<Longrightarrow> foldl feed s chunks = foldl feed s chunks'"
  by (simp add: feed_chunks)

end

end
