(* ===== verification/GoLib.thy ===== *)
theory GoLib
  imports Prelude "HOL-Library.Char_ord" "HOL-Library.List_Lexorder" "HOL-Library.Word"
begin

text \<open>
  The parts of Go's standard library and of gRPC's status package that the source calls.
  A Go string and a Go byte slice are both a \<^typ>\<open>string\<close>, one \<^typ>\<open>char\<close> per
  byte. White space is ASCII white space: the source only trims adb and env output, and the
  multi-byte space characters Go also knows are not modelled.
\<close>

section \<open>Package strings\<close>

definition HasPrefix :: "bytes \<Rightarrow> bytes \<Rightarrow> bool" where
  [go_string]: "HasPrefix s p \<longleftrightarrow> take (length p) s = p"

definition HasSuffix :: "bytes \<Rightarrow> bytes \<Rightarrow> bool" where
  [go_string]: "HasSuffix s p \<longleftrightarrow> length p \<le> length s \<and> drop (length s - length p) s = p"

definition CutPrefix :: "bytes \<Rightarrow> bytes \<Rightarrow> bytes option" where
  [go_string]: "CutPrefix s p = (if HasPrefix s p then Some (drop (length p) s) else None)"

definition TrimPrefix :: "bytes \<Rightarrow> bytes \<Rightarrow> bytes" where
  [go_string]: "TrimPrefix s p = (if HasPrefix s p then drop (length p) s else s)"

definition TrimSuffix :: "bytes \<Rightarrow> bytes \<Rightarrow> bytes" where
  [go_string]: "TrimSuffix s p = (if HasSuffix s p then take (length s - length p) s else s)"

fun Index :: "bytes \<Rightarrow> bytes \<Rightarrow> nat option" where
  "Index [] sub = (if sub = [] then Some 0 else None)"
| "Index (c # s) sub =
     (if HasPrefix (c # s) sub then Some 0 else map_option Suc (Index s sub))"

definition Contains :: "bytes \<Rightarrow> bytes \<Rightarrow> bool" where
  [go_string]: "Contains s sub \<longleftrightarrow> Index s sub \<noteq> None"

text \<open>\<open>strings.Cut\<close>: what is before and after the first separator, and whether there is one.\<close>

definition Cut :: "bytes \<Rightarrow> bytes \<Rightarrow> (bytes \<times> bytes) option" where
  [go_string]: "Cut s sep = (case Index s sep of None \<Rightarrow> None
     | Some i \<Rightarrow> Some (take i s, drop (i + length sep) s))"

text \<open>\<open>strings.LastIndex\<close> of a single byte.\<close>

fun LastIndexByte :: "bytes \<Rightarrow> char \<Rightarrow> nat option" where
  "LastIndexByte [] c = None"
| "LastIndexByte (x # s) c = (case LastIndexByte s c of
       Some i \<Rightarrow> Some (Suc i)
     | None \<Rightarrow> if x = c then Some 0 else None)"

text \<open>\<open>strings.Split\<close> on a one-byte separator: always at least one piece.\<close>

fun Split :: "bytes \<Rightarrow> char \<Rightarrow> bytes list" where
  "Split [] c = [[]]"
| "Split (x # s) c = (if x = c then [] # Split s c
     else (case Split s c of [] \<Rightarrow> [[x]] | p # ps \<Rightarrow> (x # p) # ps))"

fun Join :: "bytes list \<Rightarrow> bytes \<Rightarrow> bytes" where
  "Join [] sep = []"
| "Join [s] sep = s"
| "Join (s # t # ss) sep = s @ sep @ Join (t # ss) sep"

definition isSpace :: "char \<Rightarrow> bool" where
  "isSpace c \<longleftrightarrow> c \<in> {CHR 0x20, CHR 0x09, CHR 0x0A, CHR 0x0B, CHR 0x0C, CHR 0x0D}"

definition TrimLeftSpace :: "bytes \<Rightarrow> bytes" where
  [go_string]: "TrimLeftSpace s = dropWhile isSpace s"

definition TrimSpace :: "bytes \<Rightarrow> bytes" where
  [go_string]: "TrimSpace s = rev (dropWhile isSpace (rev (dropWhile isSpace s)))"

definition TrimRightByte :: "bytes \<Rightarrow> char \<Rightarrow> bytes" where
  [go_string]: "TrimRightByte s c = rev (dropWhile (\<lambda>x. x = c) (rev s))"

text \<open>\<open>strings.ReplaceAll\<close> of a single byte.\<close>

definition ReplaceByte :: "char \<Rightarrow> bytes \<Rightarrow> bytes \<Rightarrow> bytes" where
  [go_string]: "ReplaceByte c r s = concat (map (\<lambda>x. if x = c then r else [x]) s)"

declare Index.simps [go_string] LastIndexByte.simps [go_string] Split.simps [go_string]
  Join.simps [go_string] isSpace_def [go_string]

lemma HasPrefix_append [simp]: "HasPrefix (p @ s) p"
  by (simp add: HasPrefix_def)

lemma HasPrefixD: "HasPrefix s p \<Longrightarrow> \<exists>t. s = p @ t"
  by (metis HasPrefix_def append_take_drop_id)

lemma TrimPrefix_append [simp]: "TrimPrefix (p @ s) p = s"
  by (simp add: TrimPrefix_def)

lemma Split_not_Nil [simp]: "Split s c \<noteq> []"
  by (induction s) (auto split: list.splits)

lemma Join_Split: "Join (Split s c) [c] = s"
proof (induction s)
  case Nil
  then show ?case by simp
next
  case (Cons x s)
  obtain p ps where p: "Split s c = p # ps"
    by (cases "Split s c") auto
  show ?case
    using Cons p by (cases ps) auto
qed

lemma Split_no_sep: "p \<in> set (Split s c) \<Longrightarrow> c \<notin> set p"
proof (induction s arbitrary: p)
  case Nil
  then show ?case by simp
next
  case (Cons x s)
  obtain q qs where q: "Split s c = q # qs"
    by (cases "Split s c") auto
  show ?case
    using Cons q by (auto split: if_splits)
qed

lemma Split_no_sep_single: "c \<notin> set s \<Longrightarrow> Split s c = [s]"
  by (induction s) auto

lemma Split_append_sep: "Split (s @ c # t) c = Split s c @ Split t c"
proof (induction s)
  case Nil
  then show ?case by simp
next
  case (Cons x s)
  obtain q qs where q: "Split s c = q # qs"
    by (cases "Split s c") auto
  show ?case
    using Cons q by auto
qed

lemma Split_Join:
  "ss \<noteq> [] \<Longrightarrow> \<forall>s \<in> set ss. c \<notin> set s \<Longrightarrow> Split (Join ss [c]) c = ss"
proof (induction ss "[c]" rule: Join.induct)
  case (3 s t ss)
  then show ?case
    using Split_append_sep [of s c "Join (t # ss) [c]"]
    by (simp add: Split_no_sep_single)
qed (auto simp: Split_no_sep_single)

lemma Index_Some: "Index s sub = Some i \<Longrightarrow> \<exists>t. s = take i s @ sub @ t \<and> i \<le> length s"
proof (induction s arbitrary: i)
  case Nil
  then show ?case by (auto split: if_splits)
next
  case (Cons c s)
  show ?case
  proof (cases "HasPrefix (c # s) sub")
    case True
    then show ?thesis
      using Cons.prems by (auto dest: HasPrefixD)
  next
    case False
    then obtain j where j: "Index s sub = Some j" "i = Suc j"
      using Cons.prems by auto
    then obtain t where "s = take j s @ sub @ t" "j \<le> length s"
      using Cons.IH by blast
    then show ?thesis
      using j by auto
  qed
qed

lemma Contains_append: "Contains (u @ sub @ v) sub"
proof (induction u)
  case Nil
  then show ?case
    by (cases "sub @ v") (simp_all add: Contains_def, metis HasPrefix_append append_self_conv2)
next
  case (Cons c u)
  then show ?case by (auto simp: Contains_def)
qed

lemma ContainsD: "Contains s sub \<Longrightarrow> \<exists>u v. s = u @ sub @ v"
  by (metis Contains_def Index_Some not_None_eq)

lemma Cut_Some: "Cut s sep = Some (a, b) \<Longrightarrow> s = a @ sep @ b"
proof -
  assume c: "Cut s sep = Some (a, b)"
  then obtain i where i: "Index s sep = Some i" and ab: "a = take i s" "b = drop (i + length sep) s"
    by (auto simp: Cut_def split: option.splits)
  from Index_Some [OF i] obtain t where t: "s = take i s @ sep @ t" and le: "i \<le> length s"
    by blast
  from le have l: "length (take i s) = i" by simp
  have "drop (i + length sep) s = t"
    using t l by (metis append.assoc append_eq_conv_conj length_append)
  with t ab show ?thesis by simp
qed

lemma LastIndexByte_Some:
  "LastIndexByte s c = Some i \<Longrightarrow>
     i < length s \<and> s ! i = c \<and> c \<notin> set (drop (Suc i) s)"
proof (induction s arbitrary: i)
  case Nil
  then show ?case by simp
next
  case (Cons x s)
  have none: "LastIndexByte s c = None \<Longrightarrow> c \<notin> set s"
    by (induction s) (auto split: option.splits if_splits)
  show ?case
    using Cons none by (auto split: option.splits if_splits)
qed

lemma LastIndexByte_None: "LastIndexByte s c = None \<longleftrightarrow> c \<notin> set s"
  by (induction s) (auto split: option.splits)

lemma LastIndexByte_append_no:
  "c \<notin> set t \<Longrightarrow> LastIndexByte (s @ c # t) c = Some (length s)"
  by (induction s) (auto simp: LastIndexByte_None split: option.splits)

lemma rev_dropWhile_rev_append:
  "\<not> isSpace c \<Longrightarrow> rev (dropWhile isSpace (rev (s @ [c]))) = s @ [c]"
  by simp

section \<open>Package strconv and fmt\<close>

definition digitVal :: "char \<Rightarrow> nat option" where
  "digitVal c = (let n = (of_char c :: nat) in
     if 48 \<le> n \<and> n \<le> 57 then Some (n - 48)
     else if 97 \<le> n \<and> n \<le> 122 then Some (n - 87)
     else if 65 \<le> n \<and> n \<le> 90 then Some (n - 55)
     else None)"

text \<open>
  A parse is a value, a syntax error, or a range error (with its sign: \<open>Atoi\<close> returns the
  nearest representable value together with the error).
\<close>

datatype 'a parse = POk 'a | PSyntax | PRange bool

fun parseU :: "nat \<Rightarrow> nat \<Rightarrow> nat \<Rightarrow> string \<Rightarrow> nat parse" where
  "parseU b lim acc [] = POk acc"
| "parseU b lim acc (c # cs) = (case digitVal c of
       None \<Rightarrow> PSyntax
     | Some d \<Rightarrow> if b \<le> d then PSyntax
               else if lim < acc * b + d then PRange False
               else parseU b lim (acc * b + d) cs)"

definition signOf :: "string \<Rightarrow> bool \<times> string" where
  "signOf s = (case s of
       [] \<Rightarrow> (False, [])
     | c # t \<Rightarrow> if c = CHR ''+'' then (False, t) else if c = CHR ''-'' then (True, t)
               else (False, s))"

definition ParseInt :: "nat \<Rightarrow> nat \<Rightarrow> string \<Rightarrow> int parse" where
  "ParseInt base bits s = (let (neg, t) = signOf s in
     if t = [] then PSyntax
     else (case parseU base (2 ^ bits - 1) 0 t of
         PSyntax \<Rightarrow> PSyntax
       | PRange _ \<Rightarrow> PRange neg
       | POk n \<Rightarrow> if \<not> neg \<and> 2 ^ (bits - 1) \<le> n then PRange False
                 else if neg \<and> 2 ^ (bits - 1) < n then PRange True
                 else POk (if neg then - int n else int n)))"

definition Atoi :: "string \<Rightarrow> int parse" where
  "Atoi = ParseInt 10 64"

text \<open>The value Go returns beside the error, for a caller that ignores the error.\<close>

definition parseValue :: "nat \<Rightarrow> int parse \<Rightarrow> int" where
  "parseValue bits r = (case r of
       POk n \<Rightarrow> n
     | PSyntax \<Rightarrow> 0
     | PRange neg \<Rightarrow> if neg then - (2 ^ (bits - 1)) else 2 ^ (bits - 1) - 1)"

lemma ParseInt_POk:
  assumes "ParseInt base bits s = POk n"
  shows "(\<exists>k. n = - int k \<and> k \<le> 2 ^ (bits - 1)) \<or> (\<exists>k. n = int k \<and> k < 2 ^ (bits - 1))"
  using assms
  by (auto simp: ParseInt_def Let_def split_beta not_le not_less simp del: One_nat_def
      split: parse.splits if_splits)

lemma ParseInt_range:
  assumes "ParseInt base bits s = POk n"
  shows "- (2 ^ (bits - 1)) \<le> n \<and> n < 2 ^ (bits - 1)"
  using ParseInt_POk [OF assms]
proof (elim disjE exE conjE)
  fix k assume n: "n = - int k" and "k \<le> 2 ^ (bits - 1)"
  then have "int k \<le> 2 ^ (bits - 1)"
    by (metis of_nat_le_iff of_nat_numeral of_nat_power)
  moreover have "(0::int) < 2 ^ (bits - 1)" by simp
  ultimately show ?thesis unfolding n by linarith
next
  fix k assume n: "n = int k" and "k < 2 ^ (bits - 1)"
  then have "int k < 2 ^ (bits - 1)"
    by (metis of_nat_less_iff of_nat_numeral of_nat_power)
  moreover have "(0::int) < 2 ^ (bits - 1)" by simp
  ultimately show ?thesis unfolding n by linarith
qed

definition digitChar :: "nat \<Rightarrow> char" where
  "digitChar d = (if d < 10 then char_of (48 + d) else char_of (55 + d))"

text \<open>Digits of \<open>n\<close> in base \<open>b\<close>, upper case, at least one; \<open>%d\<close> is base 10 and \<open>%X\<close> base 16.\<close>

fun digitsIn :: "nat \<Rightarrow> nat \<Rightarrow> string" where
  "digitsIn b n = (if n < b \<or> b < 2 then [digitChar (if b < 2 then 0 else n)]
     else digitsIn b (n div b) @ [digitChar (n mod b)])"

declare digitsIn.simps [simp del]

definition fmtNat :: "nat \<Rightarrow> string" where
  "fmtNat n = digitsIn 10 n"

definition fmtInt :: "int \<Rightarrow> string" where
  "fmtInt i = (if i < 0 then CHR ''-'' # fmtNat (nat (- i)) else fmtNat (nat i))"

text \<open>\<open>%04X\<close>: at least four digits; a value over \<open>0xFFFF\<close> takes more.\<close>

definition fmtX4 :: "nat \<Rightarrow> string" where
  "fmtX4 n = (let d = digitsIn 16 n in replicate (4 - length d) CHR ''0'' @ d)"

lemma digitVal_digitChar: "d < 36 \<Longrightarrow> digitVal (digitChar d) = Some d"
  by (auto simp: digitVal_def digitChar_def Let_def)

lemma digitVal_zero [simp]: "digitVal CHR ''0'' = Some 0"
  by (simp add: digitVal_def)

lemma parseU_append:
  "parseU b lim acc (s @ t) = (case parseU b lim acc s of POk n \<Rightarrow> parseU b lim n t | e \<Rightarrow> e)"
  by (induction s arbitrary: acc) (auto split: option.splits parse.splits)

lemma parseU_digitsIn:
  assumes b: "2 \<le> b" "b \<le> 36" and "n \<le> lim"
  shows "parseU b lim 0 (digitsIn b n) = POk n"
  using assms(3)
proof (induction n rule: less_induct)
  case (less n)
  show ?case
  proof (cases "n < b")
    case True
    then show ?thesis
      using b less.prems by (subst digitsIn.simps) (auto simp: digitVal_digitChar)
  next
    case False
    then have lt: "n div b < n" and nb: "\<not> (n < b \<or> b < 2)"
      using b by (auto simp: div_less_dividend)
    then have IH: "parseU b lim 0 (digitsIn b (n div b)) = POk (n div b)"
      using less by simp
    have r: "n mod b < b" and "n mod b < 36"
      using b by (auto intro: less_le_trans [OF mod_less_divisor])
    then show ?thesis
      using nb IH less.prems \<open>n mod b < 36\<close>
      by (subst digitsIn.simps) (simp add: parseU_append digitVal_digitChar not_le r)
  qed
qed

end
