(* ===== verification/GoStatus.thy ===== *)
theory GoStatus
  imports GoLib
begin

text \<open>
  Errors as values. A Go \<open>error\<close> is \<open>goerr option\<close>, \<open>None\<close> for \<open>nil\<close>. A gRPC
  status error carries a code and a message; every other error of the source is a constructor of
  its own when some code tests for it (\<open>errors.Is\<close>, \<open>errors.As\<close>) and \<open>Plain\<close> when it is
  only ever printed. The \<open>errors.New\<close> variables of the device source are \<open>Sentinel\<close>s, and
  \<open>Wrapf e m\<close> is \<open>fmt.Errorf\<close> with \<open>%w\<close> on \<open>e\<close> and the whole text \<open>m\<close>.
  Two are no error values: \<open>Panic\<close> is the end of the process, which every caller that gets it hands
  on at once, and \<open>OutOfTurns\<close> the end of a loop's fuel.
\<close>

datatype code = OK | Canceled | Unknown | InvalidArgument | DeadlineExceeded | NotFound
  | AlreadyExists | PermissionDenied | ResourceExhausted | FailedPrecondition | Aborted
  | OutOfRange | Unimplemented | Internal | Unavailable | DataLoss | Unauthenticated

datatype sentinel = ErrRadioHung | ErrUnsafeReboot | ErrNotAssociated | ErrOtherSSID | ErrNotValidated
  | ErrNoRoute

datatype goerr =
    EOF
  | UnexpectedEOF
  | Status code bytes
  | Plain bytes
  | CtxErr bytes
  | SessionDown
  | UnknownLock
  | NotInLock bytes
  | UnknownDevice
  | RelayRefused goerr
  | Joined "goerr list"
  | Sentinel sentinel
  | Wrapf goerr bytes
  | Panic
  | OutOfTurns

fun codeName :: "code \<Rightarrow> bytes" where
  "codeName OK = ''OK''"
| "codeName Canceled = ''Canceled''"
| "codeName Unknown = ''Unknown''"
| "codeName InvalidArgument = ''InvalidArgument''"
| "codeName DeadlineExceeded = ''DeadlineExceeded''"
| "codeName NotFound = ''NotFound''"
| "codeName AlreadyExists = ''AlreadyExists''"
| "codeName PermissionDenied = ''PermissionDenied''"
| "codeName ResourceExhausted = ''ResourceExhausted''"
| "codeName FailedPrecondition = ''FailedPrecondition''"
| "codeName Aborted = ''Aborted''"
| "codeName OutOfRange = ''OutOfRange''"
| "codeName Unimplemented = ''Unimplemented''"
| "codeName Internal = ''Internal''"
| "codeName Unavailable = ''Unavailable''"
| "codeName DataLoss = ''DataLoss''"
| "codeName Unauthenticated = ''Unauthenticated''"

fun sentinelText :: "sentinel \<Rightarrow> bytes" where
  "sentinelText ErrRadioHung = ''did not return''"
| "sentinelText ErrUnsafeReboot = ''unsafe to reboot''"
| "sentinelText ErrNotAssociated = ''not associated to any network''"
| "sentinelText ErrOtherSSID = ''associated to''"
| "sentinelText ErrNotValidated = ''connected but not VALIDATED''"
| "sentinelText ErrNoRoute = ''cannot reach''"

text \<open>\<open>err.Error()\<close>.\<close>

fun errorText :: "goerr \<Rightarrow> bytes" where
  "errorText EOF = ''EOF''"
| "errorText UnexpectedEOF = ''unexpected EOF''"
| "errorText (Status c m) = ''rpc error: code = '' @ codeName c @ '' desc = '' @ m"
| "errorText (Plain m) = m"
| "errorText (CtxErr m) = m"
| "errorText SessionDown = ''orchestrator session is down''"
| "errorText UnknownLock = ''unknown lock_id''"
| "errorText (NotInLock s) = ''serial is not part of this lock: '' @ s"
| "errorText UnknownDevice = ''unknown device''"
| "errorText (RelayRefused e) = errorText e"
| "errorText (Joined es) = Join (map errorText es) [CHR 0x0A]"
| "errorText (Sentinel s) = sentinelText s"
| "errorText (Wrapf e m) = m"
| "errorText Panic = ''panic''"
| "errorText OutOfTurns = ''out of turns''"

text \<open>
  \<open>status.FromError\<close> on a non-nil error: the status it is, or wraps (then the message is the
  whole error text), or none.
\<close>

fun firstSome :: "'a option list \<Rightarrow> 'a option" where
  "firstSome [] = None"
| "firstSome (x # xs) = (case x of Some y \<Rightarrow> Some y | None \<Rightarrow> firstSome xs)"

fun fromError :: "goerr \<Rightarrow> (code \<times> bytes) option" where
  "fromError (Status c m) = Some (c, m)"
| "fromError (RelayRefused e) = map_option (\<lambda>(c, m). (c, errorText e)) (fromError e)"
| "fromError (Joined es) =
     map_option (\<lambda>(c, m). (c, errorText (Joined es))) (firstSome (map fromError es))"
| "fromError (Wrapf e m) = map_option (\<lambda>(c, _). (c, m)) (fromError e)"
| "fromError _ = None"

text \<open>\<open>errors.Is(err, s)\<close> on a non-nil error.\<close>

fun isSentinel :: "goerr \<Rightarrow> sentinel \<Rightarrow> bool" where
  "isSentinel (Sentinel t) s = (t = s)"
| "isSentinel (Wrapf e m) s = isSentinel e s"
| "isSentinel (RelayRefused e) s = isSentinel e s"
| "isSentinel (Joined es) s = list_ex (\<lambda>e. isSentinel e s) es"
| "isSentinel _ s = False"

definition errIs :: "goerr option \<Rightarrow> sentinel \<Rightarrow> bool" where
  "errIs err s = (case err of None \<Rightarrow> False | Some e \<Rightarrow> isSentinel e s)"

definition statusCode :: "goerr option \<Rightarrow> code" where
  "statusCode err = (case err of None \<Rightarrow> OK
     | Some e \<Rightarrow> (case fromError e of Some (c, _) \<Rightarrow> c | None \<Rightarrow> Unknown))"

text \<open>\<open>status.Convert(err).Message()\<close> on a non-nil error.\<close>

definition convertMessage :: "goerr \<Rightarrow> bytes" where
  "convertMessage e = (case fromError e of Some (_, m) \<Rightarrow> m | None \<Rightarrow> errorText e)"

lemma statusCode_simps [simp]:
  "statusCode None = OK"
  "statusCode (Some (Status c m)) = c"
  "statusCode (Some (Plain m)) = Unknown"
  "statusCode (Some SessionDown) = Unknown"
  "statusCode (Some EOF) = Unknown"
  by (simp_all add: statusCode_def)

end
