(* ===== verification/AdbProtocol.thy ===== *)
theory AdbProtocol
  imports GoStatus
begin

text \<open>
  The ADB smart socket codec: \<open>internal/proxy/adb_protocol.go\<close>, and the client half the
  device source uses towards the real adb server, \<open>sendAdbLtv\<close> and \<open>readAdbOkay\<close> of
  \<open>internal/devicesource/server.go\<close>.

  A reader is the bytes that are still to come before the peer closes; an operation returns its
  result and what is left. A writer returns the bytes of its single \<open>Write\<close> call, or the error
  it returns before writing anything.
\<close>

section \<open>Reading\<close>

text \<open>
  \<open>io.ReadFull\<close>: all \<open>n\<close> bytes, or \<open>EOF\<close> when none came and \<open>UnexpectedEOF\<close> when
  some did.
\<close>

definition ReadFull :: "nat \<Rightarrow> bytes \<Rightarrow> (goerr + bytes) \<times> bytes" where
  "ReadFull n r = (if n \<le> length r then (Inr (take n r), drop n r)
     else (Inl (if r = [] then EOF else UnexpectedEOF), []))"

definition ReadRequest :: "bytes \<Rightarrow> (goerr + bytes) \<times> bytes" where
  "ReadRequest r = (case ReadFull 4 r of
       (Inl e, r1) \<Rightarrow> (Inl e, r1)
     | (Inr lengthBytes, r1) \<Rightarrow> (case ParseInt 16 32 lengthBytes of
           POk len \<Rightarrow>
             if len < 0 \<or> 2 ^ 20 < len
             then (Inl (Plain (''request length out of range: '' @ fmtInt len)), r1)
             else if len = 0 then (Inr [], r1)
             else ReadFull (nat len) r1
         | _ \<Rightarrow> (Inl (Plain (''invalid length hex: '' @ lengthBytes)), r1)))"

section \<open>Writing\<close>

definition WriteOkay :: bytes where
  "WriteOkay = ''OKAY''"

definition WriteOkayWithPayload :: "bytes \<Rightarrow> goerr + bytes" where
  "WriteOkayWithPayload payload =
     (if 65535 < length payload
      then Inl (Plain (''payload too large for ADB framing: '' @ fmtNat (length payload)
             @ '' bytes (max 65535)''))
      else Inr (''OKAY'' @ fmtX4 (length payload) @ payload))"

definition WriteFail :: "bytes \<Rightarrow> goerr + bytes" where
  "WriteFail message =
     (if 65535 < length message
      then Inl (Plain (''error message too large for ADB framing: '' @ fmtNat (length message)
             @ '' bytes (max 65535)''))
      else Inr (''FAIL'' @ fmtX4 (length message) @ message))"

text \<open>\<open>binary.LittleEndian.PutUint32\<close>, as four bytes.\<close>

definition PutUint32 :: "32 word \<Rightarrow> bytes" where
  "PutUint32 w = map (\<lambda>i. char_of (unat w div 256 ^ i mod 256)) [0, 1, 2, 3]"

definition Uint32 :: "bytes \<Rightarrow> 32 word" where
  "Uint32 b = of_nat (\<Sum>i \<leftarrow> [0, 1, 2, 3]. of_char (b ! i) * 256 ^ i)"

definition shellV2Stdout :: char where "shellV2Stdout = CHR 0x01"
definition shellV2Stderr :: char where "shellV2Stderr = CHR 0x02"
definition shellV2Exit :: char where "shellV2Exit = CHR 0x03"

definition WriteShellV2Packet :: "char \<Rightarrow> bytes \<Rightarrow> bytes" where
  "WriteShellV2Packet i data = (i # PutUint32 (of_nat (length data))) @ data"

definition FormatDeviceLine :: "bytes \<Rightarrow> bytes" where
  "FormatDeviceLine serial = serial @ [CHR 0x09] @ ''device'' @ [CHR 0x0A]"

definition FormatDeviceLineLong :: "bytes \<Rightarrow> bytes \<Rightarrow> bytes \<Rightarrow> bytes \<Rightarrow> int \<Rightarrow> bytes" where
  "FormatDeviceLineLong serial product model device transportID =
     serial @ [CHR 0x09] @ ''device product:'' @ product @ '' model:'' @ model @ '' device:''
       @ device @ '' transport_id:'' @ fmtInt transportID @ [CHR 0x0A]"

section \<open>The device source's half\<close>

definition sendAdbLtv :: "bytes \<Rightarrow> bytes" where
  "sendAdbLtv command = fmtX4 (length command) @ command"

text \<open>
  \<open>readAdbOkay\<close> ends in one of three ways: \<open>nil\<close>, an error, or the run-time panic of
  \<open>make([]byte, length)\<close> on a negative length.
\<close>

datatype okay_result = OkayNil | OkayErr goerr | OkayPanic

definition readAdbOkay :: "bytes \<Rightarrow> okay_result" where
  "readAdbOkay r = (case ReadFull 4 r of
       (Inl _, _) \<Rightarrow> OkayErr (Status Internal ''ADB server closed connection'')
     | (Inr resp, r1) \<Rightarrow>
         if resp = ''OKAY'' then OkayNil
         else (case ReadFull 4 r1 of
             (Inl _, _) \<Rightarrow> OkayErr (Status Internal (''ADB transport failed: '' @ resp))
           | (Inr lenBuf, r2) \<Rightarrow> (case ParseInt 16 32 lenBuf of
                 POk len \<Rightarrow>
                   if len < 0 then OkayPanic
                   else OkayErr (Status Internal (''ADB transport failed: '' @ resp @ '': ''
                     @ take (nat len) r2 @ replicate (nat len - length r2) CHR 0x00))
               | _ \<Rightarrow> OkayErr (Status Internal (''ADB transport failed: '' @ resp)))))"

section \<open>Lengths in hex\<close>

lemma length_digitsIn_le:
  "2 \<le> b \<Longrightarrow> n < b ^ Suc k \<Longrightarrow> length (digitsIn b n) \<le> Suc k"
proof (induction k arbitrary: n)
  case 0
  then show ?case by (subst digitsIn.simps) simp
next
  case (Suc k)
  show ?case
  proof (cases "n < b")
    case True
    then show ?thesis by (subst digitsIn.simps) simp
  next
    case False
    have "n div b < b ^ Suc k"
      using Suc.prems by (simp add: less_mult_imp_div_less mult.commute)
    then have "length (digitsIn b (n div b)) \<le> Suc k"
      using Suc by blast
    then show ?thesis
      using False Suc.prems by (subst digitsIn.simps) simp
  qed
qed

lemma length_fmtX4 [simp]: "n \<le> 65535 \<Longrightarrow> length (fmtX4 n) = 4"
  using length_digitsIn_le [of 16 n 3] by (simp add: fmtX4_def Let_def)

lemma parseU_zeros: "parseU b lim 0 (replicate k CHR ''0'' @ s) = parseU b lim 0 s" if "0 < b"
  using that by (induction k) auto

lemma parseU_fmtX4: "n \<le> lim \<Longrightarrow> parseU 16 lim 0 (fmtX4 n) = POk n"
  by (simp add: fmtX4_def Let_def parseU_zeros parseU_digitsIn)

lemma digitVal_sign: "digitVal CHR ''+'' = None" "digitVal CHR ''-'' = None"
  by (simp_all add: digitVal_def)

lemma signOf_digits: "parseU b lim acc s = POk n \<Longrightarrow> signOf s = (False, s)"
  by (cases s) (auto simp: signOf_def digitVal_sign)

lemma ParseInt_unsigned:
  assumes "parseU base (2 ^ bits - 1) 0 s = POk n" and "s \<noteq> []" and "n < 2 ^ (bits - 1)"
  shows "ParseInt base bits s = POk (int n)"
  using assms signOf_digits [OF assms(1)] by (simp add: ParseInt_def not_le)

lemma fmtX4_not_Nil [simp]: "fmtX4 n \<noteq> []"
  by (subst fmtX4_def, subst digitsIn.simps) (simp add: Let_def)

lemma ParseInt_fmtX4 [simp]: "n < 2 ^ 31 \<Longrightarrow> ParseInt 16 32 (fmtX4 n) = POk (int n)"
  by (rule ParseInt_unsigned) (auto intro: parseU_fmtX4)

text \<open>A four-digit length can only be small: the \<open>1<<20\<close> bound is never what refuses it.\<close>

lemma parseU_bound: "parseU b lim acc s = POk n \<Longrightarrow> n < (acc + 1) * b ^ length s"
proof (induction s arbitrary: acc)
  case Nil
  then show ?case by simp
next
  case (Cons c s)
  then obtain d where d: "d < b" and "parseU b lim (acc * b + d) s = POk n"
    by (auto simp: not_le split: option.splits if_splits)
  then have "n < (acc * b + d + 1) * b ^ length s"
    using Cons.IH by blast
  also have "\<dots> \<le> ((acc + 1) * b) * b ^ length s"
    using d by (intro mult_right_mono) (simp_all add: algebra_simps)
  finally show ?case by (simp add: algebra_simps)
qed

lemma length_signOf: "length (snd (signOf s)) \<le> length s"
  by (cases s) (auto simp: signOf_def)

lemma ParseInt_short:
  assumes "ParseInt base bits s = POk n" and "1 < base"
  shows "n < int (base ^ length s)"
proof -
  obtain neg t where st: "signOf s = (neg, t)" by fastforce
  have n: "\<exists>k. parseU base (2 ^ bits - 1) 0 t = POk k \<and> n \<le> int k"
    using assms(1) st by (auto simp: ParseInt_def split: parse.splits if_splits)
  then obtain k where k: "parseU base (2 ^ bits - 1) 0 t = POk k" and "n \<le> int k"
    by blast
  have "k < base ^ length t"
    using parseU_bound [OF k] by simp
  also have "\<dots> \<le> base ^ length s"
    using assms(2) length_signOf [of s] st by (intro power_increasing) auto
  finally show ?thesis
    using \<open>n \<le> int k\<close> by linarith
qed

section \<open>What the codec promises\<close>

lemma ReadFull_append: "length x = n \<Longrightarrow> ReadFull n (x @ r) = (Inr x, r)"
  by (simp add: ReadFull_def)

lemma ReadFull_Inr: "ReadFull n r = (Inr x, r') \<Longrightarrow> r = x @ r' \<and> length x = n"
  by (auto simp: ReadFull_def split: if_splits)

text \<open>
  A framed request of up to 65535 bytes is read back unchanged, and what follows it on the
  connection is left for the next read.
\<close>

theorem ReadRequest_frame:
  assumes "length s \<le> 65535"
  shows "ReadRequest (sendAdbLtv s @ rest) = (Inr s, rest)"
  using assms
  by (simp add: ReadRequest_def sendAdbLtv_def ReadFull_append)

theorem ReadRequest_frame_witness:
  "length ''host:version'' \<le> 65535 \<and>
   ReadRequest (sendAdbLtv ''host:version'' @ ''0000'') = (Inr ''host:version'', ''0000'')"
  using ReadRequest_frame [of "''host:version''" "''0000''"] by simp

lemma ReadRequest_Inr:
  assumes "ReadRequest r = (Inr s, rest)"
  shows "\<exists>hdr. r = hdr @ s @ rest \<and> length hdr = 4 \<and> length s \<le> 65535"
proof -
  obtain hdr r1 where h: "ReadFull 4 r = (Inr hdr, r1)"
    using assms by (auto simp: ReadRequest_def split: prod.splits sum.splits)
  then have r: "r = hdr @ r1" and l: "length hdr = 4"
    by (auto dest: ReadFull_Inr)
  obtain len where p: "ParseInt 16 32 hdr = POk len"
    using assms h by (auto simp: ReadRequest_def split: parse.splits)
  have len: "len < 65536"
    using ParseInt_short [OF p] l by simp
  show ?thesis
  proof (cases "len = 0")
    case True
    then show ?thesis
      using assms h p r l by (auto simp: ReadRequest_def split: if_splits)
  next
    case False
    then have "ReadFull (nat len) r1 = (Inr s, rest)"
      using assms h p by (auto simp: ReadRequest_def split: if_splits)
    then show ?thesis
      using r l len by (auto dest!: ReadFull_Inr)
  qed
qed

text \<open>
  Whatever header a client sent, signs and odd digits included, a request that was read is at
  most 65535 bytes, is exactly the bytes after a four-byte header, and can be framed again without
  loss: the device source's \<open>sendAdbLtv\<close> of it, which does not check the length, reads back as the
  same request. So the service the proxy reads is the service adbd is asked for.
\<close>

theorem ReadRequest_reframe:
  assumes "ReadRequest r = (Inr s, rest)"
  shows "length s \<le> 65535 \<and> (\<exists>hdr. length hdr = 4 \<and> r = hdr @ s @ rest) \<and>
    ReadRequest (sendAdbLtv s @ rest') = (Inr s, rest')"
  using ReadRequest_Inr [OF assms] ReadRequest_frame [of s rest'] by auto

theorem ReadRequest_reframe_witness:
  "ReadRequest ''+00csync:/sdcardX'' = (Inr ''sync:/sdcard'', ''X'') \<and>
   ReadRequest (sendAdbLtv ''sync:/sdcard'') = (Inr ''sync:/sdcard'', [])"
proof -
  have h: "ReadRequest ''+00csync:/sdcardX'' = (Inr ''sync:/sdcard'', ''X'')"
    by (simp add: ReadRequest_def ReadFull_def ParseInt_def signOf_def digitVal_def)
  show ?thesis using h ReadRequest_reframe [OF h, of "[]"] by simp
qed

text \<open>
  The two reply writers: a payload over 65535 bytes is refused before anything is written, and
  any other reply is the status word followed by a frame that reads back as the payload. A FAIL
  the proxy writes is one the device source's own reply reader turns into its message.
\<close>

theorem replies_decode:
  "(case WriteOkayWithPayload p of
     Inl _ \<Rightarrow> 65535 < length p
   | Inr m \<Rightarrow> take 4 m = ''OKAY'' \<and> ReadRequest (drop 4 m) = (Inr p, []) \<and> readAdbOkay m = OkayNil) \<and>
   (case WriteFail p of
     Inl _ \<Rightarrow> 65535 < length p
   | Inr m \<Rightarrow> ReadRequest (drop 4 m) = (Inr p, []) \<and>
       readAdbOkay m = OkayErr (Status Internal (''ADB transport failed: FAIL: '' @ p)))"
  using ReadRequest_frame [of p "[]"]
  by (simp_all add: WriteOkayWithPayload_def WriteFail_def sendAdbLtv_def readAdbOkay_def
      ReadFull_def)

text \<open>
  The device source's reply reader trusts the length of a refusal: a sign in it makes the
  length negative, and the allocation panics instead of returning an error.
\<close>

theorem readAdbOkay_negative_length_panics:
  "readAdbOkay (''FAIL-00'' @ [d] @ rest) = OkayPanic
     \<longleftrightarrow> (\<exists>v. digitVal d = Some v \<and> 0 < v \<and> v < 16)"
proof -
  have p: "ParseInt 16 32 (''-00'' @ [d]) = (case digitVal d of
      None \<Rightarrow> PSyntax | Some v \<Rightarrow> if 16 \<le> v then PSyntax else POk (- int v))"
    by (simp add: ParseInt_def signOf_def not_le split: option.split)
  have f: "ReadFull 4 (''FAIL-00'' @ [d] @ rest) = (Inr ''FAIL'', ''-00'' @ [d] @ rest)"
    "ReadFull 4 (''-00'' @ [d] @ rest) = (Inr (''-00'' @ [d]), rest)"
    by (simp_all add: ReadFull_def)
  have "readAdbOkay (''FAIL-00'' @ [d] @ rest) = OkayPanic \<longleftrightarrow>
      (\<exists>k. ParseInt 16 32 (''-00'' @ [d]) = POk k \<and> k < 0)"
    unfolding readAdbOkay_def f(1) prod.case sum.case f(2) [simplified]
    by (simp add: f(2) [simplified] split: parse.split)
  then show ?thesis
    unfolding p by (auto split: option.splits)
qed

end
