(* ===== verification/Logging.thy ===== *)
theory Logging
  imports GoLib
begin

text \<open>
  Package \<open>internal/logging\<close>: the redaction of Wi-Fi passphrases (\<open>redact.go\<close>) and the bounded
  ring of recent log lines (\<open>recent.go\<close>). The ring is tied to its contract, "the last \<open>max\<close>
  entries", by the locale \<open>bounded_buffer\<close>.
\<close>

section \<open>Redaction\<close>

text \<open>
  The regular expression \<open>(add-suggestion|connect-network|add-network)\b.*\<close> matches at a
  position where one of the subcommands stands and no word character follows; it then takes the
  rest of the line.
\<close>

definition secretCommands :: "bytes list" where
  "secretCommands = [''add-suggestion'', ''connect-network'', ''add-network'']"

definition isWordChar :: "char \<Rightarrow> bool" where
  "isWordChar c = (let n = (of_char c :: nat) in
     48 \<le> n \<and> n \<le> 57 \<or> 65 \<le> n \<and> n \<le> 90 \<or> n = 95 \<or> 97 \<le> n \<and> n \<le> 122)"

definition wordBoundary :: "bytes \<Rightarrow> bool" where
  "wordBoundary s = (case s of [] \<Rightarrow> True | c # _ \<Rightarrow> \<not> isWordChar c)"

definition secretCommand :: "bytes \<Rightarrow> bytes option" where
  "secretCommand s = find (\<lambda>k. HasPrefix s k \<and> wordBoundary (drop (length k) s)) secretCommands"

definition toNewline :: "bytes \<Rightarrow> bytes" where
  "toNewline s = dropWhile (\<lambda>c. c \<noteq> CHR 0x0A) s"

lemma secretCommands_not_Nil: "k \<in> set secretCommands \<Longrightarrow> k \<noteq> []"
  by (auto simp: secretCommands_def)

lemma secretCommands_cases:
  assumes "k \<in> set secretCommands"
  obtains "k = ''add-suggestion''" | "k = ''connect-network''" | "k = ''add-network''"
  using assms by (auto simp: secretCommands_def)

lemma find_SomeD: "find P xs = Some x \<Longrightarrow> x \<in> set xs \<and> P x"
  by (auto simp: find_Some_iff)

lemma secretCommand_Some:
  assumes "secretCommand s = Some k"
  shows "k \<in> set secretCommands" and "HasPrefix s k" and "wordBoundary (drop (length k) s)"
    and "k \<noteq> []"
  using find_SomeD [OF assms [unfolded secretCommand_def]] secretCommands_not_Nil by auto

lemma secretCommand_None:
  "secretCommand s = None \<longleftrightarrow>
     (\<forall>k \<in> set secretCommands. \<not> (HasPrefix s k \<and> wordBoundary (drop (length k) s)))"
  by (auto simp: secretCommand_def find_None_iff)

lemma length_toNewline: "length (toNewline s) \<le> length s"
  by (simp add: toNewline_def length_dropWhile_le)

function (sequential) RedactSecrets :: "bytes \<Rightarrow> bytes" where
  "RedactSecrets [] = []"
| "RedactSecrets (c # s) = (case secretCommand (c # s) of
       Some k \<Rightarrow> k @ '' <redacted>'' @ RedactSecrets (toNewline (drop (length k) (c # s)))
     | None \<Rightarrow> c # RedactSecrets s)"
  by pat_completeness auto
termination
proof (relation "measure length")
  fix c s k
  assume "secretCommand (c # s) = Some k"
  then have "k \<noteq> []" by (rule secretCommand_Some)
  moreover have "length (toNewline (drop (length k) (c # s))) \<le> length (c # s) - length k"
    using length_toNewline [of "drop (length k) (c # s)"] by simp
  ultimately show "(toNewline (drop (length k) (c # s)), c # s) \<in> measure length"
    by (cases k) auto
qed auto

declare RedactSecrets.simps(2) [simp del]

lemma RedactSecrets_Some:
  "secretCommand s = Some k \<Longrightarrow>
     RedactSecrets s = k @ '' <redacted>'' @ RedactSecrets (toNewline (drop (length k) s))"
  using secretCommand_Some(2,4) [of s k]
  by (cases s) (auto simp: RedactSecrets.simps(2) HasPrefix_def)

lemma RedactSecrets_None:
  "secretCommand (c # s) = None \<Longrightarrow> RedactSecrets (c # s) = c # RedactSecrets s"
  by (simp add: RedactSecrets.simps(2))

text \<open>No subcommand occurs inside another, so a match never swallows part of a later one.\<close>

lemma secretCommands_no_overlap:
  assumes "k \<in> set secretCommands" and "k' \<in> set secretCommands"
    and "HasPrefix (u @ k @ z) k'"
  shows "length k' \<le> length (u @ k)"
proof (rule ccontr)
  assume "\<not> ?thesis"
  moreover obtain t where "(u @ k) @ z = k' @ t"
    using HasPrefixD [OF assms(3)] by auto
  ultimately obtain z' where z': "k' = u @ k @ z'" "z' \<noteq> []"
    by (auto simp: append_eq_append_conv2)
  then have "Contains k' k"
    using Contains_append by simp
  then have "k' = k"
    using assms(1,2) by (auto simp: secretCommands_def Contains_def HasPrefix_def)
  then have "length k = length u + length k + length z'"
    using z' by (metis length_append add.assoc)
  then show False using z'(2) by simp
qed

lemma newline_not_secret: "k \<in> set secretCommands \<Longrightarrow> CHR 0x0A \<notin> set k"
  by (auto simp: secretCommands_def)

lemma toNewline_no_newline: "CHR 0x0A \<notin> set s \<Longrightarrow> toNewline (s @ t) = toNewline t"
  by (simp add: toNewline_def dropWhile_append)

lemma toNewline_newline: "CHR 0x0A \<in> set s \<Longrightarrow> toNewline (s @ t) = toNewline s @ t"
  by (simp add: toNewline_def dropWhile_append1)

lemma secretCommand_common:
  assumes k: "k \<in> set secretCommands"
  shows "secretCommand (u @ k @ c # s1) = secretCommand (u @ k @ c # s2)"
proof -
  have step: "HasPrefix (u @ k @ c # s2) k' \<and> wordBoundary (drop (length k') (u @ k @ c # s2))"
    if k': "k' \<in> set secretCommands"
      and m: "HasPrefix (u @ k @ c # s1) k'" "wordBoundary (drop (length k') (u @ k @ c # s1))"
    for k' s1 s2
  proof -
    have le: "length k' \<le> length (u @ k)"
      by (rule secretCommands_no_overlap [OF k k' m(1)])
    then have d: "drop (length k') (u @ k @ c # s) = drop (length k') (u @ k) @ c # s" for s
      by (metis append.assoc diff_is_0_eq drop0 drop_append)
    have t: "take (length k') (u @ k @ c # s) = take (length k') (u @ k)" for s
      using le by (metis append.assoc append_Nil2 diff_is_0_eq take0 take_append)
    show ?thesis
      using m unfolding HasPrefix_def t d wordBoundary_def
      by (simp split: list.splits) (metis append_Cons append_Nil list.inject neq_Nil_conv)
  qed
  show ?thesis
    unfolding secretCommand_def
  proof (rule find_cong [OF refl])
    fix x assume "x \<in> set secretCommands"
    then show "(HasPrefix (u @ k @ c # s1) x \<and> wordBoundary (drop (length x) (u @ k @ c # s1)))
        = (HasPrefix (u @ k @ c # s2) x \<and> wordBoundary (drop (length x) (u @ k @ c # s2)))"
      using step [of x s1 s2] step [of x s2 s1] by blast
  qed
qed

text \<open>When a subcommand is found, what is left to redact does not depend on the secret either.\<close>

lemma rest_hides:
  fixes u k c later
  defines "x \<equiv> \<lambda>s. u @ k @ c # s @ later"
  assumes k: "k \<in> set secretCommands"
    and nl: "CHR 0x0A \<notin> set (c # secret1)" "CHR 0x0A \<notin> set (c # secret2)"
    and found: "secretCommand (x secret1) = Some k'"
    and shorter: "\<And>w. length w < length u \<Longrightarrow>
      RedactSecrets (w @ k @ c # secret1 @ later) = RedactSecrets (w @ k @ c # secret2 @ later)"
  shows "RedactSecrets (toNewline (drop (length k') (x secret1))) = RedactSecrets (toNewline (drop (length k') (x secret2)))"
proof -
  note k' = secretCommand_Some [OF found [unfolded x_def]]
  then have le: "length k' \<le> length (u @ k)"
    using secretCommands_no_overlap [OF k k'(1,2)] by blast
  then have d: "drop (length k') (x s) = drop (length k') (u @ k) @ c # s @ later" for s
    unfolding x_def by (metis append.assoc diff_is_0_eq drop0 drop_append)
  show ?thesis
  proof (cases "CHR 0x0A \<in> set (drop (length k') u)")
    case False
    then have nn: "CHR 0x0A \<notin> set (drop (length k') (u @ k))"
      using newline_not_secret [OF k] by (auto dest: in_set_dropD)
    have "toNewline (c # s @ later) = toNewline later" if "CHR 0x0A \<notin> set (c # s)" for s
      using toNewline_no_newline [OF that, of later] by simp
    then show ?thesis
      unfolding d toNewline_no_newline [OF nn] using nl by simp
  next
    case True
    then have lu: "length k' < length u"
      by (metis drop_all empty_iff list.set(1) not_le)
    define w where "w = toNewline (drop (length k') u)"
    have tn: "toNewline (drop (length k') u @ t) = w @ t" for t
      unfolding w_def by (rule toNewline_newline [OF True])
    have "length w \<le> length u - length k'"
      unfolding w_def using length_toNewline [of "drop (length k') u"] by simp
    then have "length w < length u"
      using k'(4) lu by (cases k') auto
    then have "RedactSecrets (w @ k @ c # secret1 @ later) = RedactSecrets (w @ k @ c # secret2 @ later)"
      by (rule shorter)
    then show ?thesis
      using lu by (simp add: tn x_def)
  qed
qed

text \<open>
  C36. What follows a passphrase-bearing subcommand on its line cannot be read off the redacted
  text: two lines that differ only there are redacted to the same text, wherever the subcommand
  stands and whatever comes on later lines.
\<close>

theorem RedactSecrets_hides:
  assumes "k \<in> set secretCommands" and "\<not> isWordChar c"
    and "CHR 0x0A \<notin> set (c # secret1)" and "CHR 0x0A \<notin> set (c # secret2)"
    and "later = [] \<or> hd later = CHR 0x0A"
  shows "RedactSecrets (u @ k @ c # secret1 @ later) = RedactSecrets (u @ k @ c # secret2 @ later)"
proof (induction "length u" arbitrary: u rule: less_induct)
  case less
  let ?x = "\<lambda>s. u @ k @ c # s @ later"
  have same: "secretCommand (?x secret1) = secretCommand (?x secret2)"
    by (rule secretCommand_common [OF assms(1)])
  show ?case
  proof (cases "secretCommand (?x secret1)")
    case None
    then have "u \<noteq> []"
      using assms(1,2) secretCommand_None [of "?x secret1"]
      by (auto simp: wordBoundary_def)
    then obtain a u' where u: "u = a # u'" by (cases u) auto
    have "RedactSecrets (u' @ k @ c # secret1 @ later) = RedactSecrets (u' @ k @ c # secret2 @ later)"
      by (rule less.hyps) (simp add: u)
    then show ?thesis
      using None same by (simp add: u RedactSecrets_None)
  next
    case (Some k')
    have "RedactSecrets (toNewline (drop (length k') (?x secret1)))
        = RedactSecrets (toNewline (drop (length k') (?x secret2)))"
      by (rule rest_hides [OF assms(1,3,4) Some less.hyps])
    then show ?thesis
      using RedactSecrets_Some [OF Some] RedactSecrets_Some [OF Some [unfolded same]] by simp
  qed
qed

theorem RedactSecrets_hides_witness:
  "RedactSecrets ''shell:cmd wifi add-suggestion bench wpa2 hunter2''
     = RedactSecrets ''shell:cmd wifi add-suggestion other open''"
  using RedactSecrets_hides [of "''add-suggestion''" "CHR '' ''" "''bench wpa2 hunter2''"
      "''other open''" "[]" "''shell:cmd wifi ''"]
  by (simp add: secretCommands_def isWordChar_def)

text \<open>Text without a subcommand is left alone.\<close>

lemma RedactSecrets_id:
  "(\<And>i k. k \<in> set secretCommands \<Longrightarrow> \<not> HasPrefix (drop i s) k) \<Longrightarrow> RedactSecrets s = s"
proof (induction s)
  case (Cons c s)
  have "secretCommand (c # s) = None"
    using Cons.prems [of _ 0] by (auto simp: secretCommand_None)
  moreover have "RedactSecrets s = s"
    using Cons.prems [of _ "Suc i" for i] by (intro Cons.IH) auto
  ultimately show ?case by (simp add: RedactSecrets.simps(2))
qed simp

text \<open>
  Redaction stops at the end of the line: whatever stands on the next line of the same command
  is kept, so a command whose arguments contain a line break (a quoted SSID with one, say) shows
  its passphrase.
\<close>

theorem RedactSecrets_stops_at_newline:
  assumes "k \<in> set secretCommands"
  shows "RedactSecrets (k @ CHR 0x0A # s) = k @ '' <redacted>'' @ CHR 0x0A # RedactSecrets s"
proof -
  have "secretCommand (k @ CHR 0x0A # s) = Some k"
    using assms
    by (elim secretCommands_cases)
      (simp_all add: secretCommand_def secretCommands_def HasPrefix_def wordBoundary_def isWordChar_def)
  moreover have "secretCommand (CHR 0x0A # s) = None"
    by (auto simp: secretCommand_None secretCommands_def HasPrefix_def)
  ultimately show ?thesis
    by (simp add: RedactSecrets_Some RedactSecrets_None toNewline_def)
qed

theorem RedactSecrets_stops_at_newline_witness:
  "RedactSecrets (''add-suggestion'' @ CHR 0x0A # '' wpa2 hunter2'')
     = ''add-suggestion <redacted>'' @ CHR 0x0A # '' wpa2 hunter2''"
proof -
  have "''add-suggestion'' \<in> set secretCommands" by (simp add: secretCommands_def)
  from RedactSecrets_stops_at_newline [OF this, of "'' wpa2 hunter2''"]
  show ?thesis
    by (simp add: RedactSecrets.simps(2) secretCommand_def secretCommands_def HasPrefix_def)
qed

section \<open>The ring of recent log lines\<close>

text \<open>
  What a bounded buffer promises: once filled it holds the last \<open>cap\<close> entries put into it,
  in order. \<open>contents\<close> reads the stored entries oldest first.
\<close>

locale bounded_buffer =
  fixes cap :: "'r \<Rightarrow> nat"
    and good :: "'r \<Rightarrow> bool"
    and put :: "'r \<Rightarrow> 'a \<Rightarrow> 'r"
    and contents :: "'r \<Rightarrow> 'a list"
  assumes good_put: "good r \<Longrightarrow> good (put r x)"
    and cap_put: "cap (put r x) = cap r"
    and contents_put: "good r \<Longrightarrow> contents (put r x) = lastn (cap r) (contents r @ [x])"
    and contents_bound: "good r \<Longrightarrow> length (contents r) \<le> cap r"
begin

lemma good_puts: "good r \<Longrightarrow> good (foldl put r xs)"
  by (induction xs arbitrary: r) (simp_all add: good_put)

lemma cap_puts: "cap (foldl put r xs) = cap r"
  by (induction xs arbitrary: r) (simp_all add: cap_put)

lemma contents_puts:
  "good r \<Longrightarrow> contents (foldl put r xs) = lastn (cap r) (contents r @ xs)"
proof (induction xs rule: rev_induct)
  case Nil
  then show ?case by (simp add: contents_bound)
next
  case (snoc x xs)
  then show ?case
    by (simp add: good_puts contents_put cap_puts lastn_lastn_append)
qed

lemma contents_puts_short:
  "good r \<Longrightarrow> length (contents r) + length xs \<le> cap r \<Longrightarrow>
     contents (foldl put r xs) = contents r @ xs"
  by (simp add: contents_puts)

end

text \<open>
  The ring overwrites in place: \<open>next\<close> is where the next line goes once \<open>lines\<close> is full.
\<close>

record ring =
  rmax :: nat
  rlines :: "bytes list"
  rnext :: nat

definition recentLines :: nat where
  "recentLines = 500"

definition Recent :: ring where
  "Recent = \<lparr>rmax = recentLines, rlines = [], rnext = 0\<rparr>"

definition ring_put :: "ring \<Rightarrow> bytes \<Rightarrow> ring" where
  "ring_put r line =
     (if length (rlines r) < rmax r then r\<lparr>rlines := rlines r @ [line]\<rparr>
      else r\<lparr>rlines := (rlines r)[rnext r := line], rnext := (rnext r + 1) mod rmax r\<rparr>)"

definition Ring_Write :: "ring \<Rightarrow> bytes \<Rightarrow> ring \<times> nat" where
  "Ring_Write r p =
     (foldl ring_put r (Split (TrimRightByte p (CHR 0x0A)) (CHR 0x0A)), length p)"

definition containsAny :: "bytes \<Rightarrow> bytes list \<Rightarrow> bool" where
  "containsAny s subs = list_ex (\<lambda>sub. sub \<noteq> [] \<and> Contains s sub) subs"

definition Ring_Lines :: "ring \<Rightarrow> bytes list \<Rightarrow> bytes list" where
  "Ring_Lines r match =
     map RedactSecrets
       (filter (\<lambda>line. match = [] \<or> containsAny line match)
         (map (\<lambda>i. rlines r ! ((rnext r + i) mod length (rlines r))) [0..<length (rlines r)]))"

text \<open>The ring as the list of its lines, oldest first.\<close>

definition ring_abs :: "ring \<Rightarrow> bytes list" where
  "ring_abs r = rotate (rnext r) (rlines r)"

definition ring_ok :: "ring \<Rightarrow> bool" where
  "ring_ok r \<longleftrightarrow> 0 < rmax r \<and> length (rlines r) \<le> rmax r \<and> rnext r < rmax r
     \<and> (length (rlines r) < rmax r \<longrightarrow> rnext r = 0)"

lemma ring_abs_nth:
  "map (\<lambda>i. rlines r ! ((rnext r + i) mod length (rlines r))) [0..<length (rlines r)] = ring_abs r"
  by (rule nth_equalityI) (simp_all add: ring_abs_def nth_rotate add.commute)

lemma Ring_Lines_abs:
  "Ring_Lines r match =
     map RedactSecrets (filter (\<lambda>line. match = [] \<or> containsAny line match) (ring_abs r))"
  by (simp add: Ring_Lines_def ring_abs_nth)

lemma ring_overwrite:
  assumes "n < length xs"
  shows "rotate ((n + 1) mod length xs) (xs[n := x]) = tl (rotate n xs) @ [x]"
proof -
  have "rotate ((n + 1) mod length xs) (xs[n := x]) = rotate1 (rotate n (xs[n := x]))"
    by (metis Suc_eq_plus1 length_list_update rotate_Suc rotate_conv_mod)
  also have "rotate n (xs[n := x]) = x # drop (Suc n) xs @ take n xs"
    using assms by (simp add: rotate_drop_take Cons_nth_drop_Suc [symmetric, of n "xs[n := x]"])
  also have "rotate n xs = xs ! n # drop (Suc n) xs @ take n xs"
    using assms by (simp add: rotate_drop_take Cons_nth_drop_Suc [symmetric])
  ultimately show ?thesis by simp
qed

interpretation recent: bounded_buffer rmax ring_ok ring_put ring_abs
proof unfold_locales
  fix r :: ring and x
  assume ok: "ring_ok r"
  show "ring_ok (ring_put r x)"
    using ok by (auto simp: ring_ok_def ring_put_def)
  show "length (ring_abs r) \<le> rmax r"
    using ok by (simp add: ring_ok_def ring_abs_def)
  show "ring_abs (ring_put r x) = lastn (rmax r) (ring_abs r @ [x])"
  proof (cases "length (rlines r) < rmax r")
    case True
    then show ?thesis using ok by (simp add: ring_ok_def ring_put_def ring_abs_def)
  next
    case False
    then have len: "length (rlines r) = rmax r" and "rnext r < length (rlines r)"
      using ok by (auto simp: ring_ok_def)
    then have "ring_abs (ring_put r x) = tl (ring_abs r) @ [x]"
      using ring_overwrite [of "rnext r" "rlines r" x] False
      by (simp add: ring_put_def ring_abs_def)
    also have "\<dots> = lastn (rmax r) (ring_abs r @ [x])"
      using ok len
      by (intro lastn_snoc_full [symmetric]) (auto simp: ring_abs_def ring_ok_def)
    finally show ?thesis .
  qed
qed (simp add: ring_put_def)

text \<open>What the process wrote, entry by entry, as the lines it stands for.\<close>

definition written_lines :: "bytes list \<Rightarrow> bytes list" where
  "written_lines entries =
     concat (map (\<lambda>p. Split (TrimRightByte p (CHR 0x0A)) (CHR 0x0A)) entries)"

lemma Ring_Writes:
  "foldl (\<lambda>r p. fst (Ring_Write r p)) r entries = foldl ring_put r (written_lines entries)"
  by (induction entries arbitrary: r) (simp_all add: Ring_Write_def written_lines_def)

lemma ring_ok_Recent: "ring_ok Recent"
  by (simp add: ring_ok_def Recent_def recentLines_def)

text \<open>
  The excerpt a failure ships is exact: after any sequence of log writes, the lines returned are
  those of the last 500 lines written that match, oldest first, each redacted.
\<close>

theorem Recent_Lines_exact:
  "Ring_Lines (foldl (\<lambda>r p. fst (Ring_Write r p)) Recent entries) match =
     map RedactSecrets (filter (\<lambda>line. match = [] \<or> containsAny line match)
       (lastn 500 (written_lines entries)))"
  unfolding Ring_Lines_abs Ring_Writes
  using recent.contents_puts [OF ring_ok_Recent, of "written_lines entries"]
  by (simp add: Recent_def ring_abs_def recentLines_def)

end
