(* ===== verification/Features.thy ===== *)
theory Features
  imports GoLib
begin

text \<open>
  \<open>internal/proxy/features.go\<close>: the feature list the proxy advertises for a device of a given
  API level. \<open>features\<close> is the list, \<open>FeaturesForSdk\<close> the reply.
\<close>

definition modernSdk :: int where
  "modernSdk = 36"

definition features :: "int \<Rightarrow> bytes list" where
  "features sdk = [''openscreen_mdns'']
     @ (if 24 \<le> sdk then [''shell_v2'', ''cmd''] else [])
     @ (if 26 \<le> sdk then [''stat_v2'', ''ls_v2''] else [])
     @ (if 28 \<le> sdk then [''fixed_push_mkdir''] else [])
     @ (if 29 \<le> sdk then [''apex'', ''fixed_push_symlink_timestamp''] else [])
     @ (if 30 \<le> sdk then [''abb_exec'', ''remount_shell'', ''track_app'', ''sendrecv_v2'',
          ''sendrecv_v2_brotli'', ''sendrecv_v2_lz4'', ''sendrecv_v2_zstd'',
          ''sendrecv_v2_dry_run_send''] else [])"

definition FeaturesForSdk :: "int \<Rightarrow> bytes" where
  "FeaturesForSdk sdk = Join (features sdk) '',''"

lemma features_mono: "a \<le> b \<Longrightarrow> set (features a) \<subseteq> set (features b)"
  unfolding features_def set_append by (intro Un_mono) auto

lemma features_no_comma: "\<forall>f \<in> set (features sdk). CHR '','' \<notin> set f"
  by (auto simp: features_def)

lemma FeaturesForSdk_Split: "Split (FeaturesForSdk sdk) (CHR '','') = features sdk"
  unfolding FeaturesForSdk_def
  by (rule Split_Join) (simp_all add: features_no_comma, simp add: features_def)

lemma features_shell_v2: "''shell_v2'' \<in> set (features sdk) \<longleftrightarrow> 24 \<le> sdk"
  by (simp add: features_def)

text \<open>
  The reply, read as the comma-separated list adb takes it for, has exactly the listed features,
  and no feature is lost as the API level rises. A level of zero, not read yet, gets only the host
  feature, so a client never starts shell v2 against a phone that closes on it.
\<close>

lemma FeaturesForSdk_zero: "FeaturesForSdk 0 = ''openscreen_mdns''"
  by (simp add: FeaturesForSdk_def features_def)

end
