(* ===== verification/Updater.thy ===== *)
theory Updater
  imports GoStatus
begin

text \<open>
  \<open>internal/version/args.go\<close>, the refusal of command-line arguments, and
  \<open>internal/updater/updater.go\<close>, the self-update: the version order (tied to a
  \<open>semver\<close> with the library's \<open>linorder\<close>), the decision to update, the search for the
  binary in the release archive and the atomic replacement of the running binary. What the code
  asks of the outside world (GitHub, the file system) is a field of an environment record.
\<close>

section \<open>Arguments\<close>

datatype arg_output = NoOutput | Stdout bytes | Stderr bytes

definition handleArgs :: "bytes \<Rightarrow> bytes list \<Rightarrow> bytes \<Rightarrow> (int \<times> bool) \<times> arg_output" where
  "handleArgs version args usage = (case args of
       [] \<Rightarrow> ((0, False), NoOutput)
     | a # _ \<Rightarrow>
         if a = ''--version'' \<or> a = ''-v'' then ((0, True), Stdout (version @ [CHR 0x0A]))
         else if a = ''--help'' \<or> a = ''-h'' then ((0, True), Stdout usage)
         else ((2, True), Stderr (''unknown argument: '' @ a @ [CHR 0x0A] @ usage)))"

section \<open>The version order\<close>

datatype semver = Semver (major: int) (minor: int) (patch: int)

instantiation semver :: linorder
begin

fun less_semver :: "semver \<Rightarrow> semver \<Rightarrow> bool" where
  "less_semver (Semver a b c) (Semver a' b' c') \<longleftrightarrow>
     a < a' \<or> a = a' \<and> (b < b' \<or> b = b' \<and> c < c')"

definition less_eq_semver :: "semver \<Rightarrow> semver \<Rightarrow> bool" where
  "less_eq_semver v w \<longleftrightarrow> v = w \<or> v < w"

instance
proof
  fix u v w :: semver
  show "v < w \<longleftrightarrow> v \<le> w \<and> \<not> w \<le> v"
    by (cases v; cases w) (auto simp: less_eq_semver_def)
  show "v \<le> v" by (simp add: less_eq_semver_def)
  show "u \<le> v \<Longrightarrow> v \<le> w \<Longrightarrow> u \<le> w"
    by (cases u; cases v; cases w) (auto simp: less_eq_semver_def)
  show "v \<le> w \<Longrightarrow> w \<le> v \<Longrightarrow> v = w"
    by (cases v; cases w) (auto simp: less_eq_semver_def)
  show "v \<le> w \<or> w \<le> v"
    by (cases v; cases w) (auto simp: less_eq_semver_def)
qed

end

text \<open>\<open>strings.SplitN(s, ".", 3)\<close>: the third piece keeps its separators.\<close>

definition SplitN3 :: "bytes \<Rightarrow> char \<Rightarrow> bytes list" where
  "SplitN3 s c = (case Split s c of
       a # b # d # ds \<Rightarrow> [a, b, Join (d # ds) [c]]
     | ps \<Rightarrow> ps)"

definition parseVersion :: "bytes \<Rightarrow> semver option" where
  "parseVersion s = (case SplitN3 (TrimPrefix s ''v'') (CHR ''.'') of
       [a, b, c] \<Rightarrow> (case (Atoi a, Atoi b, Atoi c) of
           (POk x, POk y, POk z) \<Rightarrow> Some (Semver x y z)
         | _ \<Rightarrow> None)
     | _ \<Rightarrow> None)"

definition isNewer :: "bytes \<Rightarrow> bytes \<Rightarrow> bool" where
  "isNewer latest current = (case (parseVersion latest, parseVersion current) of
       (Some l, Some c) \<Rightarrow>
         if major l \<noteq> major c then major c < major l
         else if minor l \<noteq> minor c then minor c < minor l
         else patch c < patch l
     | _ \<Rightarrow> False)"

lemma isNewer_less:
  "isNewer latest current \<longleftrightarrow> (\<exists>l c. parseVersion latest = Some l \<and> parseVersion current = Some c \<and> c < l)"
proof -
  have "(if major l \<noteq> major c then major c < major l
      else if minor l \<noteq> minor c then minor c < minor l else patch c < patch l) \<longleftrightarrow> c < l" for l c
    by (cases l; cases c) auto
  then show ?thesis
    by (cases "parseVersion latest"; cases "parseVersion current") (simp_all add: isNewer_def)
qed

section \<open>The update\<close>

record update_env =
  ue_version :: bytes
  ue_auto_update :: bytes
  ue_just_updated :: bytes
  ue_latest :: "goerr + bytes"
  ue_executable :: "goerr + bytes"
  ue_symlinks :: "bytes \<Rightarrow> goerr + bytes"
  ue_writable :: "bytes \<Rightarrow> bool"
  ue_download :: "bytes \<Rightarrow> bytes \<Rightarrow> bytes \<Rightarrow> goerr option"
  ue_exec :: "goerr option"

text \<open>
  What the process does next: it goes on (with the flag \<open>Updated\<close> and the value
  \<open>SAIR_JUST_UPDATED\<close> has then), or it execs the new binary with the environment it set. An exec that fails
  (\<open>ue_exec\<close>) is logged, and the process goes on with that environment.
\<close>

datatype update_outcome =
    Continue (updated: bool) (just_updated_env: bytes)
  | Exec (exec_path: bytes) (exec_tag: bytes) (exec_env: bytes)

text \<open>
  \<open>strings.EqualFold(v, "false")\<close>. Folding is Unicode's: besides ASCII case, the long s
  (\<open>C5 BF\<close>) folds to \<open>s\<close>.
\<close>

fun foldCase :: "bytes \<Rightarrow> bytes" where
  "foldCase [] = []"
| "foldCase [c] = [if 65 \<le> (of_char c :: nat) \<and> (of_char c :: nat) \<le> 90 then char_of ((of_char c :: nat) + 32) else c]"
| "foldCase (c # d # s) = (if c = CHR 0xC5 \<and> d = CHR 0xBF then CHR ''s'' # foldCase s
     else (if 65 \<le> (of_char c :: nat) \<and> (of_char c :: nat) \<le> 90 then char_of ((of_char c :: nat) + 32) else c)
       # foldCase (d # s))"

definition CheckAndUpdate :: "update_env \<Rightarrow> bytes \<Rightarrow> update_outcome" where
  "CheckAndUpdate e binaryName = (let go_on = Continue False (ue_just_updated e) in
     if ue_version e = ''dev'' then go_on
     else if foldCase (ue_auto_update e) = ''false'' then go_on
     else if ue_just_updated e = ''1'' then Continue True []
     else (case ue_latest e of
         Inl _ \<Rightarrow> go_on
       | Inr latest \<Rightarrow>
           if \<not> isNewer latest (ue_version e) then go_on
           else (case ue_executable e of
               Inl _ \<Rightarrow> go_on
             | Inr p \<Rightarrow> (case ue_symlinks e p of
                 Inl _ \<Rightarrow> go_on
               | Inr execPath \<Rightarrow>
                   if \<not> ue_writable e execPath then go_on
                   else (case ue_download e latest binaryName execPath of
                       Some _ \<Rightarrow> go_on
                     | None \<Rightarrow> (case ue_exec e of
                         Some _ \<Rightarrow> Continue False ''1''
                       | None \<Rightarrow> Exec execPath latest ''1''))))))"

text \<open>
  The process only replaces itself by a release whose version is strictly greater than its own
  in the semantic-version order, never for a dev build or with updates switched off, and the
  process it becomes does not update again: it clears the marker and reports the update, whatever
  GitHub says then.
\<close>

theorem CheckAndUpdate_once:
  "(case CheckAndUpdate e name of
      Continue _ _ \<Rightarrow> True
    | Exec path tag env \<Rightarrow>
        ue_version e \<noteq> ''dev'' \<and> ue_latest e = Inr tag \<and>
        (\<exists>l c. parseVersion tag = Some l \<and> parseVersion (ue_version e) = Some c \<and> c < l) \<and>
        ue_download e tag name path = None \<and> ue_exec e = None \<and>
        (case CheckAndUpdate (e'\<lparr>ue_just_updated := env, ue_auto_update := ue_auto_update e\<rparr>) name' of
           Continue u m \<Rightarrow> ue_version e' = ''dev'' \<or> u \<and> m = []
         | Exec _ _ _ \<Rightarrow> False))"
  by (auto simp: CheckAndUpdate_def Let_def isNewer_less split: sum.split option.split)

text \<open>A release is never newer than itself, and two releases never replace each other in turn.\<close>

lemma isNewer_asym: "isNewer a b \<Longrightarrow> \<not> isNewer b a"
  by (auto simp: isNewer_less)

lemma isNewer_trans: "isNewer a b \<Longrightarrow> isNewer b c \<Longrightarrow> isNewer a c"
  by (auto simp: isNewer_less)

section \<open>Fetching and replacing the binary\<close>

definition maxBinarySize :: nat where
  "maxBinarySize = 100 * 2 ^ 20"

type_synonym fs = "bytes \<rightharpoonup> bytes \<times> nat"

record replace_env =
  re_temp :: "goerr + bytes"
  re_write :: "goerr option"
  re_written :: nat
  re_chmod :: "goerr option"
  re_sync :: "goerr option"
  re_close :: "goerr option"
  re_rename :: "goerr option"
  re_remove :: "goerr option"

text \<open>
  \<open>atomicReplace\<close> over a file system of contents and modes. The source is the bytes it yields
  and the error it then ends with (\<open>None\<close> for a clean end); the limited copy stops at
  \<open>maxBinarySize\<close> without looking further. The deferred removal runs on every error path; when it fails, which
  nobody is told, the temporary file stays, with what had been written (the first \<open>re_written\<close> bytes where
  writing failed) and the mode it had by then.
\<close>

definition atomicReplace ::
  "replace_env \<Rightarrow> fs \<Rightarrow> bytes \<Rightarrow> bytes \<times> goerr option \<Rightarrow> nat \<Rightarrow> fs \<times> goerr option" where
  "atomicReplace e f target src mode = (case re_temp e of
       Inl er \<Rightarrow> (f, Some (Plain (''create temp: '' @ errorText er)))
     | Inr tmp \<Rightarrow>
         let data = take maxBinarySize (fst src);
             fail = \<lambda>what er d m. (if re_remove e = None then f(tmp := None) else f(tmp \<mapsto> (d, m)),
               Some (Plain (what @ errorText er)));
             copyErr = (case re_write e of Some er \<Rightarrow> Some (er, take (re_written e) data)
               | None \<Rightarrow> if length (fst src) < maxBinarySize then map_option (\<lambda>er. (er, data)) (snd src) else None)
         in (case copyErr of Some (er, d) \<Rightarrow> fail ''write: '' er d 384
         | None \<Rightarrow> (case re_chmod e of Some er \<Rightarrow> fail ''chmod: '' er data 384
         | None \<Rightarrow> (case re_sync e of Some er \<Rightarrow> fail ''fsync: '' er data mode
         | None \<Rightarrow> (case re_close e of Some er \<Rightarrow> fail ''close: '' er data mode
         | None \<Rightarrow> (case re_rename e of Some er \<Rightarrow> fail ''rename: '' er data mode
         | None \<Rightarrow> (f(tmp := None, target := Some (data, mode)), None)))))))"

text \<open>
  The archive is its headers, up to the end or an error of the reader; \<open>base\<close> stands for
  \<open>filepath.Base\<close>.
\<close>

datatype tar_item = TarFile (tar_name: bytes) (tar_regular: bool) (tar_mode: nat) (tar_data: "bytes \<times> goerr option")
  | TarErr goerr

record download_env =
  de_status :: "goerr + nat"
  de_gzip :: "goerr option"
  de_items :: "tar_item list"
  de_base :: "bytes \<Rightarrow> bytes"
  de_replace :: replace_env

fun tarLoop :: "download_env \<Rightarrow> fs \<Rightarrow> bytes \<Rightarrow> bytes \<Rightarrow> tar_item list \<Rightarrow> fs \<times> goerr option" where
  "tarLoop e f name path [] = (f, Some (Plain (''binary '' @ name @ '' not found in archive'')))"
| "tarLoop e f name path (TarErr er # _) = (f, Some (Plain (''tar: '' @ errorText er)))"
| "tarLoop e f name path (TarFile n reg mode d # items) =
     (if de_base e n = name \<and> reg then atomicReplace (de_replace e) f path d mode
      else tarLoop e f name path items)"

definition downloadAndReplace :: "download_env \<Rightarrow> fs \<Rightarrow> bytes \<Rightarrow> bytes \<Rightarrow> fs \<times> goerr option" where
  "downloadAndReplace e f binaryName execPath = (case de_status e of
       Inl er \<Rightarrow> (f, Some er)
     | Inr st \<Rightarrow>
         if st \<noteq> 200 then (f, Some (Plain (''download returned HTTP '' @ fmtNat st)))
         else (case de_gzip e of
             Some er \<Rightarrow> (f, Some (Plain (''gzip: '' @ errorText er)))
           | None \<Rightarrow> tarLoop e f binaryName execPath (de_items e)))"

text \<open>The temporary file that could not be removed again is all a failed replacement leaves.\<close>

definition tempLeft :: "replace_env \<Rightarrow> fs \<Rightarrow> fs \<Rightarrow> bool" where
  "tempLeft e f f' \<longleftrightarrow> (\<exists>tmp left. re_temp e = Inr tmp \<and> re_remove e \<noteq> None \<and> f' = f(tmp \<mapsto> left))"

lemma atomicReplace_cases:
  "(case atomicReplace e f target src mode of
     (f', Some _) \<Rightarrow> f' = f \<or> (\<exists>tmp. re_temp e = Inr tmp \<and> f' = f(tmp := None)) \<or> tempLeft e f f'
   | (f', None) \<Rightarrow> \<exists>tmp. re_temp e = Inr tmp \<and>
       f' = f(tmp := None, target := Some (take maxBinarySize (fst src), mode)) \<and>
       (length (fst src) < maxBinarySize \<longrightarrow> snd src = None))"
  by (auto simp: atomicReplace_def tempLeft_def Let_def split: sum.split option.split)

text \<open>\<open>firstOf\<close>: the first regular file of that name, in an archive that could be read so far.\<close>

fun passedBy :: "download_env \<Rightarrow> bytes \<Rightarrow> tar_item \<Rightarrow> bool" where
  "passedBy e name (TarErr _) = False"
| "passedBy e name (TarFile n reg _ _) = (\<not> (de_base e n = name \<and> reg))"

definition firstOf :: "download_env \<Rightarrow> bytes \<Rightarrow> nat \<Rightarrow> bytes \<times> goerr option \<Rightarrow> bool" where
  "firstOf e name mode d \<longleftrightarrow> (\<exists>before n after. de_items e = before @ TarFile n True mode d # after \<and>
     de_base e n = name \<and> list_all (passedBy e name) before)"

lemma passedBy_update [simp]: "passedBy (e\<lparr>de_items := items\<rparr>) = passedBy e" "passedBy (e\<lparr>de_status := st\<rparr>) = passedBy e"
proof -
  have "passedBy (e\<lparr>de_items := items\<rparr>) name i = passedBy e name i" for name i by (cases i) simp_all
  then show "passedBy (e\<lparr>de_items := items\<rparr>) = passedBy e" by blast
  have "passedBy (e\<lparr>de_status := st\<rparr>) name i = passedBy e name i" for name i by (cases i) simp_all
  then show "passedBy (e\<lparr>de_status := st\<rparr>) = passedBy e" by blast
qed

lemma tarLoop_cases:
  "(\<exists>er. tarLoop e f name path items = (f, Some er)) \<or>
   (\<exists>mode d. firstOf (e\<lparr>de_items := items\<rparr>) name mode d \<and>
      tarLoop e f name path items = atomicReplace (de_replace e) f path d mode)"
proof (induction items)
  case (Cons i items)
  show ?case
  proof (cases i)
    case (TarFile n reg mode d)
    show ?thesis
    proof (cases "de_base e n = name \<and> reg")
      case True
      then have "firstOf (e\<lparr>de_items := i # items\<rparr>) name mode d"
        unfolding firstOf_def TarFile by (intro exI [of _ "[]"] exI [of _ n] exI [of _ items]) simp
      then have "\<exists>mode d. firstOf (e\<lparr>de_items := i # items\<rparr>) name mode d \<and>
          tarLoop e f name path (i # items) = atomicReplace (de_replace e) f path d mode"
        using TarFile True by (intro exI [of _ mode] exI [of _ d]) simp
      then show ?thesis by blast
    next
      case False
      have "firstOf (e\<lparr>de_items := i # items\<rparr>) name mode' d'" if in_rest: "firstOf (e\<lparr>de_items := items\<rparr>) name mode' d'" for mode' d'
      proof -
        obtain bf n' af where "items = bf @ TarFile n' True mode' d' # af" "de_base e n' = name"
          "list_all (passedBy e name) bf"
          using in_rest by (auto simp: firstOf_def)
        then show ?thesis
          using False TarFile unfolding firstOf_def by (intro exI [of _ "i # bf"]) auto
      qed
      moreover have "tarLoop e f name path (i # items) = tarLoop e f name path items" using TarFile False by auto
      ultimately show ?thesis using Cons by metis
    qed
  qed simp
qed simp

text \<open>
  A download either fails, and then no file is touched but the temporary one, which is only left where it could not be
  removed, so the running binary is intact; or it installs exactly the first regular file of that name in the archive.
  A binary of more than 100 MB is cut at that size and installed without an error.
\<close>

theorem downloadAndReplace_atomic:
  assumes fresh: "\<And>tmp. re_temp (de_replace e) = Inr tmp \<Longrightarrow> f tmp = None \<and> tmp \<noteq> path"
  shows "(case downloadAndReplace e f name path of
     (f', Some _) \<Rightarrow> f' = f \<or> tempLeft (de_replace e) f f'
   | (f', None) \<Rightarrow> \<exists>mode d er. de_status e = Inr 200 \<and> de_gzip e = None \<and> firstOf e name mode (d, er) \<and>
       f' = f(path := Some (take maxBinarySize d, mode)) \<and> (length d < maxBinarySize \<longrightarrow> er = None))"
proof -
  let ?res = "tarLoop e f name path (de_items e)"
  have upd: "f(tmp := None) = f" if "re_temp (de_replace e) = Inr tmp" for tmp
    using fresh [OF that] by (auto simp: fun_upd_idem)
  have loop: "case ?res of
       (f', Some _) \<Rightarrow> f' = f \<or> tempLeft (de_replace e) f f'
     | (f', None) \<Rightarrow> \<exists>mode d er. firstOf e name mode (d, er) \<and>
         f' = f(path := Some (take maxBinarySize d, mode)) \<and> (length d < maxBinarySize \<longrightarrow> er = None)"
    using tarLoop_cases [of e f name path "de_items e"]
  proof (elim disjE exE conjE)
    fix mode d
    assume m: "firstOf (e\<lparr>de_items := de_items e\<rparr>) name mode d"
      and r: "?res = atomicReplace (de_replace e) f path d mode"
    obtain bs er where d: "d = (bs, er)" by fastforce
    show ?thesis
      using atomicReplace_cases [of "de_replace e" f path d mode] m
      unfolding r d by (fastforce simp: upd split: prod.splits option.splits)
  qed auto
  then show ?thesis
    by (auto simp: downloadAndReplace_def split: sum.split option.split)
qed

theorem downloadAndReplace_atomic_witness:
  "let e = \<lparr>de_status = Inr 200, de_gzip = None,
       de_items = [TarFile ''sair/sair-proxy'' True 493 (''new'', None)],
       de_base = (\<lambda>n. if n = ''sair/sair-proxy'' then ''sair-proxy'' else n),
       de_replace = \<lparr>re_temp = Inr ''/opt/tmp'', re_write = None, re_written = 0, re_chmod = None, re_sync = None,
         re_close = None, re_rename = None, re_remove = None\<rparr>\<rparr>;
     f = [''/opt/sair-proxy'' \<mapsto> (''old'', 493)]
   in downloadAndReplace e f ''sair-proxy'' ''/opt/sair-proxy'' =
        (f(''/opt/sair-proxy'' \<mapsto> (''new'', 493)), None)"
proof -
  let ?e = "\<lparr>de_status = Inr 200, de_gzip = None,
       de_items = [TarFile ''sair/sair-proxy'' True 493 (''new'', None)],
       de_base = (\<lambda>n. if n = ''sair/sair-proxy'' then ''sair-proxy'' else n),
       de_replace = \<lparr>re_temp = Inr ''/opt/tmp'', re_write = None, re_written = 0, re_chmod = None, re_sync = None,
         re_close = None, re_rename = None, re_remove = None\<rparr>\<rparr>"
  let ?f = "[''/opt/sair-proxy'' \<mapsto> (''old'', 493)] :: fs"
  have fresh: "\<And>tmp. re_temp (de_replace ?e) = Inr tmp \<Longrightarrow> ?f tmp = None \<and> tmp \<noteq> ''/opt/sair-proxy''"
    by auto
  have ok: "snd (downloadAndReplace ?e ?f ''sair-proxy'' ''/opt/sair-proxy'') = None"
    by (simp add: downloadAndReplace_def atomicReplace_def Let_def)
  have first: "firstOf ?e ''sair-proxy'' m d \<Longrightarrow> m = 493 \<and> d = (''new'', None)" for m d
    unfolding firstOf_def by (auto simp: Cons_eq_append_conv)
  show ?thesis
    using downloadAndReplace_atomic [of ?e ?f "''/opt/sair-proxy''" "''sair-proxy''", OF fresh] ok
    unfolding Let_def
    by (cases "downloadAndReplace ?e ?f ''sair-proxy'' ''/opt/sair-proxy''")
      (auto simp: maxBinarySize_def dest!: first)
qed

end
