(* ===== verification/Utf8.thy ===== *)
theory Utf8
  imports GoLib
begin

text \<open>
  Go's \<open>unicode/utf8\<close> as the lock log uses it. \<open>utf8_first\<close> is the package's table of
  leading bytes: the length of the encoding and the range of its second byte. The lemmas show
  what cutting a valid text at a byte position leaves: whole runes and at most one started one.
\<close>

definition byte :: "char \<Rightarrow> nat" where
  "byte c = of_char c"

definition utf8_first :: "char \<Rightarrow> (nat \<times> nat \<times> nat) option" where
  "utf8_first c = (let b = byte c in
     if b < 0x80 then Some (1, 0, 0)
     else if b < 0xC2 then None
     else if b < 0xE0 then Some (2, 0x80, 0xBF)
     else if b = 0xE0 then Some (3, 0xA0, 0xBF)
     else if b = 0xED then Some (3, 0x80, 0x9F)
     else if b < 0xF0 then Some (3, 0x80, 0xBF)
     else if b = 0xF0 then Some (4, 0x90, 0xBF)
     else if b < 0xF4 then Some (4, 0x80, 0xBF)
     else if b = 0xF4 then Some (4, 0x80, 0x8F)
     else None)"

definition RuneStart :: "char \<Rightarrow> bool" where
  "RuneStart c \<longleftrightarrow> \<not> (0x80 \<le> byte c \<and> byte c < 0xC0)"

definition FullRune :: "bytes \<Rightarrow> bool" where
  "FullRune p = (case p of
       [] \<Rightarrow> False
     | c # _ \<Rightarrow> (case utf8_first c of
           None \<Rightarrow> True
         | Some (n, lo, hi) \<Rightarrow>
             n \<le> length p
             \<or> 1 < length p \<and> (byte (p ! 1) < lo \<or> hi < byte (p ! 1))
             \<or> 2 < length p \<and> RuneStart (p ! 2)))"

text \<open>The bytes of one encoded rune, and the first rune's length in a valid text.\<close>

definition is_rune :: "bytes \<Rightarrow> bool" where
  "is_rune r = (case r of
       [] \<Rightarrow> False
     | c # t \<Rightarrow> (case utf8_first c of
           None \<Rightarrow> False
         | Some (n, lo, hi) \<Rightarrow> length r = n \<and>
             (case t of [] \<Rightarrow> True
              | d # ds \<Rightarrow> lo \<le> byte d \<and> byte d \<le> hi \<and> list_all (\<lambda>x. \<not> RuneStart x) ds)))"

definition runeLen :: "char \<Rightarrow> nat" where
  "runeLen c = (case utf8_first c of None \<Rightarrow> 1 | Some (n, _, _) \<Rightarrow> n)"

lemma runeLen_pos: "0 < runeLen c"
  by (auto simp: runeLen_def utf8_first_def Let_def)

function Valid :: "bytes \<Rightarrow> bool" where
  "Valid [] = True"
| "Valid (c # s) = (let n = runeLen c in is_rune (take n (c # s)) \<and> Valid (drop n (c # s)))"
  by pat_completeness auto
termination
proof (relation "measure length")
  fix c :: char and s x
  assume "x = runeLen c"
  then show "(drop x (c # s), c # s) \<in> measure length"
    using runeLen_pos [of c] by (cases x) auto
qed auto

declare Valid.simps(2) [simp del]

lemma utf8_first_len: "utf8_first c = Some (n, lo, hi) \<Longrightarrow> 1 \<le> n \<and> n \<le> 4"
  by (auto simp: utf8_first_def Let_def split: if_splits)

lemma utf8_first_range:
  "utf8_first c = Some (n, lo, hi) \<Longrightarrow> 2 \<le> n \<Longrightarrow> 0x80 \<le> lo \<and> hi < 0xC0 \<and> lo \<le> hi"
  by (auto simp: utf8_first_def Let_def split: if_splits)

lemma utf8_first_start: "utf8_first c = Some x \<Longrightarrow> RuneStart c"
  by (auto simp: utf8_first_def RuneStart_def Let_def split: if_splits)

lemma is_rune_Cons:
  assumes "is_rune r"
  obtains c t lo hi where "r = c # t" "utf8_first c = Some (length r, lo, hi)"
    "list_all (\<lambda>x. \<not> RuneStart x) t"
    "t \<noteq> [] \<Longrightarrow> lo \<le> byte (t ! 0) \<and> byte (t ! 0) \<le> hi"
proof -
  obtain c t n lo hi where r: "r = c # t" and f: "utf8_first c = Some (n, lo, hi)" and "length r = n"
    and rest: "case t of [] \<Rightarrow> True
      | d # ds \<Rightarrow> lo \<le> byte d \<and> byte d \<le> hi \<and> list_all (\<lambda>x. \<not> RuneStart x) ds"
    using assms by (cases r; cases "utf8_first (hd r)") (auto simp: is_rune_def split: prod.splits)
  moreover have "list_all (\<lambda>x. \<not> RuneStart x) t"
  proof (cases t)
    case (Cons d ds)
    then have "2 \<le> n" using r \<open>length r = n\<close> by auto
    then show ?thesis
      using utf8_first_range [OF f] rest Cons by (auto simp: RuneStart_def)
  qed simp
  ultimately show ?thesis
    using that [of c t lo hi] by (cases t) auto
qed

lemma is_rune_not_Nil: "is_rune r \<Longrightarrow> r \<noteq> []"
  by (auto simp: is_rune_def)

lemma is_rune_length: "is_rune r \<Longrightarrow> length r \<le> 4"
  by (elim is_rune_Cons) (use utf8_first_len in blast)

lemma is_rune_runeLen: "is_rune (c # t) \<Longrightarrow> runeLen c = Suc (length t)"
  by (auto simp: is_rune_def runeLen_def split: option.splits)

lemma Valid_rune_append:
  assumes "is_rune r"
  shows "Valid (r @ s) = Valid s"
proof -
  obtain c t where r: "r = c # t" using is_rune_not_Nil [OF assms] by (cases r) auto
  then have "runeLen c = length r" using is_rune_runeLen assms by simp
  then show ?thesis
    using assms r by (simp add: Valid.simps(2))
qed

lemma Valid_Cons_rune:
  assumes "Valid s" and "s \<noteq> []"
  obtains r t where "s = r @ t" "is_rune r" "Valid t"
  using assms by (cases s) (auto simp: Valid.simps(2) Let_def intro: that [OF append_take_drop_id [symmetric]])

lemma Valid_append: "Valid a \<Longrightarrow> Valid (a @ b) = Valid b"
proof (induction "length a" arbitrary: a rule: less_induct)
  case less
  show ?case
  proof (cases "a = []")
    case False
    then obtain r t where a: "a = r @ t" "is_rune r" "Valid t"
      using less.prems Valid_Cons_rune by blast
    then have "Valid (t @ b) = Valid b"
      using less.hyps [of t] is_rune_not_Nil [OF a(2)] by simp
    then show ?thesis using a Valid_rune_append by simp
  qed simp
qed

text \<open>A prefix of a valid text is a valid text and a started rune.\<close>

lemma Valid_prefix:
  assumes "Valid (p @ q)"
  obtains a b z where "p = a @ b" "Valid a" "b = [] \<or> (z \<noteq> [] \<and> is_rune (b @ z))"
    "b \<noteq> [] \<Longrightarrow> \<exists>q'. q = z @ q' \<and> Valid q'" "b = [] \<Longrightarrow> Valid q"
  using assms
proof (induction "length p" arbitrary: p thesis rule: less_induct)
  case less
  show ?case
  proof (cases "p = []")
    case True
    then show ?thesis using less.prems by (auto intro: less.prems(1) [of "[]" "[]" "[]"])
  next
    case False
    then obtain r t where rt: "p @ q = r @ t" "is_rune r" "Valid t"
      using less.prems(2) Valid_Cons_rune [of "p @ q"] by auto
    show ?thesis
    proof (cases "length r \<le> length p")
      case True
      then obtain p' where p': "p = r @ p'" "t = p' @ q"
        using rt(1) by (auto simp: append_eq_append_conv2)
      then have "length p' < length p" and "Valid (p' @ q)"
        using is_rune_not_Nil [OF rt(2)] rt(3) by auto
      from less.hyps [OF this(1) _ this(2)] obtain a b z where
        h: "p' = a @ b" "Valid a" "b = [] \<or> (z \<noteq> [] \<and> is_rune (b @ z))"
        "b \<noteq> [] \<Longrightarrow> \<exists>q'. q = z @ q' \<and> Valid q'" "b = [] \<Longrightarrow> Valid q"
        by blast
      show ?thesis
        by (rule less.prems(1) [of "r @ a" b z]) (use h p' rt(2) Valid_rune_append in auto)
    next
      case False
      then obtain z where z: "r = p @ z" "q = z @ t" "z \<noteq> []"
        using rt(1) by (auto simp: append_eq_append_conv2)
      show ?thesis
        by (rule less.prems(1) [of "[]" p z]) (use z rt \<open>p \<noteq> []\<close> in auto)
    qed
  qed
qed

lemma FullRune_rune: "is_rune r \<Longrightarrow> FullRune (r @ s)"
  by (elim is_rune_Cons) (auto simp: FullRune_def)

lemma FullRune_started:
  assumes "is_rune (b @ z)" and "b \<noteq> []" and "z \<noteq> []"
  shows "\<not> FullRune b"
proof -
  obtain c t lo hi where bz: "b @ z = c # t" and f: "utf8_first c = Some (length (b @ z), lo, hi)"
    and cont: "list_all (\<lambda>x. \<not> RuneStart x) t"
    and second: "t \<noteq> [] \<Longrightarrow> lo \<le> byte (t ! 0) \<and> byte (t ! 0) \<le> hi"
    using is_rune_Cons [OF assms(1)] by metis
  obtain b' where b: "b = c # b'" and t: "t = b' @ z"
    using bz assms(2) by (cases b) auto
  have s: "\<not> (byte (b ! 1) < lo \<or> hi < byte (b ! 1))" if "1 < length b"
    using second that b t by (cases b') (auto simp: nth_append)
  have "\<not> RuneStart (b ! 2)" if "2 < length b"
    using cont that unfolding b t list_all_iff by (simp add: numeral_2_eq_2)
  then show ?thesis
    using s f b assms(3) by (auto simp: FullRune_def)
qed

lemma rune_starts:
  assumes "is_rune r"
  shows "RuneStart (r ! 0)" and "0 < i \<Longrightarrow> i < length r \<Longrightarrow> \<not> RuneStart (r ! i)"
proof -
  obtain c t lo hi where r: "r = c # t" "utf8_first c = Some (length r, lo, hi)"
    "list_all (\<lambda>x. \<not> RuneStart x) t"
    using is_rune_Cons [OF assms] by metis
  then show "RuneStart (r ! 0)" by (auto dest: utf8_first_start)
  show "0 < i \<Longrightarrow> i < length r \<Longrightarrow> \<not> RuneStart (r ! i)"
    using r by (auto simp: list_all_length nth_Cons')
qed

text \<open>ASCII text is valid.\<close>

lemma Valid_ascii: "\<forall>c \<in> set s. byte c < 128 \<Longrightarrow> Valid s"
proof (induction s)
  case (Cons c s)
  then have "utf8_first c = Some (1, 0, 0)"
    by (simp add: utf8_first_def Let_def)
  then have "is_rune [c]" by (simp add: is_rune_def)
  then show ?case using Valid_rune_append [of "[c]" s] Cons by simp
qed simp

lemma last_rune:
  assumes "Valid a" and "a \<noteq> []"
  obtains a' r where "a = a' @ r" "Valid a'" "is_rune r"
  using assms
proof (induction "length a" arbitrary: a thesis rule: less_induct)
  case less
  obtain r t where rt: "a = r @ t" "is_rune r" "Valid t"
    using less.prems(2,3) by (rule Valid_Cons_rune)
  show ?case
  proof (cases "t = []")
    case True
    then show ?thesis using rt less.prems(1) [of "[]" r] by simp
  next
    case False
    have "length t < length a" using rt is_rune_not_Nil by simp
    from less.hyps [OF this _ rt(3) False] obtain t' r' where
      "t = t' @ r'" "Valid t'" "is_rune r'" by blast
    then show ?thesis
      using less.prems(1) [of "r @ t'" r'] rt Valid_rune_append by simp
  qed
qed

end
