(* ===== verification/TunnelObserver.thy ===== *)
theory TunnelObserver
  imports AdbProtocol Utf8
begin

text \<open>
  The half of \<open>internal/proxy/lock_log.go\<close> that watches one tunnel: \<open>sniffConn\<close> reads the
  first ADB request off the client's bytes, and \<open>tunnelObserver\<close> decodes what the device
  answers into text. Both are fed whatever pieces the sockets deliver, so both are shown to be
  consumers of a stream (\<open>chunked_consumer\<close>), against a reference that takes one byte at a time.
\<close>

record lock_log_entry =
  TimestampMs :: int
  Serial :: bytes
  Service :: bytes
  DurationMs :: int
  BytesToClient :: int
  RequestId :: "64 word"
  Open :: bool
  Output :: bytes

definition LockLogEntry :: lock_log_entry where
  "LockLogEntry = \<lparr>TimestampMs = 0, Serial = [], Service = [], DurationMs = 0, BytesToClient = 0,
     RequestId = 0, Open = False, Output = []\<rparr>"

definition maxUnflushedOutput :: nat where
  "maxUnflushedOutput = 8 * 2 ^ 20"

definition binaryOutputMarker :: bytes where
  "binaryOutputMarker = ''(binary output omitted)''"

section \<open>Sniffing the request\<close>

record sniff =
  sn_header :: bytes
  sn_want :: nat
  sn_service :: bytes
  sn_done :: bool
  sn_bytesToClient :: int

definition newSniffConn :: sniff where
  "newSniffConn = \<lparr>sn_header = [], sn_want = 0, sn_service = [], sn_done = False,
     sn_bytesToClient = 0\<rparr>"

definition hexVal :: "char \<Rightarrow> nat option" where
  "hexVal c = (case digitVal c of Some d \<Rightarrow> if d < 16 then Some d else None | None \<Rightarrow> None)"

fun hexDecode :: "bytes \<Rightarrow> nat list option" where
  "hexDecode [] = Some []"
| "hexDecode [_] = None"
| "hexDecode (a # b # s) = (case (hexVal a, hexVal b, hexDecode s) of
       (Some x, Some y, Some r) \<Rightarrow> Some ((x * 16 + y) # r)
     | _ \<Rightarrow> None)"

text \<open>
  \<open>feed\<close>'s loop runs at most twice, once for the header and once for the service: after the
  service step either the request is complete or the data is used up. The result carries the
  service handed to \<open>onService\<close>, if this piece completed it.
\<close>

definition feedService :: "sniff \<Rightarrow> bytes \<Rightarrow> sniff \<times> bytes option" where
  "feedService s data =
     (let need = min (sn_want s - length (sn_service s)) (length data);
          s1 = s\<lparr>sn_service := sn_service s @ take need data\<rparr>
      in if length (sn_service s1) = sn_want s then (s1\<lparr>sn_done := True\<rparr>, Some (sn_service s1))
         else (s1, None))"

definition feedHeader :: "sniff \<Rightarrow> bytes \<Rightarrow> sniff \<times> bytes option" where
  "feedHeader s data = (case hexDecode (sn_header s) of
       Some [hi, lo] \<Rightarrow>
         if hi * 256 + lo = 0 then (s\<lparr>sn_want := 0, sn_done := True\<rparr>, None)
         else if data = [] then (s\<lparr>sn_want := hi * 256 + lo\<rparr>, None)
         else feedService (s\<lparr>sn_want := hi * 256 + lo\<rparr>) data
     | _ \<Rightarrow> (s\<lparr>sn_done := True\<rparr>, None))"

definition feed :: "sniff \<Rightarrow> bytes \<Rightarrow> sniff \<times> bytes option" where
  "feed s data =
     (if data = [] \<or> sn_done s then (s, None)
      else if sn_want s \<noteq> 0 then feedService s data
      else let need = min (4 - length (sn_header s)) (length data);
               s1 = s\<lparr>sn_header := sn_header s @ take need data\<rparr>
           in if length (sn_header s1) < 4 then (s1, None)
              else feedHeader s1 (drop need data))"

text \<open>The sniffer with the services it has reported so far.\<close>

definition feedAll :: "sniff \<times> bytes list \<Rightarrow> bytes \<Rightarrow> sniff \<times> bytes list" where
  "feedAll st data = (case feed (fst st) data of
       (s, None) \<Rightarrow> (s, snd st) | (s, Some v) \<Rightarrow> (s, snd st @ [v]))"

definition sniff_ok :: "sniff \<Rightarrow> bool" where
  "sniff_ok s \<longleftrightarrow> sn_done s \<or> (if sn_want s = 0 then length (sn_header s) < 4 \<and> sn_service s = []
     else length (sn_service s) < sn_want s)"

lemma feed_Nil [simp]: "feed s [] = (s, None)"
  by (simp add: feed_def)

lemma feed_done: "sn_done s \<Longrightarrow> feed s d = (s, None)"
  by (simp add: feed_def)

lemma feed_want: "\<not> sn_done s \<Longrightarrow> sn_want s \<noteq> 0 \<Longrightarrow> d \<noteq> [] \<Longrightarrow> feed s d = feedService s d"
  by (simp add: feed_def)

lemma feedService_Cons:
  assumes "length (sn_service s) < sn_want s" and "\<not> sn_done s"
  shows "feedAll (s, v) (b # d) = feedAll (feedAll (s, v) [b]) d"
proof -
  let ?s1 = "s\<lparr>sn_service := sn_service s @ [b]\<rparr>"
  have w: "sn_want s \<noteq> 0" using assms(1) by auto
  obtain k where k: "sn_want s - length (sn_service s) = Suc k"
    using assms(1) by (metis Suc_diff_Suc)
  have one: "feed s [b] = (if Suc (length (sn_service s)) = sn_want s
      then (?s1\<lparr>sn_done := True\<rparr>, Some (sn_service ?s1)) else (?s1, None))"
    using assms w k by (simp add: feed_want feedService_def Let_def)
  show ?thesis
  proof (cases k)
    case 0
    then have "Suc (length (sn_service s)) = sn_want s" using k by simp
    then show ?thesis
      using assms w k 0 by (simp add: feedAll_def one feed_want feed_done feedService_def Let_def)
  next
    case (Suc j)
    then have ne: "Suc (length (sn_service s)) \<noteq> sn_want s" using k by simp
    have kk: "sn_want s - Suc (length (sn_service s)) = k" using k by simp
    show ?thesis
    proof (cases "d = []")
      case True
      then show ?thesis by (simp add: feedAll_def split: prod.split option.split)
    next
      case False
      have w1: "feed ?s1 d = feedService ?s1 d"
        using assms w False by (simp add: feed_want)
      have "feedService s (b # d) = feedService ?s1 d"
        using ne k kk by (auto simp: feedService_def Let_def min_def)
      then show ?thesis
        using assms w ne by (simp add: feedAll_def one w1 feed_want)
    qed
  qed
qed

lemma feedHeader_rest:
  assumes "\<not> sn_done s" and "sn_service s = []"
  shows "\<exists>s1. feedHeader s [] = (s1, None) \<and> feedHeader s d = feed s1 d"
proof -
  have bad: ?thesis if "\<And>d. feedHeader s d = (s\<lparr>sn_done := True\<rparr>, None)"
    using that by (simp add: feed_done)
  consider hi lo where "hexDecode (sn_header s) = Some [hi, lo]"
    | "\<forall>hi lo. hexDecode (sn_header s) \<noteq> Some [hi, lo]" by blast
  then show ?thesis
  proof cases
    case (1 hi lo)
    then show ?thesis
      using assms by (cases "hi * 256 + lo = 0"; cases "d = []")
        (auto simp: feedHeader_def feed_done feed_want)
  next
    case 2
    then show ?thesis
      by (intro bad) (simp add: feedHeader_def split: option.split list.split)
  qed
qed

lemma feed_Cons:
  assumes "sniff_ok s"
  shows "feedAll (s, v) (b # d) = feedAll (feedAll (s, v) [b]) d"
proof (cases "sn_done s")
  case True
  then show ?thesis by (simp add: feedAll_def feed_done)
next
  case nd: False
  show ?thesis
  proof (cases "sn_want s = 0")
    case False
    then show ?thesis using assms nd by (intro feedService_Cons) (auto simp: sniff_ok_def)
  next
    case w0: True
    then have h: "length (sn_header s) < 4" and sv: "sn_service s = []"
      using assms nd by (auto simp: sniff_ok_def)
    let ?s1 = "s\<lparr>sn_header := sn_header s @ [b]\<rparr>"
    obtain k where k: "4 - length (sn_header s) = Suc k"
      using h by (metis Suc_diff_Suc)
    show ?thesis
    proof (cases k)
      case 0
      then have l3: "length (sn_header s) = 3" using k h by simp
      have f: "feed s (b # d) = feedHeader ?s1 d" for d
        using nd w0 l3 by (simp add: feed_def)
      show ?thesis
        unfolding feedAll_def fst_conv snd_conv f using feedHeader_rest [of ?s1 d] nd sv by auto
    next
      case (Suc j)
      then have lt: "length (sn_header s) < 3" using k by simp
      have kk: "4 - Suc (length (sn_header s)) = k" using k by simp
      have one: "feed s [b] = (?s1, None)"
        using nd w0 lt by (simp add: feed_def Let_def min_def)
      show ?thesis
      proof (cases "d = []")
        case True
        then show ?thesis by (simp add: feedAll_def one)
      next
        case False
        then have "feed s (b # d) = feed ?s1 d"
          using nd w0 k kk h lt by (simp add: feed_def Let_def min_def)
        then show ?thesis by (simp add: feedAll_def one split: prod.split option.split)
      qed
    qed
  qed
qed

lemma sniff_ok_feedService:
  assumes "length (sn_service s) < sn_want s"
  shows "sniff_ok (fst (feedService s d))"
proof -
  have "length (sn_service s) + length (take n d) \<le> sn_want s"
    if "n = min (sn_want s - length (sn_service s)) (length d)" for n
    using assms that by simp
  then show ?thesis
    using assms by (fastforce simp: feedService_def sniff_ok_def Let_def)
qed

lemma sniff_ok_feedHeader:
  assumes "sn_service s = []"
  shows "sniff_ok (fst (feedHeader s d))"
proof -
  consider hi lo where "hexDecode (sn_header s) = Some [hi, lo]" "hi * 256 + lo \<noteq> 0"
    | hi lo where "hexDecode (sn_header s) = Some [hi, lo]" "hi * 256 + lo = 0"
    | "\<forall>hi lo. hexDecode (sn_header s) \<noteq> Some [hi, lo]" by blast
  then show ?thesis
  proof cases
    case (1 hi lo)
    then show ?thesis
      using assms sniff_ok_feedService [of "s\<lparr>sn_want := hi * 256 + lo\<rparr>" d]
      by (auto simp: feedHeader_def) (simp_all add: sniff_ok_def)
  next
    case 2
    then show ?thesis by (simp add: feedHeader_def sniff_ok_def)
  next
    case 3
    then show ?thesis
      by (simp add: feedHeader_def sniff_ok_def split: option.split list.split)
  qed
qed

lemma sniff_ok_feed:
  assumes "sniff_ok s"
  shows "sniff_ok (fst (feed s d))"
proof (cases "d = [] \<or> sn_done s")
  case True
  then show ?thesis using assms by (auto simp: feed_done)
next
  case nd: False
  show ?thesis
  proof (cases "sn_want s = 0")
    case True
    then show ?thesis
      using assms nd
      by (simp add: feed_def Let_def sniff_ok_feedHeader sniff_ok_def [of s])
        (simp add: sniff_ok_def min_def)
  next
    case False
    then show ?thesis
      using assms nd by (simp add: feed_want sniff_ok_feedService sniff_ok_def [of s])
  qed
qed

lemma sniff_ok_feedAll: "sniff_ok (fst st) \<Longrightarrow> sniff_ok (fst (feedAll st d))"
  using sniff_ok_feed [of "fst st" d]
  by (cases "feed (fst st) d"; cases "snd (feed (fst st) d)") (simp_all add: feedAll_def)

interpretation sniffer: chunked_consumer "\<lambda>st. sniff_ok (fst st)" feedAll
proof unfold_locales
  fix st :: "sniff \<times> bytes list" and xs ys
  show "sniff_ok (fst st) \<Longrightarrow> feedAll st (xs @ ys) = feedAll (feedAll st xs) ys"
  proof (induction xs arbitrary: st)
    case Nil
    then show ?case by (simp add: feedAll_def)
  next
    case (Cons b xs)
    have c: "feedAll st (b # d) = feedAll (feedAll st [b]) d" for d
      using feed_Cons [OF Cons.prems, of "snd st" b d] by (simp only: prod.collapse)
    show ?case
      using Cons.IH [of "feedAll st [b]"] sniff_ok_feedAll [OF Cons.prems]
      by (simp only: append_Cons c [of "xs @ ys"] c [of xs])
  qed
qed (rule sniff_ok_feedAll, assumption, simp add: feedAll_def)

text \<open>The length in a frame's header, read back as the sniffer reads it.\<close>

lemma hexVal_of_digitVal: "digitVal c = Some d \<Longrightarrow> d < 16 \<Longrightarrow> hexVal c = Some d"
  by (simp add: hexVal_def)

lemma parseU_hex_Cons:
  "parseU 16 lim acc (c # s) = POk n \<Longrightarrow>
     \<exists>d. hexVal c = Some d \<and> d < 16 \<and> parseU 16 lim (acc * 16 + d) s = POk n"
  by (cases "digitVal c"; cases "16 \<le> the (digitVal c)"; cases "lim < acc * 16 + the (digitVal c)")
    (simp_all add: hexVal_of_digitVal)

lemma hexDecode_fmtX4:
  assumes "n \<le> 65535"
  shows "\<exists>hi lo. hexDecode (fmtX4 n) = Some [hi, lo] \<and> hi * 256 + lo = n"
proof -
  have "length (fmtX4 n) = Suc (Suc (Suc (Suc 0)))"
    using length_fmtX4 [OF assms] by simp
  then obtain a b c d where f: "fmtX4 n = [a, b, c, d]"
    by (auto simp only: length_Suc_conv length_0_conv)
  then have p: "parseU 16 n 0 [a, b, c, d] = POk n"
    using parseU_fmtX4 [of n n] by simp
  obtain x where x: "hexVal a = Some x" and px: "parseU 16 n (0 * 16 + x) [b, c, d] = POk n"
    using parseU_hex_Cons [OF p] by blast
  obtain y where y: "hexVal b = Some y" and py: "parseU 16 n ((0 * 16 + x) * 16 + y) [c, d] = POk n"
    using parseU_hex_Cons [OF px] by blast
  obtain z where z: "hexVal c = Some z"
    and pz: "parseU 16 n (((0 * 16 + x) * 16 + y) * 16 + z) [d] = POk n"
    using parseU_hex_Cons [OF py] by blast
  obtain w where w: "hexVal d = Some w"
    and n: "parseU 16 n ((((0 * 16 + x) * 16 + y) * 16 + z) * 16 + w) [] = POk n"
    using parseU_hex_Cons [OF pz] by blast
  note v = x y z w
  then show ?thesis
    using n by (simp add: f v)
qed

lemma feed_frame:
  assumes "s \<noteq> []" and "length s \<le> 65535"
  shows "snd (feedAll (newSniffConn, []) (sendAdbLtv s @ rest)) = [s]"
proof -
  obtain hi lo where h: "hexDecode (fmtX4 (length s)) = Some [hi, lo]" "hi * 256 + lo = length s"
    using hexDecode_fmtX4 [OF assms(2)] by blast
  then have nz: "hi * 256 + lo \<noteq> 0" using assms(1) by simp
  let ?s = "newSniffConn\<lparr>sn_header := fmtX4 (length s)\<rparr>"
  have "feed newSniffConn (sendAdbLtv s @ rest) = feedHeader ?s (s @ rest)"
    using assms(2) by (simp add: feed_def newSniffConn_def sendAdbLtv_def)
  also have "\<dots> = feedService (?s\<lparr>sn_want := length s\<rparr>) (s @ rest)"
    using h nz assms(1) by (auto simp: feedHeader_def)
  finally show ?thesis
    by (simp add: feedAll_def feedService_def newSniffConn_def Let_def)
qed

text \<open>
  However the socket cuts the client's bytes, the service the lock log records for a tunnel is
  exactly the framed request the client sent first, reported once.
\<close>

theorem sniffed_service_exact:
  assumes "concat chunks = sendAdbLtv s @ rest" and "s \<noteq> []" and "length s \<le> 65535"
  shows "snd (foldl feedAll (newSniffConn, []) chunks) = [s]"
proof -
  have "sniff_ok (fst (newSniffConn, []))"
    by (simp add: sniff_ok_def newSniffConn_def)
  from sniffer.feed_chunks [OF this, of chunks] show ?thesis
    using assms feed_frame by simp
qed

theorem sniffed_service_exact_witness:
  "snd (foldl feedAll (newSniffConn, []) [''0'', ''00Bshe'', ''ll,v2:'', ''lsX'', ''more'']) = [''shell,v2:ls'']"
proof -
  have "fmtX4 (length ''shell,v2:ls'') = ''000B''"
    by code_simp
  then have "concat [''0'', ''00Bshe'', ''ll,v2:'', ''lsX'', ''more''] = sendAdbLtv ''shell,v2:ls'' @ ''Xmore''"
    by (simp add: sendAdbLtv_def)
  from sniffed_service_exact [OF this] show ?thesis
    by simp
qed

section \<open>Observing the reply\<close>

record observer =
  ob_serial :: bytes
  ob_id :: "64 word"
  ob_entry :: "lock_log_entry option"
  ob_started :: int
  ob_conn :: sniff
  ob_capture :: bool
  ob_v2 :: bool
  ob_status :: bytes
  ob_skip :: nat
  ob_hdr :: bytes
  ob_left :: nat
  ob_keep :: bool
  ob_buf :: bytes
  ob_dropped :: nat
  ob_binary :: bool

definition observer0 :: "bytes \<Rightarrow> observer" where
  "observer0 serial = \<lparr>ob_serial = serial, ob_id = 0, ob_entry = None, ob_started = 0,
     ob_conn = newSniffConn, ob_capture = False, ob_v2 = False, ob_status = [], ob_skip = 0,
     ob_hdr = [], ob_left = 0, ob_keep = False, ob_buf = [], ob_dropped = 0, ob_binary = False\<rparr>"

definition ob_append :: "observer \<Rightarrow> bytes \<Rightarrow> observer" where
  "ob_append ob p =
     (if ob_binary ob then ob
      else let room = maxUnflushedOutput - length (ob_buf ob)
           in if room < length p
              then ob\<lparr>ob_dropped := ob_dropped ob + (length p - room), ob_buf := ob_buf ob @ take room p\<rparr>
              else ob\<lparr>ob_buf := ob_buf ob @ p\<rparr>)"

lemma ob_append_fields [simp, frame_simps]:
  "ob_serial (ob_append ob p) = ob_serial ob" "ob_id (ob_append ob p) = ob_id ob"
  "ob_entry (ob_append ob p) = ob_entry ob" "ob_started (ob_append ob p) = ob_started ob"
  "ob_conn (ob_append ob p) = ob_conn ob" "ob_capture (ob_append ob p) = ob_capture ob"
  "ob_v2 (ob_append ob p) = ob_v2 ob" "ob_status (ob_append ob p) = ob_status ob"
  "ob_skip (ob_append ob p) = ob_skip ob" "ob_hdr (ob_append ob p) = ob_hdr ob"
  "ob_left (ob_append ob p) = ob_left ob" "ob_keep (ob_append ob p) = ob_keep ob"
  "ob_binary (ob_append ob p) = ob_binary ob"
  by (simp_all add: ob_append_def Let_def)

function observe :: "observer \<Rightarrow> bytes \<Rightarrow> observer" where
  "observe ob p =
     (if p = [] \<or> \<not> ob_capture ob then ob
      else if length (ob_status ob) < 4 then
        let need = min (4 - length (ob_status ob)) (length p);
            s = ob_status ob @ take need p;
            ob1 = ob\<lparr>ob_status := s\<rparr>
        in if length s < 4 then ob1
           else if s = ''OKAY'' then observe ob1 (drop need p)
           else if s = ''FAIL'' then observe (ob1\<lparr>ob_v2 := False, ob_skip := 4\<rparr>) (drop need p)
           else observe (ob1\<lparr>ob_capture := False\<rparr>) (drop need p)
      else if 0 < ob_skip ob then
        let n = min (ob_skip ob) (length p)
        in observe (ob\<lparr>ob_skip := ob_skip ob - n\<rparr>) (drop n p)
      else if \<not> ob_v2 ob then ob_append ob p
      else if ob_left ob = 0 then
        let need = min (5 - length (ob_hdr ob)) (length p);
            h = ob_hdr ob @ take need p
        in if length h < 5 then ob\<lparr>ob_hdr := h\<rparr>
           else observe (ob\<lparr>ob_left := unat (Uint32 (drop 1 h)),
                  ob_keep := (h ! 0 = CHR 0x01 \<or> h ! 0 = CHR 0x02), ob_hdr := []\<rparr>) (drop need p)
      else
        let n = min (ob_left ob) (length p);
            ob1 = (if ob_keep ob then ob_append ob (take n p) else ob)
        in observe (ob1\<lparr>ob_left := ob_left ob - n\<rparr>) (drop n p))"
  by pat_completeness auto
termination
proof (relation "measure (\<lambda>(ob, p). length p + (if 5 \<le> length (ob_hdr ob) then 1 else 0))")
qed (auto simp: min_def split: if_splits)

declare observe.simps [simp del]

text \<open>
  The reference: one byte at a time, the decoder moves (\<open>advance\<close>) and either keeps the byte as
  output or not (\<open>emits\<close>). Neither looks at the output buffer.
\<close>

definition advance :: "observer \<Rightarrow> char \<Rightarrow> observer" where
  "advance ob b =
     (if \<not> ob_capture ob then ob
      else if length (ob_status ob) < 4 then
        let s = ob_status ob @ [b]; ob1 = ob\<lparr>ob_status := s\<rparr>
        in if length s < 4 \<or> s = ''OKAY'' then ob1
           else if s = ''FAIL'' then ob1\<lparr>ob_v2 := False, ob_skip := 4\<rparr>
           else ob1\<lparr>ob_capture := False\<rparr>
      else if 0 < ob_skip ob then ob\<lparr>ob_skip := ob_skip ob - 1\<rparr>
      else if \<not> ob_v2 ob then ob
      else if ob_left ob = 0 then
        let h = ob_hdr ob @ [b]
        in if length h < 5 then ob\<lparr>ob_hdr := h\<rparr>
           else ob\<lparr>ob_left := unat (Uint32 (drop 1 h)),
                  ob_keep := (h ! 0 = CHR 0x01 \<or> h ! 0 = CHR 0x02), ob_hdr := []\<rparr>
      else ob\<lparr>ob_left := ob_left ob - 1\<rparr>)"

definition emits :: "observer \<Rightarrow> bool" where
  "emits ob \<longleftrightarrow> ob_capture ob \<and> \<not> length (ob_status ob) < 4 \<and> ob_skip ob = 0 \<and>
     (ob_v2 ob \<longrightarrow> ob_left ob \<noteq> 0 \<and> ob_keep ob)"

definition observe1 :: "observer \<Rightarrow> char \<Rightarrow> observer" where
  "observe1 ob b = (if emits ob then advance (ob_append ob [b]) b else advance ob b)"

definition ob_ok :: "observer \<Rightarrow> bool" where
  "ob_ok ob \<longleftrightarrow> length (ob_hdr ob) < 5 \<and> length (ob_buf ob) \<le> maxUnflushedOutput"

lemma ob_append_Nil [simp]: "ob_append ob [] = ob"
  by (simp add: ob_append_def)

lemma ob_append_eq:
  "length (ob_buf ob) \<le> maxUnflushedOutput \<Longrightarrow>
     ob_append ob p = (if ob_binary ob then ob
       else ob\<lparr>ob_dropped := ob_dropped ob + (length (ob_buf ob) + length p - maxUnflushedOutput),
            ob_buf := take maxUnflushedOutput (ob_buf ob @ p)\<rparr>)"
  by (auto simp: ob_append_def Let_def)

lemma ob_append_append:
  assumes "length (ob_buf ob) \<le> maxUnflushedOutput"
  shows "ob_append ob (p @ q) = ob_append (ob_append ob p) q"
proof (cases "ob_binary ob")
  case True
  then show ?thesis by (simp add: ob_append_def)
next
  case False
  let ?M = maxUnflushedOutput
  let ?ob1 = "ob\<lparr>ob_dropped := ob_dropped ob + (length (ob_buf ob) + length p - ?M),
      ob_buf := take ?M (ob_buf ob @ p)\<rparr>"
  have "ob_append ob p = ?ob1" using assms False by (simp add: ob_append_eq)
  moreover have "take ?M (take ?M (ob_buf ob @ p) @ q) = take ?M (ob_buf ob @ p @ q)"
    using assms by (cases "length (ob_buf ob @ p) \<le> ?M") (auto simp: min_def)
  moreover have "(length (ob_buf ob) + length p - ?M) + (min (length (ob_buf ob) + length p) ?M + length q - ?M)
      = length (ob_buf ob) + length (p @ q) - ?M"
    by auto
  ultimately show ?thesis
    using assms False by (simp add: ob_append_eq min.commute)
qed

lemma ob_append_ok: "ob_ok ob \<Longrightarrow> ob_ok (ob_append ob p)"
  by (auto simp: ob_ok_def ob_append_def Let_def)

lemma ob_append_left: "(ob_append ob p)\<lparr>ob_left := n\<rparr> = ob_append (ob\<lparr>ob_left := n\<rparr>) p"
  by (simp add: ob_append_def Let_def)

lemma advance_ok:
  assumes "ob_ok ob"
  shows "ob_ok (advance ob b)"
proof -
  have "ob_buf (advance ob b) = ob_buf ob"
    by (simp add: advance_def Let_def)
  moreover have "length (ob_hdr (advance ob b)) < 5"
    using assms by (simp add: advance_def Let_def ob_ok_def)
  ultimately show ?thesis using assms by (simp add: ob_ok_def)
qed

lemma observe1_ok: "ob_ok ob \<Longrightarrow> ob_ok (observe1 ob b)"
  by (simp add: observe1_def advance_ok ob_append_ok)

lemma observe_stop: "p = [] \<or> \<not> ob_capture ob \<Longrightarrow> observe ob p = ob"
  by (subst observe.simps) simp

lemma observe_status:
  assumes "p \<noteq> []" "ob_capture ob" "length (ob_status ob) < 4"
  shows "observe ob p =
    (let s = ob_status ob @ take (4 - length (ob_status ob)) p;
         p1 = drop (4 - length (ob_status ob)) p; ob1 = ob\<lparr>ob_status := s\<rparr>
     in if length s < 4 then ob1
        else if s = ''OKAY'' then observe ob1 p1
        else if s = ''FAIL'' then observe (ob1\<lparr>ob_v2 := False, ob_skip := 4\<rparr>) p1
        else observe (ob1\<lparr>ob_capture := False\<rparr>) p1)"
  using assms by (subst observe.simps) (simp only: if_False if_True simp_thms Let_def
      take_min_length drop_min_length)

lemma observe_skip:
  assumes "p \<noteq> []" "ob_capture ob" "\<not> length (ob_status ob) < 4" "0 < ob_skip ob"
  shows "observe ob p =
    observe (ob\<lparr>ob_skip := ob_skip ob - min (ob_skip ob) (length p)\<rparr>) (drop (ob_skip ob) p)"
  using assms by (subst observe.simps) (simp only: if_False if_True simp_thms Let_def
      drop_min_length)

lemma observe_raw:
  assumes "p \<noteq> []" "ob_capture ob" "\<not> length (ob_status ob) < 4" "ob_skip ob = 0" "\<not> ob_v2 ob"
  shows "observe ob p = ob_append ob p"
  using assms by (subst observe.simps) simp

lemma observe_hdr:
  assumes "p \<noteq> []" "ob_capture ob" "\<not> length (ob_status ob) < 4" "ob_skip ob = 0" "ob_v2 ob"
    "ob_left ob = 0"
  shows "observe ob p =
    (let h = ob_hdr ob @ take (5 - length (ob_hdr ob)) p
     in if length h < 5 then ob\<lparr>ob_hdr := h\<rparr>
        else observe (ob\<lparr>ob_left := unat (Uint32 (drop 1 h)),
               ob_keep := (h ! 0 = CHR 0x01 \<or> h ! 0 = CHR 0x02), ob_hdr := []\<rparr>)
             (drop (5 - length (ob_hdr ob)) p))"
  using assms by (subst observe.simps) (simp only: if_False if_True simp_thms Let_def
      take_min_length drop_min_length less_irrefl)

lemma observe_payload:
  assumes "p \<noteq> []" "ob_capture ob" "\<not> length (ob_status ob) < 4" "ob_skip ob = 0" "ob_v2 ob"
    "ob_left ob \<noteq> 0"
  shows "observe ob p =
    observe ((if ob_keep ob then ob_append ob (take (ob_left ob) p) else ob)
       \<lparr>ob_left := ob_left ob - min (ob_left ob) (length p)\<rparr>) (drop (ob_left ob) p)"
  using assms by (subst observe.simps) (simp only: if_False if_True simp_thms Let_def
      take_min_length drop_min_length less_irrefl)

lemma observe1_quiet: "\<not> emits ob \<Longrightarrow> observe1 ob b = advance ob b"
  by (simp add: observe1_def)

lemma observe_Cons_status:
  assumes status: "ob_capture ob" "length (ob_status ob) < 4"
  shows "observe ob (b # p) = observe (observe1 ob b) p"
proof -
  from status have o1: "observe1 ob b = advance ob b"
    by (simp add: observe1_quiet emits_def)
  obtain k where k: "4 - length (ob_status ob) = Suc k"
    using status by (metis Suc_diff_Suc)
  obtain s where s: "ob_status ob @ [b] = s" by blast
  have adv: "advance ob b = (if length s < 4 \<or> s = ''OKAY'' then ob\<lparr>ob_status := s\<rparr>
      else if s = ''FAIL'' then ob\<lparr>ob_status := s, ob_v2 := False, ob_skip := 4\<rparr>
      else ob\<lparr>ob_status := s, ob_capture := False\<rparr>)"
    unfolding s [symmetric] advance_def Let_def using status by (simp only: if_True if_False simp_thms)
  have ls: "length s = Suc (length (ob_status ob))" using s by auto
  have st: "ob_status ob @ take (Suc k) (b # p) = s @ take k p" using s by auto
  note lhs = observe_status [of "b # p" ob, unfolded k st drop_Suc_Cons]
  show ?thesis
  proof (cases k)
    case 0
    then have "\<not> length s < 4" using k ls by simp
    then show ?thesis
      unfolding o1 adv using lhs status 0 by (simp add: Let_def)
  next
    case (Suc j)
    then have l4: "length s < 4" using k ls by simp
    have kk: "4 - length s = k" using k ls by simp
    show ?thesis
    proof (cases "p = []")
      case True
      then show ?thesis
        unfolding o1 adv using lhs status l4 by (simp add: Let_def observe_stop)
    next
      case False
      have sel: "ob_status (ob\<lparr>ob_status := s\<rparr>) = s"
          "ob_capture (ob\<lparr>ob_status := s\<rparr>) = ob_capture ob"
        and upd: "ob\<lparr>ob_status := s, ob_status := t\<rparr> = ob\<lparr>ob_status := t\<rparr>" for t
        by simp_all
      have "observe (ob\<lparr>ob_status := s\<rparr>) p = observe ob (b # p)"
        unfolding lhs [OF list.distinct(2) status]
        using observe_status [of p "ob\<lparr>ob_status := s\<rparr>"] False status(1) l4
        by (simp only: sel upd kk simp_thms)
      then show ?thesis
        unfolding o1 adv using l4 by simp
    qed
  qed
qed

lemma observe_Cons_hdr:
  assumes ok: "ob_ok ob" and hdr: "ob_capture ob" "\<not> length (ob_status ob) < 4" "ob_skip ob = 0" "ob_v2 ob" "ob_left ob = 0"
  shows "observe ob (b # p) = observe (observe1 ob b) p"
proof -
  from hdr have o1: "observe1 ob b = advance ob b"
    by (simp add: observe1_quiet emits_def)
  obtain k where k: "5 - length (ob_hdr ob) = Suc k"
    using ok by (metis Suc_diff_Suc ob_ok_def)
  obtain h where h: "ob_hdr ob @ [b] = h" by blast
  have adv: "advance ob b = (if length h < 5 then ob\<lparr>ob_hdr := h\<rparr>
      else ob\<lparr>ob_left := unat (Uint32 (drop 1 h)),
             ob_keep := (h ! 0 = CHR 0x01 \<or> h ! 0 = CHR 0x02), ob_hdr := []\<rparr>)"
    unfolding h [symmetric] advance_def Let_def
    using hdr by (simp only: if_True if_False simp_thms less_irrefl)
  have lh: "length h = Suc (length (ob_hdr ob))" using h by auto
  have st: "ob_hdr ob @ take (Suc k) (b # p) = h @ take k p" using h by auto
  note lhs = observe_hdr [of "b # p" ob, unfolded k st drop_Suc_Cons]
  show ?thesis
  proof (cases k)
    case 0
    then have "\<not> length h < 5" using k lh by simp
    then show ?thesis
      unfolding o1 adv using lhs hdr 0 by (simp add: Let_def)
  next
    case (Suc j)
    then have l5: "length h < 5" using k lh by simp
    have kk: "5 - length h = k" using k lh by simp
    show ?thesis
    proof (cases "p = []")
      case True
      then show ?thesis
        unfolding o1 adv using lhs hdr l5 by (simp add: Let_def observe_stop)
    next
      case False
      have "observe (ob\<lparr>ob_hdr := h\<rparr>) p = observe ob (b # p)"
        unfolding lhs [OF list.distinct(2) hdr]
        using observe_hdr [of p "ob\<lparr>ob_hdr := h\<rparr>"] False hdr
        by (simp add: kk Let_def)
      then show ?thesis
        unfolding o1 adv using l5 by simp
    qed
  qed
qed

lemma observe_Cons_payload:
  assumes ok: "ob_ok ob" and payload: "ob_capture ob" "\<not> length (ob_status ob) < 4" "ob_skip ob = 0" "ob_v2 ob" "ob_left ob \<noteq> 0"
  shows "observe ob (b # p) = observe (observe1 ob b) p"
proof -
  from payload obtain k where k: "ob_left ob = Suc k" by (cases "ob_left ob") auto
  have app: "ob_append ob (b # q) = ob_append (ob_append ob [b]) q" for q
    using ok ob_append_append [of ob "[b]" q] by (simp add: ob_ok_def)
  have o1: "observe1 ob b = (if ob_keep ob then ob_append ob [b] else ob)\<lparr>ob_left := k\<rparr>"
    using payload k by (simp add: observe1_def emits_def advance_def)
  show ?thesis
  proof (cases "p = [] \<or> k = 0")
    case True
    then show ?thesis
      unfolding o1 using payload k by (auto simp: observe_payload observe_stop)
  next
    case False
    then show ?thesis
      unfolding o1 using payload k
      by (simp add: observe_payload app [of "take k p"] ob_append_left)
  qed
qed

lemma observe_Cons:
  assumes ok: "ob_ok ob"
  shows "observe ob (b # p) = observe (observe1 ob b) p"
proof -
  consider "\<not> ob_capture ob"
    | (status) "ob_capture ob" "length (ob_status ob) < 4"
    | (skip) "ob_capture ob" "\<not> length (ob_status ob) < 4" "0 < ob_skip ob"
    | (raw) "ob_capture ob" "\<not> length (ob_status ob) < 4" "ob_skip ob = 0" "\<not> ob_v2 ob"
    | (hdr) "ob_capture ob" "\<not> length (ob_status ob) < 4" "ob_skip ob = 0" "ob_v2 ob" "ob_left ob = 0"
    | (payload) "ob_capture ob" "\<not> length (ob_status ob) < 4" "ob_skip ob = 0" "ob_v2 ob" "ob_left ob \<noteq> 0"
    by blast
  then show ?thesis
  proof cases
    case 1
    then show ?thesis by (simp add: observe_stop observe1_def emits_def advance_def)
  next
    case status
    then show ?thesis by (rule observe_Cons_status)
  next
    case skip
    then obtain k where k: "ob_skip ob = Suc k" by (cases "ob_skip ob") auto
    have o1: "observe1 ob b = ob\<lparr>ob_skip := k\<rparr>"
      using skip k by (simp add: observe1_quiet emits_def advance_def)
    show ?thesis
      unfolding o1 using skip k
      by (cases "p = [] \<or> k = 0") (auto simp: observe_skip observe_stop)
  next
    case raw
    then have "observe1 ob b = ob_append ob [b]"
      by (simp add: observe1_def emits_def advance_def)
    then show ?thesis
      using raw ok ob_append_append [of ob "[b]" p]
      by (cases "p = []") (simp_all add: observe_raw observe_stop ob_ok_def)
  next
    case hdr
    with ok show ?thesis by (rule observe_Cons_hdr)
  next
    case payload
    with ok show ?thesis by (rule observe_Cons_payload)
  qed
qed

lemma observe_bytes: "ob_ok ob \<Longrightarrow> observe ob p = foldl observe1 ob p"
  by (induction p arbitrary: ob) (simp_all add: observe_stop observe_Cons observe1_ok)

lemma foldl_observe1_ok: "ob_ok ob \<Longrightarrow> ob_ok (foldl observe1 ob p)"
  by (induction p arbitrary: ob) (simp_all add: observe1_ok)

interpretation reply: chunked_consumer ob_ok observe
  by unfold_locales (simp_all add: observe_bytes foldl_observe1_ok)

section \<open>What the decoder keeps\<close>

fun emitted :: "observer \<Rightarrow> bytes \<Rightarrow> bytes" where
  "emitted ob [] = []"
| "emitted ob (b # p) = (if emits ob then [b] else []) @ emitted (advance ob b) p"

text \<open>The decoder without its output.\<close>

definition ctl :: "observer \<Rightarrow> observer" where
  "ctl ob = ob\<lparr>ob_buf := [], ob_dropped := 0, ob_binary := False\<rparr>"

lemma ctl_idem [simp]: "ctl (ctl ob) = ctl ob"
  by (simp add: ctl_def)

lemma emits_ctl [simp]: "emits (ctl ob) = emits ob"
  by (simp add: emits_def ctl_def)

lemma ctl_append [simp]: "ctl (ob_append ob p) = ctl ob"
  by (simp add: ctl_def ob_append_def Let_def)

lemma ctl_advance: "ctl (advance ob b) = advance (ctl ob) b"
  unfolding advance_def Let_def by (simp only: if_distrib [of ctl]) (simp add: ctl_def cong: if_cong)

lemma emitted_ctl [simp]: "emitted (ctl ob) p = emitted ob p"
proof (induction p arbitrary: ob)
  case (Cons b p)
  then show ?case using ctl_advance [of ob b] by (metis emits_ctl emitted.simps(2))
qed simp

lemma emitted_cong: "ctl ob = ctl ob' \<Longrightarrow> emitted ob p = emitted ob' p"
  by (metis emitted_ctl)

lemma ctl_observe1: "ctl (observe1 ob b) = ctl (advance ob b)"
  by (simp add: observe1_def ctl_advance)

lemma advance_buf [simp, frame_simps]:
  "ob_buf (advance ob b) = ob_buf ob" "ob_dropped (advance ob b) = ob_dropped ob"
  "ob_binary (advance ob b) = ob_binary ob"
  by (simp_all add: advance_def Let_def)

lemma emitted_append: "emitted ob (p @ q) = emitted ob p @ emitted (foldl advance ob p) q"
  by (induction p arbitrary: ob) simp_all

lemma emitted_observe1: "emitted (observe1 ob b) p = emitted (advance ob b) p"
  by (rule emitted_cong) (rule ctl_observe1)

lemma observe_output:
  assumes "ob_ok ob" and "\<not> ob_binary ob"
    and "length (ob_buf ob) + length (emitted ob p) \<le> maxUnflushedOutput"
  shows "ob_buf (observe ob p) = ob_buf ob @ emitted ob p \<and> ob_dropped (observe ob p) = ob_dropped ob
    \<and> \<not> ob_binary (observe ob p) \<and> ob_ok (observe ob p) \<and> ctl (observe ob p) = ctl (foldl advance ob p)"
  using assms
proof (induction p arbitrary: ob)
  case Nil
  then show ?case by (simp add: observe_stop)
next
  case (Cons b p)
  have len: "length (ob_buf (observe1 ob b)) = length (ob_buf ob) + length (if emits ob then [b] else [])"
    and buf: "ob_buf (observe1 ob b) = ob_buf ob @ (if emits ob then [b] else [])"
    and dr: "ob_dropped (observe1 ob b) = ob_dropped ob" and bin: "\<not> ob_binary (observe1 ob b)"
    using Cons.prems by (auto simp: observe1_def ob_append_eq ob_ok_def)
  have fa: "ctl (foldl advance (observe1 ob b) p) = ctl (foldl advance (advance ob b) p)"
  proof -
    have "ctl ob1 = ctl ob2 \<Longrightarrow> ctl (foldl advance ob1 q) = ctl (foldl advance ob2 q)" for ob1 ob2 q
      by (induction q arbitrary: ob1 ob2) (simp_all add: ctl_advance)
    then show ?thesis using ctl_observe1 by blast
  qed
  have "ob_ok (observe1 ob b)" using Cons.prems observe1_ok by blast
  moreover have "length (ob_buf (observe1 ob b)) + length (emitted (observe1 ob b) p) \<le> maxUnflushedOutput"
    using Cons.prems(3) len by (simp add: emitted_observe1)
  ultimately show ?case
    using Cons.IH [OF _ bin] Cons.prems(1) buf dr fa
    by (simp add: observe_Cons emitted_observe1)
qed

section \<open>Taking output as text\<close>

fun runeCut :: "bytes \<Rightarrow> nat \<Rightarrow> nat \<Rightarrow> nat \<Rightarrow> nat" where
  "runeCut buf en 0 i = en"
| "runeCut buf en (Suc k) 0 = en"
| "runeCut buf en (Suc k) (Suc i) =
     (if RuneStart (buf ! i) then (if FullRune (drop i (take en buf)) then en else i)
      else runeCut buf en k i)"

text \<open>
  \<open>runeCut buf en k (Suc i)\<close> is the loop at index \<open>i\<close> with \<open>k\<close> indices left to look at; it looks
  at \<open>utf8.UTFMax\<close> of them.
\<close>

definition ob_take :: "observer \<Rightarrow> nat \<Rightarrow> bool \<Rightarrow> observer \<times> bytes" where
  "ob_take ob mx final =
     (if ob_buf ob = [] then
        (if final \<and> 0 < ob_dropped ob
         then (ob\<lparr>ob_dropped := 0\<rparr>, [CHR 0x0A] @ ''('' @ fmtNat (ob_dropped ob)
                 @ '' bytes of output dropped)'' @ [CHR 0x0A])
         else (ob, []))
      else
        let cut0 = min mx (length (ob_buf ob));
            en = (if \<not> final \<or> cut0 < length (ob_buf ob) then runeCut (ob_buf ob) cut0 4 cut0 else cut0);
            piece = take en (ob_buf ob)
        in if \<not> Valid piece
           then (ob\<lparr>ob_binary := True, ob_buf := [], ob_dropped := 0\<rparr>, binaryOutputMarker)
           else (ob\<lparr>ob_buf := drop en (ob_buf ob)\<rparr>, piece))"

lemma runeCut_scan:
  assumes "j < i" and "i - j \<le> k" and "RuneStart (buf ! j)"
    and "\<And>m. j < m \<Longrightarrow> m < i \<Longrightarrow> \<not> RuneStart (buf ! m)"
  shows "runeCut buf en k i = (if FullRune (drop j (take en buf)) then en else j)"
  using assms
proof (induction buf en k i rule: runeCut.induct)
  case (3 buf en k i)
  then show ?case
    by (cases "i = j") (auto simp: Suc_diff_le)
qed auto

lemma runeCut_valid:
  assumes v: "Valid (buf @ t)" and en: "en \<le> length buf"
  shows "runeCut buf en 4 en \<le> en \<and> en \<le> runeCut buf en 4 en + 3 \<and>
    Valid (take (runeCut buf en 4 en) buf) \<and> Valid (drop (runeCut buf en 4 en) buf @ t)"
proof -
  have "Valid (take en buf @ (drop en buf @ t))"
    using v by (metis append.assoc append_take_drop_id)
  then obtain a b z where p: "take en buf = a @ b" and va: "Valid a"
    and b: "b = [] \<or> (z \<noteq> [] \<and> is_rune (b @ z))"
    and rest: "b \<noteq> [] \<Longrightarrow> \<exists>q'. drop en buf @ t = z @ q' \<and> Valid q'"
    and rest0: "b = [] \<Longrightarrow> Valid (drop en buf @ t)"
    using Valid_prefix by metis
  have nth: "buf ! m = (a @ b) ! m" if "m < en" for m
    using p that by (metis nth_take)
  have len: "en = length a + length b"
    using p en by (metis length_append length_take min.absorb2)
  show ?thesis
  proof (cases "b = []")
    case True
    show ?thesis
    proof (cases "a = []")
      case True
      then show ?thesis using \<open>b = []\<close> len v by (simp add: eval_nat_numeral)
    next
      case False
      obtain a' r where r: "a = a' @ r" "is_rune r"
        using last_rune [OF va False] by blast
      then have "runeCut buf en 4 en = (if FullRune (drop (length a') (take en buf)) then en else length a')"
        using rune_starts [OF r(2)] is_rune_length [OF r(2)] is_rune_not_Nil [OF r(2)] len \<open>b = []\<close>
        by (intro runeCut_scan) (auto simp: nth nth_append)
      moreover have "FullRune (drop (length a') (take en buf))"
        using FullRune_rune [OF r(2), of "[]"] p r \<open>b = []\<close> by simp
      ultimately show ?thesis
        using va p rest0 \<open>b = []\<close> by simp
    qed
  next
    case False
    then have r: "is_rune (b @ z)" and z: "z \<noteq> []" using b by auto
    have l3: "length b \<le> 3" using is_rune_length [OF r] z by (cases z) auto
    have bz: "b ! i = (b @ z) ! i" if "i < length b" for i
      using that by (simp add: nth_append)
    have st: "RuneStart (b ! 0)" "\<And>i. 0 < i \<Longrightarrow> i < length b \<Longrightarrow> \<not> RuneStart (b ! i)"
      using rune_starts [OF r] False bz by auto
    have "runeCut buf en 4 en = (if FullRune (drop (length a) (take en buf)) then en else length a)"
      using st l3 len False by (intro runeCut_scan) (auto simp: nth nth_append)
    moreover have "\<not> FullRune (drop (length a) (take en buf))"
      using FullRune_started [OF r False z] p by simp
    ultimately have c: "runeCut buf en 4 en = length a" by simp
    obtain q' where q': "drop en buf @ t = z @ q'" "Valid q'" using rest [OF False] by blast
    have ab: "buf = (a @ b) @ drop en buf" using p by (metis append_take_drop_id)
    have ta: "take (length a) buf = a"
      by (subst ab) simp
    have "drop (length a) buf = b @ drop en buf"
      by (subst (1) ab) simp
    then have "Valid (drop (length a) buf @ t)"
      using q' Valid_rune_append [OF r, of q'] by simp
    then show ?thesis using c ta va l3 len by simp
  qed
qed

lemma ob_take_ctl [simp]: "ctl (fst (ob_take ob n f)) = ctl ob"
  by (simp add: ob_take_def Let_def ctl_def)

lemma ob_take_text:
  assumes "Valid (ob_buf ob @ t)" and "\<not> final \<or> n < length (ob_buf ob)"
  shows "case ob_take ob n final of (ob', piece) \<Rightarrow>
    piece @ ob_buf ob' = ob_buf ob \<and> Valid piece \<and> Valid (ob_buf ob' @ t) \<and>
    ob_binary ob' = ob_binary ob \<and> ob_dropped ob' = ob_dropped ob \<and> ob_hdr ob' = ob_hdr ob \<and>
    (min n (length (ob_buf ob)) \<le> length piece + 3)"
proof (cases "ob_buf ob = []")
  case True
  then show ?thesis using assms by (simp add: ob_take_def)
next
  case False
  let ?k = "min n (length (ob_buf ob))"
  let ?c = "runeCut (ob_buf ob) ?k 4 ?k"
  have c: "?c \<le> ?k" "?k \<le> ?c + 3" "Valid (take ?c (ob_buf ob))" "Valid (drop ?c (ob_buf ob) @ t)"
    using runeCut_valid [OF assms(1), where en = ?k, OF min.cobounded2] by blast+
  have "\<not> final \<or> ?k < length (ob_buf ob)" using assms(2) by auto
  then have "ob_take ob n final = (ob\<lparr>ob_buf := drop ?c (ob_buf ob)\<rparr>, take ?c (ob_buf ob))"
    using False c(3) by (simp add: ob_take_def Let_def)
  then show ?thesis using c by simp
qed

text \<open>Replies arriving and output being taken, in any order.\<close>

datatype reply_op = Reply bytes | TakeOutput nat

fun reply_run :: "observer \<Rightarrow> reply_op list \<Rightarrow> observer \<times> bytes list" where
  "reply_run ob [] = (ob, [])"
| "reply_run ob (Reply p # ops) = reply_run (observe ob p) ops"
| "reply_run ob (TakeOutput n # ops) = (case ob_take ob n False of
     (ob1, piece) \<Rightarrow> (case reply_run ob1 ops of (ob2, pieces) \<Rightarrow> (ob2, piece # pieces)))"

fun replies :: "reply_op list \<Rightarrow> bytes" where
  "replies [] = []"
| "replies (Reply p # ops) = p @ replies ops"
| "replies (TakeOutput n # ops) = replies ops"

lemma reply_run_text:
  assumes "ob_ok ob" and "\<not> ob_binary ob" and "Valid (ob_buf ob @ emitted ob (replies ops) @ t)"
    and "length (ob_buf ob) + length (emitted ob (replies ops)) \<le> maxUnflushedOutput"
  shows "case reply_run ob ops of (ob', pieces) \<Rightarrow>
    concat pieces @ ob_buf ob' = ob_buf ob @ emitted ob (replies ops) \<and>
    \<not> ob_binary ob' \<and> ob_dropped ob' = ob_dropped ob \<and> list_all Valid pieces"
  using assms
proof (induction ob ops rule: reply_run.induct)
  case (1 ob)
  then show ?case by simp
next
  case (2 ob p ops)
  have e: "emitted ob (p @ replies ops) = emitted ob p @ emitted (observe ob p) (replies ops)"
    and o: "ob_buf (observe ob p) = ob_buf ob @ emitted ob p"
      "ob_dropped (observe ob p) = ob_dropped ob" "\<not> ob_binary (observe ob p)" "ob_ok (observe ob p)"
    using observe_output [of ob p] 2
    by (auto simp: emitted_append intro: emitted_cong)
  show ?case
    using 2 e o by (auto simp: split_beta)
next
  case (3 ob n ops)
  obtain ob1 piece where t: "ob_take ob n False = (ob1, piece)" by fastforce
  have ctl: "ctl ob1 = ctl ob" using ob_take_ctl [of ob n False] t by simp
  have e: "emitted ob1 (replies ops) = emitted ob (replies ops)"
    by (rule emitted_cong [OF ctl])
  have o: "piece @ ob_buf ob1 = ob_buf ob" "Valid piece"
    "Valid (ob_buf ob1 @ emitted ob (replies ops) @ t)"
    "\<not> ob_binary ob1" "ob_dropped ob1 = ob_dropped ob" "ob_hdr ob1 = ob_hdr ob"
    using ob_take_text [of ob "emitted ob (replies ops) @ t" False n] 3 t by simp_all
  have le: "length (ob_buf ob1) \<le> length (ob_buf ob)"
    using o(1) by (metis length_append le_add2)
  then have "ob_ok ob1" using 3 o by (simp add: ob_ok_def)
  moreover have "length (ob_buf ob1) + length (emitted ob1 (replies ops)) \<le> maxUnflushedOutput"
    using 3 le e by simp
  ultimately have IH: "case reply_run ob1 ops of (ob', pieces) \<Rightarrow>
      concat pieces @ ob_buf ob' = ob_buf ob1 @ emitted ob1 (replies ops) \<and>
      \<not> ob_binary ob' \<and> ob_dropped ob' = ob_dropped ob1 \<and> list_all Valid pieces"
    using 3(1) [OF t [symmetric]] o e by simp
  obtain ob2 pieces where r: "reply_run ob1 ops = (ob2, pieces)" by fastforce
  show ?case
    using IH o(1,2,5) e by (simp add: t r flip: o(1))
qed

section \<open>Shell v2\<close>

lemma four_bytes:
  "n mod 256 + n div 256 mod 256 * 256 + n div 65536 mod 256 * 65536
    + n div 16777216 * 16777216 = (n :: nat)"
proof -
  define q1 q2 q3 where q: "q1 = n div 256" "q2 = q1 div 256" "q3 = q2 div 256"
  have "n div 65536 = q2" "n div 16777216 = q3"
    by (simp_all add: q flip: div_mult2_eq)
  then have "n mod 256 + n div 256 mod 256 * 256 + n div 65536 mod 256 * 65536
      + n div 16777216 * 16777216
    = n mod 256 + q1 mod 256 * 256 + q2 mod 256 * 65536 + q3 * 16777216"
    by (simp add: q(1))
  also have "\<dots> = n"
    using div_mult_mod_eq [of n 256] div_mult_mod_eq [of q1 256] div_mult_mod_eq [of q2 256]
    unfolding q(1) [symmetric] q(2) [symmetric] q(3) [symmetric] by linarith
  finally show ?thesis .
qed

lemma Uint32_PutUint32: "Uint32 (PutUint32 w) = w"
proof -
  have "unat w < 4294967296" using unsigned_less [of w] by simp
  then have m: "unat w div 16777216 mod 256 = unat w div 16777216" by simp
  from four_bytes [of "unat w"]
  have "(\<Sum>i \<leftarrow> [0, 1, 2, 3]. of_char (PutUint32 w ! i) * 256 ^ i) = unat w"
    by (simp only: PutUint32_def list.map nth_Cons_0 nth_Cons_numeral sum_list.Cons sum_list.Nil
        of_char_of) (simp add: m add.assoc)
  then show ?thesis unfolding Uint32_def by simp
qed

definition at_packet :: "observer \<Rightarrow> bool" where
  "at_packet ob \<longleftrightarrow> ob_capture ob \<and> \<not> length (ob_status ob) < 4 \<and> ob_skip ob = 0 \<and> ob_v2 ob \<and>
     ob_left ob = 0 \<and> ob_hdr ob = []"

lemma advance_payload:
  assumes "ob_capture ob" "\<not> length (ob_status ob) < 4" "ob_skip ob = 0" "ob_v2 ob" "ob_left ob = length d"
  shows "emitted ob d = (if ob_keep ob then d else []) \<and> foldl advance ob d = ob\<lparr>ob_left := 0\<rparr>"
  using assms
proof (induction d arbitrary: ob)
  case (Cons b d)
  have "advance ob b = ob\<lparr>ob_left := length d\<rparr>"
    using Cons.prems by (simp add: advance_def)
  moreover have "emits ob = ob_keep ob"
    using Cons.prems by (auto simp: emits_def)
  ultimately show ?case
    using Cons.IH [of "ob\<lparr>ob_left := length d\<rparr>"] Cons.prems by simp
qed simp

lemma emitted_packet:
  assumes "at_packet ob" and "length d < 2 ^ 32"
  shows "emitted ob (WriteShellV2Packet i d) = (if i = CHR 0x01 \<or> i = CHR 0x02 then d else []) \<and>
    at_packet (foldl advance ob (WriteShellV2Packet i d))"
proof -
  let ?n = "of_nat (length d) :: 32 word"
  obtain a b c e where h: "PutUint32 ?n = [a, b, c, e]"
    by (simp add: PutUint32_def)
  have l: "unat (Uint32 [a, b, c, e]) = length d"
    using Uint32_PutUint32 [of ?n] h assms(2) by (simp add: unat_of_nat)
  define ob1 where "ob1 = ob\<lparr>ob_left := length d, ob_keep := (i = CHR 0x01 \<or> i = CHR 0x02), ob_hdr := []\<rparr>"
  have "foldl advance ob (i # [a, b, c, e]) = ob1" and "emitted ob (i # [a, b, c, e]) = []"
    using assms(1) l by (simp_all add: at_packet_def advance_def emits_def ob1_def)
  moreover have "emitted ob1 d = (if ob_keep ob1 then d else [])" "foldl advance ob1 d = ob1\<lparr>ob_left := 0\<rparr>"
    using advance_payload [of ob1 d] assms(1) by (simp_all add: ob1_def at_packet_def)
  ultimately show ?thesis
    using assms(1) h emitted_append [of ob "i # [a, b, c, e]" d]
    by (simp add: WriteShellV2Packet_def ob1_def at_packet_def)
qed

definition stdio :: "(char \<times> bytes) list \<Rightarrow> bytes" where
  "stdio packets = concat (map snd (filter (\<lambda>(i, d). i = shellV2Stdout \<or> i = shellV2Stderr) packets))"

definition packets_bytes :: "(char \<times> bytes) list \<Rightarrow> bytes" where
  "packets_bytes packets = concat (map (\<lambda>(i, d). WriteShellV2Packet i d) packets)"

lemma emitted_packets:
  "at_packet ob \<Longrightarrow> \<forall>p \<in> set packets. length (snd p) < 2 ^ 32 \<Longrightarrow>
     emitted ob (packets_bytes packets) = stdio packets"
proof (induction packets arbitrary: ob)
  case Nil
  then show ?case by (simp add: packets_bytes_def stdio_def)
next
  case (Cons p packets)
  obtain i d where p: "p = (i, d)" by fastforce
  then have "length d < 2 ^ 32" using Cons.prems(2) by auto
  from emitted_packet [OF Cons.prems(1) this, of i] Cons p show ?case
    by (auto simp: packets_bytes_def stdio_def emitted_append shellV2Stdout_def shellV2Stderr_def)
qed

text \<open>The observer once the request \<open>shell,v2...\<close> has been seen.\<close>

definition shell_v2_observer :: "bytes \<Rightarrow> observer" where
  "shell_v2_observer serial = (observer0 serial)\<lparr>ob_capture := True, ob_v2 := True\<rparr>"

lemma emitted_OKAY:
  "emitted (shell_v2_observer s) ''OKAY'' = [] \<and> at_packet (foldl advance (shell_v2_observer s) ''OKAY'')"
  by (simp add: shell_v2_observer_def observer0_def emits_def advance_def at_packet_def)

text \<open>
  C37. The output of a shell v2 session that is text reaches the log unchanged: whatever pieces the
  device's reply arrives in, whenever and in whatever amounts output is taken meanwhile, the pieces
  taken are valid UTF-8 and together with what is still buffered they are exactly the stdout and
  stderr payloads, as long as at most \<open>maxUnflushedOutput\<close> bytes are produced. The stream may end
  in the middle of a character.
\<close>

theorem shell_v2_text_lossless:
  assumes "replies ops = ''OKAY'' @ packets_bytes packets"
    and "\<forall>p \<in> set packets. length (snd p) < 2 ^ 32"
    and "Valid (stdio packets @ t)" and "length (stdio packets) \<le> maxUnflushedOutput"
  shows "case reply_run (shell_v2_observer serial) ops of (ob, pieces) \<Rightarrow>
    concat pieces @ ob_buf ob = stdio packets \<and> list_all Valid pieces \<and>
    \<not> ob_binary ob \<and> ob_dropped ob = 0"
proof -
  let ?ob = "shell_v2_observer serial"
  have e: "emitted ?ob (replies ops) = stdio packets"
    unfolding assms(1) emitted_append
    using emitted_OKAY [of serial] emitted_packets assms(2) by simp
  have f: "ob_buf ?ob = []" "ob_dropped ?ob = 0" "\<not> ob_binary ?ob" "ob_ok ?ob"
    by (simp_all add: shell_v2_observer_def observer0_def ob_ok_def)
  show ?thesis
    using reply_run_text [of ?ob ops t] e f assms(3,4) by (simp add: split_beta)
qed

theorem shell_v2_text_lossless_witness:
  "case reply_run (shell_v2_observer ''s'')
      [Reply ''OK'', Reply (''AY'' @ WriteShellV2Packet CHR 0x01 [CHR ''h'', CHR 0xC3]), TakeOutput 9,
       Reply (WriteShellV2Packet CHR 0x02 [CHR 0xA9])] of (ob, pieces) \<Rightarrow>
    concat pieces @ ob_buf ob = [CHR ''h'', CHR 0xC3, CHR 0xA9] \<and> list_all Valid pieces \<and>
    \<not> ob_binary ob \<and> ob_dropped ob = 0"
proof -
  let ?packets = "[(CHR 0x01, [CHR ''h'', CHR 0xC3]), (CHR 0x02, [CHR 0xA9])]"
  have io: "stdio ?packets = [CHR ''h'', CHR 0xC3, CHR 0xA9]"
    by (simp add: stdio_def shellV2Stdout_def shellV2Stderr_def)
  have v: "Valid (stdio ?packets @ [])"
    unfolding io by (simp add: Valid.simps(2) runeLen_def utf8_first_def byte_def is_rune_def RuneStart_def)
  show ?thesis
    using shell_v2_text_lossless [of _ ?packets, OF _ _ v, unfolded io, where serial = "''s''"
        and ops = "[Reply ''OK'', Reply (''AY'' @ WriteShellV2Packet CHR 0x01 [CHR ''h'', CHR 0xC3]),
          TakeOutput 9, Reply (WriteShellV2Packet CHR 0x02 [CHR 0xA9])]"]
    by (simp add: packets_bytes_def maxUnflushedOutput_def del: reply_run.simps)
qed

end
