(* ===== verification/LockLog.thy ===== *)
theory LockLog
  imports TunnelObserver Logging "HOL-Library.Multiset" "HOL-Library.Sublist"
begin

text \<open>
  The queue half of \<open>internal/proxy/lock_log.go\<close>: what was recorded on one scoped port until it
  is drained into a heartbeat or the release call. Observers are referred to by number, as the
  code refers to them by pointer; the order in which Go walks the set of open ones is an argument
  (\<open>order\<close>) of the operations that walk it. A nil log is \<open>None\<close> for the entry points that
  test for it.
\<close>

definition maxLockLogEntries :: nat where
  "maxLockLogEntries = 2000"

definition maxLockLogPendingBytes :: int where
  "maxLockLogPendingBytes = 32 * 2 ^ 20"

definition maxLockLogServiceLen :: nat where
  "maxLockLogServiceLen = 1000"

definition maxLockLogDrainBytes :: int where
  "maxLockLogDrainBytes = 2 * 2 ^ 20"

definition maxOutputPiece :: nat where
  "maxOutputPiece = 2 ^ 20"

record lock_log =
  ll_pending :: "lock_log_entry list"
  ll_pendingBytes :: int
  ll_truncated :: bool
  ll_nextID :: "64 word"
  ll_open :: "nat set"
  ll_obs :: "nat \<Rightarrow> observer"

definition lock_log0 :: lock_log where
  "lock_log0 = \<lparr>ll_pending = [], ll_pendingBytes = 0, ll_truncated = False, ll_nextID = 0,
     ll_open = {}, ll_obs = (\<lambda>_. observer0 [])\<rparr>"

definition outputs :: "lock_log_entry list \<Rightarrow> int" where
  "outputs es = (\<Sum>e \<leftarrow> es. int (length (Output e)))"

lemma outputs_simps [simp]:
  "outputs [] = 0" "outputs (e # es) = int (length (Output e)) + outputs es"
  "outputs (xs @ ys) = outputs xs + outputs ys"
  by (simp_all add: outputs_def)

lemma outputs_nonneg: "0 \<le> outputs es"
  by (induction es) simp_all

section \<open>Recording\<close>

definition ellipsis :: bytes where
  "ellipsis = [CHR 0xE2, CHR 0x80, CHR 0xA6]"

definition cleanService :: "bytes \<Rightarrow> bytes" where
  "cleanService s = (let r = RedactSecrets s in
     if maxLockLogServiceLen < length r
     then take (maxLockLogServiceLen - length ellipsis) r @ ellipsis else r)"

definition truncationMarker :: "int \<Rightarrow> lock_log_entry" where
  "truncationMarker ts = LockLogEntry\<lparr>TimestampMs := ts,
     Service := ''(log truncated: too much logged between heartbeats)''\<rparr>"

definition recordEntry :: "lock_log \<Rightarrow> lock_log_entry \<Rightarrow> lock_log" where
  "recordEntry l e0 = (let e = e0\<lparr>Service := cleanService (Service e0)\<rparr> in
     if maxLockLogEntries \<le> length (ll_pending l)
        \<or> maxLockLogPendingBytes < ll_pendingBytes l + int (length (Output e))
     then (if \<not> ll_truncated l
           then l\<lparr>ll_truncated := True, ll_pending := ll_pending l @ [truncationMarker (TimestampMs e)]\<rparr>
           else l)
     else l\<lparr>ll_pending := ll_pending l @ [e],
            ll_pendingBytes := ll_pendingBytes l + int (length (Output e))\<rparr>)"

definition Record :: "lock_log option \<Rightarrow> lock_log_entry option \<Rightarrow> lock_log option" where
  "Record l e = (case (l, e) of (Some l', Some e') \<Rightarrow> Some (recordEntry l' e') | _ \<Rightarrow> l)"

section \<open>Draining\<close>

text \<open>The entries taken, those left, and the budget that remains.\<close>

fun drainPending :: "int \<Rightarrow> bool \<Rightarrow> lock_log_entry list \<Rightarrow> lock_log_entry list \<times> lock_log_entry list \<times> int"
where
  "drainPending budget some [] = ([], [], budget)"
| "drainPending budget some (e # es) =
     (if budget < int (length (Output e)) \<and> some then ([], e # es, budget)
      else (case drainPending (budget - int (length (Output e))) True es of
        (out, rest, b) \<Rightarrow> (e # out, rest, b)))"

fun drainOpen :: "(nat \<Rightarrow> observer) \<Rightarrow> int \<Rightarrow> nat list \<Rightarrow> (nat \<Rightarrow> observer) \<times> lock_log_entry list" where
  "drainOpen obs budget [] = (obs, [])"
| "drainOpen obs budget (k # ks) =
     (if budget \<le> 0 then (obs, [])
      else (case ob_take (obs k) (nat budget) False of (ob, piece) \<Rightarrow>
        if piece = [] then drainOpen (obs(k := ob)) budget ks
        else (case drainOpen (obs(k := ob)) (budget - int (length piece)) ks of
          (obs', out) \<Rightarrow> (obs', LockLogEntry\<lparr>RequestId := ob_id ob, Output := piece\<rparr> # out))))"

definition drain :: "lock_log \<Rightarrow> nat list \<Rightarrow> int \<Rightarrow> bool \<Rightarrow> lock_log \<times> lock_log_entry list" where
  "drain l order budget live = (case drainPending budget False (ll_pending l) of
     (out, rest, b) \<Rightarrow>
       let l1 = l\<lparr>ll_pending := rest, ll_pendingBytes := ll_pendingBytes l - outputs out,
                  ll_truncated := (ll_truncated l \<and> rest \<noteq> [])\<rparr>
       in if live then (case drainOpen (ll_obs l1) b order of
              (obs, extra) \<Rightarrow> (l1\<lparr>ll_obs := obs\<rparr>, out @ extra))
          else (l1, out))"

definition Drain :: "lock_log \<Rightarrow> nat list \<Rightarrow> lock_log \<times> lock_log_entry list" where
  "Drain l order = drain l order maxLockLogDrainBytes True"

lemma drainPending_append:
  "drainPending b f es = (out, rest, b') \<Longrightarrow> out @ rest = es \<and> b' = b - outputs out"
proof (induction es arbitrary: b f out rest b')
  case (Cons e es)
  obtain o1 r1 b1 where d: "drainPending (b - int (length (Output e))) True es = (o1, r1, b1)"
    by (cases "drainPending (b - int (length (Output e))) True es") auto
  have "o1 @ r1 = es" "b1 = b - int (length (Output e)) - outputs o1"
    using Cons.IH [OF d] by simp_all
  then show ?case
    using Cons.prems d by (auto split: if_splits)
qed simp

lemma drainPending_first: "es \<noteq> [] \<Longrightarrow> fst (drainPending b False es) \<noteq> []"
  by (cases es) (auto split: prod.split)

lemma drain_pending:
  assumes "drain l order b live = (l', out)"
  shows "\<exists>taken extra. out = taken @ extra \<and> ll_pending l = taken @ ll_pending l' \<and>
    (ll_pending l \<noteq> [] \<longrightarrow> taken \<noteq> []) \<and> (\<not> live \<longrightarrow> extra = [] \<and> ll_obs l' = ll_obs l) \<and>
    ll_pendingBytes l' = ll_pendingBytes l - outputs taken \<and>
    ll_truncated l' = (ll_truncated l \<and> ll_pending l' \<noteq> []) \<and>
    (live \<longrightarrow> drainOpen (ll_obs l) (b - outputs taken) order = (ll_obs l', extra)) \<and>
    ll_open l' = ll_open l \<and> ll_nextID l' = ll_nextID l"
proof -
  obtain taken rest b' where d: "drainPending b False (ll_pending l) = (taken, rest, b')"
    by (cases "drainPending b False (ll_pending l)") auto
  from drainPending_append [OF d] drainPending_first [of "ll_pending l" b] d
  have "taken @ rest = ll_pending l" "b' = b - outputs taken" "ll_pending l \<noteq> [] \<longrightarrow> taken \<noteq> []"
    by auto
  moreover obtain obs extra where "drainOpen (ll_obs l) b' order = (obs, extra)" by fastforce
  ultimately show ?thesis
    using assms d
    by (intro exI [of _ taken] exI [of _ "if live then extra else []"])
      (cases live; auto simp: drain_def Let_def)
qed

lemma drain_dead:
  assumes "drain l order b False = (l', out)"
  shows "ll_pending l = out @ ll_pending l' \<and> (ll_pending l \<noteq> [] \<longrightarrow> out \<noteq> []) \<and>
    ll_obs l' = ll_obs l \<and> ll_open l' = ll_open l"
proof -
  obtain taken extra where "out = taken @ extra" "ll_pending l = taken @ ll_pending l'"
    "ll_pending l \<noteq> [] \<longrightarrow> taken \<noteq> []" "extra = []" "ll_obs l' = ll_obs l" "ll_open l' = ll_open l"
    using drain_pending [OF assms] by blast
  then show ?thesis by (simp only: append_Nil2 simp_thms)
qed

lemma drain_shrinks:
  assumes "drain l order b False = (l', out)" and "out \<noteq> []"
  shows "length (ll_pending l') < length (ll_pending l)"
  using drain_pending [OF assms(1)] assms(2) by auto

function drainAllPending :: "lock_log \<Rightarrow> lock_log \<times> lock_log_entry list" where
  "drainAllPending l = (case drain l [] maxLockLogDrainBytes False of (l1, batch) \<Rightarrow>
     if batch = [] then (l1, []) else (case drainAllPending l1 of (l2, rest) \<Rightarrow> (l2, batch @ rest)))"
  by pat_completeness auto
termination
  by (relation "measure (\<lambda>l. length (ll_pending l))") (auto simp: drain_shrinks [OF sym])

declare drainAllPending.simps [simp del]

definition DrainAll :: "lock_log \<Rightarrow> nat list \<Rightarrow> lock_log \<times> lock_log_entry list" where
  "DrainAll l order = (case drainAllPending l of (l1, everything) \<Rightarrow>
     (case drain l1 order (int (card (ll_open l1)) * int maxUnflushedOutput) True of
       (l2, extra) \<Rightarrow> (l2, everything @ extra)))"

definition Requeue :: "lock_log \<Rightarrow> lock_log_entry list \<Rightarrow> lock_log" where
  "Requeue l entries = (if entries = [] then l
     else l\<lparr>ll_pending := entries @ ll_pending l, ll_pendingBytes := ll_pendingBytes l + outputs entries\<rparr>)"

section \<open>Tunnels\<close>

definition register :: "lock_log \<Rightarrow> nat \<Rightarrow> lock_log" where
  "register l k = l\<lparr>ll_nextID := ll_nextID l + 1,
     ll_obs := (ll_obs l)(k := (ll_obs l k)\<lparr>ob_id := ll_nextID l + 1\<rparr>),
     ll_open := insert k (ll_open l)\<rparr>"

definition unregister :: "lock_log \<Rightarrow> nat \<Rightarrow> lock_log" where
  "unregister l k = l\<lparr>ll_open := ll_open l - {k}\<rparr>"

definition newTunnelObserver :: "lock_log \<Rightarrow> nat \<Rightarrow> bytes \<Rightarrow> lock_log" where
  "newTunnelObserver l k serial = l\<lparr>ll_obs := (ll_obs l)(k := observer0 serial)\<rparr>"

text \<open>The callback \<open>newTunnelObserver\<close> installs for the request.\<close>

definition onService :: "lock_log \<Rightarrow> nat \<Rightarrow> bytes \<Rightarrow> int \<Rightarrow> lock_log" where
  "onService l k service now =
     (let l1 = register (l\<lparr>ll_obs := (ll_obs l)(k := (ll_obs l k)\<lparr>ob_started := now,
                 ob_capture := HasPrefix service ''shell'', ob_v2 := HasPrefix service ''shell,v2''\<rparr>)\<rparr>) k;
          ob = ll_obs l1 k;
          entry = LockLogEntry\<lparr>TimestampMs := now, Serial := ob_serial ob, Service := service,
                    RequestId := ob_id ob\<rparr>;
          l2 = l1\<lparr>ll_obs := (ll_obs l1)(k := ob\<lparr>ob_entry := Some entry\<rparr>)\<rparr>
      in recordEntry l2 (entry\<lparr>Open := True\<rparr>))"

text \<open>\<open>sniffConn.Read\<close> and \<open>sniffConn.Write\<close>, after the socket moved the bytes \<open>p\<close>.\<close>

definition connRead :: "lock_log \<Rightarrow> nat \<Rightarrow> bytes \<Rightarrow> int \<Rightarrow> lock_log" where
  "connRead l k p now =
     (if p = [] \<or> sn_done (ob_conn (ll_obs l k)) then l
      else (case feed (ob_conn (ll_obs l k)) p of (s, ev) \<Rightarrow>
        let l1 = l\<lparr>ll_obs := (ll_obs l)(k := (ll_obs l k)\<lparr>ob_conn := s\<rparr>)\<rparr>
        in (case ev of None \<Rightarrow> l1 | Some service \<Rightarrow> onService l1 k service now)))"

definition connWrite :: "lock_log \<Rightarrow> nat \<Rightarrow> bytes \<Rightarrow> lock_log" where
  "connWrite l k p =
     (let ob = ll_obs l k; c = ob_conn ob;
          ob1 = ob\<lparr>ob_conn := c\<lparr>sn_bytesToClient := sn_bytesToClient c + int (length p)\<rparr>\<rparr>
      in l\<lparr>ll_obs := (ll_obs l)(k := (if p = [] then ob1 else observe ob1 p))\<rparr>)"

text \<open>Every piece taken at the end makes the buffer, or the count of dropped bytes, smaller.\<close>

definition ob_size :: "observer \<Rightarrow> nat" where
  "ob_size ob = length (ob_buf ob) + (if 0 < ob_dropped ob then 1 else 0)"

lemma ob_take_size:
  "ob_take ob n f = (ob', piece) \<Longrightarrow> piece \<noteq> [] \<Longrightarrow> ob_size ob' < ob_size ob"
  by (auto simp: ob_take_def ob_size_def Let_def split: if_splits)

lemma recordEntry_fields [simp, frame_simps]:
  "ll_obs (recordEntry l e) = ll_obs l" "ll_open (recordEntry l e) = ll_open l"
  "ll_nextID (recordEntry l e) = ll_nextID l"
  by (simp_all add: recordEntry_def Let_def)

function finishLoop :: "lock_log \<Rightarrow> nat \<Rightarrow> lock_log" where
  "finishLoop l k = (case ob_take (ll_obs l k) maxOutputPiece True of (ob, piece) \<Rightarrow>
     let l1 = l\<lparr>ll_obs := (ll_obs l)(k := ob)\<rparr>
     in if piece = [] then l1
        else finishLoop (recordEntry l1 (LockLogEntry\<lparr>RequestId := ob_id ob, Output := piece\<rparr>)) k)"
  by pat_completeness auto
termination
  by (relation "measure (\<lambda>(l, k). ob_size (ll_obs l k))") (auto simp: ob_take_size [OF sym])

declare finishLoop.simps [simp del]

definition finish :: "lock_log \<Rightarrow> nat \<Rightarrow> int \<Rightarrow> lock_log" where
  "finish l k now = (case ob_entry (ll_obs l k) of
       None \<Rightarrow> l
     | Some entry \<Rightarrow>
         let l1 = finishLoop (unregister l k) k; ob = ll_obs l1 k;
             e = entry\<lparr>DurationMs := now - ob_started ob, BytesToClient := sn_bytesToClient (ob_conn ob)\<rparr>
         in recordEntry (l1\<lparr>ll_obs := (ll_obs l1)(k := ob\<lparr>ob_entry := Some e\<rparr>)\<rparr>) e)"

section \<open>The queue as the keepalive drives it\<close>

text \<open>
  Tunnels come and go, replies arrive, notes are recorded, and one batch at a time is drained,
  then reported sent or put back.
\<close>

datatype log_op =
    NewTunnel nat bytes
  | ClientBytes nat bytes int
  | DeviceBytes nat bytes
  | TunnelEnd nat int
  | Note lock_log_entry
  | DrainBatch "nat list"
  | DrainRelease "nat list"
  | SendOk
  | SendFailed

record shipping =
  sh_log :: lock_log
  sh_inflight :: "lock_log_entry list"
  sh_sent :: "lock_log_entry list"

definition shipping0 :: shipping where
  "shipping0 = \<lparr>sh_log = lock_log0, sh_inflight = [], sh_sent = []\<rparr>"

definition drainInto :: "shipping \<Rightarrow> lock_log \<times> lock_log_entry list \<Rightarrow> shipping" where
  "drainInto s r = (if sh_inflight s \<noteq> [] then s
     else s\<lparr>sh_log := fst r, sh_inflight := snd r\<rparr>)"

fun log_step :: "shipping \<Rightarrow> log_op \<Rightarrow> shipping" where
  "log_step s (NewTunnel k serial) = s\<lparr>sh_log := newTunnelObserver (sh_log s) k serial\<rparr>"
| "log_step s (ClientBytes k p now) = s\<lparr>sh_log := connRead (sh_log s) k p now\<rparr>"
| "log_step s (DeviceBytes k p) = s\<lparr>sh_log := connWrite (sh_log s) k p\<rparr>"
| "log_step s (TunnelEnd k now) = s\<lparr>sh_log := finish (sh_log s) k now\<rparr>"
| "log_step s (Note e) = s\<lparr>sh_log := recordEntry (sh_log s) e\<rparr>"
| "log_step s (DrainBatch order) = drainInto s (Drain (sh_log s) order)"
| "log_step s (DrainRelease order) = drainInto s (DrainAll (sh_log s) order)"
| "log_step s SendOk = s\<lparr>sh_sent := sh_sent s @ sh_inflight s, sh_inflight := []\<rparr>"
| "log_step s SendFailed = s\<lparr>sh_log := Requeue (sh_log s) (sh_inflight s), sh_inflight := []\<rparr>"

definition log_run :: "shipping \<Rightarrow> log_op list \<Rightarrow> shipping" where
  "log_run s ops = foldl log_step s ops"

text \<open>Entries recorded by an operation: it appends them to the queue and does nothing else to it.\<close>

definition entry_ok :: "lock_log_entry \<Rightarrow> bool" where
  "entry_ok e \<longleftrightarrow> length (Service e) \<le> maxLockLogServiceLen"

definition log_ok :: "lock_log \<Rightarrow> bool" where
  "log_ok l \<longleftrightarrow> ll_pendingBytes l = outputs (ll_pending l) \<and>
     (\<forall>e \<in> set (ll_pending l). entry_ok e) \<and> (\<forall>k. ob_ok (ll_obs l k))"

definition appends :: "lock_log \<Rightarrow> lock_log \<Rightarrow> bool" where
  "appends l l' \<longleftrightarrow> (\<exists>es. ll_pending l' = ll_pending l @ es)"

lemma appends_refl [intro]: "ll_pending l' = ll_pending l \<Longrightarrow> appends l l'"
  by (simp add: appends_def)

lemma appends_trans [trans]: "appends a b \<Longrightarrow> appends b c \<Longrightarrow> appends a c"
  by (auto simp: appends_def)

lemma cleanService_length: "length (cleanService s) \<le> maxLockLogServiceLen"
  by (simp add: cleanService_def Let_def ellipsis_def maxLockLogServiceLen_def)

lemma recordEntry_appends: "appends l (recordEntry l e)"
  by (auto simp: appends_def recordEntry_def Let_def)

lemma recordEntry_ok: "log_ok l \<Longrightarrow> log_ok (recordEntry l e)"
  by (auto simp: log_ok_def recordEntry_def Let_def entry_ok_def
      cleanService_length [unfolded maxLockLogServiceLen_def] truncationMarker_def LockLogEntry_def maxLockLogServiceLen_def)

lemma log_ok_obs:
  "log_ok l \<Longrightarrow> ob_ok ob \<Longrightarrow> log_ok (l\<lparr>ll_obs := (ll_obs l)(k := ob)\<rparr>)"
  by (simp add: log_ok_def)

lemma register_appends: "appends l (register l k)"
  by (auto simp: register_def)

lemma register_ok: "log_ok l \<Longrightarrow> log_ok (register l k)"
  by (auto simp: register_def log_ok_def ob_ok_def)

lemma onService_appends: "appends l (onService l k service now)"
proof -
  have "appends l (l\<lparr>ll_obs := f\<rparr>)" and "appends a (a\<lparr>ll_obs := f\<rparr>)" for f a by auto
  then show ?thesis
    unfolding onService_def Let_def
    by (meson appends_trans recordEntry_appends register_appends)
qed

lemma onService_ok:
  assumes "log_ok l"
  shows "log_ok (onService l k service now)"
proof -
  have k: "ob_ok (ll_obs l k)" using assms by (simp add: log_ok_def)
  let ?l1 = "register (l\<lparr>ll_obs := (ll_obs l)(k := (ll_obs l k)\<lparr>ob_started := now,
                 ob_capture := HasPrefix service ''shell'', ob_v2 := HasPrefix service ''shell,v2''\<rparr>)\<rparr>) k"
  have "log_ok ?l1"
    using assms k by (intro register_ok log_ok_obs) (simp_all add: ob_ok_def)
  moreover from this have "ob_ok (ll_obs ?l1 k)" by (simp add: log_ok_def)
  ultimately show ?thesis
    unfolding onService_def Let_def by (intro recordEntry_ok log_ok_obs) (simp_all add: ob_ok_def)
qed

lemma connRead_appends: "appends l (connRead l k p now)"
proof -
  have "appends l (onService (l\<lparr>ll_obs := f\<rparr>) k s now)" for f s
    using onService_appends [of "l\<lparr>ll_obs := f\<rparr>" k s now] by (simp add: appends_def)
  then show ?thesis
    by (auto simp: connRead_def Let_def split: prod.split option.split)
qed

lemma connRead_ok: "log_ok l \<Longrightarrow> log_ok (connRead l k p now)"
proof -
  assume l: "log_ok l"
  then have "log_ok (l\<lparr>ll_obs := (ll_obs l)(k := (ll_obs l k)\<lparr>ob_conn := c\<rparr>)\<rparr>)" for c
    by (intro log_ok_obs) (simp_all add: log_ok_def ob_ok_def)
  then show ?thesis
    using l by (auto simp: connRead_def Let_def onService_ok split: prod.split option.split)
qed

lemma observe_ok: "ob_ok ob \<Longrightarrow> ob_ok (observe ob p)"
  by (rule reply.good_feed)

lemma connWrite_ok: "log_ok l \<Longrightarrow> log_ok (connWrite l k p)"
proof -
  assume l: "log_ok l"
  have ok: "ob_ok ((ll_obs l k)\<lparr>ob_conn := c\<rparr>)" for c
    using l by (simp add: log_ok_def ob_ok_def)
  have "ob_ok (if p = [] then ob else observe ob p)" if "ob_ok ob" for ob
    using that observe_ok by simp
  then show ?thesis
    unfolding connWrite_def Let_def using l ok by (intro log_ok_obs) blast+
qed

lemma ob_take_ok:
  assumes "ob_ok ob"
  shows "ob_ok (fst (ob_take ob n f))"
proof -
  have "ob_buf (fst (ob_take ob n f)) = [] \<or> (\<exists>c. ob_buf (fst (ob_take ob n f)) = drop c (ob_buf ob))"
    by (auto simp: ob_take_def Let_def)
  moreover have "ob_hdr (fst (ob_take ob n f)) = ob_hdr ob"
    by (simp add: ob_take_def Let_def)
  ultimately show ?thesis using assms by (auto simp: ob_ok_def)
qed

lemma finishLoop_ok:
  "log_ok l \<Longrightarrow> log_ok (finishLoop l k) \<and> appends l (finishLoop l k)"
proof (induction l k rule: finishLoop.induct)
  case (1 l k)
  obtain ob piece where t: "ob_take (ll_obs l k) maxOutputPiece True = (ob, piece)" by fastforce
  have "ob_ok ob" using 1 ob_take_ok [of "ll_obs l k" maxOutputPiece True] t by (simp add: log_ok_def)
  then have l1: "log_ok (l\<lparr>ll_obs := (ll_obs l)(k := ob)\<rparr>)"
    using 1 by (intro log_ok_obs)
  have a: "appends l (l\<lparr>ll_obs := (ll_obs l)(k := ob)\<rparr>)" by auto
  show ?case
  proof (cases "piece = []")
    case True
    then show ?thesis using t l1 a by (subst (1 2) finishLoop.simps) (simp add: Let_def)
  next
    case False
    let ?l = "recordEntry (l\<lparr>ll_obs := (ll_obs l)(k := ob)\<rparr>) (LockLogEntry\<lparr>RequestId := ob_id ob, Output := piece\<rparr>)"
    have "log_ok (finishLoop ?l k) \<and> appends ?l (finishLoop ?l k)"
      using 1 t False l1 by (auto intro: recordEntry_ok)
    moreover have "appends l ?l"
      using a recordEntry_appends by (rule appends_trans)
    ultimately show ?thesis
      using t False by (subst (1 2) finishLoop.simps) (auto simp: Let_def intro: appends_trans)
  qed
qed

lemma finish_ok: "log_ok l \<Longrightarrow> log_ok (finish l k now) \<and> appends l (finish l k now)"
proof -
  assume l: "log_ok l"
  then have "log_ok (unregister l k)" by (simp add: unregister_def log_ok_def)
  from finishLoop_ok [OF this, of k]
  have f: "log_ok (finishLoop (unregister l k) k)" "appends l (finishLoop (unregister l k) k)"
    by (auto simp: appends_def unregister_def)
  have ok: "ob_ok (ll_obs (finishLoop (unregister l k) k) k)"
    using f(1) by (simp add: log_ok_def)
  show ?thesis
  proof (cases "ob_entry (ll_obs l k)")
    case None
    then show ?thesis using l by (auto simp: finish_def)
  next
    case (Some e)
    have "appends (finishLoop (unregister l k) k) ((finishLoop (unregister l k) k)\<lparr>ll_obs := g\<rparr>)" for g
      by auto
    then show ?thesis
      using Some l f ok unfolding finish_def Let_def
      by (auto intro!: recordEntry_ok log_ok_obs simp: ob_ok_def
          intro: appends_trans recordEntry_appends)
  qed
qed

lemma drainOpen_entries:
  "drainOpen obs b ks = (obs', out) \<Longrightarrow>
     (\<forall>e \<in> set out. Service e = [] \<and> Output e \<noteq> []) \<and>
     ((\<forall>k. ob_ok (obs k)) \<longrightarrow> (\<forall>k. ob_ok (obs' k)))"
proof (induction ks arbitrary: obs b obs' out)
  case (Cons k ks)
  obtain ob piece where t: "ob_take (obs k) (nat b) False = (ob, piece)" by fastforce
  have o: "(\<forall>k. ob_ok (obs k)) \<longrightarrow> (\<forall>j. ob_ok ((obs(k := ob)) j))"
    using ob_take_ok [of "obs k" "nat b" False] t by auto
  show ?case
    using Cons.prems t o
    by (auto simp: LockLogEntry_def split: if_splits prod.splits dest!: Cons.IH)
qed simp

text \<open>A drain, with what it does to every part of the log.\<close>

lemma drain_ok:
  assumes "drain l order b live = (l', out)" and "log_ok l"
  shows "log_ok l' \<and> (\<forall>e \<in> set out. entry_ok e) \<and>
    (\<exists>taken extra. out = taken @ extra \<and> ll_pending l = taken @ ll_pending l' \<and>
       (\<forall>e \<in> set extra. Service e = [] \<and> Output e \<noteq> []) \<and> (\<not> live \<longrightarrow> extra = []))"
proof -
  obtain taken extra where d: "out = taken @ extra" "ll_pending l = taken @ ll_pending l'"
    "\<not> live \<longrightarrow> extra = [] \<and> ll_obs l' = ll_obs l"
    "ll_pendingBytes l' = ll_pendingBytes l - outputs taken"
    "live \<longrightarrow> drainOpen (ll_obs l) (b - outputs taken) order = (ll_obs l', extra)"
    using drain_pending [OF assms(1)] by blast
  have e: "(\<forall>e \<in> set extra. Service e = [] \<and> Output e \<noteq> []) \<and> (\<forall>k. ob_ok (ll_obs l' k))"
    using d(3,5) drainOpen_entries assms(2) by (cases live) (auto simp: log_ok_def)
  then have "log_ok l'"
    using assms(2) d unfolding log_ok_def by auto
  moreover have "\<forall>e \<in> set out. entry_ok e"
    using assms(2) d e by (auto simp: log_ok_def entry_ok_def)
  ultimately show ?thesis using d e by blast
qed

lemma drainAllPending_spec:
  "log_ok l \<Longrightarrow> drainAllPending l = (l', out) \<Longrightarrow>
     out = ll_pending l \<and> ll_pending l' = [] \<and> log_ok l' \<and> ll_obs l' = ll_obs l \<and> ll_open l' = ll_open l"
proof (induction l arbitrary: l' out rule: drainAllPending.induct)
  case (1 l)
  obtain l1 batch where d: "drain l [] maxLockLogDrainBytes False = (l1, batch)" by fastforce
  from drain_dead [OF d] have p: "ll_pending l = batch @ ll_pending l1"
    "ll_pending l \<noteq> [] \<longrightarrow> batch \<noteq> []" "ll_obs l1 = ll_obs l" "ll_open l1 = ll_open l"
    by blast+
  have ok: "log_ok l1" using drain_ok [OF d] 1(2) by blast
  have unf: "drainAllPending l = (if batch = [] then (l1, [])
      else (case drainAllPending l1 of (l2, rest) \<Rightarrow> (l2, batch @ rest)))"
    by (subst drainAllPending.simps) (simp add: d)
  show ?case
  proof (cases "batch = []")
    case True
    then have "l' = l1" "out = []" and e: "ll_pending l = []"
      using 1(3) unf p(2) by simp_all
    moreover have "ll_pending l1 = []" using p(1) e by simp
    ultimately show ?thesis using p(3,4) ok e by (simp only: simp_thms)
  next
    case False
    obtain l2 rest where r: "drainAllPending l1 = (l2, rest)" by fastforce
    then have "rest = ll_pending l1 \<and> ll_pending l2 = [] \<and> log_ok l2 \<and> ll_obs l2 = ll_obs l1
        \<and> ll_open l2 = ll_open l1"
      using 1(1) [OF d [symmetric] False ok r] by blast
    moreover have "l' = l2" "out = batch @ rest"
      using 1(3) unf r False by simp_all
    ultimately show ?thesis using p by simp
  qed
qed

lemma DrainAll_spec:
  assumes "DrainAll l order = (l', out)" and "log_ok l"
  shows "log_ok l' \<and> (\<forall>e \<in> set out. entry_ok e) \<and> ll_pending l' = [] \<and>
    (\<exists>extra. out = ll_pending l @ extra \<and> (\<forall>e \<in> set extra. Service e = [] \<and> Output e \<noteq> []) \<and>
       drainOpen (ll_obs l) (int (card (ll_open l)) * int maxUnflushedOutput) order = (ll_obs l', extra))"
proof -
  obtain l1 everything where a: "drainAllPending l = (l1, everything)" by fastforce
  note s = drainAllPending_spec [OF assms(2) a]
  obtain l2 extra where d: "drain l1 order (int (card (ll_open l1)) * int maxUnflushedOutput) True = (l2, extra)"
    by fastforce
  have l': "l' = l2" "out = everything @ extra"
    using assms(1) a d by (auto simp: DrainAll_def)
  have "drainOpen (ll_obs l1) (int (card (ll_open l1)) * int maxUnflushedOutput) order = (ll_obs l2, extra)"
    and "ll_pending l2 = []"
  proof -
    obtain taken extra' where h: "extra = taken @ extra'" "ll_pending l1 = taken @ ll_pending l2"
      "drainOpen (ll_obs l1) (int (card (ll_open l1)) * int maxUnflushedOutput - outputs taken) order
         = (ll_obs l2, extra')"
      using drain_pending [OF d] by blast
    have "taken = []" "ll_pending l2 = []"
      using h(2) s by simp_all
    then show "drainOpen (ll_obs l1) (int (card (ll_open l1)) * int maxUnflushedOutput) order = (ll_obs l2, extra)"
      and "ll_pending l2 = []"
      using h(1,3) by simp_all
  qed
  moreover have "log_ok l2 \<and> (\<forall>e \<in> set extra. entry_ok e)"
    using drain_ok [OF d] s by blast
  ultimately show ?thesis
    using s l' assms(2) drainOpen_entries by (auto simp: log_ok_def)
qed

definition everything :: "shipping \<Rightarrow> lock_log_entry list" where
  "everything s = sh_sent s @ sh_inflight s @ ll_pending (sh_log s)"

definition quiet :: "lock_log_entry list \<Rightarrow> lock_log_entry list" where
  "quiet es = filter (\<lambda>e. Output e = []) es"

definition shipping_ok :: "shipping \<Rightarrow> bool" where
  "shipping_ok s \<longleftrightarrow> log_ok (sh_log s) \<and> (\<forall>e \<in> set (everything s). entry_ok e)"

definition grows :: "shipping \<Rightarrow> shipping \<Rightarrow> bool" where
  "grows s s' \<longleftrightarrow> prefix (quiet (everything s)) (quiet (everything s')) \<and>
     mset (everything s) \<subseteq># mset (everything s')"

lemma quiet_append [simp]: "quiet [] = []" "quiet (xs @ ys) = quiet xs @ quiet ys"
  by (simp_all add: quiet_def)

lemma quiet_output: "\<forall>e \<in> set es. Service e = [] \<and> Output e \<noteq> [] \<Longrightarrow> quiet es = []"
  by (simp add: quiet_def filter_empty_conv)

lemma shipping_append:
  assumes "shipping_ok s" and "log_ok l'" and "appends (sh_log s) l'"
  shows "shipping_ok (s\<lparr>sh_log := l'\<rparr>) \<and> grows s (s\<lparr>sh_log := l'\<rparr>)"
  using assms by (auto simp: shipping_ok_def grows_def everything_def appends_def log_ok_def)

lemma shipping_drain:
  assumes "shipping_ok s" and "log_ok l'" and "\<forall>e \<in> set (taken @ extra). entry_ok e"
    and "ll_pending (sh_log s) = taken @ ll_pending l'"
    and "\<forall>e \<in> set extra. Service e = [] \<and> Output e \<noteq> []"
  shows "shipping_ok (drainInto s (l', taken @ extra)) \<and> grows s (drainInto s (l', taken @ extra))"
  using assms quiet_output [OF assms(5)]
  by (auto simp: drainInto_def shipping_ok_def grows_def everything_def)

lemma log_step_ok:
  assumes s: "shipping_ok s"
  shows "shipping_ok (log_step s op) \<and> grows s (log_step s op)"
proof -
  have l: "log_ok (sh_log s)" using s by (simp add: shipping_ok_def)
  show ?thesis
  proof (cases op)
    case (NewTunnel k serial)
    have "log_ok (newTunnelObserver (sh_log s) k serial)"
      unfolding newTunnelObserver_def using l by (rule log_ok_obs) (simp add: ob_ok_def observer0_def)
    then show ?thesis
      using NewTunnel s by (simp add: shipping_append appends_refl newTunnelObserver_def)
  next
    case (ClientBytes k p now)
    then show ?thesis using shipping_append [OF s connRead_ok [OF l] connRead_appends] by simp
  next
    case (DeviceBytes k p)
    then show ?thesis
      using shipping_append [OF s connWrite_ok [OF l]] by (simp add: appends_refl connWrite_def Let_def)
  next
    case (TunnelEnd k now)
    then show ?thesis using shipping_append [OF s] finish_ok [OF l] by simp
  next
    case (Note e)
    then show ?thesis using shipping_append [OF s recordEntry_ok [OF l] recordEntry_appends] by simp
  next
    case (DrainBatch order)
    obtain l' out where d: "Drain (sh_log s) order = (l', out)" by fastforce
    from drain_ok [OF d [unfolded Drain_def] l] obtain taken extra where
      "out = taken @ extra" "ll_pending (sh_log s) = taken @ ll_pending l'" "log_ok l'"
      "\<forall>e \<in> set out. entry_ok e" "\<forall>e \<in> set extra. Service e = [] \<and> Output e \<noteq> []"
      by blast
    then show ?thesis using shipping_drain [OF s] d DrainBatch by simp
  next
    case (DrainRelease order)
    obtain l' out where d: "DrainAll (sh_log s) order = (l', out)" by fastforce
    from DrainAll_spec [OF d l] obtain extra where
      "out = ll_pending (sh_log s) @ extra" "ll_pending l' = []" "log_ok l'"
      "\<forall>e \<in> set out. entry_ok e" "\<forall>e \<in> set extra. Service e = [] \<and> Output e \<noteq> []"
      by blast
    then show ?thesis
      using shipping_drain [OF s, of l' "ll_pending (sh_log s)" extra] d DrainRelease by simp
  next
    case SendOk
    then show ?thesis using s by (simp add: shipping_ok_def grows_def everything_def)
  next
    case SendFailed
    then show ?thesis
      using s by (auto simp: shipping_ok_def grows_def everything_def Requeue_def log_ok_def)
  qed
qed

lemma grows_trans: "grows a b \<Longrightarrow> grows b c \<Longrightarrow> grows a c"
  unfolding grows_def using prefix_order.trans subset_mset.trans by blast

lemma log_run_ok: "shipping_ok s \<Longrightarrow> shipping_ok (log_run s ops) \<and> grows s (log_run s ops)"
proof (induction ops arbitrary: s)
  case Nil
  then show ?case by (simp add: log_run_def grows_def)
next
  case (Cons op ops)
  then show ?case
    using log_step_ok [of s op] grows_trans unfolding log_run_def foldl_Cons by blast
qed

lemma shipping0_ok: "shipping_ok shipping0"
  by (simp add: shipping_ok_def shipping0_def log_ok_def everything_def lock_log0_def ob_ok_def
      observer0_def)

text \<open>
  The counters and caps of a port's log hold after any sequence of tunnels, replies, notes,
  drains and sends, failed ones included: the byte counter is exactly the output pending, every
  service string stays within 1000 bytes, marker included, and no tunnel buffers more than
  \<open>maxUnflushedOutput\<close>.
\<close>

theorem lock_log_invariant:
  "let s = log_run shipping0 ops in
    ll_pendingBytes (sh_log s) = outputs (ll_pending (sh_log s)) \<and>
    list_all (\<lambda>e. length (Service e) \<le> maxLockLogServiceLen) (everything s) \<and>
    (\<forall>k. length (ob_buf (ll_obs (sh_log s) k)) \<le> maxUnflushedOutput)"
  using log_run_ok [OF shipping0_ok, of ops]
  by (auto simp: shipping_ok_def log_ok_def entry_ok_def ob_ok_def Let_def list_all_iff)

text \<open>
  What an operation puts into the log: a record that fits, the truncation marker in place of the first that does not, and
  what a drain takes from tunnels that are still open. A send puts nothing in, failed or not.
\<close>

definition recordPuts :: "lock_log \<Rightarrow> lock_log_entry \<Rightarrow> lock_log_entry list" where
  "recordPuts l e =
     (if maxLockLogEntries \<le> length (ll_pending l) \<or> maxLockLogPendingBytes < ll_pendingBytes l + int (length (Output e))
      then (if ll_truncated l then [] else [truncationMarker (TimestampMs e)])
      else [e\<lparr>Service := cleanService (Service e)\<rparr>])"

definition openPuts :: "lock_log \<Rightarrow> nat list \<Rightarrow> int \<Rightarrow> lock_log_entry list \<Rightarrow> lock_log_entry list" where
  "openPuts l order budget taken = snd (drainOpen (ll_obs l) (budget - outputs taken) order)"

fun puts :: "shipping \<Rightarrow> log_op \<Rightarrow> lock_log_entry list" where
  "puts s (NewTunnel k serial) = []"
| "puts s (ClientBytes k p now) = (let l = sh_log s; ob = ll_obs l k in
     if p = [] \<or> sn_done (ob_conn ob) then []
     else (case snd (feed (ob_conn ob) p) of
         None \<Rightarrow> []
       | Some service \<Rightarrow> recordPuts l (LockLogEntry\<lparr>TimestampMs := now, Serial := ob_serial ob, Service := service,
           RequestId := ll_nextID l + 1, Open := True\<rparr>)))"
| "puts s (DeviceBytes k p) = []"
| "puts s (TunnelEnd k now) =
     drop (length (ll_pending (sh_log s))) (ll_pending (finish (sh_log s) k now))"
| "puts s (Note e) = recordPuts (sh_log s) e"
| "puts s (DrainBatch order) = (if sh_inflight s \<noteq> [] then []
     else openPuts (sh_log s) order maxLockLogDrainBytes (fst (drainPending maxLockLogDrainBytes False (ll_pending (sh_log s)))))"
| "puts s (DrainRelease order) = (if sh_inflight s \<noteq> [] then []
     else openPuts (sh_log s) order (int (card (ll_open (sh_log s))) * int maxUnflushedOutput) [])"
| "puts s SendOk = []"
| "puts s SendFailed = []"

fun putsAll :: "shipping \<Rightarrow> log_op list \<Rightarrow> lock_log_entry list" where
  "putsAll s [] = []"
| "putsAll s (op # ops) = puts s op @ putsAll (log_step s op) ops"

text \<open>What there is now is what there was and what was put in; and what has no output is in the order it was put in.\<close>

definition conserved :: "shipping \<Rightarrow> lock_log_entry list \<Rightarrow> shipping \<Rightarrow> bool" where
  "conserved s ps s' \<longleftrightarrow> mset (everything s') = mset (everything s) + mset ps \<and>
     quiet (everything s') = quiet (everything s) @ quiet ps"

lemma recordEntry_puts: "ll_pending (recordEntry l e) = ll_pending l @ recordPuts l e"
  by (simp add: recordEntry_def recordPuts_def Let_def)

lemma recordPuts_cong:
  "ll_pending l = ll_pending l' \<Longrightarrow> ll_pendingBytes l = ll_pendingBytes l' \<Longrightarrow> ll_truncated l = ll_truncated l' \<Longrightarrow>
    recordPuts l e = recordPuts l' e"
  by (simp add: recordPuts_def)

lemma conserved_append: "ll_pending l' = ll_pending (sh_log s) @ ps \<Longrightarrow> conserved s ps (s\<lparr>sh_log := l'\<rparr>)"
  by (simp add: conserved_def everything_def)

lemma connRead_puts: "ll_pending (connRead (sh_log s) k p now) = ll_pending (sh_log s) @ puts s (ClientBytes k p now)"
  by (simp add: connRead_def onService_def register_def Let_def recordEntry_puts split: prod.split option.split)
    (auto intro!: recordPuts_cong)

lemma finish_puts: "log_ok (sh_log s) \<Longrightarrow> ll_pending (finish (sh_log s) k now) = ll_pending (sh_log s) @ puts s (TunnelEnd k now)"
  using finish_ok [of "sh_log s" k now] by (auto simp: appends_def)

lemma conserved_drain:
  assumes "ll_pending (sh_log s) = taken @ ll_pending l'" and "\<forall>e \<in> set extra. Service e = [] \<and> Output e \<noteq> []"
  shows "conserved s (if sh_inflight s \<noteq> [] then [] else extra) (drainInto s (l', taken @ extra))"
  using assms quiet_output [OF assms(2)] by (auto simp: conserved_def drainInto_def everything_def)

lemma log_step_conserved:
  assumes "shipping_ok s"
  shows "conserved s (puts s op) (log_step s op)"
proof -
  have l: "log_ok (sh_log s)" using assms by (simp add: shipping_ok_def)
  show ?thesis
  proof (cases op)
    case (DrainBatch order)
    obtain l' out where d: "drain (sh_log s) order maxLockLogDrainBytes True = (l', out)" by fastforce
    let ?taken = "fst (drainPending maxLockLogDrainBytes False (ll_pending (sh_log s)))"
    from drain_pending [OF d] obtain taken extra where h: "out = taken @ extra" "ll_pending (sh_log s) = taken @ ll_pending l'"
      "drainOpen (ll_obs (sh_log s)) (maxLockLogDrainBytes - outputs taken) order = (ll_obs l', extra)" by blast
    have "ll_pending l' = fst (snd (drainPending maxLockLogDrainBytes False (ll_pending (sh_log s))))"
      using d by (auto simp: drain_def Let_def split: prod.splits)
    then have "?taken @ ll_pending l' = ll_pending (sh_log s)"
      using drainPending_append by (metis prod.collapse)
    then have t: "taken = ?taken" using h(2) by simp
    have "\<forall>e \<in> set extra. Service e = [] \<and> Output e \<noteq> []" using drainOpen_entries [OF h(3)] by blast
    from conserved_drain [OF h(2) this] show ?thesis
      using DrainBatch d h(1,3) t by (cases "sh_inflight s = []") (simp_all add: Drain_def openPuts_def)
  next
    case (DrainRelease order)
    obtain l' out where d: "DrainAll (sh_log s) order = (l', out)" by fastforce
    from DrainAll_spec [OF d l] obtain extra where h: "out = ll_pending (sh_log s) @ extra" "ll_pending l' = []"
      "\<forall>e \<in> set extra. Service e = [] \<and> Output e \<noteq> []"
      "drainOpen (ll_obs (sh_log s)) (int (card (ll_open (sh_log s))) * int maxUnflushedOutput) order = (ll_obs l', extra)"
      by blast
    from conserved_drain [of s "ll_pending (sh_log s)" l' extra] show ?thesis
      using DrainRelease d h by (cases "sh_inflight s = []") (simp_all add: openPuts_def)
  next
    case (ClientBytes k p now)
    then show ?thesis using conserved_append [OF connRead_puts] by simp
  next
    case (TunnelEnd k now)
    then show ?thesis using conserved_append [OF finish_puts [OF l]] by simp
  next
    case (Note e)
    then show ?thesis using conserved_append [OF recordEntry_puts] by simp
  qed (simp_all add: conserved_def everything_def newTunnelObserver_def connWrite_def Let_def Requeue_def)
qed

lemma log_run_conserved: "shipping_ok s \<Longrightarrow> conserved s (putsAll s ops) (log_run s ops)"
proof (induction ops arbitrary: s)
  case Nil
  then show ?case by (simp add: log_run_def conserved_def)
next
  case (Cons op ops)
  have "conserved (log_step s op) (putsAll (log_step s op) ops) (log_run (log_step s op) ops)"
    by (rule Cons.IH) (use log_step_ok [OF Cons.prems] in blast)
  then show ?case using log_step_conserved [OF Cons.prems, of op] by (simp add: conserved_def log_run_def ac_simps)
qed


section \<open>The release drains everything\<close>

definition pieceOf :: "observer \<Rightarrow> lock_log_entry list" where
  "pieceOf ob = (case ob_take ob (length (ob_buf ob)) False of (_, piece) \<Rightarrow>
     if piece = [] then [] else [LockLogEntry\<lparr>RequestId := ob_id ob, Output := piece\<rparr>])"

lemma ob_take_enough: "length (ob_buf ob) \<le> n \<Longrightarrow> ob_take ob n f = ob_take ob (length (ob_buf ob)) f"
  by (simp add: ob_take_def)

lemma ob_take_piece_le:
  assumes "length (ob_buf ob) \<le> maxUnflushedOutput"
  shows "length (snd (ob_take ob n False)) \<le> maxUnflushedOutput"
  using assms by (auto simp: ob_take_def Let_def binaryOutputMarker_def maxUnflushedOutput_def)

lemma ob_take_id [simp]: "ob_id (fst (ob_take ob n f)) = ob_id ob"
  by (simp add: ob_take_def Let_def)

lemma drainOpen_all:
  assumes "int (length ks) * int maxUnflushedOutput \<le> b" and "distinct ks"
    and "\<And>k. length (ob_buf (obs k)) \<le> maxUnflushedOutput"
  shows "drainOpen obs b ks =
    ((\<lambda>k. if k \<in> set ks then fst (ob_take (obs k) (length (ob_buf (obs k))) False) else obs k),
     concat (map (\<lambda>k. pieceOf (obs k)) ks))"
  using assms
proof (induction ks arbitrary: obs b)
  case (Cons k ks)
  let ?M = "int maxUnflushedOutput"
  obtain ob piece where t: "ob_take (obs k) (length (ob_buf (obs k))) False = (ob, piece)" by fastforce
  have "?M \<le> int (length (k # ks)) * ?M"
    by (simp add: algebra_simps)
  then have b: "?M \<le> b" using Cons.prems(1) by linarith
  have "length (ob_buf (obs k)) \<le> nat b"
    using b Cons.prems(3) [of k] by linarith
  then have t': "ob_take (obs k) (nat b) False = (ob, piece)"
    using ob_take_enough t by metis
  have pos: "0 < b" using b by (simp add: maxUnflushedOutput_def)
  have pl: "length piece \<le> maxUnflushedOutput"
    using ob_take_piece_le [OF Cons.prems(3), of k "length (ob_buf (obs k))"] t by simp
  let ?b = "if piece = [] then b else b - int (length piece)"
  have rest: "int (length ks) * ?M \<le> ?b"
    using Cons.prems(1) pl by (auto simp: algebra_simps)
  have lenb: "length (ob_buf ((obs(k := ob)) j)) \<le> maxUnflushedOutput" for j
  proof (cases "j = k")
    case True
    have "length (ob_buf ob) \<le> length (ob_buf (obs k))"
      using t by (auto simp: ob_take_def Let_def split: if_splits)
    then show ?thesis using True Cons.prems(3) [of k] by simp
  qed (simp add: Cons.prems(3))
  have IH: "drainOpen (obs(k := ob)) ?b ks =
    ((\<lambda>j. if j \<in> set ks then fst (ob_take ((obs(k := ob)) j) (length (ob_buf ((obs(k := ob)) j))) False)
          else (obs(k := ob)) j), concat (map (\<lambda>j. pieceOf ((obs(k := ob)) j)) ks))"
    by (rule Cons.IH [OF rest _ lenb]) (use Cons.prems(2) in simp)
  have k: "k \<notin> set ks" using Cons.prems(2) by simp
  then have m: "map (\<lambda>j. pieceOf ((obs(k := ob)) j)) ks = map (\<lambda>j. pieceOf (obs j)) ks"
    by (intro map_cong) auto
  have p: "pieceOf (obs k) = (if piece = [] then [] else [LockLogEntry\<lparr>RequestId := ob_id ob, Output := piece\<rparr>])"
    using t ob_take_id [of "obs k" "length (ob_buf (obs k))" False] by (simp add: pieceOf_def)
  have f: "(\<lambda>j. if j \<in> set ks then fst (ob_take ((obs(k := ob)) j) (length (ob_buf ((obs(k := ob)) j))) False)
          else (obs(k := ob)) j)
      = (\<lambda>j. if j \<in> set (k # ks) then fst (ob_take (obs j) (length (ob_buf (obs j))) False) else obs j)"
    using k t by (intro ext) auto
  show ?case
    using pos IH [unfolded f m] by (cases "piece = []") (simp_all add: t' p)
qed simp

lemma pieceOf_text:
  assumes "Valid (ob_buf ob @ t)"
  shows "\<exists>piece. pieceOf ob = (if piece = [] then [] else [LockLogEntry\<lparr>RequestId := ob_id ob, Output := piece\<rparr>]) \<and>
    ob_buf ob = piece @ ob_buf (fst (ob_take ob (length (ob_buf ob)) False)) \<and>
    length (ob_buf (fst (ob_take ob (length (ob_buf ob)) False))) \<le> 3"
proof -
  obtain ob' piece where r: "ob_take ob (length (ob_buf ob)) False = (ob', piece)" by fastforce
  from ob_take_text [OF assms, of False "length (ob_buf ob)"] r
  have "piece @ ob_buf ob' = ob_buf ob" "length (ob_buf ob) \<le> length piece + 3" by simp_all
  moreover from this have "length (ob_buf ob) = length piece + length (ob_buf ob')"
    by (metis length_append)
  ultimately have "ob_buf ob = piece @ ob_buf ob'" "length (ob_buf ob') \<le> 3" by simp_all
  then show ?thesis using r by (auto simp: pieceOf_def intro!: exI [of _ piece])
qed

text \<open>
  The release message carries everything: all pending entries in order, then, for each tunnel
  still open, what it holds, as one piece. Nothing stays pending, the byte counter is zero, and a
  tunnel whose output is text keeps at most the three bytes of a character that has not fully
  arrived.
\<close>

theorem DrainAll_complete:
  assumes "DrainAll (sh_log (log_run shipping0 ops)) order = (l', out)"
    and "distinct order" and "set order = ll_open (sh_log (log_run shipping0 ops))"
  shows "let l = sh_log (log_run shipping0 ops) in
    out = ll_pending l @ concat (map (\<lambda>k. pieceOf (ll_obs l k)) order) \<and>
    ll_pending l' = [] \<and> ll_pendingBytes l' = 0 \<and>
    (\<forall>k t. k \<in> ll_open l \<and> Valid (ob_buf (ll_obs l k) @ t) \<longrightarrow>
       length (ob_buf (ll_obs l' k)) \<le> 3 \<and>
       (\<exists>piece. pieceOf (ll_obs l k) = (if piece = [] then [] else
            [LockLogEntry\<lparr>RequestId := ob_id (ll_obs l k), Output := piece\<rparr>]) \<and>
          ob_buf (ll_obs l k) = piece @ ob_buf (ll_obs l' k)))"
proof -
  define l where "l = sh_log (log_run shipping0 ops)"
  have ok: "log_ok l"
    using log_run_ok [OF shipping0_ok, of ops] by (simp add: l_def shipping_ok_def)
  obtain extra where s: "ll_pending l' = []" "log_ok l'" "out = ll_pending l @ extra"
    "drainOpen (ll_obs l) (int (card (ll_open l)) * int maxUnflushedOutput) order = (ll_obs l', extra)"
    using DrainAll_spec [OF assms(1) [folded l_def] ok] by blast
  have c: "card (ll_open l) = length order"
    using assms(2,3) by (metis distinct_card l_def)
  have "\<And>k. length (ob_buf (ll_obs l k)) \<le> maxUnflushedOutput"
    using ok by (simp add: log_ok_def ob_ok_def)
  from drainOpen_all [OF _ assms(2) this, of "int (card (ll_open l)) * int maxUnflushedOutput"] c s(4)
  have e: "extra = concat (map (\<lambda>k. pieceOf (ll_obs l k)) order)"
    and o: "ll_obs l' = (\<lambda>k. if k \<in> set order then
      fst (ob_take (ll_obs l k) (length (ob_buf (ll_obs l k))) False) else ll_obs l k)"
    by simp_all
  have "ll_pendingBytes l' = 0" using s(1,2) by (simp add: log_ok_def)
  moreover have "length (ob_buf (ll_obs l' k)) \<le> 3 \<and>
       (\<exists>piece. pieceOf (ll_obs l k) = (if piece = [] then [] else
            [LockLogEntry\<lparr>RequestId := ob_id (ll_obs l k), Output := piece\<rparr>]) \<and>
          ob_buf (ll_obs l k) = piece @ ob_buf (ll_obs l' k))"
    if "k \<in> ll_open l" "Valid (ob_buf (ll_obs l k) @ t)" for k t
    using pieceOf_text [OF that(2)] that(1) assms(3) by (auto simp: o l_def)
  ultimately show ?thesis
    using s(1,3) e unfolding l_def [symmetric] Let_def by blast
qed

definition one_tunnel :: "log_op list" where
  "one_tunnel = [NewTunnel 0 ''s'', ClientBytes 0 ''0003'' 5, ClientBytes 0 ''foo'' 5]"

lemma one_tunnel_open: "ll_open (sh_log (log_run shipping0 one_tunnel)) = {0}"
  by (simp add: one_tunnel_def log_run_def shipping0_def lock_log0_def newTunnelObserver_def
      connRead_def observer0_def newSniffConn_def feed_def feedHeader_def feedService_def hexVal_def
      digitVal_def onService_def register_def Let_def)

theorem DrainAll_complete_witness:
  "\<exists>l' out. DrainAll (sh_log (log_run shipping0 one_tunnel)) [0] = (l', out) \<and>
     ll_pending l' = [] \<and> ll_pendingBytes l' = 0"
proof -
  obtain l' out where d: "DrainAll (sh_log (log_run shipping0 one_tunnel)) [0] = (l', out)"
    by fastforce
  show ?thesis
    using DrainAll_complete [OF d] one_tunnel_open d by (auto simp: Let_def)
qed

section \<open>The end of a tunnel\<close>

text \<open>What \<open>finish\<close> takes from the observer, apart from the log it records it in.\<close>

function finishPieces :: "observer \<Rightarrow> observer \<times> bytes list" where
  "finishPieces ob = (case ob_take ob maxOutputPiece True of (ob1, piece) \<Rightarrow>
     if piece = [] then (ob1, [])
     else (case finishPieces ob1 of (ob2, pieces) \<Rightarrow> (ob2, piece # pieces)))"
  by pat_completeness auto
termination
  by (relation "measure ob_size") (auto simp: ob_take_size [OF sym])

declare finishPieces.simps [simp del]

lemma finishLoop_pieces:
  "finishPieces (ll_obs l k) = (ob', pieces) \<Longrightarrow>
     finishLoop l k =
       (foldl recordEntry l (map (\<lambda>p. LockLogEntry\<lparr>RequestId := ob_id (ll_obs l k), Output := p\<rparr>) pieces))
         \<lparr>ll_obs := (ll_obs l)(k := ob')\<rparr>"
proof (induction pieces arbitrary: l)
  case Nil
  obtain ob1 piece where t: "ob_take (ll_obs l k) maxOutputPiece True = (ob1, piece)" by fastforce
  then have "piece = []" "ob1 = ob'"
    using Nil by (subst (asm) finishPieces.simps, auto split: if_splits prod.splits)+
  then show ?case using t by (subst finishLoop.simps) (simp add: Let_def)
next
  case (Cons p pieces)
  obtain ob1 piece where t: "ob_take (ll_obs l k) maxOutputPiece True = (ob1, piece)" by fastforce
  then have p: "piece = p" "p \<noteq> []" "finishPieces ob1 = (ob', pieces)"
    using Cons.prems by (subst (asm) finishPieces.simps, auto split: if_splits prod.splits)+
  have id: "ob_id ob1 = ob_id (ll_obs l k)"
    using ob_take_id [of "ll_obs l k" maxOutputPiece True] t by simp
  let ?e = "LockLogEntry\<lparr>RequestId := ob_id (ll_obs l k), Output := p\<rparr>"
  let ?l = "recordEntry (l\<lparr>ll_obs := (ll_obs l)(k := ob1)\<rparr>) ?e"
  have rec: "recordEntry (l\<lparr>ll_obs := f\<rparr>) e = (recordEntry l e)\<lparr>ll_obs := f\<rparr>" for l f e
    by (simp add: recordEntry_def Let_def)
  have recs: "foldl recordEntry (l\<lparr>ll_obs := f\<rparr>) es = (foldl recordEntry l es)\<lparr>ll_obs := f\<rparr>" for l f es
    by (induction es arbitrary: l) (simp_all add: rec)
  have "finishLoop l k = finishLoop ?l k"
    using t p id by (subst finishLoop.simps) (simp add: Let_def)
  also have "\<dots> = (foldl recordEntry ?l (map (\<lambda>p. LockLogEntry\<lparr>RequestId := ob_id (ll_obs ?l k), Output := p\<rparr>) pieces))
      \<lparr>ll_obs := (ll_obs ?l)(k := ob')\<rparr>"
    using p by (intro Cons.IH) simp
  finally show ?case
    by (simp add: id rec recs) (simp only: fun_upd_def)
qed

definition dropNotice :: "nat \<Rightarrow> bytes" where
  "dropNotice n = (if n = 0 then []
     else [CHR 0x0A] @ ''('' @ fmtNat n @ '' bytes of output dropped)'' @ [CHR 0x0A])"

lemma runeCut_le: "en \<le> runeCut buf en k i + k \<or> en \<le> runeCut buf en k i + (en - i) + k"
  by (induction buf en k i rule: runeCut.induct) auto

lemma ob_take_final:
  assumes "ob_buf ob \<noteq> []" and "ob_take ob maxOutputPiece True = (ob1, piece)"
  shows "piece \<noteq> [] \<and>
    (Valid piece \<and> ob_buf ob = piece @ ob_buf ob1 \<and> ob_dropped ob1 = ob_dropped ob \<or>
     \<not> Valid (ob_buf ob) \<and> piece = binaryOutputMarker \<and> ob_buf ob1 = [] \<and> ob_dropped ob1 = 0)"
proof -
  let ?k = "min maxOutputPiece (length (ob_buf ob))"
  let ?c = "if ?k < length (ob_buf ob) then runeCut (ob_buf ob) ?k 4 ?k else ?k"
  have r: "(ob1, piece) = (if \<not> Valid (take ?c (ob_buf ob))
      then (ob\<lparr>ob_binary := True, ob_buf := [], ob_dropped := 0\<rparr>, binaryOutputMarker)
      else (ob\<lparr>ob_buf := drop ?c (ob_buf ob)\<rparr>, take ?c (ob_buf ob)))"
    using assms by (simp add: ob_take_def Let_def)
  have pos: "0 < ?c"
    using assms(1) runeCut_le [of ?k "ob_buf ob" 4 ?k] by (auto simp: maxOutputPiece_def)
  have "\<not> Valid (ob_buf ob)" if "\<not> Valid (take ?c (ob_buf ob))"
  proof
    assume "Valid (ob_buf ob)"
    then have "Valid (take ?c (ob_buf ob))"
      using runeCut_valid [of "ob_buf ob" "[]" ?k] by auto
    then show False using that by blast
  qed
  then show ?thesis
    using r pos assms(1) by (cases "Valid (take ?c (ob_buf ob))") (auto simp: binaryOutputMarker_def)
qed

lemma finish_pieces:
  "case finishPieces ob of (ob', pieces) \<Rightarrow>
    ob_buf ob' = [] \<and> ob_dropped ob' = 0 \<and>
    (if Valid (ob_buf ob) then concat pieces = ob_buf ob @ dropNotice (ob_dropped ob)
     else pieces \<noteq> [] \<and> last pieces = binaryOutputMarker)"
proof (induction ob rule: finishPieces.induct)
  case (1 ob)
  obtain ob1 piece where t: "ob_take ob maxOutputPiece True = (ob1, piece)" by fastforce
  show ?case
  proof (cases "ob_buf ob = []")
    case True
    then show ?thesis
    proof (cases "0 < ob_dropped ob")
      case True
      have "finishPieces (ob\<lparr>ob_dropped := 0\<rparr>) = (ob\<lparr>ob_dropped := 0\<rparr>, [])"
        using \<open>ob_buf ob = []\<close> by (subst finishPieces.simps) (simp add: ob_take_def)
      then show ?thesis
        using True \<open>ob_buf ob = []\<close>
        by (subst finishPieces.simps) (simp add: ob_take_def dropNotice_def)
    next
      case False
      then show ?thesis
        using \<open>ob_buf ob = []\<close> by (subst finishPieces.simps) (simp add: ob_take_def dropNotice_def)
    qed
  next
    case ne: False
    note pc = ob_take_final [OF ne t]
    obtain ob2 pieces where f: "finishPieces ob1 = (ob2, pieces)" by fastforce
    have u: "finishPieces ob = (ob2, piece # pieces)"
      using t f pc by (subst finishPieces.simps) simp
    have IH: "ob_buf ob2 = [] \<and> ob_dropped ob2 = 0 \<and>
        (if Valid (ob_buf ob1) then concat pieces = ob_buf ob1 @ dropNotice (ob_dropped ob1)
         else pieces \<noteq> [] \<and> last pieces = binaryOutputMarker)"
      using 1 [OF t [symmetric]] pc f by simp
    show ?thesis
    proof (cases "Valid piece \<and> ob_buf ob = piece @ ob_buf ob1")
      case True
      then have "Valid (ob_buf ob) = Valid (ob_buf ob1)" and "ob_dropped ob1 = ob_dropped ob"
        using Valid_append [of piece "ob_buf ob1"] pc by (auto simp: ob_append_def)
      then show ?thesis using u IH True by simp
    next
      case False
      then have m: "\<not> Valid (ob_buf ob)" "piece = binaryOutputMarker" "ob_buf ob1 = []" "ob_dropped ob1 = 0"
        using pc by blast+
      then have "pieces = []"
        using f by (subst (asm) finishPieces.simps) (simp add: ob_take_def)
      then show ?thesis using u IH m by simp
    qed
  qed
qed

lemma finish_pieces_last:
  "\<not> Valid (ob_buf ob) \<Longrightarrow> case finishPieces ob of (ob', pieces) \<Rightarrow> last pieces = binaryOutputMarker"
  using finish_pieces [of ob] by (simp add: split_beta)

text \<open>
  The end of a tunnel. If what is buffered is text, the pieces \<open>finish\<close> records are exactly
  the buffered bytes and then the notice of how many were dropped. If it is not, the last piece
  is the marker for binary output and no notice follows: so when output was dropped at the cap in
  the middle of a character, which makes the buffer invalid, the tail of the text and the count of
  what was dropped are both replaced by "(binary output omitted)".
\<close>

theorem finish_output:
  "case finishPieces (ll_obs l k) of (ob', pieces) \<Rightarrow>
    finishLoop l k = (foldl recordEntry l
        (map (\<lambda>p. LockLogEntry\<lparr>RequestId := ob_id (ll_obs l k), Output := p\<rparr>) pieces))
      \<lparr>ll_obs := (ll_obs l)(k := ob')\<rparr> \<and>
    ob_buf ob' = [] \<and> ob_dropped ob' = 0 \<and>
    (if Valid (ob_buf (ll_obs l k))
     then concat pieces = ob_buf (ll_obs l k) @ dropNotice (ob_dropped (ll_obs l k))
     else pieces \<noteq> [] \<and> last pieces = binaryOutputMarker)"
  using finish_pieces [of "ll_obs l k"] finishLoop_pieces [of l k]
  by (cases "finishPieces (ll_obs l k)") simp

text \<open>
  The cap cutting a character in two: a text one byte short of the cap, followed by a two-byte
  character. The text is valid before and after, but the log ends in the binary marker and the
  dropped byte is never mentioned.
\<close>

lemma dropped_mid_character:
  assumes "Valid s" and "length s + 1 = maxUnflushedOutput" and "\<not> ob_binary ob" and "ob_buf ob = s"
  shows "Valid (s @ [CHR 0xC3, CHR 0xA9]) \<and>
    (case finishPieces (ob_append ob [CHR 0xC3, CHR 0xA9]) of (ob', pieces) \<Rightarrow>
       last pieces = binaryOutputMarker)"
proof -
  have v: "Valid (s @ [CHR 0xC3, CHR 0xA9])"
    using assms(1) by (simp add: Valid_append Valid.simps(2) runeLen_def utf8_first_def byte_def
        is_rune_def)
  have nv: "\<not> Valid (s @ [CHR 0xC3])"
    using assms(1) by (simp add: Valid_append Valid.simps(2) runeLen_def utf8_first_def byte_def
        is_rune_def)
  have "ob_buf (ob_append ob [CHR 0xC3, CHR 0xA9]) = s @ [CHR 0xC3]"
    using assms(2-4) by (simp add: ob_append_def Let_def flip: assms(2))
  then show ?thesis
    using v nv finish_pieces_last [of "ob_append ob [CHR 0xC3, CHR 0xA9]"] by simp
qed

section \<open>Two limits of the queue\<close>

lemma drainPending_fit:
  "outputs xs \<le> b \<Longrightarrow> drainPending b f (xs @ ys) =
     (case drainPending (b - outputs xs) (f \<or> xs \<noteq> []) ys of (out, rest, b') \<Rightarrow> (xs @ out, rest, b'))"
proof (induction xs arbitrary: b f)
  case Nil
  then show ?case by (simp split: prod.split)
next
  case (Cons e xs)
  have "outputs xs \<le> b - int (length (Output e))" and "int (length (Output e)) \<le> b"
    using Cons.prems outputs_nonneg [of xs] by simp_all
  with Cons.IH [of "b - int (length (Output e))" True] show ?case
    by (simp add: algebra_simps split: prod.split)
qed

text \<open>
  Output can leave before the entry that opens its request. When the next pending entry does
  not fit what is left of a drain's budget, everything behind it waits, but the budget that is left
  goes to the open tunnels: a request whose open entry is among those waiting has its output
  shipped in this batch and its open entry only in a later one.
\<close>

theorem drain_output_before_open:
  assumes "ll_pending l = xs @ big # ys" and "xs \<noteq> []" and "outputs xs < maxLockLogDrainBytes"
    and "maxLockLogDrainBytes < outputs xs + int (length (Output big))"
    and "openEntry \<in> set ys" and "Open openEntry" and "RequestId openEntry = ob_id (ll_obs l k)"
    and "Valid (ob_buf (ll_obs l k))" and "4 \<le> length (ob_buf (ll_obs l k))"
    and "outputs xs + 4 \<le> maxLockLogDrainBytes"
  shows "case Drain l [k] of (l', out) \<Rightarrow>
    ll_pending l' = big # ys \<and> openEntry \<in> set (ll_pending l') \<and>
    (\<exists>piece. piece \<noteq> [] \<and>
       out = xs @ [LockLogEntry\<lparr>RequestId := RequestId openEntry, Output := piece\<rparr>])"
proof -
  let ?b = "maxLockLogDrainBytes - outputs xs"
  have d: "drainPending maxLockLogDrainBytes False (ll_pending l) = (xs, big # ys, ?b)"
    using assms(1-4) by (simp add: drainPending_fit)
  obtain ob piece where t: "ob_take (ll_obs l k) (nat ?b) False = (ob, piece)" by fastforce
  from ob_take_text [of "ll_obs l k" "[]" False "nat ?b"] assms(8) t
  have "min (nat ?b) (length (ob_buf (ll_obs l k))) \<le> length piece + 3" by simp
  moreover have "4 \<le> nat ?b" using assms(10) by linarith
  ultimately have ne: "piece \<noteq> []" using assms(9) by auto
  have "ob_id ob = RequestId openEntry"
    using ob_take_id [of "ll_obs l k" "nat ?b" False] t assms(7) by simp
  then show ?thesis
    using d t ne assms(3,5) by (auto simp: Drain_def drain_def Let_def)
qed

lemma outputs_single: "outputs [LockLogEntry\<lparr>RequestId := i, Output := replicate n c\<rparr>] = int n"
  by simp

theorem drain_output_before_open_witness:
  "\<exists>l' piece. Drain (lock_log0\<lparr>ll_pending :=
       [LockLogEntry\<lparr>RequestId := 1, Output := replicate 1048576 CHR ''x''\<rparr>,
        LockLogEntry\<lparr>RequestId := 1, Output := replicate 1048577 CHR ''x''\<rparr>,
        LockLogEntry\<lparr>RequestId := 7, Open := True, Service := ''shell:ls''\<rparr>],
       ll_obs := (\<lambda>_. (observer0 [])\<lparr>ob_id := 7, ob_buf := ''text''\<rparr>)\<rparr>) [0]
     = (l', [LockLogEntry\<lparr>RequestId := 1, Output := replicate 1048576 CHR ''x''\<rparr>,
             LockLogEntry\<lparr>RequestId := 7, Output := piece\<rparr>]) \<and> piece \<noteq> []"
proof -
  let ?l = "lock_log0\<lparr>ll_pending :=
       [LockLogEntry\<lparr>RequestId := 1, Output := replicate 1048576 CHR ''x''\<rparr>,
        LockLogEntry\<lparr>RequestId := 1, Output := replicate 1048577 CHR ''x''\<rparr>,
        LockLogEntry\<lparr>RequestId := 7, Open := True, Service := ''shell:ls''\<rparr>],
       ll_obs := (\<lambda>_. (observer0 [])\<lparr>ob_id := 7, ob_buf := ''text''\<rparr>)\<rparr>"
  have v: "Valid (ob_buf (ll_obs ?l 0))"
    by (simp add: Valid_ascii byte_def)
  show ?thesis
    using drain_output_before_open [of ?l
        "[LockLogEntry\<lparr>RequestId := 1, Output := replicate 1048576 CHR ''x''\<rparr>]"
        "LockLogEntry\<lparr>RequestId := 1, Output := replicate 1048577 CHR ''x''\<rparr>"
        "[LockLogEntry\<lparr>RequestId := 7, Open := True, Service := ''shell:ls''\<rparr>]"
        "LockLogEntry\<lparr>RequestId := 7, Open := True, Service := ''shell:ls''\<rparr>" 0, OF _ _ _ _ _ _ _ v]
    by (auto simp: maxLockLogDrainBytes_def observer0_def LockLogEntry_def split: prod.splits)
qed

definition sample_entry :: lock_log_entry where
  "sample_entry = LockLogEntry\<lparr>Service := ''shell:true''\<rparr>"

text \<open>
  One round: 2000 requests are logged while a batch is in flight, its send fails, and the queue is
  drained again.
\<close>

definition failed_round :: "log_op list" where
  "failed_round = replicate maxLockLogEntries (Note sample_entry) @ [SendFailed, DrainBatch []]"

lemma log_run_append: "log_run s (xs @ ys) = log_run (log_run s xs) ys"
  by (simp add: log_run_def)

lemma run_notes:
  assumes "Output e = []"
  shows "length (ll_pending (sh_log s)) + n \<le> maxLockLogEntries \<Longrightarrow> ll_pendingBytes (sh_log s) = 0 \<Longrightarrow>
    case log_run s (replicate n (Note e)) of s' \<Rightarrow>
      ll_pendingBytes (sh_log s') = 0 \<and> sh_inflight s' = sh_inflight s \<and>
      (\<exists>es. ll_pending (sh_log s') = ll_pending (sh_log s) @ es \<and> length es = n \<and> outputs es = 0)"
proof (induction n arbitrary: s)
  case 0
  then show ?case by (simp add: log_run_def)
next
  case (Suc n)
  let ?s = "s\<lparr>sh_log := recordEntry (sh_log s) e\<rparr>"
  have r: "ll_pending (sh_log ?s) = ll_pending (sh_log s) @ [e\<lparr>Service := cleanService (Service e)\<rparr>]"
    "ll_pendingBytes (sh_log ?s) = 0"
    using Suc.prems assms by (auto simp: recordEntry_def Let_def maxLockLogPendingBytes_def)
  then have "length (ll_pending (sh_log ?s)) + n \<le> maxLockLogEntries"
    using Suc.prems by simp
  from Suc.IH [OF this r(2)] show ?case
    using r assms by (auto simp: log_run_def intro: exI [of _ "_ # _"])
qed

lemma drain_silent:
  assumes "outputs (ll_pending l) = 0"
  shows "\<exists>l'. Drain l [] = (l', ll_pending l) \<and> ll_pending l' = [] \<and> ll_pendingBytes l' = ll_pendingBytes l"
  using drainPending_fit [of "ll_pending l" maxLockLogDrainBytes False "[]"] assms
  by (auto simp: Drain_def drain_def Let_def maxLockLogDrainBytes_def)

lemma failed_round_grows:
  assumes "ll_pending (sh_log s) = []" "ll_pendingBytes (sh_log s) = 0" "outputs (sh_inflight s) = 0"
  shows "case log_run s failed_round of s' \<Rightarrow>
    ll_pending (sh_log s') = [] \<and> ll_pendingBytes (sh_log s') = 0 \<and> outputs (sh_inflight s') = 0 \<and>
    length (sh_inflight s') = length (sh_inflight s) + maxLockLogEntries"
proof -
  let ?s1 = "log_run s (replicate maxLockLogEntries (Note sample_entry))"
  have "Output sample_entry = []" by (simp add: sample_entry_def LockLogEntry_def)
  from run_notes [OF this, of s maxLockLogEntries] assms obtain es where
    s1: "ll_pendingBytes (sh_log ?s1) = 0" "sh_inflight ?s1 = sh_inflight s"
      "ll_pending (sh_log ?s1) = es" "length es = maxLockLogEntries" "outputs es = 0"
    by auto
  let ?l = "Requeue (sh_log ?s1) (sh_inflight ?s1)"
  have l: "ll_pending ?l = sh_inflight s @ es" "ll_pendingBytes ?l = 0"
    using s1 assms(3) by (auto simp: Requeue_def)
  then have "outputs (ll_pending ?l) = 0" using s1 assms(3) by simp
  from drain_silent [OF this] l s1 assms(3) show ?thesis
    by (auto simp: failed_round_def log_run_append) (auto simp: log_run_def drainInto_def)
qed

text \<open>
  The cap on pending entries does not bound what a port's log keeps while sends fail. A failed
  batch goes back whole, and while it was away the queue was empty enough to accept the full cap
  again: after \<open>n\<close> rounds of that the log holds \<open>2000 n\<close> entries, all of them in the next batch.
\<close>

theorem requeue_exceeds_cap:
  "length (sh_inflight (log_run shipping0 (concat (replicate n failed_round)))) = n * maxLockLogEntries"
proof -
  have "case log_run s (concat (replicate n failed_round)) of s' \<Rightarrow>
    length (sh_inflight s') = length (sh_inflight s) + n * maxLockLogEntries"
    if "ll_pending (sh_log s) = []" "ll_pendingBytes (sh_log s) = 0" "outputs (sh_inflight s) = 0" for s
    using that
  proof (induction n arbitrary: s)
    case (Suc n)
    from failed_round_grows [OF Suc.prems] Suc.IH [of "log_run s failed_round"] show ?case
      by (simp add: log_run_append)
  qed (simp add: log_run_def)
  from this [of shipping0] show ?thesis
    by (simp add: shipping0_def lock_log0_def)
qed

end
