(* ===== verification/DeviceTracker.thy ===== *)
theory DeviceTracker
  imports GoLib
begin

text \<open>
  \<open>internal/proxy/device_tracker.go\<close>: the device lists the sources push, the cached list, which
  source owns a serial and the transport ids. Go's maps are partial functions; where the code
  walks one, the order it happens to take is an argument. Seconds stand for the clock. The two
  halves of \<open>rebuild\<close>, what it reads under the lock and what it publishes after, are separate
  definitions, since two rebuilds can overlap.
\<close>

section \<open>The contract of a table of transport ids\<close>

text \<open>
  What the smart socket needs of transport ids: every known serial has a nonzero id, and the two
  lookups are each other's inverse. Two serials then never share an id.
\<close>

locale transport_table =
  fixes good :: "'t \<Rightarrow> bool"
    and known :: "'t \<Rightarrow> bytes set"
    and id_of :: "'t \<Rightarrow> bytes \<Rightarrow> int"
    and serial_of :: "'t \<Rightarrow> int \<Rightarrow> bytes"
  assumes known_id: "good t \<Longrightarrow> s \<in> known t \<Longrightarrow> id_of t s \<noteq> 0 \<and> serial_of t (id_of t s) = s"
    and unknown_id: "good t \<Longrightarrow> s \<notin> known t \<Longrightarrow> id_of t s = 0"
    and known_serial: "good t \<Longrightarrow> serial_of t i \<noteq> [] \<Longrightarrow>
      serial_of t i \<in> known t \<and> id_of t (serial_of t i) = i"
begin

lemma id_inj: "good t \<Longrightarrow> s \<in> known t \<Longrightarrow> s' \<in> known t \<Longrightarrow> id_of t s = id_of t s' \<Longrightarrow> s = s'"
  by (metis known_id)

lemma id_zero: "good t \<Longrightarrow> id_of t s = 0 \<longleftrightarrow> s \<notin> known t"
  by (metis known_id unknown_id)

lemma lookup_iff:
  "good t \<Longrightarrow> s \<noteq> [] \<Longrightarrow> serial_of t i = s \<longleftrightarrow> s \<in> known t \<and> id_of t s = i"
  by (metis known_id known_serial)

end

section \<open>State\<close>

record device_info =
  Serial :: bytes
  Manufacturer :: bytes
  Model :: bytes
  Sdk :: int
  Release :: int
  AccountTypes :: "bytes list"
  LastRebootMs :: int
  Warning :: bytes
  DeviceSource :: bytes

record source_entry =
  se_devices :: "device_info list"
  se_lastSeen :: int

datatype bench_kind = SourceUp | SourceStale

record tracker_event =
  te_kind :: bench_kind
  te_outcome :: bytes
  te_detail :: bytes

record tracker =
  t_sources :: "bytes \<rightharpoonup> source_entry"
  t_devices :: "device_info list"
  t_serialToSource :: "bytes \<rightharpoonup> bytes"
  t_transportIDs :: "bytes \<rightharpoonup> int"
  t_nextTransport :: "32 word"
  t_events :: "tracker_event list"

definition NewDeviceListTracker :: tracker where
  "NewDeviceListTracker = \<lparr>t_sources = Map.empty, t_devices = [], t_serialToSource = Map.empty,
     t_transportIDs = Map.empty, t_nextTransport = 1, t_events = []\<rparr>"

section \<open>Lookups\<close>

definition GetDevices :: "tracker \<Rightarrow> device_info list" where
  "GetDevices t = t_devices t"

definition GetSourceAddr :: "tracker \<Rightarrow> bytes \<Rightarrow> bytes" where
  "GetSourceAddr t serial = (case t_serialToSource t serial of Some a \<Rightarrow> a | None \<Rightarrow> [])"

definition GetTransportID :: "tracker \<Rightarrow> bytes \<Rightarrow> int" where
  "GetTransportID t serial = (case t_transportIDs t serial of Some i \<Rightarrow> i | None \<Rightarrow> 0)"

text \<open>\<open>order\<close> enumerates the keys of the id table.\<close>

definition GetSerialByTransportID :: "tracker \<Rightarrow> bytes list \<Rightarrow> int \<Rightarrow> bytes" where
  "GetSerialByTransportID t order i =
     (case find (\<lambda>s. t_transportIDs t s = Some i) order of Some s \<Rightarrow> s | None \<Rightarrow> [])"

section \<open>Rebuilding\<close>

text \<open>
  The snapshot taken under the lock, \<open>order\<close> enumerating the sources: all devices, and for each
  serial the source walked last that lists it.
\<close>

definition snapshot :: "tracker \<Rightarrow> bytes list \<Rightarrow> device_info list \<times> (bytes \<times> bytes) list" where
  "snapshot t order =
     (let entries = map (\<lambda>a. (a, se_devices (the (t_sources t a)))) (filter (\<lambda>a. t_sources t a \<noteq> None) order)
      in (concat (map snd entries),
          concat (map (\<lambda>(a, ds). map (\<lambda>d. (Serial d, a)) ds) entries)))"

text \<open>A new serial gets the counter's value before the (32-bit, wrapping) increment.\<close>

fun assignIDs :: "tracker \<Rightarrow> device_info list \<Rightarrow> tracker" where
  "assignIDs t [] = t"
| "assignIDs t (d # ds) = (case t_transportIDs t (Serial d) of
       Some _ \<Rightarrow> assignIDs t ds
     | None \<Rightarrow> assignIDs (t\<lparr>t_transportIDs := (t_transportIDs t)(Serial d \<mapsto> sint (t_nextTransport t + 1 - 1)),
                  t_nextTransport := t_nextTransport t + 1\<rparr>) ds)"

definition publish :: "tracker \<Rightarrow> device_info list \<times> (bytes \<times> bytes) list \<Rightarrow> tracker" where
  "publish t snap = (case snap of (allDevices, serialSourceMap) \<Rightarrow>
     let t1 = t\<lparr>t_serialToSource := foldl (\<lambda>m (s, a). m(s \<mapsto> a)) (t_serialToSource t) serialSourceMap\<rparr>;
         t2 = assignIDs t1 allDevices;
         current = Serial ` set allDevices;
         gone = {s. t_transportIDs t2 s \<noteq> None \<and> s \<notin> current}
     in t2\<lparr>t_transportIDs := (\<lambda>s. if s \<in> gone then None else t_transportIDs t2 s),
           t_serialToSource := (\<lambda>s. if s \<in> gone then None else t_serialToSource t2 s),
           t_devices := allDevices\<rparr>)"

definition rebuild :: "tracker \<Rightarrow> bytes list \<Rightarrow> tracker" where
  "rebuild t order = publish t (snapshot t order)"

section \<open>Updates and reaping\<close>

text \<open>What \<open>UpdateDevices\<close> does before it rebuilds.\<close>

definition recordSource :: "tracker \<Rightarrow> int \<Rightarrow> bytes \<Rightarrow> bytes \<Rightarrow> device_info list \<Rightarrow> tracker" where
  "recordSource t now sourceAddr version devices =
     (let stamped = map (\<lambda>d. d\<lparr>DeviceSource := sourceAddr\<rparr>) devices;
          known = t_sources t sourceAddr \<noteq> None;
          t1 = t\<lparr>t_sources := (t_sources t)(sourceAddr \<mapsto> \<lparr>se_devices = stamped, se_lastSeen = now\<rparr>)\<rparr>
      in if known then t1
         else t1\<lparr>t_events := t_events t1 @
           [\<lparr>te_kind = SourceUp, te_outcome = ''ok'', te_detail = sourceAddr @ '' '' @ version\<rparr>]\<rparr>)"

definition UpdateDevices ::
  "tracker \<Rightarrow> bytes list \<Rightarrow> int \<Rightarrow> bytes \<Rightarrow> bytes \<Rightarrow> device_info list \<Rightarrow> tracker" where
  "UpdateDevices t order now sourceAddr version devices =
     rebuild (recordSource t now sourceAddr version devices) order"

definition staleThreshold :: int where
  "staleThreshold = 30"

definition reapStale :: "tracker \<Rightarrow> int \<Rightarrow> bytes list \<Rightarrow> tracker" where
  "reapStale t now order = foldl (\<lambda>t a. case t_sources t a of
       None \<Rightarrow> t
     | Some e \<Rightarrow> if staleThreshold < now - se_lastSeen e
         then t\<lparr>t_sources := (t_sources t)(a := None), t_events := t_events t @
           [\<lparr>te_kind = SourceStale, te_outcome = ''failed'', te_detail = a\<rparr>]\<rparr>
         else t) t order"

text \<open>\<open>reapAndReport\<close>; the list handed to the orchestrator is \<open>GetDevices\<close> of the result.\<close>

definition reapAndReport :: "tracker \<Rightarrow> int \<Rightarrow> bytes list \<Rightarrow> bytes list \<Rightarrow> tracker \<times> device_info list" where
  "reapAndReport t now order order' =
     (let t1 = rebuild (reapStale t now order) order' in (t1, GetDevices t1))"

definition ReportNow :: "tracker \<Rightarrow> int \<Rightarrow> bytes list \<Rightarrow> bytes list \<Rightarrow> tracker \<times> device_info list" where
  "ReportNow = reapAndReport"

section \<open>Invariant\<close>

text \<open>
  The ids in use are distinct and were taken from the counter, which has not wrapped. The owner map
  knows exactly the serials of the list, each under a source that lists it.
\<close>

definition ids_ok :: "tracker \<Rightarrow> bool" where
  "ids_ok t \<longleftrightarrow> 1 \<le> sint (t_nextTransport t) \<and> inj_on (t_transportIDs t) (dom (t_transportIDs t)) \<and>
     (\<forall>s i. t_transportIDs t s = Some i \<longrightarrow> 1 \<le> i \<and> i < sint (t_nextTransport t))"

definition owners_ok :: "tracker \<Rightarrow> bool" where
  "owners_ok t \<longleftrightarrow> dom (t_transportIDs t) = Serial ` set (t_devices t) \<and>
     dom (t_serialToSource t) = Serial ` set (t_devices t) \<and>
     (\<forall>s a. t_serialToSource t s = Some a \<longrightarrow>
        (\<exists>e. t_sources t a = Some e \<and> s \<in> Serial ` set (se_devices e)))"

text \<open>How many ids an operation may still hand out before the counter wraps.\<close>

definition id_room :: "tracker \<Rightarrow> int" where
  "id_room t = 2 ^ 31 - 1 - sint (t_nextTransport t)"

lemma sint_incr:
  assumes "1 \<le> sint (w :: 32 word)" and "sint w < 2 ^ 31 - 1"
  shows "sint (w + 1) = sint w + 1"
proof -
  have "sint (w + 1) = signed_take_bit 31 (sint w + sint (1 :: 32 word))"
    by (simp add: sint_word_ariths)
  also have "\<dots> = sint w + 1"
    using assms by (simp add: signed_take_bit_int_eq_self)
  finally show ?thesis .
qed

lemma assignIDs_ok:
  assumes "ids_ok t" and "int (length ds) \<le> id_room t"
  shows "ids_ok (assignIDs t ds) \<and>
    dom (t_transportIDs (assignIDs t ds)) = dom (t_transportIDs t) \<union> Serial ` set ds \<and>
    t_transportIDs t \<subseteq>\<^sub>m t_transportIDs (assignIDs t ds) \<and>
    sint (t_nextTransport t) \<le> sint (t_nextTransport (assignIDs t ds)) \<and>
    sint (t_nextTransport (assignIDs t ds)) \<le> sint (t_nextTransport t) + int (length ds) \<and>
    (\<forall>s i. t_transportIDs t s = None \<and> t_transportIDs (assignIDs t ds) s = Some i \<longrightarrow>
       sint (t_nextTransport t) \<le> i) \<and>
    t_sources (assignIDs t ds) = t_sources t \<and> t_serialToSource (assignIDs t ds) = t_serialToSource t"
  using assms
proof (induction ds arbitrary: t)
  case Nil
  then show ?case by auto
next
  case (Cons d ds)
  show ?case
  proof (cases "t_transportIDs t (Serial d)")
    case (Some i)
    then show ?thesis using Cons.IH [of t] Cons.prems by (auto simp: id_room_def)
  next
    case None
    let ?n = "sint (t_nextTransport t)"
    let ?t = "t\<lparr>t_transportIDs := (t_transportIDs t)(Serial d \<mapsto> ?n), t_nextTransport := t_nextTransport t + 1\<rparr>"
    have n: "1 \<le> ?n" using Cons.prems(1) by (simp add: ids_ok_def)
    have "?n < 2 ^ 31 - 1" using Cons.prems(2) by (simp add: id_room_def)
    from sint_incr [OF n this] have s: "sint (t_nextTransport ?t) = ?n + 1" by simp
    have new: "Some ?n \<notin> t_transportIDs t ` dom (t_transportIDs t)"
      using Cons.prems(1) by (force simp: ids_ok_def)
    have "ids_ok ?t"
      using Cons.prems(1) s new None unfolding ids_ok_def
      by (auto simp: inj_on_def split: if_splits) fastforce+
    moreover have "int (length ds) \<le> id_room ?t"
      using Cons.prems(2) s by (simp add: id_room_def)
    ultimately have IH: "ids_ok (assignIDs ?t ds) \<and>
      dom (t_transportIDs (assignIDs ?t ds)) = dom (t_transportIDs ?t) \<union> Serial ` set ds \<and>
      t_transportIDs ?t \<subseteq>\<^sub>m t_transportIDs (assignIDs ?t ds) \<and>
      sint (t_nextTransport ?t) \<le> sint (t_nextTransport (assignIDs ?t ds)) \<and>
      sint (t_nextTransport (assignIDs ?t ds)) \<le> sint (t_nextTransport ?t) + int (length ds) \<and>
      (\<forall>s i. t_transportIDs ?t s = None \<and> t_transportIDs (assignIDs ?t ds) s = Some i \<longrightarrow>
         sint (t_nextTransport ?t) \<le> i) \<and>
      t_sources (assignIDs ?t ds) = t_sources ?t \<and> t_serialToSource (assignIDs ?t ds) = t_serialToSource ?t"
      by (rule Cons.IH)
    have eq: "assignIDs t (d # ds) = assignIDs ?t ds" using None by simp
    have sub: "t_transportIDs t \<subseteq>\<^sub>m t_transportIDs ?t"
      using None by (auto simp: map_le_def)
    have "?n \<le> i" if "t_transportIDs t s' = None" "t_transportIDs (assignIDs ?t ds) s' = Some i" for s' i
    proof (cases "s' = Serial d")
      case True
      then have "t_transportIDs (assignIDs ?t ds) s' = Some ?n"
        using IH by (auto simp: map_le_def)
      then show ?thesis using that by simp
    next
      case False
      then have "t_transportIDs ?t s' = None" using that(1) by simp
      then have "sint (t_nextTransport ?t) \<le> i" using IH that(2) by blast
      then show ?thesis using s by simp
    qed
    then show ?thesis
      unfolding eq using IH s sub map_le_trans by auto
  qed
qed

text \<open>A snapshot pairs every listed serial with a source that lists it.\<close>

definition snap_ok :: "tracker \<Rightarrow> device_info list \<times> (bytes \<times> bytes) list \<Rightarrow> bool" where
  "snap_ok t snap \<longleftrightarrow> fst ` set (snd snap) = Serial ` set (fst snap) \<and>
     (\<forall>(s, a) \<in> set (snd snap). \<exists>e. t_sources t a = Some e \<and> s \<in> Serial ` set (se_devices e))"

lemma snapshot_ok: "snap_ok t (snapshot t order)"
  by (force simp: snap_ok_def snapshot_def Let_def image_iff)

lemma snapshot_devices:
  "Serial ` set (fst (snapshot t order)) =
     {s. \<exists>a \<in> set order. \<exists>e. t_sources t a = Some e \<and> s \<in> Serial ` set (se_devices e)}"
  by (force simp: snapshot_def Let_def image_iff)

lemma foldl_upd_dom: "dom (foldl (\<lambda>m (s, a). m(s \<mapsto> a)) m ps) = dom m \<union> fst ` set ps"
  by (induction ps arbitrary: m) (auto simp del: dom_eq_empty_conv split: prod.split)

lemma foldl_upd_val:
  "foldl (\<lambda>m (s, a). m(s \<mapsto> a)) m ps s = Some a \<Longrightarrow>
     m s = Some a \<and> s \<notin> fst ` set ps \<or> (s, a) \<in> set ps"
proof (induction ps arbitrary: m)
  case (Cons p ps)
  obtain s' a' where p: "p = (s', a')" by fastforce
  show ?case
    using Cons.IH [of "m(s' \<mapsto> a')"] Cons.prems unfolding p
    by (cases "s = s'") auto
qed simp

definition consistent :: "tracker \<Rightarrow> bool" where
  "consistent t \<longleftrightarrow> ids_ok t \<and> owners_ok t"

lemma publish_ok:
  assumes "ids_ok t" and "dom (t_serialToSource t) = dom (t_transportIDs t)" and "snap_ok t snap"
    and "int (length (fst snap)) \<le> id_room t"
  shows "consistent (publish t snap) \<and> t_devices (publish t snap) = fst snap \<and>
    t_sources (publish t snap) = t_sources t \<and>
    sint (t_nextTransport t) \<le> sint (t_nextTransport (publish t snap)) \<and>
    (\<forall>s i. t_transportIDs t s = Some i \<and> s \<in> Serial ` set (fst snap) \<longrightarrow>
       t_transportIDs (publish t snap) s = Some i) \<and>
    (\<forall>s i. t_transportIDs t s = None \<and> t_transportIDs (publish t snap) s = Some i \<longrightarrow>
       sint (t_nextTransport t) \<le> i)"
proof -
  obtain ds ps where snap: "snap = (ds, ps)" by fastforce
  let ?m = "foldl (\<lambda>m (s, a). m(s \<mapsto> a)) (t_serialToSource t) ps"
  let ?t1 = "t\<lparr>t_serialToSource := ?m\<rparr>"
  let ?t2 = "assignIDs ?t1 ds"
  let ?t' = "publish t snap"
  have "ids_ok ?t1" "int (length ds) \<le> id_room ?t1"
    using assms(1,4) by (simp_all add: ids_ok_def id_room_def snap)
  note a = assignIDs_ok [OF this]
  have fs: "fst snap = ds" by (simp add: snap)
  have pub: "t_transportIDs ?t' = (\<lambda>s. if s \<in> Serial ` set ds then t_transportIDs ?t2 s else None)"
    "t_serialToSource ?t' = (\<lambda>s. if t_transportIDs ?t2 s \<noteq> None \<and> s \<notin> Serial ` set ds then None else ?m s)"
    "t_devices ?t' = ds" "t_sources ?t' = t_sources t" "t_nextTransport ?t' = t_nextTransport ?t2"
    using a by (auto simp: publish_def snap Let_def fun_eq_iff)
  have d2: "dom (t_transportIDs ?t2) = dom (t_transportIDs t) \<union> Serial ` set ds"
    using a by simp
  have pairs: "fst ` set ps = Serial ` set ds"
    using assms(3) by (simp add: snap_ok_def snap)
  have dm: "dom ?m = dom (t_transportIDs t) \<union> Serial ` set ds"
    using foldl_upd_dom [of "t_serialToSource t" ps] assms(2) pairs by simp
  have dom1: "dom (t_transportIDs ?t') = Serial ` set ds"
    using d2 pub(1) by (auto simp: dom_def split: if_splits)
  have none: "?m s = None" if "t_transportIDs ?t2 s = None" for s
    using that d2 dm by (metis domIff)
  have dom2: "dom (t_serialToSource ?t') = Serial ` set ds"
    using d2 dm none unfolding pub(2) dom_def by auto
  have own: "\<exists>e. t_sources t a = Some e \<and> s \<in> Serial ` set (se_devices e)"
    if "t_serialToSource ?t' s = Some a" for s a
  proof -
    have "s \<in> Serial ` set ds" using that dom2 by blast
    moreover have "?m s = Some a" using that unfolding pub(2) by (simp split: if_splits)
    ultimately have "(s, a) \<in> set ps"
      using foldl_upd_val [of "t_serialToSource t" ps s a] pairs by blast
    then show ?thesis using assms(3) by (auto simp: snap_ok_def snap)
  qed
  have sub: "t_transportIDs ?t' \<subseteq>\<^sub>m t_transportIDs ?t2"
    by (auto simp: pub(1) map_le_def)
  have "ids_ok ?t'"
    unfolding ids_ok_def
  proof (intro conjI allI impI)
    show "1 \<le> sint (t_nextTransport ?t')" using a by (simp add: ids_ok_def pub)
    show "inj_on (t_transportIDs ?t') (dom (t_transportIDs ?t'))"
      using a by (auto simp: ids_ok_def pub(1) inj_on_def dom_def split: if_splits)
  next
    fix s i assume "t_transportIDs ?t' s = Some i"
    then have "t_transportIDs ?t2 s = Some i" by (simp add: pub(1) split: if_splits)
    then show "1 \<le> i" "i < sint (t_nextTransport ?t')"
      using a by (auto simp: ids_ok_def pub)
  qed
  moreover have "owners_ok ?t'"
    using dom1 dom2 own by (simp add: owners_ok_def pub)
  moreover have "t_transportIDs ?t' s = Some i"
    if "t_transportIDs t s = Some i" "s \<in> Serial ` set ds" for s i
    using a that by (auto simp: pub(1) map_le_def dom_def)
  moreover have "sint (t_nextTransport t) \<le> i"
    if "t_transportIDs t s = None" "t_transportIDs ?t' s = Some i" for s i
    using a that by (auto simp: pub(1) split: if_splits)
  ultimately show ?thesis
    using a fs by (simp add: consistent_def pub)
qed

section \<open>Runs\<close>

datatype tracker_op =
    Update "bytes list" int bytes bytes "device_info list"
  | Reap int "bytes list" "bytes list"

fun before_rebuild :: "tracker \<Rightarrow> tracker_op \<Rightarrow> tracker \<times> bytes list" where
  "before_rebuild t (Update order now a v ds) = (recordSource t now a v ds, order)"
| "before_rebuild t (Reap now order order') = (reapStale t now order, order')"

fun tracker_step :: "tracker \<Rightarrow> tracker_op \<Rightarrow> tracker" where
  "tracker_step t (Update order now a v ds) = UpdateDevices t order now a v ds"
| "tracker_step t (Reap now order order') = fst (reapAndReport t now order order')"

lemma tracker_step_rebuild:
  "tracker_step t op = (case before_rebuild t op of (t1, order) \<Rightarrow> rebuild t1 order)"
  by (cases op) (simp_all add: UpdateDevices_def reapAndReport_def Let_def)

text \<open>The ids handed out by a run all come from an unwrapped counter.\<close>

fun no_wrap :: "tracker \<Rightarrow> tracker_op list \<Rightarrow> bool" where
  "no_wrap t [] = True"
| "no_wrap t (op # ops) = (case before_rebuild t op of (t1, order) \<Rightarrow>
     int (length (fst (snapshot t1 order))) \<le> id_room t1 \<and> no_wrap (tracker_step t op) ops)"

lemma recordSource_fields [simp, frame_simps]:
  "t_transportIDs (recordSource t now a v ds) = t_transportIDs t"
  "t_serialToSource (recordSource t now a v ds) = t_serialToSource t"
  "t_nextTransport (recordSource t now a v ds) = t_nextTransport t"
  by (simp_all add: recordSource_def Let_def)

lemma reapStale_fields [simp, frame_simps]:
  "t_transportIDs (reapStale t now order) = t_transportIDs t"
  "t_serialToSource (reapStale t now order) = t_serialToSource t"
  "t_nextTransport (reapStale t now order) = t_nextTransport t"
proof -
  have "t_transportIDs (reapStale t now order) = t_transportIDs t \<and>
    t_serialToSource (reapStale t now order) = t_serialToSource t \<and>
    t_nextTransport (reapStale t now order) = t_nextTransport t"
    unfolding reapStale_def
    by (induction order arbitrary: t) (simp_all add: Let_def split: option.split)
  then show "t_transportIDs (reapStale t now order) = t_transportIDs t"
    "t_serialToSource (reapStale t now order) = t_serialToSource t"
    "t_nextTransport (reapStale t now order) = t_nextTransport t" by simp_all
qed

lemma before_rebuild_fields:
  assumes "before_rebuild t op = (t1, order)"
  shows "t_transportIDs t1 = t_transportIDs t \<and> t_serialToSource t1 = t_serialToSource t \<and>
    t_nextTransport t1 = t_nextTransport t"
  using assms by (cases op) (auto simp: recordSource_fields reapStale_fields)

lemma step_ok:
  assumes "consistent t" and "no_wrap t [op]" and "before_rebuild t op = (t1, order)"
  shows "consistent (tracker_step t op) \<and> t_sources (tracker_step t op) = t_sources t1 \<and>
    GetDevices (tracker_step t op) = fst (snapshot t1 order) \<and>
    sint (t_nextTransport t) \<le> sint (t_nextTransport (tracker_step t op)) \<and>
    (\<forall>s i. t_transportIDs t s = Some i \<and> s \<in> Serial ` set (GetDevices (tracker_step t op)) \<longrightarrow>
       t_transportIDs (tracker_step t op) s = Some i) \<and>
    (\<forall>s i. t_transportIDs t s = None \<and> t_transportIDs (tracker_step t op) s = Some i \<longrightarrow>
       sint (t_nextTransport t) \<le> i)"
proof -
  note f = before_rebuild_fields [OF assms(3)]
  have "ids_ok t1" "dom (t_serialToSource t1) = dom (t_transportIDs t1)"
    using assms(1) f by (simp add: consistent_def ids_ok_def) (use assms(1) f in
        \<open>simp add: consistent_def owners_ok_def\<close>)
  moreover have "int (length (fst (snapshot t1 order))) \<le> id_room t1"
    using assms(2,3) by simp
  ultimately have "consistent (publish t1 (snapshot t1 order)) \<and>
      t_devices (publish t1 (snapshot t1 order)) = fst (snapshot t1 order) \<and>
      t_sources (publish t1 (snapshot t1 order)) = t_sources t1 \<and>
      sint (t_nextTransport t1) \<le> sint (t_nextTransport (publish t1 (snapshot t1 order))) \<and>
      (\<forall>s i. t_transportIDs t1 s = Some i \<and> s \<in> Serial ` set (fst (snapshot t1 order)) \<longrightarrow>
         t_transportIDs (publish t1 (snapshot t1 order)) s = Some i) \<and>
      (\<forall>s i. t_transportIDs t1 s = None \<and> t_transportIDs (publish t1 (snapshot t1 order)) s = Some i \<longrightarrow>
         sint (t_nextTransport t1) \<le> i)"
    by (intro publish_ok snapshot_ok)
  then show ?thesis
    using assms(3) f by (simp add: tracker_step_rebuild rebuild_def GetDevices_def)
qed

lemma run_ok:
  "consistent t \<Longrightarrow> no_wrap t ops \<Longrightarrow> consistent (foldl tracker_step t ops)"
proof (induction ops arbitrary: t)
  case (Cons op ops)
  obtain t1 order where b: "before_rebuild t op = (t1, order)" by fastforce
  have "no_wrap t [op]" "no_wrap (tracker_step t op) ops" using Cons.prems b by simp_all
  then show ?case using Cons step_ok [OF Cons.prems(1) _ b] by simp
qed simp

lemma new_consistent: "consistent NewDeviceListTracker"
  by (simp add: consistent_def ids_ok_def owners_ok_def NewDeviceListTracker_def)

text \<open>The tracker's tables meet the contract; the walk order of the id table is part of the state.\<close>

interpretation tracker_ids: transport_table
  "\<lambda>(t, order). ids_ok t \<and> set order = dom (t_transportIDs t)" "\<lambda>(t, order). dom (t_transportIDs t)"
  "\<lambda>(t, order). GetTransportID t" "\<lambda>(t, order). GetSerialByTransportID t order"
proof unfold_locales
  fix x :: "tracker \<times> bytes list" and s i
  obtain t order where x: "x = (t, order)" by fastforce
  assume "case x of (t, order) \<Rightarrow> ids_ok t \<and> set order = dom (t_transportIDs t)"
  then have ok: "ids_ok t" "set order = dom (t_transportIDs t)" by (simp_all add: x)
  have lookup: "GetSerialByTransportID t order i = s" if si: "t_transportIDs t s = Some i" for s i
  proof -
    have "s \<in> set order" using si ok(2) by auto
    then obtain s' where f: "find (\<lambda>s. t_transportIDs t s = Some i) order = Some s'"
      using si by (cases "find (\<lambda>s. t_transportIDs t s = Some i) order") (auto simp: find_None_iff)
    then have "t_transportIDs t s' = Some i" by (auto simp: find_Some_iff)
    then have "s' = s" using si ok(1) by (auto simp: ids_ok_def inj_on_def dom_def)
    then show ?thesis using f by (simp add: GetSerialByTransportID_def)
  qed
  show "(case x of (t, order) \<Rightarrow> GetTransportID t) s \<noteq> 0 \<and>
      (case x of (t, order) \<Rightarrow> GetSerialByTransportID t order) ((case x of (t, order) \<Rightarrow> GetTransportID t) s) = s"
    if "s \<in> (case x of (t, order) \<Rightarrow> dom (t_transportIDs t))"
  proof -
    obtain j where j: "t_transportIDs t s = Some j" using \<open>s \<in> _\<close> by (auto simp: x)
    then have "1 \<le> j" using ok(1) by (simp add: ids_ok_def)
    then show ?thesis using j lookup by (simp add: x GetTransportID_def)
  qed
  show "(case x of (t, order) \<Rightarrow> GetTransportID t) s = 0"
    if "s \<notin> (case x of (t, order) \<Rightarrow> dom (t_transportIDs t))"
    using that by (auto simp: x GetTransportID_def split: option.split)
  show "(case x of (t, order) \<Rightarrow> GetSerialByTransportID t order) i \<in> (case x of (t, order) \<Rightarrow> dom (t_transportIDs t)) \<and>
      (case x of (t, order) \<Rightarrow> GetTransportID t) ((case x of (t, order) \<Rightarrow> GetSerialByTransportID t order) i) = i"
    if ne: "(case x of (t, order) \<Rightarrow> GetSerialByTransportID t order) i \<noteq> []"
  proof -
    obtain s' where f: "find (\<lambda>s. t_transportIDs t s = Some i) order = Some s'"
      using ne by (auto simp: x GetSerialByTransportID_def split: option.splits)
    then have "t_transportIDs t s' = Some i" by (auto simp: find_Some_iff)
    moreover have "GetSerialByTransportID t order i = s'" using f by (simp add: GetSerialByTransportID_def)
    ultimately show ?thesis by (auto simp: x GetTransportID_def)
  qed
qed

text \<open>
  After any sequence of device reports and reaps, the tracker's answers fit together: the serials
  with a transport id are exactly those of the device list, distinct serials have distinct
  positive ids, looking an id up gives its serial back, and the source named for a serial is one
  that lists it now.
\<close>

theorem tracker_lookups:
  assumes "no_wrap NewDeviceListTracker ops"
    and "set order = dom (t_transportIDs (foldl tracker_step NewDeviceListTracker ops))"
  shows "let t = foldl tracker_step NewDeviceListTracker ops in
    (GetTransportID t s \<noteq> 0 \<longleftrightarrow> s \<in> Serial ` set (GetDevices t)) \<and> 0 \<le> GetTransportID t s \<and>
    (s \<noteq> [] \<longrightarrow> (GetSerialByTransportID t order i = s \<longleftrightarrow> GetTransportID t s = i \<and> i \<noteq> 0)) \<and>
    (GetSourceAddr t s \<noteq> [] \<longrightarrow> (\<exists>e. t_sources t (GetSourceAddr t s) = Some e \<and>
       s \<in> Serial ` set (se_devices e)))"
proof -
  define t where "t = foldl tracker_step NewDeviceListTracker ops"
  have c: "consistent t" using run_ok [OF new_consistent assms(1)] by (simp add: t_def)
  have good: "(\<lambda>(t, order). ids_ok t \<and> set order = dom (t_transportIDs t)) (t, order)"
    using c assms(2) by (simp add: consistent_def t_def)
  have z: "GetTransportID t s = 0 \<longleftrightarrow> s \<notin> dom (t_transportIDs t)"
    using tracker_ids.id_zero [OF good, of s] by simp
  have l: "s \<noteq> [] \<Longrightarrow> GetSerialByTransportID t order i = s \<longleftrightarrow>
      s \<in> dom (t_transportIDs t) \<and> GetTransportID t s = i"
    using tracker_ids.lookup_iff [OF good, of s i] by simp
  have d: "dom (t_transportIDs t) = Serial ` set (GetDevices t)"
    using c by (simp add: consistent_def owners_ok_def GetDevices_def)
  have p: "0 \<le> GetTransportID t s"
    using c by (auto simp: consistent_def ids_ok_def GetTransportID_def split: option.split) force
  have o: "GetSourceAddr t s \<noteq> [] \<Longrightarrow> \<exists>e. t_sources t (GetSourceAddr t s) = Some e \<and>
       s \<in> Serial ` set (se_devices e)"
    using c by (auto simp: consistent_def owners_ok_def GetSourceAddr_def split: option.splits)
  show ?thesis
    unfolding t_def [symmetric] Let_def using z l d p o by blast
qed

definition phone :: "bytes \<Rightarrow> device_info" where
  "phone s = \<lparr>Serial = s, Manufacturer = [], Model = [], Sdk = 34, Release = 14, AccountTypes = [],
     LastRebootMs = 0, Warning = [], DeviceSource = []\<rparr>"

definition two_phones :: "tracker_op list" where
  "two_phones = [Update [''a''] 0 ''a'' ''1.0'' [phone ''P1'', phone ''P2'']]"

lemma two_phones_ok: "no_wrap NewDeviceListTracker two_phones"
  by (simp add: two_phones_def NewDeviceListTracker_def recordSource_def snapshot_def id_room_def
      Let_def)

lemma two_phones_ids:
  "t_transportIDs (foldl tracker_step NewDeviceListTracker two_phones) = [''P1'' \<mapsto> 1, ''P2'' \<mapsto> 2]"
  by (rule ext) (auto simp: two_phones_def NewDeviceListTracker_def UpdateDevices_def recordSource_def rebuild_def
      snapshot_def publish_def Let_def phone_def)

theorem tracker_lookups_witness:
  "let t = foldl tracker_step NewDeviceListTracker two_phones in
     GetSerialByTransportID t [''P1'', ''P2''] 2 = ''P2'' \<and> GetTransportID t ''P2'' \<noteq> 0"
proof -
  have o: "set [''P1'', ''P2''] = dom (t_transportIDs (foldl tracker_step NewDeviceListTracker two_phones))"
    by (auto simp: two_phones_ids)
  have g: "GetTransportID (foldl tracker_step NewDeviceListTracker two_phones) ''P2'' = 2"
    by (simp add: GetTransportID_def two_phones_ids)
  show ?thesis
    using tracker_lookups [OF two_phones_ok o, of "''P2''" 2] g by (simp add: Let_def)
qed

text \<open>
  Transport ids are stable and never reused: a serial that stays listed keeps its id over a
  report or a reap, and a serial that appears gets an id above every id handed out before, to
  whatever device.
\<close>

theorem tracker_ids_stable:
  assumes "no_wrap NewDeviceListTracker (ops @ [op])"
  shows "let t = foldl tracker_step NewDeviceListTracker ops; t' = tracker_step t op in
    (GetTransportID t s \<noteq> 0 \<longrightarrow> GetTransportID t' s = GetTransportID t s \<or> GetTransportID t' s = 0) \<and>
    (GetTransportID t s = 0 \<longrightarrow> GetTransportID t' s \<noteq> 0 \<longrightarrow>
       sint (t_nextTransport t) \<le> GetTransportID t' s) \<and>
    GetTransportID t s < sint (t_nextTransport t) \<and> sint (t_nextTransport t) \<le> sint (t_nextTransport t')"
proof -
  define t where "t = foldl tracker_step NewDeviceListTracker ops"
  have nw: "no_wrap t0 (xs @ ys) \<Longrightarrow> no_wrap t0 xs \<and> no_wrap (foldl tracker_step t0 xs) ys" for t0 xs ys
    by (induction xs arbitrary: t0) (auto split: prod.splits)
  have c: "consistent t" and n: "no_wrap t [op]"
    using nw [OF assms] run_ok [OF new_consistent] by (auto simp: t_def)
  obtain t1 order where b: "before_rebuild t op = (t1, order)" by fastforce
  note s = step_ok [OF c n b]
  have known: "t_transportIDs (tracker_step t op) s = None \<or>
      s \<in> Serial ` set (GetDevices (tracker_step t op))" for s
  proof -
    have "dom (t_transportIDs (tracker_step t op)) = Serial ` set (t_devices (tracker_step t op))"
      using s by (simp add: consistent_def owners_ok_def)
    then show ?thesis unfolding GetDevices_def by (metis domIff)
  qed
  have "GetTransportID t s < sint (t_nextTransport t)"
    using c by (auto simp: consistent_def ids_ok_def GetTransportID_def split: option.split)
  moreover have "GetTransportID t s \<noteq> 0 \<longrightarrow>
      GetTransportID (tracker_step t op) s = GetTransportID t s \<or> GetTransportID (tracker_step t op) s = 0"
    using s known [of s] by (auto simp: GetTransportID_def split: option.splits)
  moreover have "GetTransportID t s = 0 \<longrightarrow> GetTransportID (tracker_step t op) s \<noteq> 0 \<longrightarrow>
      sint (t_nextTransport t) \<le> GetTransportID (tracker_step t op) s"
  proof -
    have "t_transportIDs t s = None" if "GetTransportID t s = 0"
      using that c by (cases "t_transportIDs t s") (force simp: GetTransportID_def consistent_def ids_ok_def)+
    then show ?thesis
      using s by (auto simp: GetTransportID_def split: option.splits)
  qed
  ultimately show ?thesis
    unfolding t_def [symmetric] Let_def using s by blast
qed

theorem tracker_ids_stable_witness:
  "let t = foldl tracker_step NewDeviceListTracker []; t' = tracker_step t (hd two_phones) in
     sint (t_nextTransport t) \<le> sint (t_nextTransport t')"
proof -
  have "no_wrap NewDeviceListTracker ([] @ [hd two_phones])"
    using two_phones_ok by (simp add: two_phones_def)
  from tracker_ids_stable [OF this, of "''P1''"] show ?thesis by (simp only: Let_def)
qed

lemma assignIDs_plain:
  "dom (t_transportIDs (assignIDs t ds)) = dom (t_transportIDs t) \<union> Serial ` set ds \<and>
   t_serialToSource (assignIDs t ds) = t_serialToSource t \<and> t_sources (assignIDs t ds) = t_sources t"
proof (induction ds arbitrary: t)
  case (Cons d ds)
  then show ?case by (cases "t_transportIDs t (Serial d)") auto
qed simp

lemma publish_plain:
  "t_devices (publish t snap) = fst snap \<and> t_sources (publish t snap) = t_sources t \<and>
   dom (t_transportIDs (publish t snap)) = Serial ` set (fst snap)"
  using assignIDs_plain [of "t\<lparr>t_serialToSource := foldl (\<lambda>m (s, a). m(s \<mapsto> a)) (t_serialToSource t) (snd snap)\<rparr>" "fst snap"]
  by (auto simp: publish_def Let_def split_beta dom_def split: if_splits)

lemma publish_gone:
  assumes "s \<notin> Serial ` set (fst snap)" and "t_transportIDs t s \<noteq> None"
  shows "t_serialToSource (publish t snap) s = None"
proof -
  have "t_transportIDs (assignIDs t' (fst snap)) s \<noteq> None" if "t_transportIDs t' = t_transportIDs t" for t'
    using assignIDs_plain [of t' "fst snap"] that assms(2) by (metis UnI1 domIff)
  then show ?thesis
    using assms(1) by (simp add: publish_def Let_def split_beta)
qed

text \<open>
  Two rebuilds can overlap, since the lock is released before the result is published. If the
  reaper has taken its snapshot when a source reports a new device, and publishes it after the
  report has rebuilt the list, the device vanishes again although its source lists it: no device, no
  transport id and no owner until the next rebuild.
\<close>

theorem overlapping_rebuild_loses_device:
  assumes "s \<notin> Serial ` set (fst (snapshot t order))" and "s \<in> Serial ` set devices"
    and "a \<in> set order'"
  shows "let t1 = UpdateDevices t order' now a v devices; t2 = publish t1 (snapshot t order) in
    s \<in> Serial ` set (GetDevices t1) \<and>
    (\<exists>e. t_sources t2 a = Some e \<and> s \<in> Serial ` set (se_devices e)) \<and>
    s \<notin> Serial ` set (GetDevices t2) \<and> GetTransportID t2 s = 0 \<and> GetSourceAddr t2 s = []"
proof -
  let ?r = "recordSource t now a v devices"
  let ?t1 = "UpdateDevices t order' now a v devices"
  let ?t2 = "publish ?t1 (snapshot t order)"
  have src: "t_sources ?r a = Some \<lparr>se_devices = map (\<lambda>d. d\<lparr>DeviceSource := a\<rparr>) devices, se_lastSeen = now\<rparr>"
    by (simp add: recordSource_def Let_def)
  have ser: "s \<in> Serial ` set (map (\<lambda>d. d\<lparr>DeviceSource := a\<rparr>) devices)"
    using assms(2) by (auto simp: image_image)
  have in1: "s \<in> Serial ` set (fst (snapshot ?r order'))"
  proof -
    have "\<exists>e. t_sources ?r a = Some e \<and> s \<in> Serial ` set (se_devices e)"
      using src ser by (metis (no_types, lifting) source_entry.select_convs(1))
    then show ?thesis unfolding snapshot_devices using assms(3) by blast
  qed
  have p1: "t_devices ?t1 = fst (snapshot ?r order') \<and> t_sources ?t1 = t_sources ?r \<and>
      dom (t_transportIDs ?t1) = Serial ` set (fst (snapshot ?r order'))"
    unfolding UpdateDevices_def rebuild_def by (rule publish_plain)
  note p2 = publish_plain [of ?t1 "snapshot t order"]
  have "t_transportIDs ?t1 s \<noteq> None" using p1 in1 by (metis domIff)
  from publish_gone [OF assms(1) this] have o: "GetSourceAddr ?t2 s = []"
    by (simp add: GetSourceAddr_def)
  have "t_transportIDs ?t2 s = None" using p2 assms(1) by (metis domIff)
  then have i: "GetTransportID ?t2 s = 0" by (simp add: GetTransportID_def)
  have "t_sources ?t2 a = t_sources ?r a" using p1 p2 by simp
  then show ?thesis
    unfolding Let_def GetDevices_def using p1 p2 in1 assms(1) src ser o i by auto
qed

theorem overlapping_rebuild_loses_device_witness:
  "let t = NewDeviceListTracker; t1 = UpdateDevices t [''a''] 0 ''a'' ''1.0'' [phone ''P1''] in
     GetTransportID (publish t1 (snapshot t [])) ''P1'' = 0 \<and>
     ''P1'' \<in> Serial ` set (GetDevices t1)"
  using overlapping_rebuild_loses_device [of "''P1''" NewDeviceListTracker "[]" "[phone ''P1'']" "''a''" "[''a'']" 0 "''1.0''"]
  by (simp add: snapshot_def phone_def Let_def)

end
