(* ===== verification/AdbConnection.thy ===== *)
theory AdbConnection
  imports AdbProtocol Features DeviceTracker LockLog
begin

text \<open>
  \<open>internal/proxy/adb_connection.go\<close>: one client connection to the bare port or to a scoped
  port, and the ids a scoped port (\<open>scoped_port.go\<close>) gives its remote devices. The connection's
  state is what the client will still send, what was written to it (one list element per \<open>Write\<close>),
  how many writes the peer still takes, the lock log of its port and the calls made to devices.
  What a tunnelled device and client say to each other is the environment's answer.
\<close>

section \<open>Ids of a port's remote devices\<close>

record port_ids =
  pi_bySerial :: "(bytes \<times> int) list"
  pi_byID :: "(int \<times> bytes) list"

definition port_ids0 :: port_ids where
  "port_ids0 = \<lparr>pi_bySerial = [], pi_byID = []\<rparr>"

definition remoteTransportID :: "(bytes \<times> device_info) list \<Rightarrow> port_ids \<Rightarrow> bytes \<Rightarrow> port_ids \<times> int" where
  "remoteTransportID remote p serial =
     (if serial \<notin> fst ` set remote then (p, 0)
      else (case map_of (pi_bySerial p) serial of
          Some i \<Rightarrow> (p, i)
        | None \<Rightarrow> let i = 1000000 + int (length (pi_bySerial p)) + 1
                  in (\<lparr>pi_bySerial = (serial, i) # pi_bySerial p, pi_byID = (i, serial) # pi_byID p\<rparr>, i)))"

definition remoteSerialByTransportID :: "port_ids \<Rightarrow> int \<Rightarrow> bytes" where
  "remoteSerialByTransportID p i = (case map_of (pi_byID p) i of Some s \<Rightarrow> s | None \<Rightarrow> [])"

definition port_ids_ok :: "port_ids \<Rightarrow> bool" where
  "port_ids_ok p \<longleftrightarrow> pi_byID p = map (\<lambda>(s, i). (i, s)) (pi_bySerial p) \<and>
     distinct (map fst (pi_bySerial p)) \<and>
     map snd (pi_bySerial p) = map (\<lambda>n. 1000000 + int n) (rev [1..<Suc (length (pi_bySerial p))])"

lemma port_ids_ok_remote: "port_ids_ok p \<Longrightarrow> port_ids_ok (fst (remoteTransportID remote p s))"
proof -
  assume ok: "port_ids_ok p"
  consider "s \<notin> fst ` set remote" | i where "s \<in> fst ` set remote" "map_of (pi_bySerial p) s = Some i"
    | "s \<in> fst ` set remote" "map_of (pi_bySerial p) s = None" by (cases "map_of (pi_bySerial p) s") auto
  then show ?thesis
  proof cases
    case 3
    let ?n = "length (pi_bySerial p)" and ?i = "1000000 + int (length (pi_bySerial p)) + 1"
    have r: "fst (remoteTransportID remote p s)
        = \<lparr>pi_bySerial = (s, ?i) # pi_bySerial p, pi_byID = (?i, s) # pi_byID p\<rparr>"
      using 3 by (simp add: remoteTransportID_def Let_def)
    have "map (\<lambda>n. 1000000 + int n) (rev [1..<Suc (Suc ?n)])
        = ?i # map (\<lambda>n. 1000000 + int n) (rev [1..<Suc ?n])"
      by (subst upt_Suc_append) simp_all
    then show ?thesis
      using ok 3(2) unfolding r port_ids_ok_def by (simp add: map_of_eq_None_iff)
  qed (use ok in \<open>simp_all add: remoteTransportID_def\<close>)
qed

lemma port_ids_distinct:
  assumes "port_ids_ok p"
  shows "distinct (map snd (pi_bySerial p))"
proof -
  have eq: "map snd (pi_bySerial p) = map (\<lambda>n. 1000000 + int n) (rev [1..<Suc (length (pi_bySerial p))])"
    using assms by (simp add: port_ids_ok_def)
  show ?thesis unfolding eq by (simp add: distinct_map inj_on_def del: upt_Suc)
qed

lemma port_ids_lookup:
  assumes "port_ids_ok p"
  shows "map_of (pi_byID p) i = Some s \<longleftrightarrow> map_of (pi_bySerial p) s = Some i"
proof -
  have "map_of (pi_byID p) i = Some s \<longleftrightarrow> (i, s) \<in> set (pi_byID p)"
    using assms port_ids_distinct [OF assms]
    by (intro map_of_eq_Some_iff) (auto simp: port_ids_ok_def comp_def split_beta)
  also have "\<dots> \<longleftrightarrow> (s, i) \<in> set (pi_bySerial p)"
    using assms by (force simp: port_ids_ok_def)
  also have "\<dots> \<longleftrightarrow> map_of (pi_bySerial p) s = Some i"
    using assms by (auto simp: port_ids_ok_def)
  finally show ?thesis .
qed

lemma port_ids_range:
  assumes "port_ids_ok p" and "map_of (pi_bySerial p) s = Some i"
  shows "1000000 < i"
proof -
  have "i \<in> set (map snd (pi_bySerial p))"
    using assms(2) by (force dest: map_of_SomeD)
  then show ?thesis using assms(1) unfolding port_ids_ok_def by auto
qed

interpretation port_table: transport_table port_ids_ok "\<lambda>p. fst ` set (pi_bySerial p)"
  "\<lambda>p s. case map_of (pi_bySerial p) s of Some i \<Rightarrow> i | None \<Rightarrow> 0" remoteSerialByTransportID
proof unfold_locales
  fix p s i
  assume ok: "port_ids_ok p"
  show "(case map_of (pi_bySerial p) s of Some i \<Rightarrow> i | None \<Rightarrow> 0) \<noteq> 0 \<and>
      remoteSerialByTransportID p (case map_of (pi_bySerial p) s of Some i \<Rightarrow> i | None \<Rightarrow> 0) = s"
    if k: "s \<in> fst ` set (pi_bySerial p)"
  proof -
    obtain i where i: "map_of (pi_bySerial p) s = Some i"
      using k by (cases "map_of (pi_bySerial p) s") (simp_all add: map_of_eq_None_iff)
    then have "map_of (pi_byID p) i = Some s" using port_ids_lookup [OF ok] by blast
    then show ?thesis
      using i port_ids_range [OF ok i] by (simp add: remoteSerialByTransportID_def)
  qed
  show "(case map_of (pi_bySerial p) s of Some i \<Rightarrow> i | None \<Rightarrow> 0) = 0"
    if "s \<notin> fst ` set (pi_bySerial p)"
    using that by (metis map_of_eq_None_iff option.simps(4))
  show "remoteSerialByTransportID p i \<in> fst ` set (pi_bySerial p) \<and>
      (case map_of (pi_bySerial p) (remoteSerialByTransportID p i) of Some i \<Rightarrow> i | None \<Rightarrow> 0) = i"
    if ne: "remoteSerialByTransportID p i \<noteq> []"
  proof -
    obtain s where s: "map_of (pi_byID p) i = Some s"
      using ne by (auto simp: remoteSerialByTransportID_def split: option.splits)
    then have "map_of (pi_bySerial p) s = Some i" using port_ids_lookup [OF ok] by simp
    then show ?thesis
      using s by (force simp: remoteSerialByTransportID_def dest: map_of_SomeD)
  qed
qed

section \<open>Connections\<close>

text \<open>
  \<open>allowedSerials\<close> is \<open>None\<close> for nil (all devices). \<open>ac_idOrder\<close> is the order in which the
  tracker's id table is walked; \<open>ac_remote\<close> is the map of remote devices in its walk order.
  \<open>ac_scoped\<close>: the port manager has set the two id functions.
\<close>

record adb_conf =
  ac_tracker :: tracker
  ac_idOrder :: "bytes list"
  ac_allowed :: "bytes list option"
  ac_remote :: "(bytes \<times> device_info) list"
  ac_scoped :: bool
  ac_conn :: nat

datatype device_call =
    ForwardToDevice (call_source: bytes) (call_serial: bytes) (call_service: bytes)
  | RelayToDevice (call_serial: bytes) (call_service: bytes)

datatype traffic = FromClient bytes | FromDevice bytes

record adb_env =
  ae_forward :: "bytes \<Rightarrow> bytes \<Rightarrow> bytes \<Rightarrow> goerr option"
  ae_relay :: "bytes \<Rightarrow> bytes \<Rightarrow> goerr option"
  ae_traffic :: "bytes \<Rightarrow> bytes \<Rightarrow> traffic list"
  ae_now :: int
  ae_end :: int

record adb_state =
  as_in :: bytes
  as_out :: "bytes list"
  as_writes :: nat
  as_keepAlive :: bool
  as_ids :: port_ids
  as_log :: "lock_log option"
  as_calls :: "device_call list"

section \<open>Visible devices\<close>

definition getVisibleDevices :: "adb_conf \<Rightarrow> device_info list" where
  "getVisibleDevices c = sort_key device_info.Serial (case ac_allowed c of
       None \<Rightarrow> GetDevices (ac_tracker c) @ map snd (ac_remote c)
     | Some A \<Rightarrow>
         if A = [] then []
         else filter (\<lambda>d. device_info.Serial d \<in> set A) (GetDevices (ac_tracker c))
           @ map snd (filter (\<lambda>(s, d). s \<in> set A) (ac_remote c)))"

definition isSerialAllowed :: "adb_conf \<Rightarrow> bytes \<Rightarrow> bool" where
  "isSerialAllowed c serial = (case ac_allowed c of None \<Rightarrow> True | Some A \<Rightarrow> serial \<in> set A)"

definition sdkOf :: "adb_conf \<Rightarrow> bytes \<Rightarrow> int" where
  "sdkOf c serial = (case find (\<lambda>d. device_info.Serial d = serial) (getVisibleDevices c) of
       Some d \<Rightarrow> Sdk d | None \<Rightarrow> modernSdk)"

definition minVisibleSdk :: "adb_conf \<Rightarrow> int" where
  "minVisibleSdk c = foldl (\<lambda>m d. if Sdk d < m then Sdk d else m) modernSdk (getVisibleDevices c)"

definition transportIDOf :: "adb_conf \<Rightarrow> adb_state \<Rightarrow> bytes \<Rightarrow> adb_state \<times> int" where
  "transportIDOf c s serial = (let i = GetTransportID (ac_tracker c) serial in
     if i \<noteq> 0 then (s, i)
     else if ac_scoped c then (case remoteTransportID (ac_remote c) (as_ids s) serial of
       (p, i) \<Rightarrow> (s\<lparr>as_ids := p\<rparr>, i))
     else (s, 0))"

section \<open>Writing to the client\<close>

text \<open>A \<open>Write\<close> on the client's socket: whether it succeeded.\<close>

definition connWriteRaw :: "adb_state \<Rightarrow> bytes \<Rightarrow> adb_state \<times> bool" where
  "connWriteRaw s m = (case as_writes s of
       0 \<Rightarrow> (s, False)
     | Suc n \<Rightarrow> (s\<lparr>as_out := as_out s @ [m], as_writes := n\<rparr>, True))"

definition writeOkay :: "adb_state \<Rightarrow> adb_state" where
  "writeOkay s = fst (connWriteRaw s WriteOkay)"

definition writeOkayWithPayload :: "adb_state \<Rightarrow> bytes \<Rightarrow> adb_state" where
  "writeOkayWithPayload s p = (case WriteOkayWithPayload p of
     Inl _ \<Rightarrow> s | Inr m \<Rightarrow> fst (connWriteRaw s m))"

definition writeFail :: "adb_state \<Rightarrow> bytes \<Rightarrow> adb_state" where
  "writeFail s p = (case WriteFail p of Inl _ \<Rightarrow> s | Inr m \<Rightarrow> fst (connWriteRaw s m))"

text \<open>The same through the tunnel's observer.\<close>

definition tunnelWrite :: "adb_conf \<Rightarrow> adb_state \<Rightarrow> bytes \<Rightarrow> adb_state" where
  "tunnelWrite c s m = (case connWriteRaw s m of
     (s1, ok) \<Rightarrow> if ok then s1\<lparr>as_log := map_option (\<lambda>l. connWrite l (ac_conn c) m) (as_log s1)\<rparr> else s1)"

definition writeFailTo :: "adb_conf \<Rightarrow> adb_state \<Rightarrow> bytes \<Rightarrow> adb_state" where
  "writeFailTo c s p = (case WriteFail p of Inl _ \<Rightarrow> s | Inr m \<Rightarrow> tunnelWrite c s m)"

section \<open>Tunnels\<close>

fun tunnelTraffic :: "adb_env \<Rightarrow> adb_conf \<Rightarrow> adb_state \<Rightarrow> traffic list \<Rightarrow> adb_state" where
  "tunnelTraffic e c s [] = s"
| "tunnelTraffic e c s (FromClient p # ts) =
     tunnelTraffic e c (s\<lparr>as_log := map_option (\<lambda>l. connRead l (ac_conn c) p (ae_now e)) (as_log s)\<rparr>) ts"
| "tunnelTraffic e c s (FromDevice p # ts) = tunnelTraffic e c (tunnelWrite c s p) ts"

definition obsFinish :: "adb_env \<Rightarrow> adb_conf \<Rightarrow> adb_state \<Rightarrow> adb_state" where
  "obsFinish e c s = s\<lparr>as_log := map_option (\<lambda>l. finish l (ac_conn c) (ae_end e)) (as_log s)\<rparr>"

text \<open>
  A relayed or forwarded connection takes over the client's stream: the call is noted, its traffic
  passes the observer, and nothing of the client's input is left for anyone else.
\<close>

definition deviceCall :: "adb_env \<Rightarrow> adb_conf \<Rightarrow> adb_state \<Rightarrow> device_call \<Rightarrow> adb_state" where
  "deviceCall e c s call =
     (tunnelTraffic e c (s\<lparr>as_calls := as_calls s @ [call]\<rparr>) (ae_traffic e (call_serial call) (call_service call)))
       \<lparr>as_in := []\<rparr>"

definition noReverse :: "bytes \<Rightarrow> bytes" where
  "noReverse serial = ''adb reverse is not supported on '' @ serial @ '': it is relayed from another proxy''"

definition tunnel :: "adb_env \<Rightarrow> adb_conf \<Rightarrow> adb_state \<Rightarrow> bytes \<Rightarrow> bytes \<Rightarrow> adb_state \<times> goerr option" where
  "tunnel e c s sourceAddr serial =
     (let k = ac_conn c;
          s0 = s\<lparr>as_log := map_option (\<lambda>l. newTunnelObserver l k serial) (as_log s)\<rparr>
      in (case ReadRequest (as_in s0) of (r, rest) \<Rightarrow>
        let got = take (length (as_in s0) - length rest) (as_in s0);
            s1 = s0\<lparr>as_in := rest, as_log := map_option (\<lambda>l. connRead l k got (ae_now e)) (as_log s0)\<rparr>
        in (case r of
            Inl err \<Rightarrow> (obsFinish e c s1, if err = EOF then None else Some err)
          | Inr service \<Rightarrow>
              if sourceAddr = [] \<and> serial \<in> fst ` set (ac_remote c) then
                if HasPrefix service ''reverse:'' then (obsFinish e c (writeFailTo c s1 (noReverse serial)), None)
                else let s2 = deviceCall e c s1 (RelayToDevice serial service); err = ae_relay e serial service
                     in (case err of
                         Some (RelayRefused er) \<Rightarrow>
                           (obsFinish e c (writeFailTo c s2 (errorText (RelayRefused er))), err)
                       | _ \<Rightarrow> (obsFinish e c s2, err))
              else (obsFinish e c (deviceCall e c s1 (ForwardToDevice sourceAddr serial service)),
                    ae_forward e sourceAddr serial service))))"

definition emDash :: bytes where
  "emDash = [CHR 0xE2, CHR 0x80, CHR 0x94]"

definition notAvailable :: "bytes \<Rightarrow> bytes" where
  "notAvailable serial = ''device '' @ serial @ '' not available '' @ emDash @ '' use sair-acquire''"

definition noDevices :: bytes where
  "noDevices = ''no devices available '' @ emDash @ '' use sair-acquire''"

definition noSource :: "adb_conf \<Rightarrow> bytes \<Rightarrow> bool" where
  "noSource c serial \<longleftrightarrow> GetSourceAddr (ac_tracker c) serial = [] \<and> serial \<notin> fst ` set (ac_remote c)"

definition handleTransport :: "adb_env \<Rightarrow> adb_conf \<Rightarrow> adb_state \<Rightarrow> bytes \<Rightarrow> adb_state" where
  "handleTransport e c s serial =
     (if noSource c serial then writeFail s (''no device-source registered for '' @ serial)
      else fst (tunnel e c (writeOkay s) (GetSourceAddr (ac_tracker c) serial) serial))"

text \<open>\<open>binary.LittleEndian.PutUint64\<close>.\<close>

definition PutUint64 :: "64 word \<Rightarrow> bytes" where
  "PutUint64 w = map (\<lambda>i. char_of (unat w div 256 ^ i mod 256)) [0..<8]"

definition handleTransportWithID :: "adb_env \<Rightarrow> adb_conf \<Rightarrow> adb_state \<Rightarrow> bytes \<Rightarrow> adb_state" where
  "handleTransportWithID e c s serial =
     (if noSource c serial then writeFail s (''no device-source registered for '' @ serial)
      else (case transportIDOf c (writeOkay s) serial of (s1, i) \<Rightarrow>
        case connWriteRaw s1 (PutUint64 (word_of_int i)) of (s2, ok) \<Rightarrow>
          if ok then fst (tunnel e c s2 (GetSourceAddr (ac_tracker c) serial) serial) else s2))"

section \<open>Host commands\<close>

text \<open>\<open>fmt.Sscanf(s, "%d", &n)\<close>, with \<open>0\<close> for what does not scan.\<close>

fun scanSpace :: "bytes \<Rightarrow> bytes option" where
  "scanSpace [] = Some []"
| "scanSpace (c # s) =
     (if c = CHR 0x0A \<or> c = CHR 0x0D \<and> (case s of d # _ \<Rightarrow> d = CHR 0x0A | [] \<Rightarrow> False) then None
      else if isSpace c then scanSpace s else Some (c # s))"

definition isDigit :: "char \<Rightarrow> bool" where
  "isDigit c = (let n = (of_char c :: nat) in 48 \<le> n \<and> n \<le> 57)"

definition sscanfD :: "bytes \<Rightarrow> int" where
  "sscanfD s = (case scanSpace s of None \<Rightarrow> 0 | Some t \<Rightarrow>
     (let (neg, u) = signOf t; ds = takeWhile isDigit u in
      case Atoi ((if neg then ''-'' else []) @ ds) of POk n \<Rightarrow> n | _ \<Rightarrow> 0))"

text \<open>The device list, long or short; a long one can assign ids to remote devices.\<close>

fun deviceLines :: "adb_conf \<Rightarrow> adb_state \<Rightarrow> bool \<Rightarrow> device_info list \<Rightarrow> adb_state \<times> bytes" where
  "deviceLines c s long [] = (s, [])"
| "deviceLines c s long (d # ds) =
     (if long then
        let model = ReplaceByte (CHR '' '') ''_'' (Model d)
        in (case transportIDOf c s (device_info.Serial d) of (s1, i) \<Rightarrow>
             case deviceLines c s1 long ds of (s2, rest) \<Rightarrow>
               (s2, FormatDeviceLineLong (device_info.Serial d) model model model i @ rest))
      else (case deviceLines c s long ds of (s2, rest) \<Rightarrow> (s2, FormatDeviceLine (device_info.Serial d) @ rest)))"

definition trackDevices :: "adb_conf \<Rightarrow> adb_state \<Rightarrow> bool \<Rightarrow> adb_state" where
  "trackDevices c s long =
     (case deviceLines c (s\<lparr>as_keepAlive := True\<rparr>) long (getVisibleDevices c) of (s1, data) \<Rightarrow>
        case connWriteRaw (writeOkay s1) (fmtX4 (length data) @ data) of (s2, ok) \<Rightarrow>
          if ok then s2\<lparr>as_in := []\<rparr> else s2)"

definition transportByID :: "adb_env \<Rightarrow> adb_conf \<Rightarrow> adb_state \<Rightarrow> bytes \<Rightarrow> adb_state" where
  "transportByID e c s idStr =
     (let i = sscanfD idStr in
      if i = 0 then writeFail s ''invalid transport id''
      else let serial0 = GetSerialByTransportID (ac_tracker c) (ac_idOrder c) i;
               serial = (if serial0 = [] \<and> ac_scoped c then remoteSerialByTransportID (as_ids s) i else serial0)
           in if serial = [] then writeFail s (''device not found for transport id '' @ fmtInt i)
              else if \<not> isSerialAllowed c serial then writeFail s (notAvailable serial)
              else handleTransport e c s serial)"

definition waitFor :: "adb_conf \<Rightarrow> adb_state \<Rightarrow> bytes \<Rightarrow> adb_state" where
  "waitFor c s request =
     (let rest = TrimPrefix request ''host-serial:'' in
      case Index rest '':wait-for-'' of
        None \<Rightarrow> writeFail s (''malformed host-serial wait-for command: '' @ request)
      | Some 0 \<Rightarrow> writeFail s (''malformed host-serial wait-for command: '' @ request)
      | Some i \<Rightarrow> let serial = take i rest in
          if \<not> isSerialAllowed c serial then writeFail s (notAvailable serial)
          else if \<not> list_ex (\<lambda>d. device_info.Serial d = serial) (getVisibleDevices c)
          then writeFail s (''unknown device: '' @ serial)
          else writeOkay (writeOkay s))"

definition hostSerial :: "adb_state \<Rightarrow> bytes \<Rightarrow> adb_state" where
  "hostSerial s request = (case Index (TrimPrefix request ''host-serial:'') '':'' of
       Some (Suc _) \<Rightarrow> writeFail s (''unsupported command: '' @ request)
     | _ \<Rightarrow> writeFail s (''malformed host-serial command: '' @ request))"

definition handleHostCommand :: "adb_env \<Rightarrow> adb_conf \<Rightarrow> adb_state \<Rightarrow> bytes \<Rightarrow> adb_state" where
  "handleHostCommand e c s request =
     (if request = ''host:version'' then writeOkayWithPayload s ''0029''
      else if request = ''host:features'' \<or> request = ''host:host-features'' then
        writeOkayWithPayload s (FeaturesForSdk (minVisibleSdk c))
      else if HasPrefix request ''host-serial:'' \<and> HasSuffix request '':features'' then
        let serial = TrimSuffix (TrimPrefix request ''host-serial:'') '':features'' in
        (if \<not> isSerialAllowed c serial then writeFail s (notAvailable serial)
         else writeOkayWithPayload s (FeaturesForSdk (sdkOf c serial)))
      else if request = ''host:devices'' \<or> request = ''host:devices-short'' then
        (case deviceLines c s False (getVisibleDevices c) of (s1, data) \<Rightarrow> writeOkayWithPayload s1 data)
      else if request = ''host:devices-l'' then
        (case deviceLines c s True (getVisibleDevices c) of (s1, data) \<Rightarrow> writeOkayWithPayload s1 data)
      else if request = ''host:track-devices'' \<or> request = ''host:track-devices-l'' then
        trackDevices c s (HasSuffix request ''-l'')
      else if request = ''host:kill'' then writeOkay s
      else if HasPrefix request ''host:transport:'' then
        let serial = TrimPrefix request ''host:transport:'' in
        (if \<not> isSerialAllowed c serial then writeFail s (notAvailable serial)
         else handleTransport e c s serial)
      else if request = ''host:transport-any'' then
        (case getVisibleDevices c of [] \<Rightarrow> writeFail s noDevices
           | d # _ \<Rightarrow> handleTransport e c s (device_info.Serial d))
      else if HasPrefix request ''host:tport:serial:'' then
        let serial = TrimPrefix request ''host:tport:serial:'' in
        (if \<not> isSerialAllowed c serial then writeFail s (notAvailable serial)
         else handleTransportWithID e c s serial)
      else if request = ''host:tport:any'' then
        (case getVisibleDevices c of [] \<Rightarrow> writeFail s noDevices
           | d # _ \<Rightarrow> handleTransportWithID e c s (device_info.Serial d))
      else if HasPrefix request ''host:transport-id:'' then
        transportByID e c s (TrimPrefix request ''host:transport-id:'')
      else if HasPrefix request ''host-serial:'' \<and> Contains request '':wait-for-'' then waitFor c s request
      else if HasPrefix request ''host-serial:'' then hostSerial s request
      else if HasPrefix request ''host:'' then writeFail s (''unsupported command: '' @ request)
      else writeFail s ''expected host: command'')"

section \<open>Frame facts\<close>

lemma connWriteRaw_frame [simp, frame_simps]:
  "as_in (fst (connWriteRaw s m)) = as_in s" "as_calls (fst (connWriteRaw s m)) = as_calls s"
  "as_keepAlive (fst (connWriteRaw s m)) = as_keepAlive s" "as_ids (fst (connWriteRaw s m)) = as_ids s"
  "as_log (fst (connWriteRaw s m)) = as_log s"
  by (simp_all add: connWriteRaw_def split: nat.split)

lemma write_frame [simp, frame_simps]:
  "as_in (writeOkay s) = as_in s" "as_calls (writeOkay s) = as_calls s"
  "as_in (writeOkayWithPayload s p) = as_in s" "as_calls (writeOkayWithPayload s p) = as_calls s"
  "as_in (writeFail s p) = as_in s" "as_calls (writeFail s p) = as_calls s"
  "as_ids (writeOkay s) = as_ids s" "as_ids (writeFail s p) = as_ids s"
  by (simp_all add: writeOkay_def writeOkayWithPayload_def writeFail_def split: sum.split)

lemma tunnelWrite_frame [simp, frame_simps]:
  "as_in (tunnelWrite c s m) = as_in s" "as_calls (tunnelWrite c s m) = as_calls s"
  using connWriteRaw_frame [of s m] by (simp_all add: tunnelWrite_def split_beta)

lemma writeFailTo_frame [simp, frame_simps]:
  "as_in (writeFailTo c s p) = as_in s" "as_calls (writeFailTo c s p) = as_calls s"
  by (simp_all add: writeFailTo_def split: sum.split)

lemma tunnelTraffic_frame [simp, frame_simps]:
  "as_calls (tunnelTraffic e c s ts) = as_calls s"
  by (induction e c s ts rule: tunnelTraffic.induct) simp_all

lemma obsFinish_frame [simp, frame_simps]:
  "as_in (obsFinish e c s) = as_in s" "as_calls (obsFinish e c s) = as_calls s"
  by (simp_all add: obsFinish_def)

lemma deviceCall_frame [simp, frame_simps]:
  "as_in (deviceCall e c s call) = []" "as_calls (deviceCall e c s call) = as_calls s @ [call]"
  by (simp_all add: deviceCall_def)

lemma transportIDOf_frame [simp, frame_simps]:
  "as_in (fst (transportIDOf c s serial)) = as_in s" "as_calls (fst (transportIDOf c s serial)) = as_calls s"
  by (simp_all add: transportIDOf_def Let_def split: prod.split)

lemma deviceLines_frame [simp, frame_simps]:
  "as_in (fst (deviceLines c s long ds)) = as_in s \<and> as_calls (fst (deviceLines c s long ds)) = as_calls s"
proof (induction c s long ds rule: deviceLines.induct)
  case (2 c s long d ds)
  obtain s1 i where t: "transportIDOf c s (device_info.Serial d) = (s1, i)" by fastforce
  then have "as_in s1 = as_in s" "as_calls s1 = as_calls s"
    using transportIDOf_frame [of c s "device_info.Serial d"] by simp_all
  then show ?case
    using 2 t by (cases long) (auto simp: Let_def split: prod.splits)
qed simp

lemma ReadFull_le: "length (snd (ReadFull n r)) \<le> length r"
  by (simp add: ReadFull_def)

lemma ReadRequest_le: "length (snd (ReadRequest r)) \<le> length r"
proof -
  have "length (snd (ReadFull n (drop 4 r))) \<le> length r" for n
    using ReadFull_le [of n "drop 4 r"] by simp
  then show ?thesis
    by (simp add: ReadRequest_def ReadFull_def [of 4] Let_def split: parse.split)
qed

lemma ReadRequest_less: "ReadRequest r = (Inr s, rest) \<Longrightarrow> length rest < length r"
  using ReadRequest_Inr [of r s rest] by auto

lemma tunnel_in: "length (as_in (fst (tunnel e c s src serial))) \<le> length (as_in s)"
  using ReadRequest_le [of "as_in s"]
  by (simp add: tunnel_def Let_def split_beta split: sum.split option.split goerr.split)

lemma handleTransport_in:
  "length (as_in (handleTransport e c s serial)) \<le> length (as_in s)"
  using tunnel_in [of e c "writeOkay s"] by (simp add: handleTransport_def)

lemma handleTransportWithID_in:
  "length (as_in (handleTransportWithID e c s serial)) \<le> length (as_in s)"
proof -
  obtain s1 i where t: "transportIDOf c (writeOkay s) serial = (s1, i)" by fastforce
  obtain s2 ok where w: "connWriteRaw s1 (PutUint64 (word_of_int i)) = (s2, ok)" by fastforce
  have "as_in s2 = as_in s"
    using transportIDOf_frame(1) [of c "writeOkay s" serial] connWriteRaw_frame(1) [of s1 "PutUint64 (word_of_int i)"] t w
    by simp
  then show ?thesis
    using tunnel_in [of e c s2] t w by (simp add: handleTransportWithID_def)
qed

lemma trackDevices_in: "length (as_in (trackDevices c s long)) \<le> length (as_in s)"
proof -
  obtain s1 data where d: "deviceLines c (s\<lparr>as_keepAlive := True\<rparr>) long (getVisibleDevices c) = (s1, data)"
    by fastforce
  then have "as_in s1 = as_in s"
    using deviceLines_frame [of c "s\<lparr>as_keepAlive := True\<rparr>" long "getVisibleDevices c"] by simp
  then show ?thesis
    using d connWriteRaw_frame(1) [of "writeOkay s1" "fmtX4 (length data) @ data"]
    by (simp add: trackDevices_def split_beta)
qed

lemma deviceLines_payload_in:
  "as_in (case deviceLines c s long ds of (s1, data) \<Rightarrow> writeOkayWithPayload s1 data) = as_in s"
  "as_calls (case deviceLines c s long ds of (s1, data) \<Rightarrow> writeOkayWithPayload s1 data) = as_calls s"
  using deviceLines_frame [of c s long ds] by (simp_all add: split_beta)

lemma if_pred: "P x \<Longrightarrow> P y \<Longrightarrow> P (if b then x else y)"
  by simp

lemma handleHostCommand_in: "length (as_in (handleHostCommand e c s request)) \<le> length (as_in s)"
proof -
  have i: "length (as_in (transportByID e c s idStr)) \<le> length (as_in s)" for idStr
    by (simp add: transportByID_def Let_def handleTransport_in)
  have w: "as_in (waitFor c s request) = as_in s" "as_in (hostSerial s request) = as_in s"
    by (simp_all add: waitFor_def hostSerial_def Let_def split: option.split nat.split)
  show ?thesis
    unfolding handleHostCommand_def Let_def
    by (intro if_pred [where P = "\<lambda>x. length (as_in x) \<le> length (as_in s)"])
      (simp_all only: i w deviceLines_payload_in trackDevices_in handleTransport_in
        handleTransportWithID_in write_frame order_refl split: list.split, simp_all)
qed

text \<open>
  The command loop. A second round only follows \<open>host:track-devices\<close>, and each round reads at
  least a header, so the input bounds the loop.
\<close>

function Handle :: "adb_env \<Rightarrow> adb_conf \<Rightarrow> adb_state \<Rightarrow> adb_state" where
  "Handle e c s = (case ReadRequest (as_in s) of
       (Inl _, rest) \<Rightarrow> s\<lparr>as_in := rest\<rparr>
     | (Inr request, rest) \<Rightarrow>
         let s1 = handleHostCommand e c (s\<lparr>as_in := rest\<rparr>) request in
         if as_keepAlive s1 then Handle e c s1 else s1)"
  by pat_completeness auto
termination
proof (relation "measure (\<lambda>(e, c, s). length (as_in s))")
  fix e c s r rest request and s1 :: adb_state
  assume "(r, rest) = ReadRequest (as_in s)" "r = Inr request"
    and s1: "s1 = handleHostCommand e c (s\<lparr>as_in := rest\<rparr>) request"
  then have "length rest < length (as_in s)" using ReadRequest_less by metis
  then show "((e, c, s1), e, c, s) \<in> measure (\<lambda>(e, c, s). length (as_in s))"
    using handleHostCommand_in [of e c "s\<lparr>as_in := rest\<rparr>" request] by (simp add: s1)
qed simp

declare Handle.simps [simp del]

section \<open>Who a connection can reach\<close>

text \<open>The port manager keys the remote devices by their serial.\<close>

definition remote_keyed :: "adb_conf \<Rightarrow> bool" where
  "remote_keyed c \<longleftrightarrow> list_all (\<lambda>(s, d). device_info.Serial d = s) (ac_remote c)"

lemma visible_serials:
  assumes "remote_keyed c"
  shows "s \<in> device_info.Serial ` set (getVisibleDevices c) \<longleftrightarrow> isSerialAllowed c s \<and>
    (s \<in> device_info.Serial ` set (GetDevices (ac_tracker c)) \<or> s \<in> fst ` set (ac_remote c))"
proof -
  have k: "device_info.Serial ` snd ` set xs = fst ` set xs" if "set xs \<subseteq> set (ac_remote c)" for xs
    using assms that by (force simp: remote_keyed_def list_all_iff image_image intro!: image_cong)
  show ?thesis
  proof (cases "ac_allowed c")
    case None
    then show ?thesis
      using k [of "ac_remote c"] by (auto simp: getVisibleDevices_def isSerialAllowed_def image_Un)
  next
    case (Some A)
    have "device_info.Serial ` snd ` {x \<in> set (ac_remote c). fst x \<in> set A} = fst ` {x \<in> set (ac_remote c). fst x \<in> set A}"
      using k [of "filter (\<lambda>x. fst x \<in> set A) (ac_remote c)"] by simp
    then show ?thesis
      using Some by (auto simp: getVisibleDevices_def isSerialAllowed_def image_Un split_beta)
  qed
qed

definition calls_allowed :: "adb_conf \<Rightarrow> adb_state \<Rightarrow> bool" where
  "calls_allowed c s \<longleftrightarrow> list_all (\<lambda>call. isSerialAllowed c (call_serial call)) (as_calls s)"

lemma calls_allowed_eq: "as_calls s' = as_calls s \<Longrightarrow> calls_allowed c s \<Longrightarrow> calls_allowed c s'"
  by (simp add: calls_allowed_def)

lemma tunnel_calls:
  "as_calls (fst (tunnel e c s src serial)) = as_calls s \<or>
   (\<exists>call. as_calls (fst (tunnel e c s src serial)) = as_calls s @ [call] \<and> call_serial call = serial)"
  by (simp add: tunnel_def Let_def split_beta split: sum.split option.split goerr.split)

lemma tunnel_allowed:
  assumes "isSerialAllowed c serial" and "calls_allowed c s"
  shows "calls_allowed c (fst (tunnel e c s src serial))"
  using tunnel_calls [of e c s src serial] assms by (auto simp: calls_allowed_def)

lemma handleTransport_allowed:
  assumes "isSerialAllowed c serial" and "calls_allowed c s"
  shows "calls_allowed c (handleTransport e c s serial)"
  using tunnel_allowed [OF assms(1), of "writeOkay s"] assms(2)
  by (simp add: handleTransport_def calls_allowed_eq [of _ s])

lemma handleTransportWithID_allowed:
  assumes "isSerialAllowed c serial" and "calls_allowed c s"
  shows "calls_allowed c (handleTransportWithID e c s serial)"
proof -
  obtain s1 i where t: "transportIDOf c (writeOkay s) serial = (s1, i)" by fastforce
  obtain s2 ok where w: "connWriteRaw s1 (PutUint64 (word_of_int i)) = (s2, ok)" by fastforce
  have "as_calls s2 = as_calls s"
    using transportIDOf_frame(2) [of c "writeOkay s" serial] t w
      connWriteRaw_frame(2) [of s1 "PutUint64 (word_of_int i)"] by simp
  then have "calls_allowed c s2" using assms(2) calls_allowed_eq by blast
  then show ?thesis
    using tunnel_allowed [OF assms(1), of s2] assms(2) t w
    by (simp add: handleTransportWithID_def calls_allowed_eq [of _ s])
qed

lemma calls_quiet:
  "as_calls (waitFor c s request) = as_calls s" "as_calls (hostSerial s request) = as_calls s"
  "as_calls (trackDevices c s long) = as_calls s"
proof -
  show "as_calls (waitFor c s request) = as_calls s" "as_calls (hostSerial s request) = as_calls s"
    by (simp_all add: waitFor_def hostSerial_def Let_def split: option.split nat.split)
  obtain s1 data where d: "deviceLines c (s\<lparr>as_keepAlive := True\<rparr>) long (getVisibleDevices c) = (s1, data)"
    by fastforce
  then have "as_calls s1 = as_calls s"
    using deviceLines_frame [of c "s\<lparr>as_keepAlive := True\<rparr>" long "getVisibleDevices c"] by simp
  then show "as_calls (trackDevices c s long) = as_calls s"
    using d connWriteRaw_frame(2) [of "writeOkay s1" "fmtX4 (length data) @ data"]
    by (simp add: trackDevices_def split_beta)
qed

lemma handleHostCommand_allowed:
  assumes k: "remote_keyed c" and s: "calls_allowed c s"
  shows "calls_allowed c (handleHostCommand e c s request)"
proof -
  have first: "isSerialAllowed c (device_info.Serial d)" if "getVisibleDevices c = d # ds" for d ds
    using visible_serials [OF k, of "device_info.Serial d"] that by simp
  have tid: "calls_allowed c (transportByID e c s idStr)" for idStr
    using s by (simp add: transportByID_def Let_def handleTransport_allowed calls_allowed_eq [of _ s])
  have q: "calls_allowed c x" if "as_calls x = as_calls s" for x
    using s that calls_allowed_eq by blast
  have inner: "calls_allowed c (if \<not> isSerialAllowed c x then writeFail s m else handleTransport e c s x)"
      "calls_allowed c (if \<not> isSerialAllowed c x then writeFail s m else handleTransportWithID e c s x)"
    for x m
    using handleTransport_allowed handleTransportWithID_allowed s by (simp_all add: q)
  show ?thesis
    unfolding handleHostCommand_def Let_def
    by (intro inner if_pred [where P = "calls_allowed c"])
      (simp_all add: q calls_quiet tid deviceLines_payload_in handleTransport_allowed
        handleTransportWithID_allowed s first split: list.split)
qed

lemma Handle_allowed:
  "remote_keyed c \<Longrightarrow> calls_allowed c s \<Longrightarrow> calls_allowed c (Handle e c s)"
proof (induction e c s rule: Handle.induct)
  case (1 e c s)
  obtain r rest where r: "ReadRequest (as_in s) = (r, rest)" by fastforce
  show ?case
  proof (cases r)
    case (Inl er)
    then show ?thesis
      using 1 r by (subst Handle.simps) (simp add: calls_allowed_def)
  next
    case (Inr request)
    let ?s1 = "handleHostCommand e c (s\<lparr>as_in := rest\<rparr>) request"
    have a: "calls_allowed c ?s1"
      using 1 handleHostCommand_allowed by (simp add: calls_allowed_def)
    have IH: "as_keepAlive ?s1 \<Longrightarrow> calls_allowed c (Handle e c ?s1)"
      using 1(1) [OF r [symmetric] Inr refl] 1(2) a by blast
    show ?thesis
      using r Inr a IH by (subst Handle.simps) (simp add: Let_def)
  qed
qed

text \<open>
  C2. Isolation. Whatever a client sends over a connection, bytes that are no protocol included,
  every device the proxy opens a tunnel to for it is one of the port's serials: a scoped port only
  reaches the devices of its lock, and the bare port, whose set is empty, reaches none.
\<close>

theorem adb_isolation:
  assumes "remote_keyed c" and "as_calls s = []"
  shows "list_all (\<lambda>call. isSerialAllowed c (call_serial call)) (as_calls (Handle e c s)) \<and>
    (ac_allowed c = Some [] \<longrightarrow> as_calls (Handle e c s) = [])"
proof -
  have "calls_allowed c (Handle e c s)"
    using Handle_allowed [OF assms(1)] assms(2) by (simp add: calls_allowed_def)
  then show ?thesis
    by (cases "as_calls (Handle e c s)") (auto simp: calls_allowed_def isSerialAllowed_def)
qed

definition bare_port :: "tracker \<Rightarrow> adb_conf" where
  "bare_port t = \<lparr>ac_tracker = t, ac_idOrder = [], ac_allowed = Some [], ac_remote = [],
     ac_scoped = False, ac_conn = 0\<rparr>"

definition client :: "bytes \<Rightarrow> adb_state" where
  "client input = \<lparr>as_in = input, as_out = [], as_writes = 100, as_keepAlive = False,
     as_ids = port_ids0, as_log = None, as_calls = []\<rparr>"

theorem adb_isolation_witness:
  "\<forall>e. as_calls (Handle e (bare_port NewDeviceListTracker)
     (client ''0012host:transport-any0008shell:ls'')) = []"
proof
  fix e
  show "as_calls (Handle e (bare_port NewDeviceListTracker)
     (client ''0012host:transport-any0008shell:ls'')) = []"
    using adb_isolation [of "bare_port NewDeviceListTracker" "client ''0012host:transport-any0008shell:ls''" e]
    by (simp add: bare_port_def client_def remote_keyed_def)
qed

section \<open>What a connection shows\<close>

lemma minVisibleSdk_le:
  "d \<in> set (getVisibleDevices c) \<Longrightarrow> minVisibleSdk c \<le> Sdk d"
proof -
  have m: "foldl (\<lambda>m d. if Sdk d < m then Sdk d else m) m ds \<le> m \<and>
      (\<forall>d \<in> set ds. foldl (\<lambda>m d. if Sdk d < m then Sdk d else m) m ds \<le> Sdk d)" for m and ds :: "device_info list"
  proof (induction ds arbitrary: m)
    case (Cons d ds)
    show ?case using Cons [of "if Sdk d < m then Sdk d else m"] by (auto split: if_splits)
  qed simp
  show "d \<in> set (getVisibleDevices c) \<Longrightarrow> minVisibleSdk c \<le> Sdk d"
    using m [of modernSdk "getVisibleDevices c"] by (simp add: minVisibleSdk_def)
qed

text \<open>
  The list a client is shown is sorted and has exactly the serials it may reach that are
  attached here or relayed, and \<open>host:features\<close>, which names no device, promises only features
  that every device on the list has.
\<close>

theorem visible_devices:
  assumes "remote_keyed c"
  shows "(s \<in> device_info.Serial ` set (getVisibleDevices c) \<longleftrightarrow> isSerialAllowed c s \<and>
      (s \<in> device_info.Serial ` set (GetDevices (ac_tracker c)) \<or> s \<in> fst ` set (ac_remote c))) \<and>
    sorted (map device_info.Serial (getVisibleDevices c)) \<and>
    list_all (\<lambda>d. set (Split (FeaturesForSdk (minVisibleSdk c)) (CHR '','')) \<subseteq> set (features (Sdk d)))
      (getVisibleDevices c)"
  using visible_serials [OF assms] features_mono minVisibleSdk_le
  by (simp add: FeaturesForSdk_Split list_all_iff getVisibleDevices_def)

theorem visible_devices_witness:
  "''P1'' \<in> device_info.Serial ` set (getVisibleDevices
     \<lparr>ac_tracker = NewDeviceListTracker\<lparr>t_devices := [phone ''P1'', phone ''P2'']\<rparr>, ac_idOrder = [],
      ac_allowed = Some [''P1''], ac_remote = [], ac_scoped = True, ac_conn = 0\<rparr>)"
  using visible_devices [of "\<lparr>ac_tracker = NewDeviceListTracker\<lparr>t_devices := [phone ''P1'', phone ''P2'']\<rparr>,
      ac_idOrder = [], ac_allowed = Some [''P1''], ac_remote = [], ac_scoped = True, ac_conn = 0\<rparr>" "''P1''"]
  by (simp add: remote_keyed_def isSerialAllowed_def GetDevices_def phone_def)

section \<open>Transport ids, listed and selected\<close>

lemma isDigit_digitChar: "d < 10 \<Longrightarrow> isDigit (digitChar d)"
  by (simp add: isDigit_def digitChar_def Let_def)

lemma digitsIn_digits: "c \<in> set (digitsIn 10 n) \<Longrightarrow> isDigit c"
proof (induction n rule: less_induct)
  case (less n)
  show ?case
  proof (cases "n < 10")
    case True
    then show ?thesis using less.prems by (subst (asm) digitsIn.simps) (simp add: isDigit_digitChar)
  next
    case False
    then have "c \<in> set (digitsIn 10 (n div 10)) \<or> c = digitChar (n mod 10)"
      using less.prems by (subst (asm) digitsIn.simps) auto
    then show ?thesis
      using less.IH [of "n div 10"] False isDigit_digitChar [of "n mod 10"] by auto
  qed
qed

lemma digitsIn_not_Nil [simp]: "digitsIn b n \<noteq> []"
  by (subst digitsIn.simps) simp

lemma isDigit_not_space: "isDigit c \<Longrightarrow> \<not> isSpace c \<and> c \<noteq> CHR 0x0A \<and> c \<noteq> CHR 0x0D"
  by (auto simp: isDigit_def isSpace_def Let_def)

lemma sscanfD_fmtInt:
  assumes "0 < i" and "i < 2 ^ 63"
  shows "sscanfD (fmtInt i) = i"
proof -
  let ?n = "nat i" and ?ds = "digitsIn 10 (nat i)"
  have n: "?n < 2 ^ 63" using assms by (simp add: nat_less_iff)
  then have pu: "parseU 10 (2 ^ 64 - 1) 0 ?ds = POk ?n" by (intro parseU_digitsIn) simp_all
  have dig: "\<forall>c \<in> set ?ds. isDigit c" using digitsIn_digits by blast
  obtain c cs where cs: "?ds = c # cs" by (cases ?ds) auto
  have "scanSpace ?ds = Some ?ds"
    using dig isDigit_not_space [of c] by (simp add: cs)
  moreover have "signOf ?ds = (False, ?ds)" by (rule signOf_digits [OF pu])
  moreover have tw: "takeWhile isDigit ?ds = ?ds" using dig by simp
  moreover have "Atoi ?ds = POk (int ?n)"
    unfolding Atoi_def using pu n by (intro ParseInt_unsigned) simp_all
  ultimately show ?thesis
    using assms by (simp add: sscanfD_def fmtInt_def fmtNat_def takeWhile_eq_all_conv [THEN iffD2])
qed

lemma dispatch_transport:
  "handleHostCommand e c s (''host:transport:'' @ serial) =
     (if \<not> isSerialAllowed c serial then writeFail s (notAvailable serial) else handleTransport e c s serial)"
  by (simp add: handleHostCommand_def HasPrefix_def TrimPrefix_def)

lemma dispatch_transport_id:
  "handleHostCommand e c s (''host:transport-id:'' @ x) = transportByID e c s x"
  by (simp add: handleHostCommand_def HasPrefix_def TrimPrefix_def)

lemma local_id_selects:
  assumes "consistent t" and "set order = dom (t_transportIDs t)" and "GetTransportID t n \<noteq> 0" and "n \<noteq> []"
  shows "0 < GetTransportID t n \<and> GetTransportID t n < sint (t_nextTransport t) \<and>
    GetSerialByTransportID t order (GetTransportID t n) = n"
proof -
  have ok: "ids_ok t" using assms(1) by (simp add: consistent_def)
  obtain j where j: "t_transportIDs t n = Some j" "j = GetTransportID t n"
    using assms(3) by (auto simp: GetTransportID_def split: option.splits)
  then have "1 \<le> j" "j < sint (t_nextTransport t)" using ok by (auto simp: ids_ok_def)
  moreover have "GetSerialByTransportID t order j = n"
    using tracker_ids.lookup_iff [of "(t, order)", OF _ assms(4), of j] ok assms(2) j by auto
  ultimately show ?thesis by (simp flip: j(2))
qed

lemma high_id_not_local:
  assumes "consistent t" and "set order = dom (t_transportIDs t)" and "sint (t_nextTransport t) \<le> i" and "0 < i"
  shows "GetSerialByTransportID t order i = []"
proof (rule ccontr)
  have ok: "ids_ok t" using assms(1) by (simp add: consistent_def)
  assume "GetSerialByTransportID t order i \<noteq> []"
  then have "GetTransportID t (GetSerialByTransportID t order i) = i"
    using tracker_ids.known_serial [of "(t, order)" i] ok assms(2) by simp
  then have "i = 0 \<or> i < sint (t_nextTransport t)"
    using ok by (auto simp: GetTransportID_def ids_ok_def split: option.splits)
  with assms(3,4) show False by simp
qed

lemma remote_id_selects:
  assumes "remoteTransportID remote ids n = (p, i)" and "port_ids_ok ids" and "n \<in> fst ` set remote"
  shows "1000000 < i \<and> i \<le> 1000001 + int (length (pi_bySerial ids)) \<and> remoteSerialByTransportID p i = n"
proof -
  have pok: "port_ids_ok p"
    using port_ids_ok_remote [OF assms(2), of remote n] assms(1) by simp
  have m: "map_of (pi_bySerial p) n = Some i"
    using assms(1,3) by (auto simp: remoteTransportID_def Let_def split: option.splits)
  then have "i \<in> set (map snd (pi_bySerial p))" by (force dest: map_of_SomeD)
  then have "i \<le> 1000000 + int (length (pi_bySerial p))"
    using pok unfolding port_ids_ok_def by auto
  moreover have "length (pi_bySerial p) \<le> Suc (length (pi_bySerial ids))"
    using assms(1) by (auto simp: remoteTransportID_def Let_def split: if_splits option.splits)
  moreover have "remoteSerialByTransportID p i = n"
    using port_ids_lookup [OF pok, of i n] m by (simp add: remoteSerialByTransportID_def)
  ultimately show ?thesis using port_ids_range [OF pok m] by simp
qed

text \<open>
  The id a long listing shows for a device selects that device: for every device a connection
  on a scoped port can see, \<open>host:transport-id:\<close> with the id listed for it does exactly what
  \<open>host:transport:\<close> with its serial does, local devices and relayed ones alike. Ids of local and
  relayed devices cannot be confused as long as the tracker has handed out at most a million.
\<close>

theorem listed_id_selects_device:
  assumes "no_wrap NewDeviceListTracker ops" and "ac_tracker c = foldl tracker_step NewDeviceListTracker ops"
    and "set (ac_idOrder c) = dom (t_transportIDs (ac_tracker c))"
    and "sint (t_nextTransport (ac_tracker c)) \<le> 1000001"
    and "remote_keyed c" and "ac_scoped c" and "port_ids_ok (as_ids s)"
    and "length (pi_bySerial (as_ids s)) < 1000000000"
    and "d \<in> set (getVisibleDevices c)" and "device_info.Serial d \<noteq> []"
  shows "case transportIDOf c s (device_info.Serial d) of (s1, i) \<Rightarrow> i \<noteq> 0 \<and>
    handleHostCommand e c s1 (''host:transport-id:'' @ fmtInt i) =
    handleHostCommand e c s1 (''host:transport:'' @ device_info.Serial d)"
proof -
  let ?t = "ac_tracker c" and ?n = "device_info.Serial d"
  have con: "consistent ?t" using run_ok [OF new_consistent assms(1)] assms(2) by simp
  then have good: "(\<lambda>(t, order). ids_ok t \<and> set order = dom (t_transportIDs t)) (?t, ac_idOrder c)"
    using assms(3) by (simp add: consistent_def)
  obtain s1 i where t: "transportIDOf c s ?n = (s1, i)" by fastforce
  have i: "0 < i \<and> i < 2 ^ 63 \<and>
    (let x = GetSerialByTransportID ?t (ac_idOrder c) i in
       (if x = [] \<and> ac_scoped c then remoteSerialByTransportID (as_ids s1) i else x) = ?n)"
  proof (cases "GetTransportID ?t ?n = 0")
    case False
    then have "i = GetTransportID ?t ?n" using t by (simp add: transportIDOf_def Let_def)
    then show ?thesis
      using local_id_selects [OF con assms(3) False assms(10)] assms(4,10) by (simp add: Let_def)
  next
    case True
    have "?n \<notin> device_info.Serial ` set (GetDevices ?t)"
      using True con tracker_ids.id_zero [OF good, of ?n]
      by (simp add: consistent_def owners_ok_def GetDevices_def)
    then have rem: "?n \<in> fst ` set (ac_remote c)"
      using visible_serials [OF assms(5), of ?n] assms(9) by blast
    obtain p where p: "remoteTransportID (ac_remote c) (as_ids s) ?n = (p, i)" "s1 = s\<lparr>as_ids := p\<rparr>"
      using t True assms(6) by (auto simp: transportIDOf_def Let_def split: prod.splits)
    note r = remote_id_selects [OF p(1) assms(7) rem]
    have "GetSerialByTransportID ?t (ac_idOrder c) i = []"
      using high_id_not_local [OF con assms(3), of i] r assms(4) by simp
    then show ?thesis using r p(2) assms(6,8) by (simp add: Let_def)
  qed
  then have "sscanfD (fmtInt i) = i" using sscanfD_fmtInt by simp
  then have "transportByID e c s1 (fmtInt i) =
      (if \<not> isSerialAllowed c ?n then writeFail s1 (notAvailable ?n) else handleTransport e c s1 ?n)"
    using i assms(10) by (simp add: transportByID_def Let_def)
  then show ?thesis
    unfolding t prod.case dispatch_transport dispatch_transport_id using i by auto
qed

theorem listed_id_selects_device_witness:
  "\<forall>e. let c = \<lparr>ac_tracker = foldl tracker_step NewDeviceListTracker two_phones, ac_idOrder = [''P1'', ''P2''],
       ac_allowed = Some [''P2''], ac_remote = [], ac_scoped = True, ac_conn = 0\<rparr>;
     s = client [] in
   handleHostCommand e c s (''host:transport-id:'' @ fmtInt 2) = handleHostCommand e c s (''host:transport:P2'')"
  (is "\<forall>e. ?same e")
proof
  fix e
  let ?t = "foldl tracker_step NewDeviceListTracker two_phones"
  let ?c = "\<lparr>ac_tracker = ?t, ac_idOrder = [''P1'', ''P2''],
       ac_allowed = Some [''P2''], ac_remote = [], ac_scoped = True, ac_conn = 0\<rparr>"
  have o: "set (ac_idOrder ?c) = dom (t_transportIDs (ac_tracker ?c))"
    by (auto simp: two_phones_ids)
  have n: "sint (t_nextTransport (ac_tracker ?c)) \<le> 1000001"
    by (simp add: two_phones_def NewDeviceListTracker_def UpdateDevices_def recordSource_def rebuild_def
      snapshot_def publish_def Let_def phone_def)
  have k: "remote_keyed ?c" by (simp add: remote_keyed_def)
  have devs: "GetDevices ?t = [(phone ''P1'')\<lparr>DeviceSource := ''a''\<rparr>, (phone ''P2'')\<lparr>DeviceSource := ''a''\<rparr>]"
    by (simp add: two_phones_def NewDeviceListTracker_def UpdateDevices_def recordSource_def rebuild_def
      snapshot_def publish_def Let_def GetDevices_def)
  then have "''P2'' \<in> device_info.Serial ` set (getVisibleDevices ?c)"
    by (simp add: visible_serials [OF k] isSerialAllowed_def phone_def)
  then obtain d where d: "d \<in> set (getVisibleDevices ?c)" "device_info.Serial d = ''P2''" by auto
  have "GetTransportID ?t ''P2'' = 2" by (simp add: GetTransportID_def two_phones_ids)
  then show "?same e"
    using listed_id_selects_device [OF two_phones_ok, of ?c "client []" d e] o n k d
    by (simp add: client_def port_ids0_def port_ids_ok_def transportIDOf_def Let_def)
qed

end
