(* ===== verification/Session.thy ===== *)
theory Session
  imports GoStatus DeviceTracker LockLog
begin

text \<open>
  \<open>internal/proxy/session.go\<close>: the stream to the orchestrator. The goroutine \<open>run\<close> and
  the callers of \<open>send\<close> share the session; a step of \<open>sess_step\<close> is what one of them does
  between two points where others can get in. A stream is named by the attempt that opened it, so a
  sender that still holds an old one can be told from the one in use. Durations are in nanoseconds.
\<close>

section \<open>Messages\<close>

datatype event_kind = KUnspecified | KAcquire | KWifiOn | KWifiOff | KWifiReset | KPackageReset
  | KWake | KReboot | KProxyStart | KDeviceSourceUp | KDeviceSourceStale

record bench_event =
  be_timestampMs :: int
  be_kind :: event_kind
  be_serial :: bytes
  be_lockId :: bytes
  be_outcome :: bytes
  be_detail :: bytes
  be_durationMs :: int
  be_waitMs :: int

definition BenchEvent :: "event_kind \<Rightarrow> bench_event" where
  "BenchEvent k = \<lparr>be_timestampMs = 0, be_kind = k, be_serial = [], be_lockId = [], be_outcome = [],
     be_detail = [], be_durationMs = 0, be_waitMs = 0\<rparr>"

datatype proxy_msg =
    Hello bytes bytes int int
  | DevicesMsg "device_info list"
  | LockLogMsg bytes "lock_log_entry list"
  | HeartbeatMsg bytes
  | RelayFailedMsg bytes bytes
  | EventMsg bench_event

record relay_open =
  ro_tunnelId :: bytes
  ro_serial :: bytes
  ro_initialCommand :: bytes
  ro_lockId :: bytes

datatype orch_msg = Welcome bytes bytes | LockExpired bytes | RelayOpen relay_open | EmptyMsg

section \<open>The session\<close>

datatype callback = OnConnected | OnExpired bytes | OnRelayOpen relay_open

text \<open>
  Where the goroutine \<open>run\<close> is: about to call \<open>serveOnce\<close>, in its receive loop, sleeping
  for a backoff, or returned.
\<close>

datatype phase = Connecting | Serving | Sleeping | Ended

record session =
  ss_apiKey :: bytes
  ss_proxyID :: bytes
  ss_version :: bytes
  ss_heartbeatS :: int
  ss_stream :: "nat option"
  ss_fallback :: bool
  ss_backoff :: int
  ss_attempt :: nat
  ss_phase :: phase
  ss_cancelled :: bool
  ss_calls :: "callback list"

definition second :: int where
  "second = 1000000000"

definition backoffMin :: int where
  "backoffMin = second"

definition backoffMax :: int where
  "backoffMax = 30 * second"

definition newSession :: "bytes \<Rightarrow> bytes \<Rightarrow> bytes \<Rightarrow> int \<Rightarrow> session" where
  "newSession apiKey proxyID version heartbeatS =
     \<lparr>ss_apiKey = apiKey, ss_proxyID = proxyID, ss_version = version, ss_heartbeatS = heartbeatS,
      ss_stream = None, ss_fallback = False, ss_backoff = backoffMin, ss_attempt = 0,
      ss_phase = Connecting, ss_cancelled = False, ss_calls = []\<rparr>"

definition connected :: "session \<Rightarrow> bool" where
  "connected s \<longleftrightarrow> ss_stream s \<noteq> None"

definition unaryFallback :: "session \<Rightarrow> bool" where
  "unaryFallback s \<longleftrightarrow> ss_fallback s"

subsection \<open>Sending\<close>

definition isStreamDead :: "goerr \<Rightarrow> bool" where
  "isStreamDead e \<longleftrightarrow> e = EOF \<or>
     statusCode (Some e) \<in> {Unavailable, Canceled, DeadlineExceeded, Aborted}"

text \<open>
  \<open>send\<close> in its two critical sections: it looks the stream up, and after \<open>stream.Send\<close>
  has returned \<open>res\<close>, which can be much later, it drops that stream if it is dead.
\<close>

definition sendBegin :: "session \<Rightarrow> nat + goerr" where
  "sendBegin s = (case ss_stream s of None \<Rightarrow> Inr SessionDown | Some st \<Rightarrow> Inl st)"

definition sendEnd :: "session \<Rightarrow> nat \<Rightarrow> goerr option \<Rightarrow> session \<times> goerr option" where
  "sendEnd s st res = (case res of
       None \<Rightarrow> (s, None)
     | Some err \<Rightarrow>
         if isStreamDead err then
           (if ss_stream s = Some st then s\<lparr>ss_stream := None\<rparr> else s, Some SessionDown)
         else (s, Some err))"

definition send :: "session \<Rightarrow> goerr option \<Rightarrow> session \<times> goerr option" where
  "send s res = (case sendBegin s of Inr err \<Rightarrow> (s, Some err) | Inl st \<Rightarrow> sendEnd s st res)"

definition sendRelayFailed :: "session \<Rightarrow> bytes \<Rightarrow> bytes \<Rightarrow> goerr option \<Rightarrow> session \<times> proxy_msg" where
  "sendRelayFailed s tunnelID msg res = (fst (send s res), RelayFailedMsg tunnelID msg)"

subsection \<open>Serving\<close>

definition hello :: "session \<Rightarrow> proxy_msg" where
  "hello s = Hello (ss_version s) (ss_proxyID s) 10 (ss_heartbeatS s)"

text \<open>
  \<open>serveOnce\<close> up to its receive loop: the results of opening the stream, of sending hello and
  of the first \<open>Recv\<close>.
\<close>

definition serveOpen :: "session \<Rightarrow> goerr option \<Rightarrow> goerr option \<Rightarrow> goerr + orch_msg \<Rightarrow> session \<times> goerr option" where
  "serveOpen s opened sent first = (case opened of
       Some err \<Rightarrow> (s, Some err)
     | None \<Rightarrow> (case sent of
         Some err \<Rightarrow>
           if err = EOF then (case first of Inl recvErr \<Rightarrow> (s, Some recvErr) | Inr _ \<Rightarrow> (s, Some err))
           else (s, Some err)
       | None \<Rightarrow> (case first of
           Inl err \<Rightarrow> (s, Some err)
         | Inr (Welcome tenant version) \<Rightarrow>
             (s\<lparr>ss_stream := Some (ss_attempt s), ss_calls := ss_calls s @ [OnConnected]\<rparr>, None)
         | Inr _ \<Rightarrow> (s, Some (Plain ''orchestrator did not answer hello with welcome'')))))"

definition serveRecv :: "session \<Rightarrow> orch_msg \<Rightarrow> session" where
  "serveRecv s m = s\<lparr>ss_calls := ss_calls s @ (case m of
       LockExpired lockId \<Rightarrow> [OnExpired lockId] | RelayOpen r \<Rightarrow> [OnRelayOpen r] | _ \<Rightarrow> [])\<rparr>"

text \<open>
  What \<open>run\<close> does when \<open>serveOnce\<close> has returned, and after its sleep. \<open>ss_backoff\<close> is
  the duration of the next sleep.
\<close>

definition afterServe :: "session \<Rightarrow> bool \<Rightarrow> goerr \<Rightarrow> session" where
  "afterServe s conn err =
     (if ss_cancelled s then s\<lparr>ss_phase := Ended\<rparr>
      else if statusCode (Some err) = Unimplemented then s\<lparr>ss_fallback := True, ss_phase := Ended\<rparr>
      else s\<lparr>ss_backoff := (if conn then backoffMin else ss_backoff s), ss_phase := Sleeping\<rparr>)"

definition serveEnd :: "session \<Rightarrow> goerr \<Rightarrow> session" where
  "serveEnd s err = afterServe (s\<lparr>ss_stream := None\<rparr>) True err"

definition afterSleep :: "session \<Rightarrow> session" where
  "afterSleep s = (let b = ss_backoff s * 2 in
     s\<lparr>ss_backoff := (if b > backoffMax then backoffMax else b), ss_attempt := ss_attempt s + 1,
       ss_phase := Connecting\<rparr>)"

definition serveStart :: "session \<Rightarrow> goerr option \<Rightarrow> goerr option \<Rightarrow> goerr + orch_msg \<Rightarrow> session" where
  "serveStart s opened sent first = (case serveOpen s opened sent first of
       (s1, Some err) \<Rightarrow> afterServe s1 False err
     | (s1, None) \<Rightarrow> s1\<lparr>ss_phase := Serving\<rparr>)"

subsection \<open>Interleavings\<close>

datatype sess_event =
    Attempt "goerr option" "goerr option" "goerr + orch_msg"
  | Received orch_msg
  | ReceiveFailed goerr
  | SleepOver
  | SendReturned nat "goerr option"
  | Cancel
  | SleepCancelled

inductive sess_step :: "session \<Rightarrow> sess_event \<Rightarrow> session \<Rightarrow> bool" where
  attempt: "ss_phase s = Connecting \<Longrightarrow> sess_step s (Attempt opened sent first) (serveStart s opened sent first)"
| received: "ss_phase s = Serving \<Longrightarrow> sess_step s (Received m) (serveRecv s m)"
| failed: "ss_phase s = Serving \<Longrightarrow> sess_step s (ReceiveFailed err) (serveEnd s err)"
| slept: "ss_phase s = Sleeping \<Longrightarrow> sess_step s SleepOver (afterSleep s)"
| sent: "st \<le> ss_attempt s \<Longrightarrow> sess_step s (SendReturned st res) (fst (sendEnd s st res))"
| cancel: "sess_step s Cancel (s\<lparr>ss_cancelled := True\<rparr>)"
| sleepCancelled: "ss_phase s = Sleeping \<Longrightarrow> ss_cancelled s \<Longrightarrow>
    sess_step s SleepCancelled (s\<lparr>ss_phase := Ended\<rparr>)"

inductive_simps sess_step_simps [simp]:
  "sess_step s (Attempt opened sent first) s'"
  "sess_step s (Received m) s'"
  "sess_step s (ReceiveFailed err) s'"
  "sess_step s SleepOver s'"
  "sess_step s (SendReturned st res) s'"
  "sess_step s Cancel s'"
  "sess_step s SleepCancelled s'"

inductive sess_run :: "session \<Rightarrow> sess_event list \<Rightarrow> session \<Rightarrow> bool" where
  start: "sess_run s [] s"
| step: "sess_run s evs s1 \<Longrightarrow> sess_step s1 ev s2 \<Longrightarrow> sess_run s (evs @ [ev]) s2"

inductive_cases sess_runE: "sess_run s evs s'"

section \<open>Invariant\<close>

definition fresh_session :: "session \<Rightarrow> bool" where
  "fresh_session s \<longleftrightarrow> ss_stream s = None \<and> \<not> ss_fallback s \<and> ss_backoff s = backoffMin \<and>
     ss_attempt s = 0 \<and> ss_phase s = Connecting \<and> \<not> ss_cancelled s"

lemma fresh_newSession [simp]: "fresh_session (newSession apiKey proxyID version heartbeatS)"
  by (simp add: fresh_session_def newSession_def)

definition sess_ok :: "session \<Rightarrow> bool" where
  "sess_ok s \<longleftrightarrow>
     (ss_stream s \<noteq> None \<longrightarrow> ss_stream s = Some (ss_attempt s) \<and> ss_phase s = Serving) \<and>
     (ss_fallback s \<longrightarrow> ss_phase s = Ended) \<and>
     (ss_phase s = Ended \<longrightarrow> ss_fallback s \<or> ss_cancelled s) \<and>
     backoffMin \<le> ss_backoff s \<and> ss_backoff s \<le> backoffMax"

lemmas session_defs = sess_ok_def fresh_session_def newSession_def serveStart_def serveOpen_def
  serveRecv_def serveEnd_def afterServe_def afterSleep_def sendEnd_def backoffMin_def backoffMax_def
  second_def Let_def

lemma sess_ok_fresh: "fresh_session s \<Longrightarrow> sess_ok s"
  by (simp add: session_defs)

lemma sess_ok_step: "sess_ok s \<Longrightarrow> sess_step s ev s' \<Longrightarrow> sess_ok s'"
  by (erule sess_step.cases)
    (auto simp: session_defs split: option.splits sum.splits orch_msg.splits if_splits)

lemma sess_ok_run: "sess_run s evs s' \<Longrightarrow> sess_ok s \<Longrightarrow> sess_ok s'"
  by (induction rule: sess_run.induct) (auto intro: sess_ok_step)

text \<open>
  C28. The session is in exactly one of its modes at any moment, whatever the senders, the network
  and the orchestrator do: with a stream in use it is in the receive loop of the attempt that opened
  it, so a send that fails late on an older stream never takes the current one down; after the
  switch to unary calls there is no stream and never will be; and it only stops for that switch or
  for a shutdown. A backoff is at least one second and at most thirty.
\<close>

theorem session_modes:
  assumes "fresh_session s0" and "sess_run s0 evs s"
  shows "(connected s \<longrightarrow> ss_stream s = Some (ss_attempt s) \<and> ss_phase s = Serving \<and> \<not> unaryFallback s) \<and>
    (st < ss_attempt s \<longrightarrow> ss_stream (fst (sendEnd s st res)) = ss_stream s) \<and>
    (ss_phase s = Ended \<longrightarrow> unaryFallback s \<or> ss_cancelled s) \<and>
    second \<le> ss_backoff s \<and> ss_backoff s \<le> 30 * second"
proof -
  have ok: "sess_ok s" using sess_ok_run [OF assms(2) sess_ok_fresh [OF assms(1)]] .
  then show ?thesis
    by (auto simp: sess_ok_def connected_def unaryFallback_def sendEnd_def backoffMin_def backoffMax_def
      split: option.split)
qed

text \<open>The steps as a function, to run a sequence of events.\<close>

fun sess_exec :: "session \<Rightarrow> sess_event \<Rightarrow> session option" where
  "sess_exec s (Attempt opened sent first) =
     (if ss_phase s = Connecting then Some (serveStart s opened sent first) else None)"
| "sess_exec s (Received m) = (if ss_phase s = Serving then Some (serveRecv s m) else None)"
| "sess_exec s (ReceiveFailed err) = (if ss_phase s = Serving then Some (serveEnd s err) else None)"
| "sess_exec s SleepOver = (if ss_phase s = Sleeping then Some (afterSleep s) else None)"
| "sess_exec s (SendReturned st res) = (if st \<le> ss_attempt s then Some (fst (sendEnd s st res)) else None)"
| "sess_exec s Cancel = Some (s\<lparr>ss_cancelled := True\<rparr>)"
| "sess_exec s SleepCancelled =
     (if ss_phase s = Sleeping \<and> ss_cancelled s then Some (s\<lparr>ss_phase := Ended\<rparr>) else None)"

definition sess_execs :: "session \<Rightarrow> sess_event list \<Rightarrow> session option" where
  "sess_execs s evs = foldl (\<lambda>r ev. case r of None \<Rightarrow> None | Some t \<Rightarrow> sess_exec t ev) (Some s) evs"

lemma sess_exec_step: "sess_exec s ev = Some s' \<longleftrightarrow> sess_step s ev s'"
  by (cases ev) auto

lemma sess_execs_snoc: "sess_execs s (evs @ [ev]) = (case sess_execs s evs of None \<Rightarrow> None | Some t \<Rightarrow> sess_exec t ev)"
  by (simp add: sess_execs_def)

lemma sess_execs_run: "sess_execs s evs = Some s' \<longleftrightarrow> sess_run s evs s'"
proof
  show "sess_execs s evs = Some s' \<Longrightarrow> sess_run s evs s'"
  proof (induction evs arbitrary: s' rule: rev_induct)
    case Nil
    then show ?case by (simp add: sess_execs_def sess_run.start)
  next
    case (snoc ev evs)
    then show ?case
      by (auto simp: sess_execs_snoc sess_exec_step intro: sess_run.step split: option.splits)
  qed
  show "sess_run s evs s' \<Longrightarrow> sess_execs s evs = Some s'"
    by (induction rule: sess_run.induct) (auto simp: sess_execs_snoc sess_exec_step, simp add: sess_execs_def)
qed

definition reconnected :: "sess_event list" where
  "reconnected = [Attempt None None (Inr (Welcome ''t'' ''1'')), ReceiveFailed (Status Unavailable ''gone''),
     SleepOver, Attempt None None (Inr (Welcome ''t'' ''1'')), SendReturned 0 (Some EOF)]"

theorem session_modes_witness:
  "case sess_execs (newSession ''k'' ''p'' ''1'' 60) reconnected of
     None \<Rightarrow> False
   | Some s \<Rightarrow> connected s \<and> ss_attempt s = 1 \<and>
      ss_stream (fst (sendEnd s 0 (Some EOF))) = ss_stream s \<and> ss_phase s = Serving"
proof -
  have "sess_execs (newSession ''k'' ''p'' ''1'' 60) reconnected \<noteq> None \<and>
      connected (the (sess_execs (newSession ''k'' ''p'' ''1'' 60) reconnected)) \<and>
      ss_attempt (the (sess_execs (newSession ''k'' ''p'' ''1'' 60) reconnected)) = 1"
    by (simp add: reconnected_def sess_execs_def session_defs connected_def isStreamDead_def)
  then obtain s where s: "sess_execs (newSession ''k'' ''p'' ''1'' 60) reconnected = Some s"
    "connected s" "ss_attempt s = 1" by auto
  then have "sess_run (newSession ''k'' ''p'' ''1'' 60) reconnected s" by (simp add: sess_execs_run)
  from session_modes [OF fresh_newSession this, of 0 "Some EOF"] s show ?thesis by simp
qed

section \<open>Reconnecting\<close>

text \<open>The sleeps that are over since the session was last up, or since it began.\<close>

fun isDrop :: "sess_event \<Rightarrow> bool" where
  "isDrop (ReceiveFailed _) = True"
| "isDrop _ = False"

definition pauses :: "sess_event list \<Rightarrow> nat" where
  "pauses evs = length (filter (\<lambda>ev. ev = SleepOver) (takeWhile (\<lambda>ev. \<not> isDrop ev) (rev evs)))"

text \<open>The orchestrator has no Session call: an attempt, or a stream, ended with the code for that.\<close>

fun refusesSession :: "sess_event \<Rightarrow> bool" where
  "refusesSession (Attempt opened sent first) \<longleftrightarrow> (case snd (serveOpen (newSession [] [] [] 0) opened sent first) of
     None \<Rightarrow> False | Some err \<Rightarrow> statusCode (Some err) = Unimplemented)"
| "refusesSession (ReceiveFailed err) \<longleftrightarrow> statusCode (Some err) = Unimplemented"
| "refusesSession _ \<longleftrightarrow> False"

definition pauseFor :: "nat \<Rightarrow> int" where
  "pauseFor n = min (2 ^ n) 30 * second"

lemma pauseFor_double: "(if backoffMax < pauseFor n * 2 then backoffMax else pauseFor n * 2) = pauseFor (Suc n)"
  by (auto simp: pauseFor_def backoffMax_def second_def min_def)

lemma pauseFor_0 [simp]: "pauseFor 0 = backoffMin"
  by (simp add: pauseFor_def backoffMin_def)

lemma pauses_snoc: "pauses [] = 0"
  "pauses (evs @ [ev]) = (if isDrop ev then 0 else if ev = SleepOver then Suc (pauses evs) else pauses evs)"
  by (simp_all add: pauses_def)

lemma serveOpen_error: "snd (serveOpen s opened sent first) = snd (serveOpen t opened sent first)"
  by (auto simp: serveOpen_def split: option.split sum.split orch_msg.split)

lemma serveOpen_frame:
  "serveOpen s opened sent first = (s1, r) \<Longrightarrow> ss_backoff s1 = ss_backoff s \<and> ss_cancelled s1 = ss_cancelled s \<and> ss_phase s1 = ss_phase s"
  by (auto simp: serveOpen_def split: option.splits sum.splits orch_msg.splits if_splits)

definition on_course :: "sess_event list \<Rightarrow> session \<Rightarrow> bool" where
  "on_course evs s \<longleftrightarrow> (ss_cancelled s \<longleftrightarrow> Cancel \<in> set evs) \<and>
     (if ss_phase s = Ended then Cancel \<in> set evs \<or> list_ex refusesSession evs else ss_backoff s = pauseFor (pauses evs))"

lemma serveStart_course:
  "ss_cancelled (serveStart s opened sent first) = ss_cancelled s"
  "ss_phase (serveStart s opened sent first) = Ended \<Longrightarrow> ss_cancelled s \<or> refusesSession (Attempt opened sent first)"
  "ss_phase (serveStart s opened sent first) \<noteq> Ended \<Longrightarrow> ss_backoff (serveStart s opened sent first) = ss_backoff s"
proof -
  obtain s1 r where o: "serveOpen s opened sent first = (s1, r)" by fastforce
  then have e: "r = snd (serveOpen (newSession [] [] [] 0) opened sent first)" using serveOpen_error by (metis snd_conv)
  show "ss_cancelled (serveStart s opened sent first) = ss_cancelled s"
    "ss_phase (serveStart s opened sent first) = Ended \<Longrightarrow> ss_cancelled s \<or> refusesSession (Attempt opened sent first)"
    "ss_phase (serveStart s opened sent first) \<noteq> Ended \<Longrightarrow> ss_backoff (serveStart s opened sent first) = ss_backoff s"
    using serveOpen_frame [OF o] by (auto simp: serveStart_def o afterServe_def e [symmetric] split: option.splits if_splits)
qed

lemma on_course_step: "on_course evs s \<Longrightarrow> sess_step s ev s' \<Longrightarrow> on_course (evs @ [ev]) s'"
proof (erule sess_step.cases, goal_cases)
  case (1 s'' opened sent first)
  then show ?case using serveStart_course [of s opened sent first] by (auto simp: on_course_def pauses_snoc)
qed (auto simp: on_course_def pauses_snoc serveRecv_def serveEnd_def afterServe_def afterSleep_def sendEnd_def pauseFor_double
  Let_def split: option.splits if_splits)

lemma on_course_run: "sess_run s0 evs s \<Longrightarrow> fresh_session s0 \<Longrightarrow> on_course evs s"
proof (induction rule: sess_run.induct)
  case (start s)
  then show ?case by (simp add: on_course_def fresh_session_def pauses_snoc)
qed (auto intro: on_course_step)

text \<open>
  C29. A session never gives up on an orchestrator that has the Session call. In any run, it has only ended because it
  was cancelled or because an attempt, or its stream, ended with the code that the orchestrator has no such call.
  Otherwise, wherever it is, it goes on: a stream that drops for any other reason, however long it was up, and an
  attempt that fails, are followed by a sleep, the sleep by the next attempt, and an attempt that is
  welcomed opens the session and resends the state. It sleeps one second after a stream that was up, and after each
  further attempt twice as long as before, at most thirty.
\<close>

theorem session_reconnects:
  assumes "fresh_session s0" and "sess_run s0 evs s"
  shows "if Cancel \<in> set evs \<or> list_ex refusesSession evs then True
    else (case ss_phase s of
        Ended \<Rightarrow> False
      | Serving \<Rightarrow> statusCode (Some err) = Unimplemented \<or>
          ss_phase (serveEnd s err) = Sleeping \<and> ss_backoff (serveEnd s err) = 1 * second
      | Sleeping \<Rightarrow> ss_backoff s = min (2 ^ pauses evs) 30 * second \<and> ss_phase (afterSleep s) = Connecting
      | Connecting \<Rightarrow>
          (refusesSession (Attempt opened sent first) \<or> ss_phase (serveStart s opened sent first) \<in> {Serving, Sleeping}) \<and>
          (case serveStart s None None (Inr (Welcome tenant version)) of
             s2 \<Rightarrow> connected s2 \<and> ss_phase s2 = Serving \<and> last (ss_calls s2) = OnConnected))"
proof (cases "Cancel \<in> set evs \<or> list_ex refusesSession evs")
  case False
  with on_course_run [OF assms(2,1)] have ok: "\<not> ss_cancelled s" "ss_phase s \<noteq> Ended" "ss_backoff s = pauseFor (pauses evs)"
    by (auto simp: on_course_def split: if_splits)
  have "ss_phase (serveStart s opened sent first) \<in> {Serving, Sleeping}" if "\<not> refusesSession (Attempt opened sent first)"
    "ss_phase s = Connecting"
  proof -
    have "ss_phase (serveStart s opened sent first) \<in> {Serving, Sleeping, Ended}"
      by (auto simp: serveStart_def afterServe_def split: prod.split option.split)
    then show ?thesis using serveStart_course(2) [of s opened sent first] ok(1) that by auto
  qed
  then show ?thesis
    using False ok by (auto simp: serveEnd_def afterServe_def afterSleep_def backoffMin_def pauseFor_def Let_def serveStart_def
        serveOpen_def connected_def split: phase.split)
qed simp

text \<open>The stream was up, dropped, and two attempts have failed since.\<close>

definition dropped :: "sess_event list" where
  "dropped = (let down = Attempt (Some (Status Unavailable ''down'')) None (Inl EOF)
     in [Attempt None None (Inr (Welcome ''t'' ''1'')), ReceiveFailed (Status Unavailable ''gone''), SleepOver, down, SleepOver, down])"

theorem session_reconnects_witness:
  "case sess_execs (newSession ''k'' ''p'' ''1'' 60) dropped of
     None \<Rightarrow> False
   | Some s \<Rightarrow> ss_phase s = Sleeping \<and> ss_backoff s = 4 * second \<and> ss_phase (afterSleep s) = Connecting"
proof -
  have "sess_execs (newSession ''k'' ''p'' ''1'' 60) dropped \<noteq> None \<and>
      ss_phase (the (sess_execs (newSession ''k'' ''p'' ''1'' 60) dropped)) = Sleeping"
    by (simp add: dropped_def sess_execs_def session_defs statusCode_def)
  then obtain s where s: "sess_execs (newSession ''k'' ''p'' ''1'' 60) dropped = Some s" "ss_phase s = Sleeping" by auto
  then have run: "sess_run (newSession ''k'' ''p'' ''1'' 60) dropped s" by (simp add: sess_execs_run)
  have "Cancel \<notin> set dropped" "\<not> list_ex refusesSession dropped" "pauses dropped = 2"
    by (simp_all add: dropped_def pauses_def Let_def serveOpen_def statusCode_def)
  with session_reconnects [OF fresh_newSession run] s show ?thesis by simp
qed

end
