(* ===== verification/Pump.thy ===== *)
theory Pump
  imports GoStatus "HOL-Library.Sublist"
begin

text \<open>
  Bytes between a client's connection, an orchestrator tunnel and a device source's stream:
  \<open>internal/proxy/pump.go\<close>, the adapters of \<open>relay.go\<close> and \<open>ForwardToDevice\<close> of
  \<open>command_router.go\<close>. One copying goroutine is a function of what its source's receives return,
  in order, and of what its destination's sends return; a list that has run out means that the
  goroutine is still blocked there. The two goroutines of a connection share nothing but the channel
  their errors go to, so the order in which they finish is all there is to their interleaving.
\<close>

datatype dir_result = Blocked | Finished "goerr option"

text \<open>\<open>dr_closed\<close>: the end of the source was passed on (\<open>CloseSend\<close>, or the teardown it is).\<close>

record direction =
  dr_sent :: "bytes list"
  dr_closed :: bool
  dr_result :: dir_result

definition sending :: "bytes \<Rightarrow> direction \<Rightarrow> direction" where
  "sending p d = d\<lparr>dr_sent := p # dr_sent d\<rparr>"

section \<open>The contract of a copying goroutine\<close>

locale copy_loop =
  fixes payload :: "'r \<Rightarrow> bytes"
    and ends :: "'r \<Rightarrow> bool"
    and copy :: "'r list \<Rightarrow> goerr option list \<Rightarrow> direction"
  assumes copy_Nil: "dr_sent (copy [] outs) = [] \<and> \<not> dr_closed (copy [] outs)"
    and copy_end: "ends r \<Longrightarrow> dr_sent (copy (r # rs) outs) = []"
    and copy_step: "\<not> ends r \<Longrightarrow>
      dr_sent (copy (r # rs) outs) = [] \<and> \<not> dr_closed (copy (r # rs) outs) \<or>
      (\<exists>outs'. concat (dr_sent (copy (r # rs) outs)) = payload r @ concat (dr_sent (copy rs outs')) \<and>
         dr_closed (copy (r # rs) outs) = dr_closed (copy rs outs'))"
begin

definition carried :: "'r list \<Rightarrow> bytes" where
  "carried rs = concat (map payload (takeWhile (\<lambda>r. \<not> ends r) rs))"

lemma sent_prefix: "prefix (concat (dr_sent (copy rs outs))) (carried rs)"
proof (induction rs arbitrary: outs)
  case Nil
  then show ?case by (simp add: copy_Nil carried_def)
next
  case (Cons r rs)
  show ?case
  proof (cases "ends r")
    case True
    then show ?thesis by (simp add: copy_end carried_def)
  next
    case False
    from copy_step [OF False, of rs outs] show ?thesis
      using Cons.IH False by (auto simp: carried_def)
  qed
qed

lemma closed_complete:
  "dr_closed (copy rs outs) \<Longrightarrow> concat (dr_sent (copy rs outs)) = carried rs \<and> (\<exists>r \<in> set rs. ends r)"
proof (induction rs arbitrary: outs)
  case Nil
  then show ?case by (simp add: copy_Nil)
next
  case (Cons r rs)
  show ?case
  proof (cases "ends r")
    case True
    then show ?thesis by (simp add: copy_end carried_def)
  next
    case False
    from copy_step [OF False, of rs outs] Cons.prems obtain outs' where
      o: "concat (dr_sent (copy (r # rs) outs)) = payload r @ concat (dr_sent (copy rs outs'))"
        "dr_closed (copy rs outs')" by auto
    from Cons.IH [OF o(2)] o(1) False show ?thesis by (simp add: carried_def)
  qed
qed

end

text \<open>Enough sends that all succeed: \<open>outs\<close> for a goroutine that is never held up.\<close>

definition willing :: "nat \<Rightarrow> goerr option list \<Rightarrow> bool" where
  "willing n outs \<longleftrightarrow> n \<le> length outs \<and> list_all (\<lambda>out. out = None) outs"

lemma willing_Cons:
  assumes "willing (Suc n) outs"
  obtains outs' where "outs = None # outs'" and "willing n outs'" and "willing n outs"
  using assms by (cases outs) (auto simp: willing_def)

lemma willing_replicate [simp]: "willing n (replicate m None) \<longleftrightarrow> n \<le> m"
  by (auto simp: willing_def list_all_iff)

text \<open>A copying goroutine whose sends succeed keeps back nothing of what it reads.\<close>

locale live_loop = copy_loop +
  assumes read_passed: "\<not> ends r \<Longrightarrow> willing (Suc (length rs)) outs \<Longrightarrow>
      (\<exists>outs'. willing (length rs) outs' \<and>
         concat (dr_sent (copy (r # rs) outs)) = payload r @ concat (dr_sent (copy rs outs')) \<and>
         dr_closed (copy (r # rs) outs) = dr_closed (copy rs outs'))"
begin

lemma all_sent: "willing (length rs) outs \<Longrightarrow> concat (dr_sent (copy rs outs)) = carried rs"
proof (induction rs arbitrary: outs)
  case Nil
  then show ?case by (simp add: copy_Nil carried_def)
next
  case (Cons r rs)
  show ?case
  proof (cases "ends r")
    case True
    then show ?thesis by (simp add: copy_end carried_def)
  next
    case False
    from read_passed [OF this] Cons show ?thesis using False by (fastforce simp: carried_def)
  qed
qed

end

text \<open>One that passes on every end of its source.\<close>

locale closing_loop = live_loop +
  assumes end_passed: "ends r \<Longrightarrow> dr_closed (copy (r # rs) outs)"
begin

lemma end_closes: "willing (length rs) outs \<Longrightarrow> dr_closed (copy rs outs) \<longleftrightarrow> list_ex ends rs"
proof (induction rs arbitrary: outs)
  case (Cons r rs)
  show ?case
  proof (cases "ends r")
    case False
    from read_passed [OF this] Cons show ?thesis using False by fastforce
  qed (simp add: end_passed)
qed (simp add: copy_Nil)

end

section \<open>\<open>pumpStreams\<close>\<close>

fun copyDir :: "(goerr + bytes) list \<Rightarrow> goerr option list \<Rightarrow> direction" where
  "copyDir [] outs = \<lparr>dr_sent = [], dr_closed = False, dr_result = Blocked\<rparr>"
| "copyDir (Inl err # rs) outs =
     \<lparr>dr_sent = [], dr_closed = True, dr_result = Finished (if err = EOF then None else Some err)\<rparr>"
| "copyDir (Inr p # rs) outs = (if p = [] then copyDir rs outs
     else (case outs of
         [] \<Rightarrow> \<lparr>dr_sent = [], dr_closed = False, dr_result = Blocked\<rparr>
       | Some err # _ \<Rightarrow> \<lparr>dr_sent = [], dr_closed = False, dr_result = Finished (Some err)\<rparr>
       | None # outs' \<Rightarrow> sending p (copyDir rs outs')))"

text \<open>What \<open>pumpStreams\<close> returns: \<open>errs\<close> are the results in the order they arrive.\<close>

fun awaitBoth :: "dir_result list \<Rightarrow> dir_result" where
  "awaitBoth (Finished None # Finished r # _) = Finished r"
| "awaitBoth (Finished (Some err) # _) = Finished (Some err)"
| "awaitBoth _ = Blocked"

text \<open>\<open>abFirst\<close>: the goroutine \<open>copyDir(a, b)\<close> puts its result into the channel first.\<close>

definition arrivals :: "bool \<Rightarrow> direction \<Rightarrow> direction \<Rightarrow> dir_result list" where
  "arrivals abFirst ab ba = filter (\<lambda>r. r \<noteq> Blocked)
     (if abFirst then [dr_result ab, dr_result ba] else [dr_result ba, dr_result ab])"

definition pumpStreams :: "bool \<Rightarrow> direction \<Rightarrow> direction \<Rightarrow> dir_result" where
  "pumpStreams abFirst ab ba = awaitBoth (arrivals abFirst ab ba)"

abbreviation recvBytes :: "goerr + bytes \<Rightarrow> bytes" where
  "recvBytes r \<equiv> (case r of Inl _ \<Rightarrow> [] | Inr p \<Rightarrow> p)"

interpretation copy_dir: closing_loop recvBytes isl copyDir
proof
  fix rs outs and r :: "goerr + bytes"
  show "dr_sent (copyDir [] outs) = [] \<and> \<not> dr_closed (copyDir [] outs)" by simp
  show "dr_sent (copyDir (r # rs) outs) = []" if "isl r" using that by (cases r) simp_all
  show "dr_sent (copyDir (r # rs) outs) = [] \<and> \<not> dr_closed (copyDir (r # rs) outs) \<or>
      (\<exists>outs'. concat (dr_sent (copyDir (r # rs) outs)) = recvBytes r @ concat (dr_sent (copyDir rs outs')) \<and>
         dr_closed (copyDir (r # rs) outs) = dr_closed (copyDir rs outs'))" if "\<not> isl r"
    using that by (cases r) (auto simp: sending_def split: list.split option.split)
  show "dr_closed (copyDir (r # rs) outs)" if "isl r" using that by (cases r) simp_all
  show "\<exists>outs'. willing (length rs) outs' \<and>
      concat (dr_sent (copyDir (r # rs) outs)) = recvBytes r @ concat (dr_sent (copyDir rs outs')) \<and>
      dr_closed (copyDir (r # rs) outs) = dr_closed (copyDir rs outs')"
    if "\<not> isl r" "willing (Suc (length rs)) outs"
    using that(2) by (rule willing_Cons) (use that(1) in \<open>cases r, auto simp: sending_def\<close>)
qed

lemma copyDir_finished:
  "dr_result (copyDir rs outs) = Finished None \<Longrightarrow> dr_closed (copyDir rs outs)"
  by (induction rs outs rule: copyDir.induct) (auto simp: sending_def split: if_splits list.splits option.splits)

lemma awaitBoth_nil:
  "awaitBoth rs = Finished None \<Longrightarrow> \<exists>rest. rs = Finished None # Finished None # rest"
  by (induction rs rule: awaitBoth.induct) auto

lemma pumpStreams_nil:
  "pumpStreams abFirst ab ba = Finished None \<Longrightarrow>
    dr_result ab = Finished None \<and> dr_result ba = Finished None"
  unfolding pumpStreams_def arrivals_def by (drule awaitBoth_nil) (auto split: if_splits)

section \<open>Adapters\<close>

datatype tunnel_msg = TunnelSetup | TunnelAccepted | TunnelPayload bytes | TunnelHalfClose

text \<open>\<open>closeSignalStream\<close>: what its \<open>RecvBytes\<close> returns, call by call.\<close>

fun closeSignalRecv :: "(goerr + tunnel_msg) list \<Rightarrow> (goerr + bytes) list" where
  "closeSignalRecv [] = []"
| "closeSignalRecv (Inl err # ms) = Inl err # closeSignalRecv ms"
| "closeSignalRecv (Inr TunnelHalfClose # ms) = Inl EOF # closeSignalRecv ms"
| "closeSignalRecv (Inr (TunnelPayload p) # ms) = Inr p # closeSignalRecv ms"
| "closeSignalRecv (Inr _ # ms) = closeSignalRecv ms"

text \<open>What a direction into a \<open>closeSignalStream\<close> puts on the tunnel.\<close>

definition closeSignalSend :: "direction \<Rightarrow> tunnel_msg list" where
  "closeSignalSend d = map TunnelPayload (dr_sent d) @ (if dr_closed d then [TunnelHalfClose] else [])"

text \<open>\<open>tunnelStream\<close> without the half-close message, and \<open>forwardStream\<close>, whose messages may carry no data.\<close>

fun tunnelRecv :: "(goerr + tunnel_msg) list \<Rightarrow> (goerr + bytes) list" where
  "tunnelRecv [] = []"
| "tunnelRecv (Inl err # ms) = Inl err # tunnelRecv ms"
| "tunnelRecv (Inr (TunnelPayload p) # ms) = Inr p # tunnelRecv ms"
| "tunnelRecv (Inr _ # ms) = tunnelRecv ms"

fun forwardRecv :: "(goerr + bytes option) list \<Rightarrow> (goerr + bytes) list" where
  "forwardRecv [] = []"
| "forwardRecv (Inl err # ms) = Inl err # forwardRecv ms"
| "forwardRecv (Inr (Some d) # ms) = Inr d # forwardRecv ms"
| "forwardRecv (Inr None # ms) = forwardRecv ms"

text \<open>\<open>tcpStream\<close>: the bytes and the error of a \<open>Read\<close>; bytes win, and the error comes again.\<close>

definition tcpRecv :: "bytes \<times> goerr option \<Rightarrow> goerr + bytes" where
  "tcpRecv r = (case r of (p, err) \<Rightarrow>
     if p \<noteq> [] then Inr p else (case err of None \<Rightarrow> Inr [] | Some er \<Rightarrow> Inl er))"

section \<open>\<open>ForwardToDevice\<close>\<close>

text \<open>
  The request direction, from the bytes and the error of each \<open>Read\<close>; the response direction, from
  the messages of the device source. \<open>fu_cancel\<close>: the request direction cancelled the call.
\<close>

record forward_up = direction + fu_cancel :: bool

fun forwardUp :: "(bytes \<times> goerr option) list \<Rightarrow> goerr option list \<Rightarrow> forward_up" where
  "forwardUp [] outs = \<lparr>dr_sent = [], dr_closed = False, dr_result = Blocked, fu_cancel = False\<rparr>"
| "forwardUp ((p, Some err) # rs) outs =
     \<lparr>dr_sent = [], dr_closed = True, dr_result = Finished None, fu_cancel = (err \<noteq> EOF)\<rparr>"
| "forwardUp ((p, None) # rs) outs = (case outs of
       [] \<Rightarrow> \<lparr>dr_sent = [], dr_closed = False, dr_result = Blocked, fu_cancel = False\<rparr>
     | Some err # _ \<Rightarrow> \<lparr>dr_sent = [], dr_closed = False, dr_result = Finished (Some err), fu_cancel = True\<rparr>
     | None # outs' \<Rightarrow> (forwardUp rs outs')\<lparr>dr_sent := p # dr_sent (forwardUp rs outs')\<rparr>)"

fun forwardDown :: "(goerr + bytes option) list \<Rightarrow> goerr option list \<Rightarrow> direction" where
  "forwardDown [] outs = \<lparr>dr_sent = [], dr_closed = False, dr_result = Blocked\<rparr>"
| "forwardDown (Inl err # rs) outs = \<lparr>dr_sent = [], dr_closed = True, dr_result = Finished (Some err)\<rparr>"
| "forwardDown (Inr None # rs) outs = forwardDown rs outs"
| "forwardDown (Inr (Some p) # rs) outs = (case outs of
       [] \<Rightarrow> \<lparr>dr_sent = [], dr_closed = False, dr_result = Blocked\<rparr>
     | Some err # _ \<Rightarrow> \<lparr>dr_sent = [], dr_closed = False, dr_result = Finished (Some err)\<rparr>
     | None # outs' \<Rightarrow> sending p (forwardDown rs outs'))"

text \<open>
  The call: the results of getting a client, of opening the stream and of sending the setup, then the
  two directions. It returns when the response direction has ended.
\<close>

record forward_call =
  fc_client :: "goerr option"
  fc_open :: "goerr option"
  fc_setup :: "goerr option"
  fc_reads :: "(bytes \<times> goerr option) list"
  fc_sends :: "goerr option list"
  fc_recvs :: "(goerr + bytes option) list"
  fc_writes :: "goerr option list"

definition ForwardToDevice :: "forward_call \<Rightarrow> dir_result \<times> bytes list \<times> bytes list" where
  "ForwardToDevice c = (case (fc_client c, fc_open c, fc_setup c) of
       (Some err, _, _) \<Rightarrow> (Finished (Some err), [], [])
     | (None, Some err, _) \<Rightarrow> (Finished (Some err), [], [])
     | (None, None, Some err) \<Rightarrow> (Finished (Some err), [], [])
     | (None, None, None) \<Rightarrow>
         let up = forwardUp (fc_reads c) (fc_sends c); down = forwardDown (fc_recvs c) (fc_writes c)
         in ((case dr_result down of
               Finished (Some err) \<Rightarrow> Finished (if err = EOF then None else Some err)
             | r \<Rightarrow> r), dr_sent up, dr_sent down))"

interpretation forward_up: closing_loop fst "\<lambda>r. snd r \<noteq> None" "\<lambda>rs outs. direction.truncate (forwardUp rs outs)"
proof
  fix rs outs and r :: "bytes \<times> goerr option"
  let ?c = "\<lambda>rs outs. direction.truncate (forwardUp rs outs)"
  show "dr_sent (?c [] outs) = [] \<and> \<not> dr_closed (?c [] outs)" by (simp add: direction.truncate_def)
  show "dr_sent (?c (r # rs) outs) = []" if "snd r \<noteq> None"
    using that by (cases r) (auto simp: direction.truncate_def)
  show "dr_sent (?c (r # rs) outs) = [] \<and> \<not> dr_closed (?c (r # rs) outs) \<or>
      (\<exists>outs'. concat (dr_sent (?c (r # rs) outs)) = fst r @ concat (dr_sent (?c rs outs')) \<and>
         dr_closed (?c (r # rs) outs) = dr_closed (?c rs outs'))" if "\<not> snd r \<noteq> None"
    using that by (cases r) (auto simp: direction.truncate_def split: list.split option.split)
  show "dr_closed (?c (r # rs) outs)" if "snd r \<noteq> None"
    using that by (cases r) (auto simp: direction.truncate_def)
  show "\<exists>outs'. willing (length rs) outs' \<and>
      concat (dr_sent (?c (r # rs) outs)) = fst r @ concat (dr_sent (?c rs outs')) \<and>
      dr_closed (?c (r # rs) outs) = dr_closed (?c rs outs')"
    if "\<not> snd r \<noteq> None" "willing (Suc (length rs)) outs"
    using that(2) by (rule willing_Cons) (use that(1) in \<open>cases r, auto simp: direction.truncate_def\<close>)
qed

abbreviation recvData :: "goerr + bytes option \<Rightarrow> bytes" where
  "recvData r \<equiv> (case r of Inr (Some p) \<Rightarrow> p | _ \<Rightarrow> [])"

interpretation forward_down: closing_loop recvData isl forwardDown
proof
  fix rs outs and r :: "goerr + bytes option"
  show "dr_sent (forwardDown [] outs) = [] \<and> \<not> dr_closed (forwardDown [] outs)" by simp
  show "dr_sent (forwardDown (r # rs) outs) = []" if "isl r" using that by (cases r) simp_all
  show "dr_sent (forwardDown (r # rs) outs) = [] \<and> \<not> dr_closed (forwardDown (r # rs) outs) \<or>
      (\<exists>outs'. concat (dr_sent (forwardDown (r # rs) outs)) = recvData r @ concat (dr_sent (forwardDown rs outs')) \<and>
         dr_closed (forwardDown (r # rs) outs) = dr_closed (forwardDown rs outs'))" if "\<not> isl r"
  proof (cases r)
    case (Inr d)
    then show ?thesis
      by (cases d) (auto simp: sending_def split: list.split option.split)
  qed (use that in simp)
  show "dr_closed (forwardDown (r # rs) outs)" if "isl r" using that by (cases r) simp_all
  show "\<exists>outs'. willing (length rs) outs' \<and>
      concat (dr_sent (forwardDown (r # rs) outs)) = recvData r @ concat (dr_sent (forwardDown rs outs')) \<and>
      dr_closed (forwardDown (r # rs) outs) = dr_closed (forwardDown rs outs')"
    if "\<not> isl r" "willing (Suc (length rs)) outs"
    using that(2)
  proof (rule willing_Cons)
    fix outs'
    assume "outs = None # outs'" "willing (length rs) outs'" "willing (length rs) outs"
    with that(1) show ?thesis by (cases r; cases "projr r") (auto simp: sending_def)
  qed
qed

lemma forwardDown_finished:
  "dr_result (forwardDown rs outs) = Finished (Some EOF) \<Longrightarrow> Some EOF \<notin> set outs \<Longrightarrow> dr_closed (forwardDown rs outs)"
  by (induction rs outs rule: forwardDown.induct) (auto simp: sending_def split: list.splits option.splits)

lemma ForwardToDevice_exact:
  assumes "Some EOF \<notin> set (fc_writes c)"
  shows "case ForwardToDevice c of (res, toDevice, toClient) \<Rightarrow>
    prefix (concat toDevice) (forward_up.carried (fc_reads c)) \<and>
    prefix (concat toClient) (forward_down.carried (fc_recvs c)) \<and>
    (res = Finished None \<longrightarrow> concat toClient = forward_down.carried (fc_recvs c))"
proof -
  have up: "prefix (concat (dr_sent (forwardUp (fc_reads c) (fc_sends c)))) (forward_up.carried (fc_reads c))"
    using forward_up.sent_prefix [of "fc_reads c" "fc_sends c"] by (simp add: direction.truncate_def)
  have nofin: "dr_result (forwardDown rs outs) \<noteq> Finished None" for rs outs
    by (induction rs outs rule: forwardDown.induct) (auto simp: sending_def split: list.split option.split)
  have "concat (dr_sent (forwardDown (fc_recvs c) (fc_writes c))) = forward_down.carried (fc_recvs c)"
    if "dr_result (forwardDown (fc_recvs c) (fc_writes c)) = Finished (Some EOF)"
    using forward_down.closed_complete [OF forwardDown_finished [OF that assms]] by blast
  then show ?thesis
    using up forward_down.sent_prefix [of "fc_recvs c" "fc_writes c"] nofin [of "fc_recvs c" "fc_writes c"]
    by (auto simp: ForwardToDevice_def Let_def split: option.split dir_result.split)
qed

text \<open>
  A forwarded connection carries exact bytes. What reaches the device is a prefix of what the client
  wrote, what reaches the client a prefix of what the device sent; and when the call ends without an
  error, and no write to the client said end of file, the client has everything the device sent before
  it ended.
\<close>

theorem forward_integrity:
  assumes "Some EOF \<notin> set (fc_writes c)"
  shows "case ForwardToDevice c of (res, toDevice, toClient) \<Rightarrow>
    prefix (concat toDevice) (forward_up.carried (fc_reads c)) \<and>
    prefix (concat toClient) (forward_down.carried (fc_recvs c)) \<and>
    (res = Finished None \<longrightarrow> concat toClient = forward_down.carried (fc_recvs c))"
  using ForwardToDevice_exact [OF assms] .

theorem forward_integrity_witness:
  "ForwardToDevice \<lparr>fc_client = None, fc_open = None, fc_setup = None,
      fc_reads = [(''ls'', None), ([], Some EOF)], fc_sends = [None],
      fc_recvs = [Inr (Some ''a''), Inr None, Inr (Some ''b''), Inl EOF], fc_writes = [None, None]\<rparr>
    = (Finished None, [''ls''], [''a'', ''b'']) \<and>
   forward_down.carried [Inr (Some ''a''), Inr None, Inr (Some ''b''), Inl EOF] = ''ab''"
  using forward_integrity [of "\<lparr>fc_client = None, fc_open = None, fc_setup = None,
      fc_reads = [(''ls'', None), ([], Some EOF)], fc_sends = [None],
      fc_recvs = [Inr (Some ''a''), Inr None, Inr (Some ''b''), Inl EOF], fc_writes = [None, None]\<rparr>"]
  by (simp add: ForwardToDevice_def sending_def)

section \<open>Across the orchestrator\<close>

lemma closeSignal_messages:
  "closeSignalRecv (map Inr (take n (closeSignalSend d))) =
     map Inr (take n (dr_sent d)) @ (if dr_closed d \<and> length (dr_sent d) < n then [Inl EOF] else [])"
proof -
  have "closeSignalRecv (map Inr (map TunnelPayload ps @ ms)) = map Inr ps @ closeSignalRecv (map Inr ms)" for ps ms
    by (induction ps) simp_all
  moreover have "take n (closeSignalSend d) = map TunnelPayload (take n (dr_sent d)) @
      (if dr_closed d \<and> length (dr_sent d) < n then [TunnelHalfClose] else [])"
    by (auto simp: closeSignalSend_def take_map take_Cons')
  ultimately show ?thesis by simp
qed

lemma carried_payloads:
  "copy_dir.carried (map Inr ps @ (if b then [Inl EOF] else [])) = concat ps"
proof -
  have "takeWhile (\<lambda>r. \<not> isl r) (map Inr ps @ (if b then [Inl EOF] else [])) = (map Inr ps :: (goerr + bytes) list)"
    by (induction ps) simp_all
  moreover have "concat (map recvBytes (map Inr ps)) = concat ps"
    by (induction ps) simp_all
  ultimately show ?thesis by (simp only: copy_dir.carried_def)
qed

lemma half_close_ends:
  "dr_result (copyDir rs outs) = Finished None \<Longrightarrow> dr_result back = Blocked \<Longrightarrow>
    pumpStreams abFirst (copyDir rs outs) back = Blocked"
  by (simp add: pumpStreams_def arrivals_def)



end
