(* ===== verification/GoTime.thy ===== *)
theory GoTime
  imports GoLib Utf8
begin

text \<open>
  Package \<open>time\<close> and \<open>%q\<close>, as far as the log lines and events need them. A \<open>Duration\<close>
  is its number of nanoseconds.
\<close>

text \<open>\<open>d.Milliseconds()\<close>: truncated towards zero.\<close>

definition Milliseconds :: "int \<Rightarrow> int" where
  "Milliseconds d = (if d < 0 then - (- d div 1000000) else d div 1000000)"

text \<open>\<open>t.UnixMilli()\<close> of the instant \<open>t\<close> nanoseconds after the epoch.\<close>

definition UnixMilli :: "int \<Rightarrow> int" where
  "UnixMilli t = t div 1000000"

text \<open>\<open>d.Round(m)\<close>: to the nearest multiple of \<open>m\<close>, halfway away from zero.\<close>

definition Round :: "int \<Rightarrow> int \<Rightarrow> int" where
  "Round d m = (if m \<le> 0 then d
     else if d < 0 then (let r = - d mod m in if r + r < m then d + r else d - m + r)
     else (let r = d mod m in if r + r < m then d - r else d + m - r))"

definition millisecond :: int where "millisecond = 1000000"
definition secondT :: int where "secondT = 1000000000"
definition minute :: int where "minute = 60 * secondT"

text \<open>\<open>fmtFrac\<close>: the fraction \<open>v / 10 ^ prec\<close> without trailing zeros.\<close>

definition fracDigits :: "nat \<Rightarrow> nat \<Rightarrow> bytes" where
  "fracDigits v prec = (let d = fmtNat (v mod 10 ^ prec);
       ds = TrimRightByte (replicate (prec - length d) CHR ''0'' @ d) CHR ''0''
     in if ds = [] then [] else CHR ''.'' # ds)"

definition DurationString :: "int \<Rightarrow> bytes" where
  "DurationString d = (if d < 0 then ''-'' else []) @ (let u = nat \<bar>d\<bar> in
     if u = 0 then ''0s''
     else if u < 1000 then fmtNat u @ ''ns''
     else if u < 1000000 then fmtNat (u div 1000) @ fracDigits u 3 @ [CHR 0xC2, CHR 0xB5] @ ''s''
     else if u < 1000000000 then fmtNat (u div 1000000) @ fracDigits u 6 @ ''ms''
     else let secs = u div 1000000000; mins = secs div 60; hours = mins div 60
          in (if hours = 0 then [] else fmtNat hours @ ''h'')
             @ (if mins = 0 then [] else fmtNat (mins mod 60) @ ''m'')
             @ fmtNat (secs mod 60) @ fracDigits u 9 @ ''s'')"

text \<open>
  \<open>%q\<close>. Which runes past ASCII are printable is a table of package \<open>strconv\<close>: an argument.
\<close>

definition hexDigit :: "nat \<Rightarrow> char" where
  "hexDigit d = (if d < 10 then char_of (48 + d) else char_of (87 + d))"

definition hexFixed :: "nat \<Rightarrow> nat \<Rightarrow> bytes" where
  "hexFixed w n = map (\<lambda>i. hexDigit (n div 16 ^ i mod 16)) (rev [0..<w])"

definition escapeASCII :: "char \<Rightarrow> bytes" where
  "escapeASCII c = (let b = byte c in
     if b = 0x22 \<or> b = 0x5C then [CHR 0x5C, c]
     else if 0x20 \<le> b \<and> b < 0x7F then [c]
     else if b = 0x07 then [CHR 0x5C, CHR ''a''] else if b = 0x08 then [CHR 0x5C, CHR ''b'']
     else if b = 0x0C then [CHR 0x5C, CHR ''f''] else if b = 0x0A then [CHR 0x5C, CHR ''n'']
     else if b = 0x0D then [CHR 0x5C, CHR ''r''] else if b = 0x09 then [CHR 0x5C, CHR ''t'']
     else if b = 0x0B then [CHR 0x5C, CHR ''v''] else CHR 0x5C # CHR ''x'' # hexFixed 2 b)"

definition codePoint :: "bytes \<Rightarrow> nat" where
  "codePoint r = (case r of
       [] \<Rightarrow> 0
     | c # t \<Rightarrow> foldl (\<lambda>n d. n * 64 + byte d mod 64) (byte c mod 2 ^ (7 - length r)) t)"

function quoteBody :: "(bytes \<Rightarrow> bool) \<Rightarrow> bytes \<Rightarrow> bytes" where
  "quoteBody isPrint [] = []"
| "quoteBody isPrint (c # s) =
     (if byte c < 0x80 then escapeASCII c @ quoteBody isPrint s
      else let n = runeLen c; r = take n (c # s) in
        if is_rune r then
          (if isPrint r then r
           else if codePoint r < 0x10000 then CHR 0x5C # CHR ''u'' # hexFixed 4 (codePoint r)
           else CHR 0x5C # CHR ''U'' # hexFixed 8 (codePoint r)) @ quoteBody isPrint (drop n (c # s))
        else (CHR 0x5C # CHR ''x'' # hexFixed 2 (byte c)) @ quoteBody isPrint s)"
  by pat_completeness auto
termination
proof (relation "measure (\<lambda>(p, s). length s)")
  fix isPrint :: "bytes \<Rightarrow> bool" and c s x xa
  assume "x = runeLen c"
  then show "((isPrint, drop x (c # s)), isPrint, c # s) \<in> measure (\<lambda>(p, s). length s)"
    using runeLen_pos [of c] by simp
qed simp_all

definition Quote :: "(bytes \<Rightarrow> bool) \<Rightarrow> bytes \<Rightarrow> bytes" where
  "Quote isPrint s = CHR 0x22 # quoteBody isPrint s @ [CHR 0x22]"

section \<open>Dates\<close>

text \<open>
  \<open>Format(time.RFC3339)\<close> in UTC, from Unix seconds. Days are counted from the first of March, so
  that a leap day is the last of its year.
\<close>

definition civilDate :: "int \<Rightarrow> int \<times> int \<times> int" where
  "civilDate days = (let z = days + 719468; era = z div 146097; doe = z mod 146097;
     yoe = (doe - doe div 1460 + doe div 36524 - doe div 146096) div 365;
     doy = doe - (365 * yoe + yoe div 4 - yoe div 100);
     mp = (5 * doy + 2) div 153;
     d = doy - (153 * mp + 2) div 5 + 1;
     m = (if mp < 10 then mp + 3 else mp - 9)
   in (yoe + era * 400 + (if m \<le> 2 then 1 else 0), m, d))"

definition padInt :: "nat \<Rightarrow> int \<Rightarrow> bytes" where
  "padInt w n = (let d = fmtNat (nat n) in replicate (w - length d) CHR ''0'' @ d)"

definition RFC3339 :: "int \<Rightarrow> bytes" where
  "RFC3339 sec = (case civilDate (sec div 86400) of (y, m, d) \<Rightarrow> let s = sec mod 86400 in
     padInt 4 y @ ''-'' @ padInt 2 m @ ''-'' @ padInt 2 d @ ''T'' @
     padInt 2 (s div 3600) @ '':'' @ padInt 2 (s div 60 mod 60) @ '':'' @ padInt 2 (s mod 60) @ ''Z'')"

end
