(* ===== verification/World.thy ===== *)
theory World
  imports Session Effects GoTime
begin

text \<open>
  The state the proxy's goroutines share while they serve locks, and what they get from outside.
  Outside is everything that answers: the clock, the device sources (\<open>devicesource.proto\<close>), the
  orchestrator (\<open>orchestrator.proto\<close>), the session stream and the list of attached devices. Each
  answer is a function of the number of questions asked before it, so it may change from one
  question to the next and nothing is assumed about it; the questions asked of devices, with their
  answers, and of the orchestrator are kept in the order they were asked.

  Objects that Go code shares by pointer (scoped ports, relay records) live in stores and are named by
  number. A Go map that is walked is the list of its entries in the order of the walk.
\<close>

section \<open>Calls\<close>

datatype wifi_state = WifiON | WifiOFF | WifiRESET

datatype dev_request =
    ForwardRequest bytes
  | SetWifiRequest wifi_state bytes
  | AddReverseRequest int
  | RemoveReverseRequest
  | ResetPackagesRequest "bytes list option"
  | ListPackagesRequest
  | WakeRequest
  | ResetBluetoothRequest
  | HoldUpdatesRequest bool
  | RecentLogRequest
  | RebootIfStaleRequest
  | RebootIfWedgedRequest bytes
  | ClearUiAutomationRequest

datatype dev_call = DevCall (dc_addr: bytes) (dc_serial: bytes) (dc_request: dev_request)

text \<open>An answer: each request reads the fields it has.\<close>

record dev_reply =
  rp_err :: "goerr option"
  rp_text :: bytes
  rp_list :: "bytes list"
  rp_list2 :: "bytes list"
  rp_flag :: bool
  rp_uptimeS :: int

record label =
  lb_serial :: bytes
  lb_key :: bytes
  lb_value :: bytes

record acquire_req =
  aq_serials :: "bytes list"
  aq_repo :: bytes
  aq_runUrl :: bytes
  aq_job :: bytes
  aq_runAttempt :: int
  aq_sha :: bytes
  aq_branch :: bytes
  aq_workflow :: bytes
  aq_stage :: bytes
  aq_labels :: "label list"
  aq_count :: int
  aq_proxyId :: bytes
  aq_priority :: int
  aq_sameProxy :: bool
  aq_tenantKey :: bytes

datatype orch_call =
    AcquireCall int "bytes option" acquire_req
  | ReleaseCall bytes bytes "lock_log_entry list"
  | HeartbeatCall bytes "lock_log_entry list"
  | ReportCall "device_info list"
  | CheckKeyCall bytes "bytes list"
  | AddLabelsCall bytes "label list"
  | ListDevicesCall
  | SessionSend proxy_msg

record orch_reply =
  or_err :: "goerr option"
  or_lockID :: bytes
  or_serials :: "bytes list"
  or_remote :: "device_info list"
  or_flag :: bool

section \<open>State\<close>

text \<open>
  \<open>rr_settled\<close>: the record's \<open>once\<close> has run.
\<close>

record relay_record =
  rr_lockID :: bytes
  rr_settled :: bool
  rr_snapshot :: "bytes list option"
  rr_prev :: "nat option"

text \<open>
  A scoped port: what is fixed when it is made, and under its number what changes. \<open>ps_log\<close> is
  \<open>None\<close> for the stand-in of a relayed lock.
\<close>

record scoped_port =
  sp_ref :: nat
  sp_lockID :: bytes
  sp_serials :: "bytes list"
  sp_remote :: "(bytes \<times> device_info) list"
  sp_port :: int
  sp_createdAt :: int
  sp_token :: bytes
  sp_relayed :: bool

record port_state =
  ps_log :: "lock_log option"
  ps_deviceAPIPort :: int
  ps_openConns :: int
  ps_lastClient :: int
  ps_conns :: "nat list"
  ps_connsClosed :: bool
  ps_stopped :: bool

record world =
  w_step :: nat
  w_devCalls :: "dev_call list"
  w_answers :: "(dev_call \<times> dev_reply) list"
  w_orchCalls :: "orch_call list"
  w_events :: "bench_event list option"
  w_clients :: "bytes list"
  w_recs :: "nat \<Rightarrow> relay_record"
  w_nextRec :: nat
  w_relayLocks :: "(bytes \<times> nat) list"
  w_ports :: "nat \<Rightarrow> port_state"
  w_nextPort :: nat
  w_scoped :: "(bytes \<times> scoped_port) list"
  w_btFresh :: "bytes set"

record env =
  en_apiKey :: bytes
  en_proxyID :: bytes
  en_clock :: "nat \<Rightarrow> int"
  en_hasResolve :: bool
  en_resolve :: "nat \<Rightarrow> bytes \<Rightarrow> bytes"
  en_dial :: "bytes \<Rightarrow> bytes option"
  en_device :: "nat \<Rightarrow> dev_call \<Rightarrow> dev_reply"
  en_orch :: "nat \<Rightarrow> orch_call \<Rightarrow> orch_reply"
  en_session :: "nat \<Rightarrow> session option"
  en_send :: "nat \<Rightarrow> proxy_msg \<Rightarrow> goerr option"
  en_cancelled :: "nat \<Rightarrow> bool"
  en_listen :: "nat \<Rightarrow> goerr + int"
  en_random :: "nat \<Rightarrow> goerr + bytes"
  en_recent :: "nat \<Rightarrow> bytes list \<Rightarrow> bytes list"
  en_tunnels :: "nat \<Rightarrow> nat list"
  en_isPrint :: "bytes \<Rightarrow> bool"
  en_apiPort :: int
  en_idleTimeout :: int

type_synonym 'a act = "(world, 'a) state"

section \<open>Maps as lists of entries\<close>

definition del :: "'k \<Rightarrow> ('k \<times> 'v) list \<Rightarrow> ('k \<times> 'v) list" where
  "del k m = filter (\<lambda>(a, _). a \<noteq> k) m"

definition put :: "'k \<Rightarrow> 'v \<Rightarrow> ('k \<times> 'v) list \<Rightarrow> ('k \<times> 'v) list" where
  "put k v m = (k, v) # del k m"

lemma map_of_del [simp]: "map_of (del k m) a = (if a = k then None else map_of m a)"
  by (induction m) (auto simp: del_def)

lemma map_of_put [simp]: "map_of (put k v m) a = (if a = k then Some v else map_of m a)"
  by (simp add: put_def)

lemma set_del [simp]: "set (del k m) = {x \<in> set m. fst x \<noteq> k}"
  by (auto simp: del_def)

lemma distinct_del: "distinct (map fst m) \<Longrightarrow> distinct (map fst (del k m))"
  by (induction m) (auto simp: del_def)

lemma distinct_put: "distinct (map fst m) \<Longrightarrow> distinct (map fst (put k v m))"
  using distinct_del [of m k] by (auto simp: put_def)

section \<open>Asking\<close>

text \<open>Every question takes the next number.\<close>

definition tick :: "nat act" where
  "tick = do { w \<leftarrow> getM; modify (\<lambda>w. w\<lparr>w_step := Suc (w_step w)\<rparr>); returnM (w_step w) }"

definition now :: "env \<Rightarrow> int act" where
  "now e = do { n \<leftarrow> tick; returnM (en_clock e n) }"

definition resolve :: "env \<Rightarrow> bytes \<Rightarrow> bytes act" where
  "resolve e serial = do { n \<leftarrow> tick; returnM (en_resolve e n serial) }"

definition callDevice :: "env \<Rightarrow> dev_call \<Rightarrow> dev_reply act" where
  "callDevice e c = do {
     n \<leftarrow> tick;
     modify (\<lambda>w. w\<lparr>w_devCalls := w_devCalls w @ [c], w_answers := w_answers w @ [(c, en_device e n c)]\<rparr>);
     returnM (en_device e n c) }"

definition callOrch :: "env \<Rightarrow> orch_call \<Rightarrow> orch_reply act" where
  "callOrch e c = do {
     n \<leftarrow> tick;
     modify (\<lambda>w. w\<lparr>w_orchCalls := w_orchCalls w @ [c]\<rparr>);
     returnM (en_orch e n c) }"

definition observeSession :: "env \<Rightarrow> session option act" where
  "observeSession e = do { n \<leftarrow> tick; returnM (en_session e n) }"

section \<open>Invariants of the shared state\<close>

text \<open>
  What an invariant of the world has to survive for every operation of the proxy to preserve it: the
  questions, the operations' calls to devices and to the orchestrator as far as they are
  \<open>allowed\<close>, queued events, and updates of the tables. The lemmas about operations are proved once
  for every such invariant.
\<close>

locale world_invariant =
  fixes inv :: "world \<Rightarrow> bool"
    and allowed :: "dev_call \<Rightarrow> bool"
  assumes inv_step: "inv w \<Longrightarrow> inv (w\<lparr>w_step := n\<rparr>)"
    and inv_devCall: "inv w \<Longrightarrow> allowed c \<Longrightarrow>
      inv (w\<lparr>w_devCalls := w_devCalls w @ [c], w_answers := w_answers w @ [(c, rep)]\<rparr>)"
    and inv_events: "inv w \<Longrightarrow> inv (w\<lparr>w_events := es\<rparr>)"
    and inv_clients: "inv w \<Longrightarrow> inv (w\<lparr>w_clients := as\<rparr>)"
    and inv_btFresh: "inv w \<Longrightarrow> inv (w\<lparr>w_btFresh := bs\<rparr>)"
    and inv_record: "inv w \<Longrightarrow> inv (w\<lparr>w_ports := (w_ports w)(p := (w_ports w p)\<lparr>ps_log :=
      Record (ps_log (w_ports w p)) (Some entry)\<rparr>)\<rparr>)"
begin

lemma keeps_tick [keeps]: "keeps inv tick"
  unfolding tick_def by (intro keeps keeps_modify inv_step)

lemma keeps_now [keeps]: "keeps inv (now e)"
  unfolding now_def by (intro keeps)

lemma keeps_resolve [keeps]: "keeps inv (resolve e serial)"
  unfolding resolve_def by (intro keeps)

lemma keeps_callDevice: "allowed c \<Longrightarrow> keeps inv (callDevice e c)"
  unfolding callDevice_def by (intro keeps keeps_modify inv_devCall)

lemma keeps_observeSession [keeps]: "keeps inv (observeSession e)"
  unfolding observeSession_def by (intro keeps)

end

text \<open>An invariant that allows any call to the orchestrator.\<close>

locale orch_invariant = world_invariant +
  assumes inv_orchCall: "inv w \<Longrightarrow> inv (w\<lparr>w_orchCalls := cs\<rparr>)"
begin

lemma keeps_callOrch [keeps]: "keeps inv (callOrch e c)"
  unfolding callOrch_def by (intro keeps keeps_modify inv_orchCall)

end

text \<open>
  Invariants that do not look at the relay records, at the ports' states, or at any of the tables.
\<close>

locale relay_invariant = world_invariant +
  assumes inv_recs: "inv w \<Longrightarrow> inv (w\<lparr>w_recs := rs\<rparr>)"
    and inv_nextRec: "inv w \<Longrightarrow> inv (w\<lparr>w_nextRec := n\<rparr>)"
    and inv_relayLocks: "inv w \<Longrightarrow> inv (w\<lparr>w_relayLocks := ls\<rparr>)"

locale port_invariant = orch_invariant +
  assumes inv_ports: "inv w \<Longrightarrow> inv (w\<lparr>w_ports := ps\<rparr>)"

locale table_invariant = port_invariant + relay_invariant +
  assumes inv_nextPort: "inv w \<Longrightarrow> inv (w\<lparr>w_nextPort := n\<rparr>)"
    and inv_scoped: "inv w \<Longrightarrow> inv (w\<lparr>w_scoped := sps\<rparr>)"

lemma wp_tick [simp]: "wp tick Q = (\<lambda>w. Q (w_step w) (w\<lparr>w_step := Suc (w_step w)\<rparr>))"
  by (simp add: tick_def)

lemma wp_now [simp]: "wp (now e) Q = (\<lambda>w. Q (en_clock e (w_step w)) (w\<lparr>w_step := Suc (w_step w)\<rparr>))"
  by (simp add: now_def)

lemma wp_resolve [simp]:
  "wp (resolve e s) Q = (\<lambda>w. Q (en_resolve e (w_step w) s) (w\<lparr>w_step := Suc (w_step w)\<rparr>))"
  by (simp add: resolve_def)

lemma wp_callDevice [simp]:
  "wp (callDevice e c) Q = (\<lambda>w. Q (en_device e (w_step w) c)
     (w\<lparr>w_step := Suc (w_step w), w_devCalls := w_devCalls w @ [c],
       w_answers := w_answers w @ [(c, en_device e (w_step w) c)]\<rparr>))"
  by (simp add: callDevice_def)

lemma wp_callOrch [simp]:
  "wp (callOrch e c) Q = (\<lambda>w. Q (en_orch e (w_step w) c)
     (w\<lparr>w_step := Suc (w_step w), w_orchCalls := w_orchCalls w @ [c]\<rparr>))"
  by (simp add: callOrch_def)

lemma wp_observeSession [simp]:
  "wp (observeSession e) Q = (\<lambda>w. Q (en_session e (w_step w)) (w\<lparr>w_step := Suc (w_step w)\<rparr>))"
  by (simp add: observeSession_def)

end
