(* ===== verification/CommandRouter.thy ===== *)
theory CommandRouter
  imports World
begin

text \<open>
  \<open>internal/proxy/command_router.go\<close>: calls to device sources, calls to the orchestrator, and the
  queue of bench events. What a device source or the orchestrator answers is \<open>env\<close>'s;
  \<open>ForwardToDevice\<close> is in theory \<open>Pump\<close>.
\<close>

section \<open>Device sources\<close>

text \<open>The address is what names the client: the code has one per address.\<close>

definition getOrCreateDSClient :: "env \<Rightarrow> bytes \<Rightarrow> (goerr + bytes) act" where
  "getOrCreateDSClient e addr = do {
     w \<leftarrow> getM;
     (if addr \<in> set (w_clients w) then returnM (Inr addr)
      else (case en_dial e addr of
          Some err \<Rightarrow> returnM (Inl (Plain (''connect to device-source '' @ addr @ '': '' @ err)))
        | None \<Rightarrow> do { modify (\<lambda>w. w\<lparr>w_clients := w_clients w @ [addr]\<rparr>); returnM (Inr addr) })) }"

definition resolveSource :: "env \<Rightarrow> bytes \<Rightarrow> bytes act" where
  "resolveSource e serial = (if en_hasResolve e then resolve e serial else returnM [])"

definition notAttached :: "bytes \<Rightarrow> goerr" where
  "notAttached serial = Status NotFound (''device '' @ serial @ '' is not attached to this proxy'')"

text \<open>The prologue every call to a device shares.\<close>

definition deviceClient :: "env \<Rightarrow> bytes \<Rightarrow> (goerr + bytes) act" where
  "deviceClient e serial = do {
     addr \<leftarrow> resolveSource e serial;
     (if addr = [] then returnM (Inl (notAttached serial)) else getOrCreateDSClient e addr) }"

definition SetWifi :: "env \<Rightarrow> bytes \<Rightarrow> wifi_state \<Rightarrow> bytes \<Rightarrow> goerr option act" where
  "SetWifi e serial st band = do {
     r \<leftarrow> deviceClient e serial;
     (case r of Inl err \<Rightarrow> returnM (Some err)
      | Inr addr \<Rightarrow> do {
          rep \<leftarrow> callDevice e (DevCall addr serial (SetWifiRequest st band));
          returnM (rp_err rep) }) }"

text \<open>
  \<open>adb reverse\<close> through a pipe: the reply is what came back until the stream ended; a source that
  cannot be dialled ends it at once.
\<close>

definition reverseReply :: "env \<Rightarrow> bytes \<Rightarrow> bytes \<Rightarrow> dev_request \<Rightarrow> (goerr + bytes) act" where
  "reverseReply e addr serial req = do {
     r \<leftarrow> getOrCreateDSClient e addr;
     (case r of Inl _ \<Rightarrow> returnM (Inr [])
      | Inr _ \<Rightarrow> do {
          rep \<leftarrow> callDevice e (DevCall addr serial req);
          returnM (case rp_err rep of Some err \<Rightarrow> Inl err | None \<Rightarrow> Inr (rp_text rep)) }) }"

definition AddReverseForward :: "env \<Rightarrow> bytes \<Rightarrow> int \<Rightarrow> goerr option act" where
  "AddReverseForward e serial port = do {
     addr \<leftarrow> resolveSource e serial;
     (if addr = [] then returnM (Some (notAttached serial))
      else do {
        r \<leftarrow> reverseReply e addr serial (AddReverseRequest port);
        returnM (case r of
            Inl err \<Rightarrow> Some err
          | Inr reply \<Rightarrow>
              if \<not> HasPrefix reply ''OKAYOKAY'' then
                Some (Plain (''reverse tcp:'' @ fmtInt port @ '' on '' @ serial @ '': '' @ Quote (en_isPrint e) reply))
              else None) }) }"

definition RemoveReverseForwards :: "env \<Rightarrow> bytes \<Rightarrow> goerr option act" where
  "RemoveReverseForwards e serial = do {
     addr \<leftarrow> resolveSource e serial;
     (if addr = [] then returnM (Some (notAttached serial))
      else do {
        r \<leftarrow> reverseReply e addr serial RemoveReverseRequest;
        returnM (case r of
            Inl err \<Rightarrow> Some err
          | Inr reply \<Rightarrow>
              if \<not> HasPrefix reply ''OKAY'' then
                Some (Plain (''reverse --remove-all on '' @ serial @ '': '' @ Quote (en_isPrint e) reply))
              else None) }) }"

definition ResetPackages :: "env \<Rightarrow> bytes \<Rightarrow> bytes list option \<Rightarrow>
    (bytes list \<times> bytes list \<times> goerr option) act" where
  "ResetPackages e serial since = do {
     r \<leftarrow> deviceClient e serial;
     (case r of Inl err \<Rightarrow> returnM ([], [], Some err)
      | Inr addr \<Rightarrow> do {
          rep \<leftarrow> callDevice e (DevCall addr serial (ResetPackagesRequest since));
          returnM (case rp_err rep of Some err \<Rightarrow> ([], [], Some err)
            | None \<Rightarrow> (rp_list rep, rp_list2 rep, None)) }) }"

definition Wake :: "env \<Rightarrow> bytes \<Rightarrow> goerr option act" where
  "Wake e serial = do {
     r \<leftarrow> deviceClient e serial;
     (case r of Inl err \<Rightarrow> returnM (Some err)
      | Inr addr \<Rightarrow> do {
          rep \<leftarrow> callDevice e (DevCall addr serial WakeRequest); returnM (rp_err rep) }) }"

definition ResetBluetooth :: "env \<Rightarrow> bytes \<Rightarrow> goerr option act" where
  "ResetBluetooth e serial = do {
     r \<leftarrow> deviceClient e serial;
     (case r of Inl err \<Rightarrow> returnM (Some err)
      | Inr addr \<Rightarrow> do {
          rep \<leftarrow> callDevice e (DevCall addr serial ResetBluetoothRequest); returnM (rp_err rep) }) }"

definition HoldUpdates :: "env \<Rightarrow> bytes \<Rightarrow> bool \<Rightarrow> goerr option act" where
  "HoldUpdates e serial hold = do {
     r \<leftarrow> deviceClient e serial;
     (case r of Inl err \<Rightarrow> returnM (Some err)
      | Inr addr \<Rightarrow> do {
          rep \<leftarrow> callDevice e (DevCall addr serial (HoldUpdatesRequest hold)); returnM (rp_err rep) }) }"

definition RecentDeviceSourceLog :: "env \<Rightarrow> bytes \<Rightarrow> (bytes list \<times> goerr option) act" where
  "RecentDeviceSourceLog e serial = do {
     r \<leftarrow> deviceClient e serial;
     (case r of Inl err \<Rightarrow> returnM ([], Some err)
      | Inr addr \<Rightarrow> do {
          rep \<leftarrow> callDevice e (DevCall addr serial RecentLogRequest);
          returnM (case rp_err rep of Some err \<Rightarrow> ([], Some err) | None \<Rightarrow> (rp_list rep, None)) }) }"

definition RebootIfStale :: "env \<Rightarrow> bytes \<Rightarrow> (bool \<times> int \<times> goerr option) act" where
  "RebootIfStale e serial = do {
     r \<leftarrow> deviceClient e serial;
     (case r of Inl err \<Rightarrow> returnM (False, 0, Some err)
      | Inr addr \<Rightarrow> do {
          rep \<leftarrow> callDevice e (DevCall addr serial RebootIfStaleRequest);
          returnM (case rp_err rep of Some err \<Rightarrow> (False, 0, Some err)
            | None \<Rightarrow> (rp_flag rep, rp_uptimeS rep * secondT, None)) }) }"

definition RebootIfWedged :: "env \<Rightarrow> bytes \<Rightarrow> bytes \<Rightarrow> (bool \<times> goerr option) act" where
  "RebootIfWedged e serial radio = do {
     r \<leftarrow> deviceClient e serial;
     (case r of Inl err \<Rightarrow> returnM (False, Some err)
      | Inr addr \<Rightarrow> do {
          rep \<leftarrow> callDevice e (DevCall addr serial (RebootIfWedgedRequest radio));
          returnM (case rp_err rep of Some err \<Rightarrow> (False, Some err) | None \<Rightarrow> (rp_flag rep, None)) }) }"

definition ClearUiAutomation :: "env \<Rightarrow> bytes \<Rightarrow> (bytes \<times> goerr option) act" where
  "ClearUiAutomation e serial = do {
     r \<leftarrow> deviceClient e serial;
     (case r of Inl err \<Rightarrow> returnM ([], Some err)
      | Inr addr \<Rightarrow> do {
          rep \<leftarrow> callDevice e (DevCall addr serial ClearUiAutomationRequest);
          returnM (case rp_err rep of Some err \<Rightarrow> ([], Some err) | None \<Rightarrow> (rp_text rep, None)) }) }"

definition wifiUnmanaged :: "goerr option \<Rightarrow> bool" where
  "wifiUnmanaged err \<longleftrightarrow> statusCode err = FailedPrecondition \<or> statusCode err = Unimplemented"

section \<open>The orchestrator\<close>

text \<open>
  \<open>r.sess.connected()\<close> and \<open>r.sess.send\<close> look at the session at their own moments, so a stream
  seen by the first can be gone for the second. A \<open>nil\<close> session has no stream.
\<close>

definition sessionUp :: "env \<Rightarrow> bool act" where
  "sessionUp e = do { so \<leftarrow> observeSession e;
     returnM (case so of None \<Rightarrow> False | Some ss \<Rightarrow> connected ss) }"

definition sessSend :: "env \<Rightarrow> proxy_msg \<Rightarrow> goerr option act" where
  "sessSend e m = do {
     so \<leftarrow> observeSession e;
     (case so of None \<Rightarrow> returnM (Some SessionDown)
      | Some ss \<Rightarrow> (case sendBegin ss of
            Inr err \<Rightarrow> returnM (Some err)
          | Inl st \<Rightarrow> do {
              n \<leftarrow> tick;
              modify (\<lambda>w. w\<lparr>w_orchCalls := w_orchCalls w @ [SessionSend m]\<rparr>);
              returnM (snd (sendEnd ss st (en_send e n m))) })) }"

text \<open>Whether there is a session that is down and means to reconnect.\<close>

definition reconnecting :: "env \<Rightarrow> bool act" where
  "reconnecting e = do { so \<leftarrow> observeSession e;
     returnM (case so of None \<Rightarrow> False | Some ss \<Rightarrow> \<not> unaryFallback ss) }"

definition ListDevices :: "env \<Rightarrow> (device_info list \<times> goerr option) act" where
  "ListDevices e = do { r \<leftarrow> callOrch e ListDevicesCall; returnM (or_remote r, or_err r) }"

definition ReportDevices :: "env \<Rightarrow> device_info list \<Rightarrow> goerr option act" where
  "ReportDevices e devices = do {
     up \<leftarrow> sessionUp e;
     (if up then sessSend e (DevicesMsg devices)
      else do {
        wait \<leftarrow> reconnecting e;
        (if wait then returnM None
         else do { r \<leftarrow> callOrch e (ReportCall devices); returnM (or_err r) }) }) }"

record lock_result =
  lr_lockID :: bytes
  lr_serials :: "bytes list"
  lr_remote :: "(bytes \<times> device_info) list"

definition acquireRetries :: nat where
  "acquireRetries = 10"

text \<open>The retry loop; \<open>n\<close> is how many retries are left.\<close>

fun acquireLoop :: "env \<Rightarrow> orch_call \<Rightarrow> nat \<Rightarrow> orch_reply act" where
  "acquireLoop e c 0 = callOrch e c"
| "acquireLoop e c (Suc n) = do {
     resp \<leftarrow> callOrch e c;
     (if statusCode (or_err resp) \<noteq> Unavailable then returnM resp
      else do { k \<leftarrow> tick; if en_cancelled e k then returnM resp else acquireLoop e c n }) }"

definition remoteMap :: "device_info list \<Rightarrow> (bytes \<times> device_info) list" where
  "remoteMap ds = map (\<lambda>s. (s, the (map_of (rev (map (\<lambda>d. (device_info.Serial d, d)) ds)) s)))
     (remdups (map device_info.Serial ds))"

definition AcquireLock :: "env \<Rightarrow> bytes list \<Rightarrow> int \<Rightarrow> int \<Rightarrow> acquire_req \<Rightarrow> int \<Rightarrow> bool \<Rightarrow> bytes \<Rightarrow> bytes \<Rightarrow>
    (goerr + lock_result) act" where
  "AcquireLock e serials cnt deadlineMinutes job priority sameProxy tenantKey clientIP =
     (if cnt < 0 then returnM (Inl (Plain (''count must not be negative: '' @ fmtInt cnt)))
      else if cnt > 0 \<and> serials \<noteq> [] then
        returnM (Inl (Plain ''count and serials are mutually exclusive''))
      else do {
        resp \<leftarrow> acquireLoop e (AcquireCall (if deadlineMinutes \<le> 0 then 30 else deadlineMinutes)
            (if clientIP \<noteq> [] then Some clientIP else None)
            (job\<lparr>aq_serials := serials, aq_count := cnt, aq_proxyId := en_proxyID e,
               aq_priority := priority, aq_sameProxy := sameProxy, aq_tenantKey := tenantKey\<rparr>))
          acquireRetries;
        returnM (case or_err resp of
            Some err \<Rightarrow> Inl err
          | None \<Rightarrow> Inr \<lparr>lr_lockID = or_lockID resp, lr_serials = remdups (or_serials resp),
              lr_remote = remoteMap (or_remote resp)\<rparr>) })"

definition CheckKey :: "env \<Rightarrow> bytes \<Rightarrow> bytes list \<Rightarrow> (bool \<times> goerr option) act" where
  "CheckKey e key guestKeys = do {
     r \<leftarrow> callOrch e (CheckKeyCall key guestKeys);
     returnM (case or_err r of Some err \<Rightarrow> (False, Some err) | None \<Rightarrow> (or_flag r, None)) }"

definition AddLockLabels :: "env \<Rightarrow> bytes \<Rightarrow> label list \<Rightarrow> goerr option act" where
  "AddLockLabels e lockID labels = do {
     r \<leftarrow> callOrch e (AddLabelsCall lockID labels); returnM (or_err r) }"

definition ReleaseLock :: "env \<Rightarrow> bytes \<Rightarrow> bytes \<Rightarrow> lock_log_entry list \<Rightarrow> (bool \<times> goerr option) act" where
  "ReleaseLock e lockID status log = do {
     r \<leftarrow> callOrch e (ReleaseCall lockID status log);
     returnM (case or_err r of Some err \<Rightarrow> (False, Some err) | None \<Rightarrow> (or_flag r, None)) }"

definition LockHeartbeat :: "env \<Rightarrow> bytes \<Rightarrow> lock_log_entry list \<Rightarrow>
    (bool \<times> lock_log_entry list \<times> goerr option) act" where
  "LockHeartbeat e lockID log = do {
     up \<leftarrow> sessionUp e;
     (if up then do {
        err \<leftarrow> sessSend e (HeartbeatMsg lockID);
        returnM (err = None, log, err) }
      else do {
        wait \<leftarrow> reconnecting e;
        (if wait then returnM (False, log, Some SessionDown)
         else do {
           r \<leftarrow> callOrch e (HeartbeatCall lockID log);
           returnM (case or_err r of Some err \<Rightarrow> (False, log, Some err)
             | None \<Rightarrow> (or_flag r, [], None)) }) }) }"

definition SendLockLog :: "env \<Rightarrow> bytes \<Rightarrow> lock_log_entry list \<Rightarrow> goerr option act" where
  "SendLockLog e lockID entries = do {
     up \<leftarrow> sessionUp e;
     (if \<not> up then returnM (Some SessionDown) else sessSend e (LockLogMsg lockID entries)) }"

section \<open>Bench events\<close>

definition maxQueuedEvents :: nat where
  "maxQueuedEvents = 256"

definition enqueue :: "bench_event \<Rightarrow> bench_event list option \<Rightarrow> bench_event list option" where
  "enqueue ev q = (case q of
       None \<Rightarrow> None
     | Some es \<Rightarrow> if length es < maxQueuedEvents then Some (es @ [ev]) else Some es)"

definition Event :: "env \<Rightarrow> bench_event \<Rightarrow> unit act" where
  "Event e ev = do {
     t \<leftarrow> (if be_timestampMs ev = 0 then do { n \<leftarrow> now e; returnM (UnixMilli n) }
          else returnM (be_timestampMs ev));
     modify (\<lambda>w. w\<lparr>w_events := enqueue (ev\<lparr>be_timestampMs := t\<rparr>) (w_events w)\<rparr>) }"

definition StartSession :: "env \<Rightarrow> bytes \<Rightarrow> bool \<Rightarrow> unit act" where
  "StartSession e version updated = do {
     modify (\<lambda>w. w\<lparr>w_events := Some []\<rparr>);
     Event e ((BenchEvent KProxyStart)\<lparr>be_outcome := (if updated then ''updated'' else ''ok''),
       be_detail := version\<rparr>) }"

text \<open>
  \<open>sendEvents\<close> against the queue, as a machine: an event is put in by \<open>Event\<close>; the goroutine
  takes the first one out when its hands are empty, and each turn of its inner loop sees whether the
  session has fallen back and what the send returned.
\<close>

record event_pipe =
  ep_queue :: "bench_event list"
  ep_hand :: "bench_event option"
  ep_sent :: "bench_event list"
  ep_dropped :: "bench_event list"

datatype pipe_op = Put bench_event | Take | Turn bool "goerr option"

fun pipe_step :: "event_pipe \<Rightarrow> pipe_op \<Rightarrow> event_pipe" where
  "pipe_step p (Put ev) = (if length (ep_queue p) < maxQueuedEvents
     then p\<lparr>ep_queue := ep_queue p @ [ev]\<rparr> else p\<lparr>ep_dropped := ep_dropped p @ [ev]\<rparr>)"
| "pipe_step p Take = (case (ep_hand p, ep_queue p) of
       (None, ev # q) \<Rightarrow> p\<lparr>ep_hand := Some ev, ep_queue := q\<rparr>
     | _ \<Rightarrow> p)"
| "pipe_step p (Turn fallback res) = (case ep_hand p of
       None \<Rightarrow> p
     | Some ev \<Rightarrow>
         if fallback then p\<lparr>ep_hand := None, ep_dropped := ep_dropped p @ [ev]\<rparr>
         else (case res of
             None \<Rightarrow> p\<lparr>ep_hand := None, ep_sent := ep_sent p @ [ev]\<rparr>
           | Some err \<Rightarrow> if err = SessionDown then p
               else p\<lparr>ep_hand := None, ep_dropped := ep_dropped p @ [ev]\<rparr>))"

definition pipe0 :: event_pipe where
  "pipe0 = \<lparr>ep_queue = [], ep_hand = None, ep_sent = [], ep_dropped = []\<rparr>"

section \<open>What the calls preserve\<close>

context world_invariant begin

lemma keeps_getOrCreateDSClient [keeps]: "keeps inv (getOrCreateDSClient e addr)"
  unfolding getOrCreateDSClient_def by (intro keeps keeps_modify inv_clients)

lemma keeps_resolveSource [keeps]: "keeps inv (resolveSource e serial)"
  unfolding resolveSource_def by (intro keeps)

lemma keeps_deviceClient [keeps]: "keeps inv (deviceClient e serial)"
  unfolding deviceClient_def by (intro keeps)

lemma keeps_SetWifi:
  "(\<And>addr. allowed (DevCall addr serial (SetWifiRequest st band))) \<Longrightarrow> keeps inv (SetWifi e serial st band)"
  unfolding SetWifi_def by (intro keeps keeps_callDevice) auto

lemma keeps_Wake:
  "(\<And>addr. allowed (DevCall addr serial (WakeRequest))) \<Longrightarrow> keeps inv (Wake e serial)"
  unfolding Wake_def by (intro keeps keeps_callDevice) auto

lemma keeps_ResetBluetooth:
  "(\<And>addr. allowed (DevCall addr serial (ResetBluetoothRequest))) \<Longrightarrow> keeps inv (ResetBluetooth e serial)"
  unfolding ResetBluetooth_def by (intro keeps keeps_callDevice) auto

lemma keeps_HoldUpdates:
  "(\<And>addr. allowed (DevCall addr serial (HoldUpdatesRequest hold))) \<Longrightarrow> keeps inv (HoldUpdates e serial hold)"
  unfolding HoldUpdates_def by (intro keeps keeps_callDevice) auto

lemma keeps_RecentDeviceSourceLog:
  "(\<And>addr. allowed (DevCall addr serial (RecentLogRequest))) \<Longrightarrow> keeps inv (RecentDeviceSourceLog e serial)"
  unfolding RecentDeviceSourceLog_def by (intro keeps keeps_callDevice) auto

lemma keeps_RebootIfStale:
  "(\<And>addr. allowed (DevCall addr serial (RebootIfStaleRequest))) \<Longrightarrow> keeps inv (RebootIfStale e serial)"
  unfolding RebootIfStale_def by (intro keeps keeps_callDevice) auto

lemma keeps_RebootIfWedged:
  "(\<And>addr. allowed (DevCall addr serial (RebootIfWedgedRequest radio))) \<Longrightarrow> keeps inv (RebootIfWedged e serial radio)"
  unfolding RebootIfWedged_def by (intro keeps keeps_callDevice) auto

lemma keeps_ClearUiAutomation:
  "(\<And>addr. allowed (DevCall addr serial (ClearUiAutomationRequest))) \<Longrightarrow> keeps inv (ClearUiAutomation e serial)"
  unfolding ClearUiAutomation_def by (intro keeps keeps_callDevice) auto

lemma keeps_ResetPackages:
  "(\<And>addr. allowed (DevCall addr serial (ResetPackagesRequest since))) \<Longrightarrow> keeps inv (ResetPackages e serial since)"
  unfolding ResetPackages_def by (intro keeps keeps_callDevice) auto

lemma keeps_reverseReply: "(\<And>addr. allowed (DevCall addr serial req)) \<Longrightarrow> keeps inv (reverseReply e addr serial req)"
  unfolding reverseReply_def by (intro keeps keeps_callDevice) auto

lemma keeps_AddReverseForward:
  "(\<And>addr. allowed (DevCall addr serial (AddReverseRequest port))) \<Longrightarrow> keeps inv (AddReverseForward e serial port)"
  unfolding AddReverseForward_def by (intro keeps keeps_reverseReply) auto

lemma keeps_RemoveReverseForwards:
  "(\<And>addr. allowed (DevCall addr serial RemoveReverseRequest)) \<Longrightarrow> keeps inv (RemoveReverseForwards e serial)"
  unfolding RemoveReverseForwards_def by (intro keeps keeps_reverseReply) auto

lemma keeps_sessionUp [keeps]: "keeps inv (sessionUp e)"
  unfolding sessionUp_def by (intro keeps)

lemma keeps_reconnecting [keeps]: "keeps inv (reconnecting e)"
  unfolding reconnecting_def by (intro keeps)

lemma keeps_Event [keeps]: "keeps inv (Event e ev)"
  unfolding Event_def by (intro keeps keeps_modify inv_events)

end

context orch_invariant begin

lemma keeps_sessSend [keeps]: "keeps inv (sessSend e m)"
  unfolding sessSend_def by (intro keeps keeps_modify inv_orchCall)

lemma keeps_acquireLoop [keeps]: "keeps inv (acquireLoop e c n)"
  by (induction n) (auto intro!: keeps)

lemma keeps_AcquireLock [keeps]:
  "keeps inv (AcquireLock e serials cnt mins job prio same tenantKey ip)"
  unfolding AcquireLock_def by (intro keeps)

lemma keeps_AddLockLabels [keeps]: "keeps inv (AddLockLabels e lockID labels)"
  unfolding AddLockLabels_def by (intro keeps)

lemma keeps_CheckKey [keeps]: "keeps inv (CheckKey e key guestKeys)"
  unfolding CheckKey_def by (intro keeps)

lemma keeps_ReleaseLock [keeps]: "keeps inv (ReleaseLock e lockID status log)"
  unfolding ReleaseLock_def by (intro keeps)

lemma keeps_LockHeartbeat [keeps]: "keeps inv (LockHeartbeat e lockID log)"
  unfolding LockHeartbeat_def by (intro keeps)

lemma keeps_SendLockLog [keeps]: "keeps inv (SendLockLog e lockID entries)"
  unfolding SendLockLog_def by (intro keeps)

end

section \<open>Acquiring\<close>

text \<open>The call number \<open>i\<close>, from 0, is made at step \<open>s + 2 * i\<close>: in between, the runner is looked at.\<close>

definition lost :: "env \<Rightarrow> orch_call \<Rightarrow> nat \<Rightarrow> nat \<Rightarrow> bool" where
  "lost e c s i \<longleftrightarrow> statusCode (or_err (en_orch e (s + 2 * i) c)) = Unavailable"

definition retried :: "env \<Rightarrow> orch_call \<Rightarrow> nat \<Rightarrow> nat \<Rightarrow> orch_call list \<Rightarrow> orch_reply \<Rightarrow> orch_call list \<Rightarrow> bool" where
  "retried e c n s calls resp calls' \<longleftrightarrow> (\<exists>k\<le>n. calls' = calls @ replicate (Suc k) c \<and>
     list_all (lost e c s) [0..<k] \<and> resp = en_orch e (s + 2 * k) c \<and>
     (lost e c s k \<longrightarrow> k = n \<or> en_cancelled e (s + 2 * k + 1)))"

lemma retried_Suc:
  assumes "retried e c n (s + 2) (calls @ [c]) resp calls'" and "lost e c s 0"
  shows "retried e c (Suc n) s calls resp calls'"
proof -
  have shift: "lost e c (s + 2) i = lost e c s (Suc i)" for i by (simp add: lost_def)
  obtain k where k: "k \<le> n" "calls' = (calls @ [c]) @ replicate (Suc k) c" "list_all (lost e c (s + 2)) [0..<k]"
    "resp = en_orch e (s + 2 + 2 * k) c" "lost e c (s + 2) k \<longrightarrow> k = n \<or> en_cancelled e (s + 2 + 2 * k + 1)"
    using assms(1) by (auto simp: retried_def)
  have "list_all (lost e c s) [0..<Suc k]"
    unfolding list_all_iff
  proof
    fix i
    assume i: "i \<in> set [0..<Suc k]"
    show "lost e c s i"
    proof (cases i)
      case (Suc j)
      then have "lost e c (s + 2) j" using i k(3) by (auto simp: list_all_iff)
      then show ?thesis using Suc shift by simp
    qed (use assms(2) in simp)
  qed
  then show ?thesis
    unfolding retried_def using k by (intro exI [of _ "Suc k"]) (simp_all add: shift [simplified])
qed

lemma acquireLoop_calls:
  "wp (acquireLoop e c n) (\<lambda>resp w'. retried e c n (w_step w) (w_orchCalls w) resp (w_orchCalls w')) w"
proof (induction n arbitrary: w)
  case 0
  show ?case by (auto simp: retried_def)
next
  case (Suc n)
  let ?w = "w\<lparr>w_orchCalls := w_orchCalls w @ [c], w_step := Suc (Suc (w_step w))\<rparr>"
  show ?case
  proof (cases "lost e c (w_step w) 0")
    case True
    have "wp (acquireLoop e c n) (\<lambda>resp w'. retried e c (Suc n) (w_step w) (w_orchCalls w) resp (w_orchCalls w')) ?w"
      by (rule wp_mono [OF Suc.IH]) (rule retried_Suc [OF _ True], simp)
    then show ?thesis using True by (auto simp: retried_def lost_def)
  next
    case False
    then show ?thesis by (auto simp: retried_def lost_def)
  qed
qed

text \<open>
  C35. Asking for a lock. A request that names both devices and a number, or a negative number, is
  refused without a call; any other makes the same call between one and eleven times, again only after the
  orchestrator's connection was lost; it ends without a lock for a lost connection only after all eleven
  calls, or when the runner has hung up. A lock names each of its devices once.
\<close>

theorem AcquireLock_bounded:
  "wp (AcquireLock e serials cnt mins job prio same tenantKey ip) (\<lambda>r w'.
     (if cnt < 0 \<or> cnt > 0 \<and> serials \<noteq> [] then w' = w \<and> isl r
      else (\<exists>k c. k \<le> 10 \<and> w_orchCalls w' = w_orchCalls w @ replicate (Suc k) c \<and> list_all (lost e c (w_step w)) [0..<k] \<and>
        (case r of
           Inl err \<Rightarrow> if statusCode (Some err) = Unavailable then k = 10 \<or> en_cancelled e (w_step w + 2 * k + 1) else True
         | Inr lr \<Rightarrow> distinct (lr_serials lr) \<and> distinct (map fst (lr_remote lr)))))) w"
proof (cases "cnt < 0 \<or> cnt > 0 \<and> serials \<noteq> []")
  case False
  have d: "distinct (map fst (remoteMap ds))" for ds
    by (simp add: remoteMap_def comp_def)
  have "wp (acquireLoop e c 10) (\<lambda>resp w'. \<exists>k c. k \<le> 10 \<and> w_orchCalls w' = w_orchCalls w @ replicate (Suc k) c \<and>
      list_all (lost e c (w_step w)) [0..<k] \<and>
      (case (case or_err resp of Some err \<Rightarrow> Inl err
          | None \<Rightarrow> Inr \<lparr>lr_lockID = or_lockID resp, lr_serials = remdups (or_serials resp),
              lr_remote = remoteMap (or_remote resp)\<rparr>) of
        Inl err \<Rightarrow> if statusCode (Some err) = Unavailable then k = 10 \<or> en_cancelled e (w_step w + 2 * k + 1) else True
      | Inr lr \<Rightarrow> distinct (lr_serials lr) \<and> distinct (map fst (lr_remote lr)))) w" for c
  proof (rule wp_mono [OF acquireLoop_calls], unfold retried_def, elim exE conjE)
    fix resp w' k
    assume k: "k \<le> 10" "w_orchCalls w' = w_orchCalls w @ replicate (Suc k) c" "list_all (lost e c (w_step w)) [0..<k]"
      "resp = en_orch e (w_step w + 2 * k) c"
      "lost e c (w_step w) k \<longrightarrow> k = 10 \<or> en_cancelled e (w_step w + 2 * k + 1)"
    then show "\<exists>k c. k \<le> 10 \<and> w_orchCalls w' = w_orchCalls w @ replicate (Suc k) c \<and>
      list_all (lost e c (w_step w)) [0..<k] \<and>
      (case (case or_err resp of Some err \<Rightarrow> Inl err
          | None \<Rightarrow> Inr \<lparr>lr_lockID = or_lockID resp, lr_serials = remdups (or_serials resp),
              lr_remote = remoteMap (or_remote resp)\<rparr>) of
        Inl err \<Rightarrow> if statusCode (Some err) = Unavailable then k = 10 \<or> en_cancelled e (w_step w + 2 * k + 1) else True
      | Inr lr \<Rightarrow> distinct (lr_serials lr) \<and> distinct (map fst (lr_remote lr)))"
      by (intro exI [of _ k] exI [of _ c]) (auto simp: d lost_def split: option.splits)
  qed
  moreover have "(cnt < 0) = False" "(0 < cnt \<and> serials \<noteq> []) = False" using False by auto
  ultimately show ?thesis
    by (simp only: AcquireLock_def acquireRetries_def if_False wp_bind wp_return simp_thms)
qed (auto simp: AcquireLock_def)

section \<open>Events in order\<close>

fun putsOf :: "pipe_op list \<Rightarrow> bench_event list" where
  "putsOf [] = []"
| "putsOf (Put ev # ops) = ev # putsOf ops"
| "putsOf (_ # ops) = putsOf ops"

definition inFlight :: "event_pipe \<Rightarrow> bench_event list" where
  "inFlight p = (case ep_hand p of None \<Rightarrow> [] | Some ev \<Rightarrow> [ev]) @ ep_queue p"

lemma putsOf_append [simp]: "putsOf (xs @ ys) = putsOf xs @ putsOf ys"
  by (induction xs rule: putsOf.induct) simp_all

lemma pipe_step_inv:
  assumes "subseq (ep_sent p @ inFlight p) es" and "length (ep_queue p) \<le> maxQueuedEvents"
    and "mset (ep_sent p @ inFlight p @ ep_dropped p) = mset es"
  shows "subseq (ep_sent (pipe_step p op) @ inFlight (pipe_step p op)) (es @ putsOf [op]) \<and>
    length (ep_queue (pipe_step p op)) \<le> maxQueuedEvents \<and>
    mset (ep_sent (pipe_step p op) @ inFlight (pipe_step p op) @ ep_dropped (pipe_step p op)) = mset (es @ putsOf [op])"
proof (cases op)
  case (Put ev)
  have "subseq ((ep_sent p @ inFlight p) @ [ev]) (es @ [ev])"
    using assms(1) by (intro list_emb_append_mono) simp_all
  then show ?thesis
    using assms Put by (auto simp: inFlight_def split: option.split)
next
  case Take
  then show ?thesis using assms by (auto simp: inFlight_def add_mset_commute split: option.split list.split)
next
  case (Turn fallback res)
  have drop: "subseq (ep_sent p @ ep_queue p) es" if "ep_hand p = Some ev" for ev
  proof (rule subseq_order.trans [OF _ assms(1)])
    show "subseq (ep_sent p @ ep_queue p) (ep_sent p @ inFlight p)"
      using that by (simp add: inFlight_def list_emb_append_mono list_emb_Cons)
  qed
  then show ?thesis
    using assms Turn by (auto simp: inFlight_def split: option.split)
qed

lemma pipe_inv:
  "subseq (ep_sent (foldl pipe_step pipe0 ops) @ inFlight (foldl pipe_step pipe0 ops)) (putsOf ops) \<and>
   length (ep_queue (foldl pipe_step pipe0 ops)) \<le> maxQueuedEvents \<and>
   mset (ep_sent (foldl pipe_step pipe0 ops) @ inFlight (foldl pipe_step pipe0 ops) @
     ep_dropped (foldl pipe_step pipe0 ops)) = mset (putsOf ops)"
proof (induction ops rule: rev_induct)
  case Nil
  show ?case by (simp add: pipe0_def inFlight_def maxQueuedEvents_def)
next
  case (snoc op ops)
  then show ?case using pipe_step_inv [of "foldl pipe_step pipe0 ops" "putsOf ops" op] by simp
qed

text \<open>The goroutine's turns once the session is back: every event in its hands is sent.\<close>

definition recover :: "nat \<Rightarrow> pipe_op list" where
  "recover n = concat (replicate n [Turn False None, Take])"

lemma recover_sends:
  assumes "ep_hand p \<noteq> None \<or> ep_queue p = []"
  shows "foldl pipe_step p (recover (Suc (length (ep_queue p))))
    = p\<lparr>ep_sent := ep_sent p @ inFlight p, ep_hand := None, ep_queue := []\<rparr>"
  using assms
proof (induction "length (ep_queue p)" arbitrary: p)
  case 0
  then show ?case by (cases "ep_hand p") (simp_all add: recover_def inFlight_def)
next
  case (Suc n)
  then obtain ev x q where p: "ep_hand p = Some ev" "ep_queue p = x # q"
    by (cases "ep_queue p") auto
  let ?p = "p\<lparr>ep_sent := ep_sent p @ [ev], ep_hand := Some x, ep_queue := q\<rparr>"
  have "foldl pipe_step p (recover (Suc (length (ep_queue p)))) = foldl pipe_step ?p (recover (Suc (length q)))"
    using p by (simp add: recover_def)
  also have "\<dots> = ?p\<lparr>ep_sent := ep_sent ?p @ inFlight ?p, ep_hand := None, ep_queue := []\<rparr>"
    using Suc.hyps(1) [of ?p] Suc.hyps(2) p by simp
  finally show ?case using p by (simp add: inFlight_def)
qed

text \<open>
  C34. Bench events reach the orchestrator in the order they were queued, none twice: at any moment
  those sent, in the sender's hands and in the queue are a subsequence of all, together with the
  dropped ones they are all of them, and the queue never exceeds 256. An outage loses nothing that was
  queued: once sends work again, one turn per event sends everything that was left, in order.
\<close>

theorem bench_events_in_order:
  "let p = foldl pipe_step pipe0 ops; q = pipe_step p Take in
     subseq (ep_sent p @ inFlight p) (putsOf ops) \<and> length (ep_queue p) \<le> 256 \<and>
     mset (ep_sent p @ inFlight p @ ep_dropped p) = mset (putsOf ops) \<and>
     ep_sent (foldl pipe_step q (recover (Suc (length (ep_queue q))))) = ep_sent p @ inFlight p \<and>
     ep_dropped (foldl pipe_step q (recover (Suc (length (ep_queue q))))) = ep_dropped p"
proof -
  let ?p = "foldl pipe_step pipe0 ops"
  let ?q = "pipe_step ?p Take"
  have "ep_hand ?q \<noteq> None \<or> ep_queue ?q = []"
    by (auto split: option.split list.split)
  moreover have "ep_sent ?q @ inFlight ?q = ep_sent ?p @ inFlight ?p" "ep_dropped ?q = ep_dropped ?p"
    by (auto simp: inFlight_def split: option.split list.split)
  ultimately show ?thesis
    using pipe_inv [of ops] recover_sends [of ?q] by (simp add: Let_def maxQueuedEvents_def)
qed

end
