(* ===== verification/Relay.thy ===== *)
theory Relay
  imports CommandRouter Pump AdbProtocol
begin

text \<open>
  \<open>internal/proxy/relay.go\<close>: both ends of a relayed connection, and the record of which lock a
  phone was last relayed under. \<open>ServeRelay\<close> waits for a reset of the phone between joining the
  tunnel and opening the device; the two halves are steps of their own, so that resets can come between.
\<close>

section \<open>Errors for the holder's client\<close>

definition relayErr :: "goerr \<Rightarrow> goerr option" where
  "relayErr err = (case fromError err of
       None \<Rightarrow> Some err
     | Some (c, m) \<Rightarrow> if c = Unimplemented then Some UnknownDevice
         else if c = Canceled then None else Some (Plain m))"

definition refused :: "goerr \<Rightarrow> goerr option" where
  "refused err = (case relayErr err of None \<Rightarrow> None | Some er \<Rightarrow> Some (RelayRefused er))"

text \<open>
  \<open>RelayToDevice\<close>: the results of opening the tunnel, of sending the setup and of the first
  \<open>Recv\<close>, then what both directions see.
\<close>

record holder_end =
  ho_open :: "goerr option"
  ho_setup :: "goerr option"
  ho_first :: "goerr + tunnel_msg"
  ho_reads :: "(bytes \<times> goerr option) list"
  ho_sends :: "goerr option list"
  ho_recvs :: "(goerr + tunnel_msg) list"
  ho_writes :: "goerr option list"
  ho_clientFirst :: bool

definition RelayToDevice :: "holder_end \<Rightarrow> dir_result \<times> tunnel_msg list \<times> bytes list" where
  "RelayToDevice h = (case ho_open h of
       Some err \<Rightarrow> (Finished (refused err), [], [])
     | None \<Rightarrow> (case ho_setup h of
         Some err \<Rightarrow> (case ho_first h of
             Inl rerr \<Rightarrow> (Finished (refused rerr), [], [])
           | Inr _ \<Rightarrow> (Finished (refused err), [], []))
       | None \<Rightarrow> (case ho_first h of
           Inl err \<Rightarrow> (Finished (refused err), [], [])
         | Inr TunnelAccepted \<Rightarrow>
             let up = copyDir (map tcpRecv (ho_reads h)) (ho_sends h);
                 down = copyDir (closeSignalRecv (ho_recvs h)) (ho_writes h)
             in ((case pumpStreams (ho_clientFirst h) up down of
                   Finished (Some err) \<Rightarrow> Finished (if err = EOF then None else relayErr err)
                 | r \<Rightarrow> r), closeSignalSend up, dr_sent down)
         | Inr _ \<Rightarrow> (Finished (refused (Plain ''orchestrator did not accept the tunnel'')), [], []))))"

text \<open>The type of a refusal is private to the package: no stream or connection returns one.\<close>

fun isRefusal :: "goerr \<Rightarrow> bool" where
  "isRefusal (RelayRefused _) = True"
| "isRefusal _ = False"

definition foreign :: "holder_end \<Rightarrow> bool" where
  "foreign h \<longleftrightarrow> (\<forall>(p, r) \<in> set (ho_reads h). r \<noteq> None \<longrightarrow> \<not> isRefusal (the r)) \<and>
     (\<forall>r \<in> set (ho_sends h @ ho_writes h). r \<noteq> None \<longrightarrow> \<not> isRefusal (the r)) \<and>
     (\<forall>m \<in> set (ho_recvs h). isl m \<longrightarrow> \<not> isRefusal (projl m))"

lemma relayErr_refusal: "relayErr err = Some er \<Longrightarrow> isRefusal er \<Longrightarrow> isRefusal err"
  by (cases err) (auto simp: relayErr_def split: option.splits prod.splits if_splits)

lemma copyDir_error:
  "dr_result (copyDir rs outs) = Finished (Some err) \<Longrightarrow> Inl err \<in> set rs \<or> Some err \<in> set outs"
  by (induction rs outs rule: copyDir.induct)
    (auto simp: sending_def split: if_splits list.splits option.splits)

lemma closeSignalRecv_error: "Inl err \<in> set (closeSignalRecv ms) \<Longrightarrow> err = EOF \<or> Inl err \<in> set ms"
  by (induction ms rule: closeSignalRecv.induct) auto

lemma awaitBoth_error: "awaitBoth rs = Finished (Some err) \<Longrightarrow> Finished (Some err) \<in> set rs"
  by (induction rs rule: awaitBoth.induct) auto

lemma pump_error:
  assumes "foreign h" and "pumpStreams b (copyDir (map tcpRecv (ho_reads h)) (ho_sends h))
      (copyDir (closeSignalRecv (ho_recvs h)) (ho_writes h)) = Finished (Some err)"
  shows "\<not> isRefusal err"
proof -
  let ?up = "copyDir (map tcpRecv (ho_reads h)) (ho_sends h)"
    and ?down = "copyDir (closeSignalRecv (ho_recvs h)) (ho_writes h)"
  have "Finished (Some err) \<in> {dr_result ?up, dr_result ?down}"
    using awaitBoth_error [of "arrivals b ?up ?down" err] assms(2)
    by (auto simp: pumpStreams_def arrivals_def split: if_splits)
  then consider "dr_result ?up = Finished (Some err)" | "dr_result ?down = Finished (Some err)" by auto
  then show ?thesis
  proof cases
    case 1
    then have "Inl err \<in> set (map tcpRecv (ho_reads h)) \<or> Some err \<in> set (ho_sends h)" by (rule copyDir_error)
    then show ?thesis
      using assms(1) by (force simp: foreign_def tcpRecv_def split: if_splits option.splits)
  next
    case 2
    then have "Inl err \<in> set (closeSignalRecv (ho_recvs h)) \<or> Some err \<in> set (ho_writes h)" by (rule copyDir_error)
    then have "err = EOF \<or> Inl err \<in> set (ho_recvs h) \<or> Some err \<in> set (ho_writes h)"
      using closeSignalRecv_error by blast
    then show ?thesis
      using assms(1) by (fastforce simp: foreign_def)
  qed
qed

text \<open>
  A refusal means that nothing has been relayed. When \<open>RelayToDevice\<close> returns an error that its
  caller may write to the client as FAIL, not a byte has gone to the tunnel or to the client; once the
  orchestrator has accepted, no error it returns is one of these, whatever fails.
\<close>

theorem relay_refused_before_bytes:
  assumes "foreign h"
  shows "case RelayToDevice h of (res, toTunnel, toClient) \<Rightarrow>
    if ho_open h = None \<and> ho_setup h = None \<and> ho_first h = Inr TunnelAccepted
    then (case res of Finished (Some err) \<Rightarrow> \<not> isRefusal err | _ \<Rightarrow> True)
    else toTunnel = [] \<and> toClient = [] \<and>
      (case res of Finished (Some err) \<Rightarrow> isRefusal err | Finished None \<Rightarrow> True | Blocked \<Rightarrow> False)"
proof -
  have r: "case refused err of None \<Rightarrow> True | Some er \<Rightarrow> isRefusal er" for err
    by (simp add: refused_def split: option.split)
  show ?thesis
  proof (cases "ho_open h = None \<and> ho_setup h = None \<and> ho_first h = Inr TunnelAccepted")
    case True
    let ?p = "pumpStreams (ho_clientFirst h) (copyDir (map tcpRecv (ho_reads h)) (ho_sends h))
        (copyDir (closeSignalRecv (ho_recvs h)) (ho_writes h))"
    consider "?p = Blocked" | "?p = Finished None" | err where "?p = Finished (Some err)"
      by (metis dir_result.exhaust option.exhaust)
    then show ?thesis
    proof cases
      case 3
      then have "\<not> isRefusal err" by (rule pump_error [OF assms])
      then have "case relayErr err of None \<Rightarrow> True | Some er \<Rightarrow> \<not> isRefusal er"
        using relayErr_refusal [of err] by (auto split: option.split)
      then show ?thesis
        using True 3 by (simp add: RelayToDevice_def Let_def split: option.splits)
    qed (use True in \<open>simp_all add: RelayToDevice_def Let_def\<close>)
  next
    case False
    then show ?thesis
      using r by (auto simp: RelayToDevice_def split: option.split sum.split tunnel_msg.split)
  qed
qed

theorem relay_refused_before_bytes_witness:
  "let h = \<lparr>ho_open = None, ho_setup = None, ho_first = Inl (Status Unimplemented ''unknown service''), ho_reads = [],
       ho_sends = [], ho_recvs = [], ho_writes = [], ho_clientFirst = True\<rparr>
   in foreign h \<and> RelayToDevice h = (Finished (Some (RelayRefused UnknownDevice)), [], [])"
  using relay_refused_before_bytes [of "\<lparr>ho_open = None, ho_setup = None,
      ho_first = Inl (Status Unimplemented ''unknown service''), ho_reads = [],
      ho_sends = [], ho_recvs = [], ho_writes = [], ho_clientFirst = True\<rparr>"]
  by (simp add: foreign_def RelayToDevice_def refused_def relayErr_def)

section \<open>Relay records\<close>

definition setRec :: "nat \<Rightarrow> (relay_record \<Rightarrow> relay_record) \<Rightarrow> unit act" where
  "setRec r f = modify (\<lambda>w. w\<lparr>w_recs := (w_recs w)(r := f (w_recs w r))\<rparr>)"

definition settledSnapshot :: "nat \<Rightarrow> bytes list option act" where
  "settledSnapshot r = do {
     setRec r (\<lambda>rec. rec\<lparr>rr_settled := True\<rparr>);
     w \<leftarrow> getM;
     returnM (rr_snapshot (w_recs w r)) }"

text \<open>
  The \<open>once\<close> of the record runs the body for the first caller only. What differs from the replaced
  record's snapshot is only logged; looking at it settles that record.
\<close>

definition takeSnapshot :: "env \<Rightarrow> nat \<Rightarrow> bytes \<Rightarrow> bytes \<Rightarrow> unit act" where
  "takeSnapshot e r addr serial = do {
     w \<leftarrow> getM;
     (if rr_settled (w_recs w r) then returnM ()
      else do {
        let prev = rr_prev (w_recs w r);
        setRec r (\<lambda>rec. rec\<lparr>rr_prev := None\<rparr>);
        rep \<leftarrow> callDevice e (DevCall addr serial ListPackagesRequest);
        (case rp_err rep of
            Some _ \<Rightarrow> setRec r (\<lambda>rec. rec\<lparr>rr_settled := True\<rparr>)
          | None \<Rightarrow> do {
              setRec r (\<lambda>rec. rec\<lparr>rr_snapshot := Some (rp_list rep)\<rparr>);
              (case prev of None \<Rightarrow> returnM () | Some p \<Rightarrow> do { settledSnapshot p; returnM () });
              setRec r (\<lambda>rec. rec\<lparr>rr_settled := True\<rparr>) }) }) }"

definition newRecord :: "bytes \<Rightarrow> nat option \<Rightarrow> nat act" where
  "newRecord lockID prev = do {
     w \<leftarrow> getM;
     modify (\<lambda>w. w\<lparr>w_recs := (w_recs w)(w_nextRec w := \<lparr>rr_lockID = lockID, rr_settled = False,
       rr_snapshot = None, rr_prev = prev\<rparr>), w_nextRec := Suc (w_nextRec w)\<rparr>);
     returnM (w_nextRec w) }"

definition relayRecordFor :: "bytes \<Rightarrow> bytes \<Rightarrow> nat act" where
  "relayRecordFor serial lockID = do {
     w \<leftarrow> getM;
     (case map_of (w_relayLocks w) serial of
         None \<Rightarrow> do {
           r \<leftarrow> newRecord lockID None;
           modify (\<lambda>w. w\<lparr>w_relayLocks := put serial r (w_relayLocks w)\<rparr>);
           returnM r }
       | Some r \<Rightarrow>
           if rr_lockID (w_recs w r) = lockID then returnM r
           else do {
             r' \<leftarrow> newRecord lockID (Some r);
             modify (\<lambda>w. w\<lparr>w_relayLocks := put serial r' (w_relayLocks w)\<rparr>);
             returnM r' }) }"

definition takeRelayRecord :: "bytes \<Rightarrow> bytes \<Rightarrow> nat option act" where
  "takeRelayRecord serial lockID = do {
     w \<leftarrow> getM;
     (case map_of (w_relayLocks w) serial of
         None \<Rightarrow> returnM None
       | Some r \<Rightarrow>
           if rr_lockID (w_recs w r) \<noteq> lockID then returnM None
           else do {
             modify (\<lambda>w. w\<lparr>w_relayLocks := del serial (w_relayLocks w)\<rparr>);
             returnM (Some r) }) }"

section \<open>Serving a relayed connection\<close>

text \<open>
  The owner's end: the results of opening the tunnel, of sending the setup and of the \<open>Recv\<close> after
  a failed send; whether the tunnel was seen dead at the two checks; the result of opening the device's
  stream; and what both directions see.
\<close>

record owner_end =
  ow_open :: "goerr option"
  ow_setup :: "goerr option"
  ow_setupRecv :: "goerr + tunnel_msg"
  ow_dead1 :: "goerr option"
  ow_dead2 :: "goerr option"
  ow_forward :: "goerr option"
  ow_recvs :: "(goerr + tunnel_msg) list"
  ow_sends :: "goerr option list"
  ow_devRecvs :: "(goerr + bytes option) list"
  ow_devSends :: "goerr option list"
  ow_tunnelFirst :: bool

datatype serve_result =
    NotJoined bytes
  | TunnelDied bytes
  | FailedInBand "tunnel_msg list"
  | Served dir_result "bytes list" "tunnel_msg list"

definition sendRelayFailedW :: "env \<Rightarrow> relay_open \<Rightarrow> bytes \<Rightarrow> unit act" where
  "sendRelayFailedW e ro msg = do { sessSend e (RelayFailedMsg (ro_tunnelId ro) msg); returnM () }"

definition failInBand :: "bytes \<Rightarrow> tunnel_msg list" where
  "failInBand msg = [TunnelPayload (case WriteFail msg of Inl _ \<Rightarrow> [] | Inr reply \<Rightarrow> reply), TunnelHalfClose]"

definition failJoin :: "env \<Rightarrow> relay_open \<Rightarrow> bytes \<Rightarrow> (serve_result + bytes \<times> nat) act" where
  "failJoin e ro msg = do { sendRelayFailedW e ro msg; returnM (Inl (NotJoined msg)) }"

definition joinTunnel :: "env \<Rightarrow> relay_open \<Rightarrow> owner_end \<Rightarrow> bytes \<Rightarrow> nat \<Rightarrow> (serve_result + bytes \<times> nat) act" where
  "joinTunnel e ro ow addr r = (case ow_open ow of
       Some err \<Rightarrow> failJoin e ro (errorText err)
     | None \<Rightarrow> (case ow_setup ow of
         Some err \<Rightarrow> (case ow_setupRecv ow of
             Inl rerr \<Rightarrow> failJoin e ro (convertMessage rerr)
           | Inr _ \<Rightarrow> failJoin e ro (errorText err))
       | None \<Rightarrow> returnM (Inr (addr, r))))"

definition serveJoin :: "env \<Rightarrow> relay_open \<Rightarrow> owner_end \<Rightarrow> (serve_result + bytes \<times> nat) act" where
  "serveJoin e ro ow = do {
     addr \<leftarrow> resolveSource e (ro_serial ro);
     (if addr = [] then failJoin e ro (''no device '' @ ro_serial ro @ '' on this proxy'')
      else do {
        r \<leftarrow> relayRecordFor (ro_serial ro) (ro_lockId ro);
        joinTunnel e ro ow addr r }) }"

definition tunnelDead :: "env \<Rightarrow> relay_open \<Rightarrow> goerr \<Rightarrow> serve_result act" where
  "tunnelDead e ro err = do { sendRelayFailedW e ro (convertMessage err); returnM (TunnelDied (convertMessage err)) }"

definition openDevice :: "env \<Rightarrow> relay_open \<Rightarrow> owner_end \<Rightarrow> bytes \<Rightarrow> serve_result act" where
  "openDevice e ro ow addr = (case ow_forward ow of
       Some err \<Rightarrow> returnM (FailedInBand (failInBand (convertMessage err)))
     | None \<Rightarrow> do {
         rep \<leftarrow> callDevice e (DevCall addr (ro_serial ro) (ForwardRequest (ro_initialCommand ro)));
         returnM (case rp_err rep of
             Some err \<Rightarrow> FailedInBand (failInBand (errorText err))
           | None \<Rightarrow>
               let up = copyDir (closeSignalRecv (ow_recvs ow)) (ow_devSends ow);
                   down = copyDir (forwardRecv (ow_devRecvs ow)) (ow_sends ow)
               in Served (pumpStreams (ow_tunnelFirst ow) up down) (dr_sent up) (closeSignalSend down)) })"

definition serveDevice :: "env \<Rightarrow> relay_open \<Rightarrow> owner_end \<Rightarrow> bytes \<Rightarrow> nat \<Rightarrow> serve_result act" where
  "serveDevice e ro ow addr r = (case ow_dead1 ow of
       Some err \<Rightarrow> tunnelDead e ro err
     | None \<Rightarrow> do {
         c \<leftarrow> getOrCreateDSClient e addr;
         (case c of
             Inl err \<Rightarrow> returnM (FailedInBand (failInBand (errorText err)))
           | Inr _ \<Rightarrow> do {
               takeSnapshot e r addr (ro_serial ro);
               (case ow_dead2 ow of
                   Some err \<Rightarrow> tunnelDead e ro err
                 | None \<Rightarrow> openDevice e ro ow addr) }) })"

definition ServeRelay :: "env \<Rightarrow> relay_open \<Rightarrow> owner_end \<Rightarrow> serve_result act" where
  "ServeRelay e ro ow = do {
     j \<leftarrow> serveJoin e ro ow;
     (case j of Inl res \<Rightarrow> returnM res | Inr (addr, r) \<Rightarrow> serveDevice e ro ow addr r) }"

section \<open>One snapshot per lock, before its first command\<close>

text \<open>A settled record is settled for good: its snapshot never changes.\<close>

definition settled_kept :: "world \<Rightarrow> world \<Rightarrow> bool" where
  "settled_kept w w' \<longleftrightarrow> w_nextRec w \<le> w_nextRec w' \<and>
     (\<forall>r < w_nextRec w. rr_settled (w_recs w r) \<longrightarrow>
       rr_settled (w_recs w' r) \<and> rr_snapshot (w_recs w' r) = rr_snapshot (w_recs w r))"

lemma settled_kept_refl [simp]: "settled_kept w w"
  by (simp add: settled_kept_def)

lemma settled_kept_trans: "settled_kept a b \<Longrightarrow> settled_kept b c \<Longrightarrow> settled_kept a c"
  by (simp add: settled_kept_def)

lemma settled_kept_same:
  "w_recs w' = w_recs w \<Longrightarrow> w_nextRec w' = w_nextRec w \<Longrightarrow> settled_kept w w'"
  by (simp add: settled_kept_def)

text \<open>What of the world a step leaves alone that talks to the session or dials a client.\<close>

definition relay_same :: "world \<Rightarrow> world \<Rightarrow> bool" where
  "relay_same w w' \<longleftrightarrow> w_recs w' = w_recs w \<and> w_nextRec w' = w_nextRec w \<and>
     w_relayLocks w' = w_relayLocks w \<and> w_devCalls w' = w_devCalls w"

lemma sendRelayFailedW_same: "wp (sendRelayFailedW e ro msg) (\<lambda>_. relay_same w) w"
  by (simp add: sendRelayFailedW_def sessSend_def relay_same_def split: option.split sum.split)

lemma getOrCreateDSClient_same: "wp (getOrCreateDSClient e addr) (\<lambda>_. relay_same w) w"
  by (simp add: getOrCreateDSClient_def relay_same_def split: option.split)

lemma resolveSource_same: "wp (resolveSource e serial) (\<lambda>_. relay_same w) w"
  by (simp add: resolveSource_def relay_same_def)

lemma takeSnapshot_post:
  "wp (takeSnapshot e r addr serial) (\<lambda>_ w'. rr_settled (w_recs w' r) \<and> settled_kept w w' \<and>
     w_relayLocks w' = w_relayLocks w \<and> rr_lockID (w_recs w' r) = rr_lockID (w_recs w r) \<and>
     w_devCalls w' = w_devCalls w @ (if rr_settled (w_recs w r) then [] else [DevCall addr serial ListPackagesRequest])) w"
  by (auto simp: takeSnapshot_def setRec_def settledSnapshot_def settled_kept_def Let_def split: option.split)

lemma relayRecordFor_post:
  "wp (relayRecordFor serial lockID) (\<lambda>r w'. map_of (w_relayLocks w') serial = Some r \<and>
     rr_lockID (w_recs w' r) = lockID \<and> settled_kept w w' \<and> w_devCalls w' = w_devCalls w \<and>
     (rr_settled (w_recs w' r) \<longrightarrow> map_of (w_relayLocks w) serial = Some r \<and> rr_lockID (w_recs w r) = lockID)) w"
  by (auto simp: relayRecordFor_def newRecord_def settled_kept_def split: option.split)

text \<open>
  What serving one connection asks of the phone: nothing, the list of its packages, the connection, or
  the list and then the connection; without the list only if this lock's record was settled before.
\<close>

definition recordNames :: "world \<Rightarrow> relay_open \<Rightarrow> nat \<Rightarrow> bool" where
  "recordNames w ro r \<longleftrightarrow> map_of (w_relayLocks w) (ro_serial ro) = Some r \<and> rr_lockID (w_recs w r) = ro_lockId ro"

definition listCall :: "relay_open \<Rightarrow> bytes \<Rightarrow> dev_call" where
  "listCall ro addr = DevCall addr (ro_serial ro) ListPackagesRequest"

definition openCall :: "relay_open \<Rightarrow> bytes \<Rightarrow> dev_call" where
  "openCall ro addr = DevCall addr (ro_serial ro) (ForwardRequest (ro_initialCommand ro))"

definition asked :: "relay_open \<Rightarrow> nat \<Rightarrow> bytes \<Rightarrow> bool \<Rightarrow> dev_call list \<Rightarrow> world \<Rightarrow> bool" where
  "asked ro r addr before calls0 w' \<longleftrightarrow>
     (\<exists>calls \<in> {[], [listCall ro addr], [openCall ro addr], [listCall ro addr, openCall ro addr]}.
       w_devCalls w' = calls0 @ calls \<and>
       (calls = [] \<or> recordNames w' ro r \<and> rr_settled (w_recs w' r) \<and> (hd calls = listCall ro addr \<or> before)))"

lemma failJoin_post: "wp (failJoin e ro msg) (\<lambda>j w'. relay_same w w' \<and> isl j) w"
  unfolding failJoin_def by (simp, rule wp_mono [OF sendRelayFailedW_same])

lemma tunnelDead_same: "wp (tunnelDead e ro err) (\<lambda>_. relay_same w) w"
  unfolding tunnelDead_def by (simp, rule wp_mono [OF sendRelayFailedW_same])

lemma joinTunnel_post:
  "wp (joinTunnel e ro ow addr r) (\<lambda>j w'. relay_same w w' \<and> (isl j \<or> j = Inr (addr, r))) w"
  unfolding joinTunnel_def
  by (auto split: option.split sum.split intro!: wp_mono [OF failJoin_post] simp: relay_same_def)

lemma serveJoin_post:
  "wp (serveJoin e ro ow) (\<lambda>j w'. settled_kept w w' \<and> w_devCalls w' = w_devCalls w \<and>
     (isl j \<or> recordNames w' ro (snd (projr j)) \<and>
        (rr_settled (w_recs w' (snd (projr j))) \<longrightarrow> recordNames w ro (snd (projr j))))) w"
  unfolding serveJoin_def wp_bind
proof (rule wp_mono [OF resolveSource_same])
  fix addr w1
  assume w1: "relay_same w w1"
  let ?Q = "\<lambda>j w'. settled_kept w w' \<and> w_devCalls w' = w_devCalls w \<and>
     (isl j \<or> recordNames w' ro (snd (projr j)) \<and>
        (rr_settled (w_recs w' (snd (projr j))) \<longrightarrow> recordNames w ro (snd (projr j))))"
  have "wp (failJoin e ro msg) ?Q w1" for msg
    by (rule wp_mono [OF failJoin_post]) (use w1 in \<open>simp add: relay_same_def settled_kept_def\<close>)
  moreover have "wp (relayRecordFor (ro_serial ro) (ro_lockId ro)) (\<lambda>r. wp (joinTunnel e ro ow addr r) ?Q) w1"
  proof (rule wp_mono [OF relayRecordFor_post])
    fix r w2
    assume "map_of (w_relayLocks w2) (ro_serial ro) = Some r \<and> rr_lockID (w_recs w2 r) = ro_lockId ro \<and>
      settled_kept w1 w2 \<and> w_devCalls w2 = w_devCalls w1 \<and>
      (rr_settled (w_recs w2 r) \<longrightarrow> map_of (w_relayLocks w1) (ro_serial ro) = Some r \<and>
         rr_lockID (w_recs w1 r) = ro_lockId ro)"
    then show "wp (joinTunnel e ro ow addr r) ?Q w2"
      using w1 by (intro wp_mono [OF joinTunnel_post]) (auto simp: relay_same_def settled_kept_def recordNames_def)
  qed
  ultimately show "wp (if addr = [] then failJoin e ro (''no device '' @ ro_serial ro @ '' on this proxy'')
      else do { r \<leftarrow> relayRecordFor (ro_serial ro) (ro_lockId ro); joinTunnel e ro ow addr r }) ?Q w1"
    by simp
qed

lemma asked_same: "asked ro r addr before calls0 w1 \<Longrightarrow> relay_same w1 w2 \<Longrightarrow> asked ro r addr before calls0 w2"
  by (simp add: asked_def relay_same_def recordNames_def)

lemma openDevice_post:
  assumes "asked ro r addr before calls0 w" and "recordNames w ro r" and "rr_settled (w_recs w r)"
    and "w_devCalls w = calls0 \<and> before \<or> w_devCalls w = calls0 @ [listCall ro addr]"
  shows "wp (openDevice e ro ow addr) (\<lambda>_ w'. asked ro r addr before calls0 w' \<and> settled_kept w w') w"
  using assms
  by (auto simp: openDevice_def asked_def recordNames_def settled_kept_def openCall_def listCall_def split: option.split)

lemma serveDevice_post:
  assumes "recordNames w ro r"
  shows "wp (serveDevice e ro ow addr r)
     (\<lambda>_ w'. asked ro r addr (rr_settled (w_recs w r)) (w_devCalls w) w' \<and> settled_kept w w') w"
proof -
  let ?P = "\<lambda>w'. asked ro r addr (rr_settled (w_recs w r)) (w_devCalls w) w' \<and> settled_kept w w'"
  have P0: "?P w" by (simp add: asked_def)
  have same: "?P w2" if "?P w1" "relay_same w1 w2" for w1 w2
    using that asked_same by (auto simp: relay_same_def settled_kept_def)
  have died: "wp (tunnelDead e ro err) (\<lambda>_. ?P) w1" if "?P w1" for err w1
    by (rule wp_mono [OF tunnelDead_same]) (rule same [OF that])
  have snap: "wp (takeSnapshot e r addr (ro_serial ro)) (\<lambda>_. wp (case ow_dead2 ow of
        Some err \<Rightarrow> tunnelDead e ro err | None \<Rightarrow> openDevice e ro ow addr) (\<lambda>_. ?P)) w1" if w1: "relay_same w w1" for w1
  proof (rule wp_mono [OF takeSnapshot_post])
    fix x w2
    assume t: "rr_settled (w_recs w2 r) \<and> settled_kept w1 w2 \<and>
      w_relayLocks w2 = w_relayLocks w1 \<and> rr_lockID (w_recs w2 r) = rr_lockID (w_recs w1 r) \<and>
      w_devCalls w2 = w_devCalls w1 @ (if rr_settled (w_recs w1 r) then [] else [DevCall addr (ro_serial ro) ListPackagesRequest])"
    have names: "recordNames w2 ro r" using t w1 assms by (simp add: recordNames_def relay_same_def)
    have kept: "settled_kept w w2" using t w1 by (auto simp: relay_same_def settled_kept_def)
    have a: "asked ro r addr (rr_settled (w_recs w r)) (w_devCalls w) w2"
      using t w1 names by (auto simp: asked_def listCall_def relay_same_def)
    have "wp (openDevice e ro ow addr) (\<lambda>_. ?P) w2"
      by (rule wp_mono [OF openDevice_post [OF a names]])
        (use t w1 kept settled_kept_trans in \<open>auto simp: listCall_def relay_same_def\<close>)
    then show "wp (case ow_dead2 ow of Some err \<Rightarrow> tunnelDead e ro err | None \<Rightarrow> openDevice e ro ow addr) (\<lambda>_. ?P) w2"
      using died a kept by (simp split: option.split)
  qed
  have "wp (getOrCreateDSClient e addr) (\<lambda>c. wp (case c of
        Inl err \<Rightarrow> returnM (FailedInBand (failInBand (errorText err)))
      | Inr _ \<Rightarrow> do { takeSnapshot e r addr (ro_serial ro);
          (case ow_dead2 ow of Some err \<Rightarrow> tunnelDead e ro err | None \<Rightarrow> openDevice e ro ow addr) }) (\<lambda>_. ?P)) w"
    by (rule wp_mono [OF getOrCreateDSClient_same]) (use snap same [OF P0] in \<open>simp split: sum.split\<close>)
  then show ?thesis
    using died [OF P0] by (simp add: serveDevice_def split: option.split)
qed


end
