(* ===== verification/PortReset.thy ===== *)
theory PortReset
  imports Relay
begin

text \<open>
  \<open>internal/proxy/scoped_port.go\<close>, the part that puts a phone into a known state: the steps run on
  acquire, mid-job and on release, each under the phone's own lock, so each is one step of the proxy.
  A port is passed as the fixed part \<open>sp\<close>; its log is in the store under \<open>sp_ref sp\<close>.
\<close>

section \<open>Notes and events\<close>

definition recordLog :: "scoped_port \<Rightarrow> lock_log_entry \<Rightarrow> unit act" where
  "recordLog sp entry = modify (\<lambda>w. w\<lparr>w_ports := (w_ports w)(sp_ref sp := (w_ports w (sp_ref sp))\<lparr>ps_log :=
     Record (ps_log (w_ports w (sp_ref sp))) (Some entry)\<rparr>)\<rparr>)"

definition noteEntry :: "int \<Rightarrow> bytes \<Rightarrow> bytes \<Rightarrow> lock_log_entry" where
  "noteEntry t serial service =
     lock_log_entry.Serial_update (\<lambda>_. serial) (LockLogEntry\<lparr>TimestampMs := t, Service := service\<rparr>)"

definition noteService :: "env \<Rightarrow> scoped_port \<Rightarrow> bytes \<Rightarrow> bytes \<Rightarrow> unit act" where
  "noteService e sp serial service = do {
     t \<leftarrow> now e;
     recordLog sp (noteEntry (UnixMilli t) serial service) }"

definition errText :: "goerr option \<Rightarrow> bytes" where
  "errText err = (case err of None \<Rightarrow> [] | Some er \<Rightarrow> convertMessage er)"

definition portEvent :: "event_kind \<Rightarrow> bytes \<Rightarrow> bytes \<Rightarrow> bytes \<Rightarrow> bytes \<Rightarrow> bench_event" where
  "portEvent k serial lockID outcome detail = (BenchEvent k)\<lparr>be_serial := serial, be_lockId := lockID,
     be_outcome := outcome, be_detail := detail\<rparr>"

definition localSerials :: "scoped_port \<Rightarrow> bytes list" where
  "localSerials sp = sort (filter (\<lambda>s. s \<notin> fst ` set (sp_remote sp)) (sp_serials sp))"

definition maxExcerptLines :: nat where
  "maxExcerptLines = 100"

definition excerpt :: "env \<Rightarrow> scoped_port \<Rightarrow> int \<Rightarrow> bytes \<Rightarrow> bytes list \<Rightarrow> unit act" where
  "excerpt e sp t who lines = whenM (lines \<noteq> []) (do {
     recordLog sp (LockLogEntry\<lparr>TimestampMs := t, Service := ''sair: '' @ who @ '' log before the failure''\<rparr>);
     recordLog sp (LockLogEntry\<lparr>Output := Join (lastn maxExcerptLines lines) [CHR 0x0A] @ [CHR 0x0A]\<rparr>) })"

definition logExcerpt :: "env \<Rightarrow> scoped_port \<Rightarrow> bytes list \<Rightarrow> unit act" where
  "logExcerpt e sp serials = do {
     t \<leftarrow> now e;
     n \<leftarrow> tick;
     excerpt e sp (UnixMilli t) ''proxy'' (en_recent e n (sp_lockID sp # serials));
     foreach serials (\<lambda>serial. do {
       (lines, err) \<leftarrow> RecentDeviceSourceLog e serial;
       (case err of
           Some _ \<Rightarrow> returnM ()
         | None \<Rightarrow> excerpt e sp (UnixMilli t) (''device source ('' @ serial @ '')'') lines) }) }"

section \<open>Waking\<close>

definition skippable :: "goerr option \<Rightarrow> bool" where
  "skippable err \<longleftrightarrow> statusCode err = NotFound \<or> statusCode err = Unimplemented"

definition wakeFailed :: "goerr option \<Rightarrow> bool" where
  "wakeFailed err \<longleftrightarrow> err \<noteq> None \<and> statusCode err \<noteq> Unimplemented \<and> statusCode err \<noteq> NotFound"

definition wakeDevice :: "env \<Rightarrow> bytes \<Rightarrow> bytes \<Rightarrow> goerr option act" where
  "wakeDevice e lockID serial = do {
     err \<leftarrow> Wake e serial;
     whenM (wakeFailed err) (Event e (portEvent KWake serial lockID ''failed'' (errText err)));
     returnM err }"

section \<open>Wi-Fi\<close>

fun wifiEventKind :: "wifi_state \<Rightarrow> event_kind" where
  "wifiEventKind WifiON = KWifiOn"
| "wifiEventKind WifiOFF = KWifiOff"
| "wifiEventKind WifiRESET = KWifiReset"

definition wifiFailures :: "(bytes \<times> bytes) list" where
  "wifiFailures = [
     (''not associated to any network'', ''not_associated''),
     (''still associated to'', ''still_associated''),
     (''associated to'', ''other_ssid''),
     (''not VALIDATED'', ''not_validated''),
     (''no Wi-Fi network in dumpsys'', ''not_validated''),
     (''default network is cellular'', ''cellular_default''),
     (''cannot reach'', ''no_route''),
     (''still reaches'', ''still_online''),
     (''radio is'', ''radio_off'')]"

definition wifiOutcome :: "goerr option \<Rightarrow> bytes" where
  "wifiOutcome err = (if err = None then ''ok''
     else (case find (\<lambda>(text, _). Contains (errText err) text) wifiFailures of
         Some (_, outcome) \<Rightarrow> outcome
       | None \<Rightarrow> if statusCode err = DeadlineExceeded then ''timeout'' else ''error''))"

definition wifiDevice :: "env \<Rightarrow> bytes \<Rightarrow> bytes \<Rightarrow> wifi_state \<Rightarrow> bytes \<Rightarrow> goerr option act" where
  "wifiDevice e lockID serial st band = do {
     start \<leftarrow> now e;
     err \<leftarrow> SetWifi e serial st band;
     whenM (\<not> wifiUnmanaged err) (do {
       t \<leftarrow> now e;
       Event e ((portEvent (wifiEventKind st) serial lockID (wifiOutcome err) (errText err))
         \<lparr>be_durationMs := Milliseconds (t - start)\<rparr>) });
     returnM err }"

section \<open>Waiting for a rebooted phone\<close>

text \<open>
  The loop of \<open>waitForSource\<close>, for at most \<open>n\<close> turns: \<open>Some True\<close> when the phone is back,
  \<open>Some False\<close> at the deadline, \<open>None\<close> when \<open>n\<close> turns were not enough.
\<close>

fun waitLoop :: "env \<Rightarrow> bytes \<Rightarrow> int \<Rightarrow> nat \<Rightarrow> bool option act" where
  "waitLoop e serial deadline 0 = returnM None"
| "waitLoop e serial deadline (Suc n) = do {
     t \<leftarrow> now e;
     (if \<not> t < deadline then returnM (Some False)
      else do {
        addr \<leftarrow> resolve e serial;
        (if addr \<noteq> [] then returnM (Some True) else waitLoop e serial deadline n) }) }"

definition waitTurns :: nat where
  "waitTurns = 31"

definition waitForSource :: "env \<Rightarrow> bytes \<Rightarrow> unit act" where
  "waitForSource e serial = whenM (en_hasResolve e) (do {
     t \<leftarrow> now e;
     waitLoop e serial (t + 30 * secondT) waitTurns;
     returnM () })"

section \<open>Cleaning\<close>

definition packagesRemovedService :: "bytes list \<Rightarrow> bytes list \<Rightarrow> bytes" where
  "packagesRemovedService removed suggestions =
     ''sair: uninstalled '' @ Join removed '', '' @
     (if suggestions \<noteq> [] then '' (Wi-Fi suggestions removed with them: '' @ Join suggestions ''; '' @ '')'' else [])"

definition cleanPackages :: "env \<Rightarrow> scoped_port \<Rightarrow> bytes \<Rightarrow> bytes \<Rightarrow> bytes list option \<Rightarrow> bool act" where
  "cleanPackages e sp serial trailer since = do {
     (removed, suggestions, err) \<leftarrow> ResetPackages e serial since;
     (if err = None \<and> removed \<noteq> [] then do {
        noteService e sp serial (packagesRemovedService removed suggestions @ trailer);
        Event e (portEvent KPackageReset serial (sp_lockID sp) ''ok'' (Join removed '', ''));
        returnM False }
      else if statusCode err = NotFound \<and> since \<noteq> None then do {
        Event e (portEvent KPackageReset serial (sp_lockID sp) ''failed'' (errText err));
        returnM True }
      else if err = None \<or> skippable err then returnM False
      else do {
        Event e (portEvent KPackageReset serial (sp_lockID sp) ''failed'' (errText err));
        returnM True }) }"

definition cleanUiAutomation :: "env \<Rightarrow> scoped_port \<Rightarrow> bytes \<Rightarrow> bytes \<Rightarrow> bool act" where
  "cleanUiAutomation e sp serial trailer = do {
     start \<leftarrow> now e;
     (cleared, err) \<leftarrow> ClearUiAutomation e serial;
     (if err = None \<and> cleared \<noteq> [] then do {
        noteService e sp serial (''sair: cleared a leaked UiAutomation registration ('' @ cleared @ '')'' @ trailer);
        whenM (cleared = ''rebooted'') (do {
          waitForSource e serial;
          t \<leftarrow> now e;
          Event e ((portEvent KReboot serial (sp_lockID sp) ''ok'' ''leaked UiAutomation'')
            \<lparr>be_durationMs := Milliseconds (t - start)\<rparr>) });
        returnM False }
      else if err = None \<or> skippable err then returnM False
      else do {
        noteService e sp serial (''sair: leaked UiAutomation registration not cleared: '' @ errText err @ trailer);
        returnM True }) }"

definition cleanDevice :: "env \<Rightarrow> scoped_port \<Rightarrow> bytes \<Rightarrow> bytes \<Rightarrow> bytes list option \<Rightarrow> bool act" where
  "cleanDevice e sp serial trailer since = do {
     _ \<leftarrow> RemoveReverseForwards e serial;
     failed1 \<leftarrow> (if sp_relayed sp \<and> since = None then do {
          Event e (portEvent KPackageReset serial (sp_lockID sp) ''failed'' ''no package snapshot, nothing uninstalled'');
          returnM True }
        else cleanPackages e sp serial trailer since);
     failed2 \<leftarrow> cleanUiAutomation e sp serial trailer;
     returnM (failed1 \<or> failed2) }"

section \<open>Bluetooth and wedged radios\<close>

definition unwedge :: "env \<Rightarrow> scoped_port \<Rightarrow> bytes \<Rightarrow> bytes \<Rightarrow> bytes \<Rightarrow> bool act" where
  "unwedge e sp serial radio trailer = do {
     start \<leftarrow> now e;
     (rebooted, err) \<leftarrow> RebootIfWedged e serial radio;
     (if err = None \<and> rebooted then do {
        noteService e sp serial (''sair: radio wedged ('' @ radio @ ''), rebooted'' @ trailer);
        waitForSource e serial;
        t \<leftarrow> now e;
        Event e ((portEvent KReboot serial (sp_lockID sp) ''ok'' (''wedged '' @ radio))
          \<lparr>be_durationMs := Milliseconds (t - start)\<rparr>);
        returnM True }
      else do {
        whenM (\<not> (err = None \<or> skippable err))
          (noteService e sp serial (''sair: radio wedged ('' @ radio @ ''), not rebooted: '' @ errText err @ trailer));
        returnM False }) }"

definition cycleBluetooth :: "env \<Rightarrow> scoped_port \<Rightarrow> bytes \<Rightarrow> bytes \<Rightarrow> bool \<Rightarrow> goerr option act" where
  "cycleBluetooth e sp serial trailer mayReboot = do {
     start0 \<leftarrow> now e;
     err0 \<leftarrow> ResetBluetooth e serial;
     again \<leftarrow> (if err0 \<noteq> None \<and> \<not> skippable err0 \<and> mayReboot
        then unwedge e sp serial ''bluetooth'' trailer else returnM False);
     (start, err) \<leftarrow> (if again then do {
          s \<leftarrow> now e;
          er \<leftarrow> ResetBluetooth e serial;
          returnM (s, er) }
        else returnM (start0, err0));
     (if err = None then do {
        ts \<leftarrow> now e;
        t \<leftarrow> now e;
        recordLog sp (noteEntry (UnixMilli ts) serial (''sair: Bluetooth cycled off and on (''
          @ DurationString (Round (t - start) (100 * millisecond)) @ '')'' @ trailer));
        returnM None }
      else if skippable err then returnM None
      else do {
        noteService e sp serial (''sair: Bluetooth reset failed: '' @ errText err @ trailer);
        returnM err }) }"

section \<open>Play Store updates\<close>

definition setUpdates :: "env \<Rightarrow> scoped_port \<Rightarrow> bytes \<Rightarrow> bool \<Rightarrow> unit act" where
  "setUpdates e sp serial hold = do {
     err \<leftarrow> HoldUpdates e serial hold;
     (if skippable err then returnM ()
      else if err = None \<and> hold then
        noteService e sp serial ''sair: Play Store disabled for the lease (auto-updates resume on release)''
      else if err = None then returnM ()
      else if hold then
        noteService e sp serial (''sair: Play Store not disabled, an auto-update can stop the app mid-job: '' @ errText err)
      else noteService e sp serial (''sair: Play Store not re-enabled: '' @ errText err)) }"

section \<open>Resetting a phone\<close>

definition heldByAnyPort :: "world \<Rightarrow> bytes \<Rightarrow> bool" where
  "heldByAnyPort w serial \<longleftrightarrow> list_ex (\<lambda>(_, sp). serial \<in> set (sp_serials sp)) (w_scoped w)"

text \<open>The reboot of a phone that has been up too long: whether it rebooted, and whether that failed.\<close>

definition rebootStale :: "env \<Rightarrow> scoped_port \<Rightarrow> bytes \<Rightarrow> (bool \<times> bool) act" where
  "rebootStale e sp serial = do {
     start \<leftarrow> now e;
     (rebooted, uptime, err) \<leftarrow> RebootIfStale e serial;
     (if err = None \<and> rebooted then do {
        noteService e sp serial (''sair: rebooted after release (uptime '' @ DurationString (Round uptime minute) @ '')'');
        waitForSource e serial;
        t \<leftarrow> now e;
        Event e ((portEvent KReboot serial (sp_lockID sp) ''ok'' (''uptime '' @ DurationString (Round uptime minute)))
          \<lparr>be_durationMs := Milliseconds (t - start)\<rparr>);
        returnM (True, False) }
      else if err = None \<or> skippable err then returnM (rebooted, False)
      else do {
        Event e (portEvent KReboot serial (sp_lockID sp) ''failed'' (errText err));
        returnM (rebooted, True) }) }"

definition wifiResetFailed :: "goerr option \<Rightarrow> bool" where
  "wifiResetFailed err \<longleftrightarrow> err \<noteq> None \<and> \<not> wifiUnmanaged err \<and> statusCode err \<noteq> NotFound"

text \<open>The Wi-Fi reset, once more after a reboot of a wedged radio: whether it rebooted, and the error.\<close>

definition wifiReset :: "env \<Rightarrow> scoped_port \<Rightarrow> bytes \<Rightarrow> (bool \<times> goerr option) act" where
  "wifiReset e sp serial = do {
     err0 \<leftarrow> wifiDevice e (sp_lockID sp) serial WifiRESET [];
     again \<leftarrow> (if wifiResetFailed err0 then unwedge e sp serial ''wifi'' [] else returnM False);
     (if again then do {
        err \<leftarrow> wifiDevice e (sp_lockID sp) serial WifiRESET [];
        returnM (True, err) }
      else returnM (False, err0)) }"

text \<open>What \<open>resetDevice\<close> does once it has found that the phone is nobody else's.\<close>

definition resetBody :: "env \<Rightarrow> scoped_port \<Rightarrow> bytes \<Rightarrow> bytes list option \<Rightarrow> unit act" where
  "resetBody e sp serial since = do {
     failed1 \<leftarrow> cleanDevice e sp serial [] since;
     (rebooted1, failed2) \<leftarrow> rebootStale e sp serial;
     (rebooted2, err) \<leftarrow> wifiReset e sp serial;
     fresh \<leftarrow> (if rebooted1 \<or> rebooted2 then returnM True
        else do { bt \<leftarrow> cycleBluetooth e sp serial [] True; returnM (bt = None) });
     whenM fresh (modify (\<lambda>w. w\<lparr>w_btFresh := insert serial (w_btFresh w)\<rparr>));
     woke \<leftarrow> wakeDevice e (sp_lockID sp) serial;
     setUpdates e sp serial False;
     whenM (err = None) (do { _ \<leftarrow> wifiDevice e (sp_lockID sp) serial WifiON []; returnM () });
     whenM (failed1 \<or> failed2 \<or> wifiResetFailed err \<or> \<not> fresh \<or> wakeFailed woke)
       (logExcerpt e sp [serial]) }"

definition resetDevice :: "env \<Rightarrow> scoped_port \<Rightarrow> bytes \<Rightarrow> unit act" where
  "resetDevice e sp serial = do {
     rec \<leftarrow> takeRelayRecord serial (sp_lockID sp);
     (if sp_relayed sp \<and> rec = None then returnM ()
      else do {
        since \<leftarrow> (if sp_relayed sp then settledSnapshot (the rec) else returnM None);
        w \<leftarrow> getM;
        (if heldByAnyPort w serial then returnM () else resetBody e sp serial since) }) }"

definition resetDevices :: "env \<Rightarrow> scoped_port \<Rightarrow> unit act" where
  "resetDevices e sp = foreach (sp_serials sp) (\<lambda>serial.
     if serial \<in> fst ` set (sp_remote sp) then returnM () else resetDevice e sp serial)"

section \<open>What the steps preserve\<close>

text \<open>The requests some invariants are about: package resets, wakes and Wi-Fi changes.\<close>

fun special :: "dev_request \<Rightarrow> bool" where
  "special (ResetPackagesRequest _) = True"
| "special WakeRequest = True"
| "special (SetWifiRequest _ _) = True"
| "special _ = False"

context world_invariant begin

text \<open>Every other request to the phone is allowed.\<close>

definition phone_allowed :: "bytes \<Rightarrow> bool" where
  "phone_allowed serial \<longleftrightarrow> (\<forall>addr req. \<not> special req \<longrightarrow> allowed (DevCall addr serial req))"

lemma phone_allowedD: "phone_allowed serial \<Longrightarrow> \<not> special req \<Longrightarrow> allowed (DevCall addr serial req)"
  by (simp add: phone_allowed_def)

lemma keeps_recordLog [keeps]: "keeps inv (recordLog sp entry)"
  unfolding recordLog_def by (intro keeps_modify inv_record)

lemma keeps_noteService [keeps]: "keeps inv (noteService e sp serial service)"
  unfolding noteService_def by (intro keeps)

lemma keeps_excerpt [keeps]: "keeps inv (excerpt e sp t who lines)"
  unfolding excerpt_def by (intro keeps)

lemma keeps_logExcerpt: "(\<And>s. s \<in> set serials \<Longrightarrow> phone_allowed s) \<Longrightarrow> keeps inv (logExcerpt e sp serials)"
  unfolding logExcerpt_def by (intro keeps keeps_RecentDeviceSourceLog) (auto intro: phone_allowedD)

lemma keeps_wakeDevice:
  "(\<And>addr. allowed (DevCall addr serial WakeRequest)) \<Longrightarrow> keeps inv (wakeDevice e lockID serial)"
  unfolding wakeDevice_def by (intro keeps keeps_Wake)

lemma keeps_wifiDevice:
  "(\<And>addr. allowed (DevCall addr serial (SetWifiRequest st band))) \<Longrightarrow> keeps inv (wifiDevice e lockID serial st band)"
  unfolding wifiDevice_def by (intro keeps keeps_SetWifi)

lemma keeps_waitLoop [keeps]: "keeps inv (waitLoop e serial deadline n)"
  by (induction n) (auto intro!: keeps)

lemma keeps_waitForSource [keeps]: "keeps inv (waitForSource e serial)"
  unfolding waitForSource_def by (intro keeps)

lemma keeps_cleanPackages:
  "(\<And>addr. allowed (DevCall addr serial (ResetPackagesRequest since))) \<Longrightarrow>
    keeps inv (cleanPackages e sp serial trailer since)"
  unfolding cleanPackages_def by (intro keeps keeps_ResetPackages)

lemma keeps_cleanUiAutomation: "phone_allowed serial \<Longrightarrow> keeps inv (cleanUiAutomation e sp serial trailer)"
  unfolding cleanUiAutomation_def by (intro keeps keeps_ClearUiAutomation) (auto intro: phone_allowedD)

lemma keeps_cleanDevice:
  assumes "phone_allowed serial"
    and "\<And>addr. \<not> (sp_relayed sp \<and> since = None) \<Longrightarrow> allowed (DevCall addr serial (ResetPackagesRequest since))"
  shows "keeps inv (cleanDevice e sp serial trailer since)"
  unfolding cleanDevice_def
  by (intro keeps keeps_RemoveReverseForwards keeps_cleanPackages keeps_cleanUiAutomation assms)
    (auto intro: phone_allowedD [OF assms(1)])

lemma keeps_unwedge: "phone_allowed serial \<Longrightarrow> keeps inv (unwedge e sp serial radio trailer)"
  unfolding unwedge_def by (intro keeps keeps_RebootIfWedged) (auto intro: phone_allowedD)

lemma keeps_cycleBluetooth: "phone_allowed serial \<Longrightarrow> keeps inv (cycleBluetooth e sp serial trailer mayReboot)"
  unfolding cycleBluetooth_def by (intro keeps keeps_ResetBluetooth keeps_unwedge) (auto intro: phone_allowedD)

lemma keeps_setUpdates: "phone_allowed serial \<Longrightarrow> keeps inv (setUpdates e sp serial hold)"
  unfolding setUpdates_def by (intro keeps keeps_HoldUpdates) (auto intro: phone_allowedD)

lemma keeps_rebootStale: "phone_allowed serial \<Longrightarrow> keeps inv (rebootStale e sp serial)"
  unfolding rebootStale_def by (intro keeps keeps_RebootIfStale) (auto intro: phone_allowedD)

lemma keeps_wifiReset:
  assumes "phone_allowed serial" and "\<And>addr. allowed (DevCall addr serial (SetWifiRequest WifiRESET []))"
  shows "keeps inv (wifiReset e sp serial)"
  unfolding wifiReset_def by (intro keeps keeps_wifiDevice keeps_unwedge assms)

lemma keeps_resetBody:
  assumes "phone_allowed serial"
    and "\<And>addr. \<not> (sp_relayed sp \<and> since = None) \<Longrightarrow> allowed (DevCall addr serial (ResetPackagesRequest since))"
    and "\<And>addr. allowed (DevCall addr serial WakeRequest)"
    and "\<And>addr st. allowed (DevCall addr serial (SetWifiRequest st []))"
  shows "keeps inv (resetBody e sp serial since)"
  unfolding resetBody_def
  by (intro keeps keeps_cleanDevice keeps_rebootStale keeps_wifiReset keeps_cycleBluetooth keeps_wakeDevice
      keeps_setUpdates keeps_wifiDevice keeps_logExcerpt keeps_modify inv_btFresh assms) (use assms(1) in auto)

end

text \<open>
  An invariant that does not look at the relay records survives a whole reset if the requests of its
  steps are allowed; whether there is a snapshot to go back to is then not known.
\<close>

context relay_invariant begin

lemma keeps_takeRelayRecord [keeps]: "keeps inv (takeRelayRecord serial lockID)"
  unfolding takeRelayRecord_def by (intro keeps keeps_modify inv_relayLocks)

lemma keeps_settledSnapshot [keeps]: "keeps inv (settledSnapshot r)"
  unfolding settledSnapshot_def setRec_def by (intro keeps keeps_modify inv_recs)

lemma keeps_resetDevice:
  assumes "phone_allowed serial"
    and "\<And>addr since. allowed (DevCall addr serial (ResetPackagesRequest since))"
    and "\<And>addr. allowed (DevCall addr serial WakeRequest)"
    and "\<And>addr st. allowed (DevCall addr serial (SetWifiRequest st []))"
  shows "keeps inv (resetDevice e sp serial)"
  unfolding resetDevice_def by (intro keeps keeps_resetBody assms)

lemma keeps_resetDevices:
  assumes "\<And>addr serial req. serial \<in> set (sp_serials sp) \<Longrightarrow> serial \<notin> fst ` set (sp_remote sp) \<Longrightarrow>
    allowed (DevCall addr serial req)"
  shows "keeps inv (resetDevices e sp)"
  unfolding resetDevices_def
  by (intro keeps keeps_resetDevice) (auto simp: phone_allowed_def assms)

end

text \<open>The calls made so far are some given ones and then allowed ones.\<close>

definition only_calls :: "dev_call list \<Rightarrow> (dev_call \<Rightarrow> bool) \<Rightarrow> world \<Rightarrow> bool" where
  "only_calls calls0 P w \<longleftrightarrow> (\<exists>calls. w_devCalls w = calls0 @ calls \<and> list_all P calls)"

lemma only_calls_same: "w_devCalls w' = w_devCalls w \<Longrightarrow> only_calls calls0 P w' = only_calls calls0 P w"
  by (simp add: only_calls_def)

interpretation device_calls: table_invariant "only_calls calls0 P" P for calls0 P
  by unfold_locales (auto simp: only_calls_def)

text \<open>Every port's log stays in its bounds.\<close>

definition logs_ok :: "world \<Rightarrow> bool" where
  "logs_ok w \<longleftrightarrow> (\<forall>p. case ps_log (w_ports w p) of None \<Rightarrow> True | Some l \<Rightarrow> log_ok l)"

lemma log_ok_Record: "case l of None \<Rightarrow> True | Some l \<Rightarrow> log_ok l \<Longrightarrow>
    case Record l (Some entry) of None \<Rightarrow> True | Some l \<Rightarrow> log_ok l"
  by (auto simp: Record_def recordEntry_ok split: option.splits)

interpretation port_logs: orch_invariant logs_ok "\<lambda>_. True"
  by unfold_locales (auto simp: logs_ok_def log_ok_Record)

section \<open>Whose phone it is\<close>

text \<open>
  What a reset under \<open>sp\<close> may ask of phone \<open>serial\<close>: anything but a package reset, and one with
  the baseline for a lock of this proxy, with the snapshot of the lock's relay record for a relayed one.
\<close>

definition relaySnapshot :: "world \<Rightarrow> bytes \<Rightarrow> bytes list option" where
  "relaySnapshot w serial = (case map_of (w_relayLocks w) serial of
     None \<Rightarrow> None | Some r \<Rightarrow> rr_snapshot (w_recs w r))"

definition resetAllowed :: "world \<Rightarrow> scoped_port \<Rightarrow> bytes \<Rightarrow> dev_call \<Rightarrow> bool" where
  "resetAllowed w sp serial c \<longleftrightarrow> dc_serial c = serial \<and> (case dc_request c of
       ResetPackagesRequest since \<Rightarrow>
         if sp_relayed sp then since \<noteq> None \<and> since = relaySnapshot w serial else since = None
     | _ \<Rightarrow> True)"

definition resetSkipped :: "world \<Rightarrow> scoped_port \<Rightarrow> bytes \<Rightarrow> bool" where
  "resetSkipped w sp serial \<longleftrightarrow> heldByAnyPort w serial \<or> sp_relayed sp \<and>
     (case map_of (w_relayLocks w) serial of
        None \<Rightarrow> True | Some r \<Rightarrow> rr_lockID (w_recs w r) \<noteq> sp_lockID sp)"

lemma resetBody_calls:
  assumes "since = (if sp_relayed sp then relaySnapshot w serial else None)" and "w_devCalls w1 = w_devCalls w"
  shows "wp (resetBody e sp serial since) (\<lambda>_. only_calls (w_devCalls w) (resetAllowed w sp serial)) w1"
proof (rule keeps_wp)
  show "keeps (only_calls (w_devCalls w) (resetAllowed w sp serial)) (resetBody e sp serial since)"
  proof (rule device_calls.keeps_resetBody)
    show "device_calls.phone_allowed (resetAllowed w sp serial) serial"
      unfolding device_calls.phone_allowed_def
    proof (intro allI impI)
      fix addr req
      assume "\<not> special req"
      then show "resetAllowed w sp serial (DevCall addr serial req)"
        by (cases req) (simp_all add: resetAllowed_def)
    qed
    show "resetAllowed w sp serial (DevCall addr serial (ResetPackagesRequest since))"
      if "\<not> (sp_relayed sp \<and> since = None)" for addr
      using that assms(1) by (auto simp: resetAllowed_def)
    show "resetAllowed w sp serial (DevCall addr serial WakeRequest)"
      "resetAllowed w sp serial (DevCall addr serial (SetWifiRequest st []))" for addr st
      by (simp_all add: resetAllowed_def)
  qed
qed (use assms(2) in \<open>simp add: only_calls_def\<close>)

lemma wp_takeRelayRecord:
  "wp (takeRelayRecord serial lockID) Q w = (case map_of (w_relayLocks w) serial of
     None \<Rightarrow> Q None w
   | Some r \<Rightarrow> if rr_lockID (w_recs w r) \<noteq> lockID then Q None w
       else Q (Some r) (w\<lparr>w_relayLocks := del serial (w_relayLocks w)\<rparr>))"
  by (simp add: takeRelayRecord_def split: option.split)

lemma wp_settledSnapshot:
  "wp (settledSnapshot r) Q w = Q (rr_snapshot (w_recs w r))
     (w\<lparr>w_recs := (w_recs w)(r := (w_recs w r)\<lparr>rr_settled := True\<rparr>)\<rparr>)"
  by (simp add: settledSnapshot_def setRec_def)

text \<open>
  A reset belongs to one phone and one lock. Resetting phone \<open>serial\<close> after lock \<open>sp\<close> asks
  nothing of any other phone; nothing at all when a port holds the phone, and for a relayed lock nothing
  when the phone was since relayed under another one. A lock of this proxy puts the packages back to the
  baseline; a relayed one only ever back to its own snapshot, and without a snapshot leaves them alone.
\<close>

theorem reset_isolated:
  "wp (resetDevice e sp serial) (\<lambda>_ w'. if resetSkipped w sp serial then w_devCalls w' = w_devCalls w
     else only_calls (w_devCalls w) (resetAllowed w sp serial) w') w"
proof -
  let ?Q = "\<lambda>_ w'. if resetSkipped w sp serial then w_devCalls w' = w_devCalls w
     else only_calls (w_devCalls w) (resetAllowed w sp serial) w'"
  have same: "heldByAnyPort (w\<lparr>w_relayLocks := x, w_recs := y\<rparr>) serial = heldByAnyPort w serial"
    "heldByAnyPort (w\<lparr>w_relayLocks := x\<rparr>) serial = heldByAnyPort w serial" for x y
    by (simp_all add: heldByAnyPort_def)
  have body: "wp (resetBody e sp serial since) ?Q w1"
    if "since = (if sp_relayed sp then relaySnapshot w serial else None)" "w_devCalls w1 = w_devCalls w"
      "\<not> resetSkipped w sp serial" for since w1
    using resetBody_calls [OF that(1,2)] that(3) by simp
  show ?thesis
  proof (cases "map_of (w_relayLocks w) serial")
    case None
    then show ?thesis
      using body [of None w]
      by (auto simp: resetDevice_def wp_takeRelayRecord resetSkipped_def)
  next
    case (Some r)
    then show ?thesis
      using body by (auto simp: resetDevice_def wp_takeRelayRecord wp_settledSnapshot resetSkipped_def same relaySnapshot_def)
  qed
qed

section \<open>Waiting ends\<close>

text \<open>Sleeping a second takes at least a second: so between two readings of the clock in the loop.\<close>

definition sleeps :: "env \<Rightarrow> nat \<Rightarrow> bool" where
  "sleeps e n \<longleftrightarrow> en_clock e n \<le> en_clock e (n + 1) \<and>
     (\<forall>i < waitTurns. en_clock e (n + 1 + 2 * i) + secondT \<le> en_clock e (n + 1 + 2 * Suc i))"

lemma waitLoop_ends:
  assumes "\<forall>i < n. en_clock e (k + 2 * i) + secondT \<le> en_clock e (k + 2 * Suc i)"
    and "deadline \<le> en_clock e k + int n * secondT"
  shows "wp (waitLoop e serial deadline (Suc n)) (\<lambda>r w'. r \<noteq> None) (w\<lparr>w_step := k\<rparr>)"
  using assms
proof (induction n arbitrary: k)
  case (Suc n)
  have "\<forall>i < n. en_clock e (k + 2 + 2 * i) + secondT \<le> en_clock e (k + 2 + 2 * Suc i)"
  proof (intro allI impI)
    fix i
    assume "i < n"
    then show "en_clock e (k + 2 + 2 * i) + secondT \<le> en_clock e (k + 2 + 2 * Suc i)"
      using Suc.prems(1) [THEN spec, of "Suc i"] by (simp add: algebra_simps)
  qed
  moreover have "deadline \<le> en_clock e (k + 2) + int n * secondT"
    using Suc.prems(1) [THEN spec, of 0] Suc.prems(2) by (simp add: algebra_simps)
  ultimately have "wp (waitLoop e serial deadline (Suc n)) (\<lambda>r w'. r \<noteq> None) (w\<lparr>w_step := k + 2\<rparr>)"
    by (rule Suc.IH)
  then show ?case by (subst waitLoop.simps) (auto simp: numeral_2_eq_2 simp del: waitLoop.simps)
qed auto

text \<open>
  Waiting for a rebooted phone ends: with a clock that a second's sleep moves by at least a second,
  the loop leaves by finding the phone or by its deadline within 31 turns, however the list of attached
  phones behaves.
\<close>

theorem waitForSource_ends:
  assumes "sleeps e (w_step w)"
  shows "wp (do { t \<leftarrow> now e; waitLoop e serial (t + 30 * secondT) waitTurns }) (\<lambda>r _. r \<noteq> None) w"
proof -
  have "wp (waitLoop e serial (en_clock e (w_step w) + 30 * secondT) (Suc 30)) (\<lambda>r w'. r \<noteq> None)
      (w\<lparr>w_step := w_step w + 1\<rparr>)"
  proof (rule waitLoop_ends)
    show "\<forall>i < 30. en_clock e (w_step w + 1 + 2 * i) + secondT \<le> en_clock e (w_step w + 1 + 2 * Suc i)"
      using assms by (simp add: sleeps_def waitTurns_def)
    show "en_clock e (w_step w) + 30 * secondT \<le> en_clock e (w_step w + 1) + int 30 * secondT"
      using assms by (simp add: sleeps_def)
  qed
  then show ?thesis by (simp add: waitTurns_def numeral_eq_Suc del: waitLoop.simps)
qed

text \<open>An outside to run the model against: the clock advances a second per question, all answers are fine.\<close>

definition reply0 :: dev_reply where
  "reply0 = \<lparr>rp_err = None, rp_text = [], rp_list = [], rp_list2 = [], rp_flag = False, rp_uptimeS = 0\<rparr>"

definition orch0 :: orch_reply where
  "orch0 = \<lparr>or_err = None, or_lockID = ''L1'', or_serials = [''P1''], or_remote = [], or_flag = True\<rparr>"

definition env0 :: env where
  "env0 = \<lparr>en_apiKey = ''key'', en_proxyID = ''bench'', en_clock = (\<lambda>n. int n * secondT), en_hasResolve = True,
     en_resolve = (\<lambda>_ _. ''src:1''), en_dial = (\<lambda>_. None), en_device = (\<lambda>_ _. reply0), en_orch = (\<lambda>_ _. orch0),
     en_session = (\<lambda>_. None), en_send = (\<lambda>_ _. None), en_cancelled = (\<lambda>_. False), en_listen = (\<lambda>_. Inr 40001),
     en_random = (\<lambda>_. Inr ''0123456789abcdef''), en_recent = (\<lambda>_ _. []), en_tunnels = (\<lambda>_. []),
     en_isPrint = (\<lambda>_. True), en_apiPort = 0, en_idleTimeout = 1200 * secondT\<rparr>"

definition port_state0 :: port_state where
  "port_state0 = \<lparr>ps_log = Some lock_log0, ps_deviceAPIPort = 0, ps_openConns = 0, ps_lastClient = 0, ps_conns = [],
     ps_connsClosed = False, ps_stopped = False\<rparr>"

definition world0 :: world where
  "world0 = \<lparr>w_step = 0, w_devCalls = [], w_answers = [], w_orchCalls = [], w_events = Some [], w_clients = [],
     w_recs = (\<lambda>_. \<lparr>rr_lockID = [], rr_settled = False, rr_snapshot = None, rr_prev = None\<rparr>), w_nextRec = 0,
     w_relayLocks = [], w_ports = (\<lambda>_. port_state0), w_nextPort = 1, w_scoped = [], w_btFresh = {}\<rparr>"

definition port0 :: scoped_port where
  "port0 = \<lparr>sp_ref = 0, sp_lockID = ''L0'', sp_serials = [''P1''], sp_remote = [], sp_port = 40000, sp_createdAt = 0,
     sp_token = ''t'', sp_relayed = False\<rparr>"

theorem waitForSource_ends_witness:
  "wp (do { t \<leftarrow> now (env0\<lparr>en_resolve := \<lambda>_ _. []\<rparr>);
        waitLoop (env0\<lparr>en_resolve := \<lambda>_ _. []\<rparr>) ''P1'' (t + 30 * secondT) waitTurns }) (\<lambda>r _. r \<noteq> None) world0"
  using waitForSource_ends [of "env0\<lparr>en_resolve := \<lambda>_ _. []\<rparr>" world0 "''P1''"]
  by (simp add: sleeps_def env0_def world0_def secondT_def)

section \<open>A phone that is gone at its reset\<close>

lemma deviceClient_gone:
  assumes "en_hasResolve e" and "\<forall>n. en_resolve e n serial = []"
  shows "wp (deviceClient e serial) Q = (\<lambda>w. Q (Inl (notAttached serial)) (w\<lparr>w_step := Suc (w_step w)\<rparr>))"
  using assms by (simp add: deviceClient_def resolveSource_def)

lemma not_attached_simps [simp]:
  "statusCode (Some (notAttached serial)) = NotFound" "skippable (Some (notAttached serial))"
  "\<not> wifiUnmanaged (Some (notAttached serial))" "\<not> wakeFailed (Some (notAttached serial))"
  "\<not> wifiResetFailed (Some (notAttached serial))"
  by (simp_all add: notAttached_def skippable_def wifiUnmanaged_def wakeFailed_def wifiResetFailed_def)

text \<open>
  A phone that is unplugged when its lock ends is marked as having fresh Bluetooth: the reset cannot
  ask it anything, the skipped Bluetooth cycle counts as done, and when the phone is back the next
  acquire will not cycle it, so the next job gets the last one's Bluetooth state.
\<close>

theorem gone_phone_marked_fresh:
  assumes "en_hasResolve e" and "\<forall>n. en_resolve e n serial = []"
    and "\<not> sp_relayed sp" and "\<not> heldByAnyPort w serial"
  shows "wp (resetDevice e sp serial) (\<lambda>_ w'. serial \<in> w_btFresh w' \<and> w_devCalls w' = w_devCalls w) w"
proof -
  note gone = deviceClient_gone [OF assms(1,2)]
  have reverse: "wp (RemoveReverseForwards e serial) Q = (\<lambda>w. Q (Some (notAttached serial)) (w\<lparr>w_step := Suc (w_step w)\<rparr>))" for Q
    using assms(1,2) by (simp add: RemoveReverseForwards_def resolveSource_def)
  have held: "heldByAnyPort (w\<lparr>w_relayLocks := x\<rparr>) serial = heldByAnyPort w serial" for x
    by (simp add: heldByAnyPort_def)
  have body: "wp (resetBody e sp serial None) (\<lambda>_ w'. serial \<in> w_btFresh w' \<and> w_devCalls w' = w_devCalls w1) w1" for w1
    using assms(3)
    by (simp add: resetBody_def cleanDevice_def reverse cleanPackages_def ResetPackages_def gone
        cleanUiAutomation_def ClearUiAutomation_def rebootStale_def RebootIfStale_def wifiReset_def wifiDevice_def
        SetWifi_def Event_def cycleBluetooth_def ResetBluetooth_def wakeDevice_def Wake_def setUpdates_def HoldUpdates_def
        portEvent_def BenchEvent_def)
  have rl: "wp (resetBody e sp serial None) (\<lambda>_ w'. serial \<in> w_btFresh w' \<and> w_devCalls w' = w_devCalls w)
      (w\<lparr>w_relayLocks := x\<rparr>)" for x
    using body [of "w\<lparr>w_relayLocks := x\<rparr>"] by simp
  show ?thesis
    using assms(3,4) body [of w] rl by (simp add: resetDevice_def wp_takeRelayRecord held split: option.split)
qed

theorem gone_phone_marked_fresh_witness:
  "wp (resetDevice (env0\<lparr>en_resolve := \<lambda>_ _. []\<rparr>) port0 ''P1'') (\<lambda>_ w'. ''P1'' \<in> w_btFresh w' \<and> w_devCalls w' = []) world0"
  using gone_phone_marked_fresh [of "env0\<lparr>en_resolve := \<lambda>_ _. []\<rparr>" "''P1''" port0 world0]
  by (simp add: env0_def port0_def world0_def heldByAnyPort_def)

end
