(* ===== verification/ScopedPort.thy ===== *)
theory ScopedPort
  imports PortReset
begin

text \<open>
  \<open>internal/proxy/scoped_port.go\<close>, the life of a scoped port: acquire, the requests of a running
  job, the keepalive, and every way a lock ends. Each operation is one step of the proxy; where the
  code fans out over phones, the phones take their turns in order, which is one of its schedules (each
  phone's turn is under that phone's lock).
\<close>

section \<open>Connections of a port\<close>

definition trackConn :: "port_state \<Rightarrow> nat \<Rightarrow> port_state \<times> bool" where
  "trackConn ps conn = (if ps_connsClosed ps then (ps, False)
     else (ps\<lparr>ps_conns := conn # filter (\<lambda>c. c \<noteq> conn) (ps_conns ps)\<rparr>, True))"

definition untrackConn :: "port_state \<Rightarrow> nat \<Rightarrow> port_state" where
  "untrackConn ps conn = ps\<lparr>ps_conns := filter (\<lambda>c. c \<noteq> conn) (ps_conns ps)\<rparr>"

text \<open>The connections it closes; they leave the table when their handlers return.\<close>

definition closeConns :: "port_state \<Rightarrow> port_state \<times> nat list" where
  "closeConns ps = (ps\<lparr>ps_connsClosed := True\<rparr>, ps_conns ps)"

text \<open>One turn of \<open>runAcceptLoop\<close> with a connection, and the end of that connection's handler.\<close>

definition acceptConn :: "port_state \<Rightarrow> nat \<Rightarrow> int \<Rightarrow> port_state \<times> bool" where
  "acceptConn ps conn t = (case trackConn ps conn of (ps1, ok) \<Rightarrow>
     if ok then (ps1\<lparr>ps_openConns := ps_openConns ps1 + 1, ps_lastClient := t\<rparr>, True) else (ps1, False))"

definition connDone :: "port_state \<Rightarrow> nat \<Rightarrow> int \<Rightarrow> port_state" where
  "connDone ps conn t = untrackConn (ps\<lparr>ps_lastClient := t, ps_openConns := ps_openConns ps - 1\<rparr>) conn"

definition idleFor :: "port_state \<Rightarrow> int \<Rightarrow> int" where
  "idleFor ps t = (if ps_openConns ps > 0 then 0 else t - ps_lastClient ps)"

section \<open>Ports\<close>

definition heartbeatIntervalSecs :: "int \<Rightarrow> int" where
  "heartbeatIntervalSecs h = (if h \<le> 0 then 60 else h)"

definition hexEncode :: "bytes \<Rightarrow> bytes" where
  "hexEncode s = concat (map (\<lambda>c. hexFixed 2 (byte c)) s)"

definition stateOf :: "world \<Rightarrow> scoped_port \<Rightarrow> port_state" where
  "stateOf w sp = w_ports w (sp_ref sp)"

definition setState :: "scoped_port \<Rightarrow> (port_state \<Rightarrow> port_state) \<Rightarrow> unit act" where
  "setState sp f = modify (\<lambda>w. w\<lparr>w_ports := (w_ports w)(sp_ref sp := f (w_ports w (sp_ref sp)))\<rparr>)"

definition CreateScopedPort :: "env \<Rightarrow> bytes \<Rightarrow> bytes list \<Rightarrow> (bytes \<times> device_info) list \<Rightarrow>
    (goerr + scoped_port) act" where
  "CreateScopedPort e lockID serials remote = do {
     w \<leftarrow> getM;
     (if map_of (w_scoped w) lockID \<noteq> None then
        returnM (Inl (Plain (''scoped port already exists for lock '' @ lockID)))
      else do {
        n \<leftarrow> tick;
        (case en_listen e n of
            Inl err \<Rightarrow> returnM (Inl err)
          | Inr port \<Rightarrow> do {
              k \<leftarrow> tick;
              (case en_random e k of
                  Inl err \<Rightarrow> returnM (Inl err)
                | Inr token \<Rightarrow> do {
                    t \<leftarrow> now e;
                    let sp = \<lparr>sp_ref = w_nextPort w, sp_lockID = lockID, sp_serials = serials, sp_remote = remote,
                      sp_port = port, sp_createdAt = t, sp_token = hexEncode token, sp_relayed = False\<rparr>;
                    setState sp (\<lambda>_. \<lparr>ps_log = Some lock_log0, ps_deviceAPIPort = 0, ps_openConns = 0,
                      ps_lastClient = t, ps_conns = [], ps_connsClosed = False, ps_stopped = False\<rparr>);
                    modify (\<lambda>w. w\<lparr>w_nextPort := Suc (w_nextPort w), w_scoped := put lockID sp (w_scoped w)\<rparr>);
                    returnM (Inr sp) }) }) }) }"

definition DeviceTokenValid :: "world \<Rightarrow> bytes \<Rightarrow> bytes \<Rightarrow> bool" where
  "DeviceTokenValid w lockID token = (case map_of (w_scoped w) lockID of
       None \<Rightarrow> False | Some sp \<Rightarrow> token \<noteq> [] \<and> sp_token sp = token)"

definition GetAllScopedPorts :: "world \<Rightarrow> scoped_port list" where
  "GetAllScopedPorts w = map snd (w_scoped w)"

section \<open>Ending a lock\<close>

text \<open>
  Closing waits for the keepalive goroutine and the connections are closed before it resets, so nothing
  else of this port runs during the reset.
\<close>

definition CloseScopedPort :: "env \<Rightarrow> bytes \<Rightarrow> bool act" where
  "CloseScopedPort e lockID = do {
     w \<leftarrow> getM;
     (case map_of (w_scoped w) lockID of
         None \<Rightarrow> returnM False
       | Some sp \<Rightarrow> do {
           modify (\<lambda>w. w\<lparr>w_scoped := del lockID (w_scoped w)\<rparr>);
           setState sp (\<lambda>ps. fst (closeConns (ps\<lparr>ps_stopped := True\<rparr>)));
           resetDevices e sp;
           returnM True }) }"

text \<open>\<open>sp.Log.DrainAll()\<close>, \<open>sp.Log.Drain()\<close> and \<open>sp.Log.Requeue()\<close>.\<close>

definition drainWith :: "(lock_log \<Rightarrow> nat list \<Rightarrow> lock_log \<times> lock_log_entry list) \<Rightarrow> env \<Rightarrow> scoped_port \<Rightarrow>
    lock_log_entry list act" where
  "drainWith f e sp = do {
     n \<leftarrow> tick;
     w \<leftarrow> getM;
     (case ps_log (stateOf w sp) of
         None \<Rightarrow> returnM []
       | Some l \<Rightarrow> do {
           setState sp (\<lambda>ps. ps\<lparr>ps_log := Some (fst (f l (en_tunnels e n)))\<rparr>);
           returnM (snd (f l (en_tunnels e n))) }) }"

definition requeue :: "scoped_port \<Rightarrow> lock_log_entry list \<Rightarrow> unit act" where
  "requeue sp entries =
     setState sp (\<lambda>ps. ps\<lparr>ps_log := map_option (\<lambda>l. Requeue l entries) (ps_log ps)\<rparr>)"

definition Release :: "env \<Rightarrow> bytes \<Rightarrow> bytes \<Rightarrow> bool act" where
  "Release e lockID status = do {
     w \<leftarrow> getM;
     closed \<leftarrow> CloseScopedPort e lockID;
     entries \<leftarrow> (case map_of (w_scoped w) lockID of
         None \<Rightarrow> returnM [] | Some sp \<Rightarrow> drainWith DrainAll e sp);
     (released, err) \<leftarrow> ReleaseLock e lockID status entries;
     returnM (if err \<noteq> None then closed else closed \<or> released) }"

text \<open>The stand-in port has no log.\<close>

definition standIn :: "nat \<Rightarrow> bytes \<Rightarrow> scoped_port" where
  "standIn ref lockID = \<lparr>sp_ref = ref, sp_lockID = lockID, sp_serials = [], sp_remote = [], sp_port = 0,
     sp_createdAt = 0, sp_token = [], sp_relayed = True\<rparr>"

definition resetRelayed :: "env \<Rightarrow> bytes \<Rightarrow> unit act" where
  "resetRelayed e lockID = do {
     w \<leftarrow> getM;
     let sp = standIn (w_nextPort w) lockID;
     modify (\<lambda>w. w\<lparr>w_nextPort := Suc (w_nextPort w)\<rparr>);
     setState sp (\<lambda>ps. ps\<lparr>ps_log := None\<rparr>);
     foreach (map fst (filter (\<lambda>(_, r). rr_lockID (w_recs w r) = lockID) (w_relayLocks w)))
       (\<lambda>serial. resetDevice e sp serial) }"

definition OnLockExpired :: "env \<Rightarrow> bytes \<Rightarrow> unit act" where
  "OnLockExpired e lockID = do {
     _ \<leftarrow> CloseScopedPort e lockID;
     resetRelayed e lockID }"

definition ShutdownAll :: "env \<Rightarrow> unit act" where
  "ShutdownAll e = do {
     w \<leftarrow> getM;
     foreach (map snd (w_scoped w)) (\<lambda>sp. do {
       _ \<leftarrow> CloseScopedPort e (sp_lockID sp);
       entries \<leftarrow> drainWith DrainAll e sp;
       _ \<leftarrow> ReleaseLock e (sp_lockID sp) ''proxy_restart'' entries;
       returnM () }) }"

section \<open>Requests of a running job\<close>

definition lockDevices :: "world \<Rightarrow> bytes \<Rightarrow> bytes list \<Rightarrow> goerr + scoped_port \<times> bytes list" where
  "lockDevices w lockID serials = (case map_of (w_scoped w) lockID of
       None \<Rightarrow> Inl UnknownLock
     | Some sp \<Rightarrow>
         let ss = (if serials = [] then filter (\<lambda>s. s \<notin> fst ` set (sp_remote sp)) (sp_serials sp) else serials)
         in (case find (\<lambda>s. s \<notin> set (sp_serials sp)) ss of
               Some s \<Rightarrow> Inl (NotInLock s)
             | None \<Rightarrow> Inr (sp, ss)))"

definition firstError :: "goerr option list \<Rightarrow> goerr option" where
  "firstError errs = (case filter (\<lambda>err. err \<noteq> None) errs of [] \<Rightarrow> None | err # _ \<Rightarrow> err)"

definition joinErrors :: "goerr option list \<Rightarrow> goerr option" where
  "joinErrors errs = (case filter (\<lambda>err. err \<noteq> None) errs of [] \<Rightarrow> None | es \<Rightarrow> Some (Joined (map the es)))"

definition SetLockWifi :: "env \<Rightarrow> bytes \<Rightarrow> bytes list \<Rightarrow> bool \<Rightarrow> bytes \<Rightarrow> goerr option act" where
  "SetLockWifi e lockID serials on band = do {
     w \<leftarrow> getM;
     (case lockDevices w lockID serials of
         Inl err \<Rightarrow> returnM (Some err)
       | Inr (sp, ss) \<Rightarrow> do {
           errs \<leftarrow> mapM ss (\<lambda>s. wifiDevice e lockID s (if on then WifiON else WifiOFF) band);
           returnM (firstError errs) }) }"

definition RestartBluetooth :: "env \<Rightarrow> bytes \<Rightarrow> bytes list \<Rightarrow> goerr option act" where
  "RestartBluetooth e lockID serials = do {
     w \<leftarrow> getM;
     (case lockDevices w lockID serials of
         Inl err \<Rightarrow> returnM (Some err)
       | Inr (sp, ss) \<Rightarrow> do {
           errs \<leftarrow> mapM ss (\<lambda>s. cycleBluetooth e sp s '' (requested by the job)'' False);
           returnM (joinErrors errs) }) }"

definition AddLabels :: "env \<Rightarrow> bytes \<Rightarrow> label list \<Rightarrow> goerr option act" where
  "AddLabels e lockID labels = do {
     w \<leftarrow> getM;
     (case map_of (w_scoped w) lockID of
         None \<Rightarrow> returnM (Some UnknownLock)
       | Some sp \<Rightarrow>
           (case find (\<lambda>l. lb_serial l \<noteq> [] \<and> lb_serial l \<notin> set (sp_serials sp)) labels of
               Some l \<Rightarrow> returnM (Some (NotInLock (lb_serial l)))
             | None \<Rightarrow> AddLockLabels e lockID labels)) }"

section \<open>Acquiring\<close>

definition acquireEvents :: "env \<Rightarrow> scoped_port \<Rightarrow> bytes \<Rightarrow> goerr option \<Rightarrow> int \<Rightarrow> int \<Rightarrow> unit act" where
  "acquireEvents e sp outcome err askedAt granted = foreach (localSerials sp) (\<lambda>serial. do {
     t \<leftarrow> now e;
     Event e ((portEvent KAcquire serial (sp_lockID sp) outcome (errText err))
       \<lparr>be_waitMs := Milliseconds (granted - askedAt), be_durationMs := Milliseconds (t - granted)\<rparr>) })"

definition acquireFailed :: "env \<Rightarrow> scoped_port \<Rightarrow> bytes \<Rightarrow> goerr option \<Rightarrow> int \<Rightarrow> int \<Rightarrow> unit act" where
  "acquireFailed e sp outcome err askedAt granted = do {
     acquireEvents e sp outcome err askedAt granted;
     logExcerpt e sp (localSerials sp);
     _ \<leftarrow> Release e (sp_lockID sp) ''error'';
     returnM () }"

text \<open>What a granted phone goes through before it is handed over; the error of its wake.\<close>

definition prepareDevice :: "env \<Rightarrow> scoped_port \<Rightarrow> bytes \<Rightarrow> goerr option act" where
  "prepareDevice e sp serial = do {
     _ \<leftarrow> cleanDevice e sp serial '' (left by an earlier job)'' None;
     w \<leftarrow> getM;
     modify (\<lambda>w. w\<lparr>w_btFresh := w_btFresh w - {serial}\<rparr>);
     whenM (serial \<notin> w_btFresh w) (do {
       _ \<leftarrow> cycleBluetooth e sp serial '' (no release reset since the last job)'' True;
       returnM () });
     setUpdates e sp serial True;
     wakeDevice e (sp_lockID sp) serial }"

definition setupDeviceAPI :: "env \<Rightarrow> scoped_port \<Rightarrow> unit act" where
  "setupDeviceAPI e sp = whenM (en_apiPort e > 0) (do {
     r \<leftarrow> firstM (filter (\<lambda>s. s \<notin> fst ` set (sp_remote sp)) (sp_serials sp)) (\<lambda>serial. do {
       err \<leftarrow> AddReverseForward e serial (en_apiPort e);
       returnM (if err \<noteq> None then Some () else None) });
     whenM (r = None) (setState sp (\<lambda>ps. ps\<lparr>ps_deviceAPIPort := en_apiPort e\<rparr>)) })"

text \<open>From the new port to the answer, and from the orchestrator's grant.\<close>

definition handOver :: "env \<Rightarrow> scoped_port \<Rightarrow> bool \<Rightarrow> bytes \<Rightarrow> int \<Rightarrow> int \<Rightarrow> (goerr + scoped_port) act" where
  "handOver e sp wifi wifiBand askedAt granted = do {
     bad \<leftarrow> firstM (filter (\<lambda>s. s \<notin> fst ` set (sp_remote sp)) (sp_serials sp)) (\<lambda>serial. do {
       err \<leftarrow> prepareDevice e sp serial;
       returnM (if wakeFailed err then err else None) });
     (case bad of
         Some err \<Rightarrow> do {
           acquireFailed e sp ''wake_failed'' (Some err) askedAt granted;
           returnM (Inl err) }
       | None \<Rightarrow> do {
           setupDeviceAPI e sp;
           err \<leftarrow> SetLockWifi e (sp_lockID sp) [] wifi wifiBand;
           (if err \<noteq> None \<and> \<not> wifiUnmanaged err then do {
              acquireFailed e sp ''wifi_failed'' err askedAt granted;
              returnM (Inl (the err)) }
            else do {
              acquireEvents e sp ''granted'' None askedAt granted;
              returnM (Inr sp) }) }) }"

definition takeGrant :: "env \<Rightarrow> lock_result \<Rightarrow> bool \<Rightarrow> bytes \<Rightarrow> int \<Rightarrow> (goerr + scoped_port) act" where
  "takeGrant e lock wifi wifiBand askedAt = do {
     granted \<leftarrow> now e;
     c \<leftarrow> CreateScopedPort e (lr_lockID lock) (lr_serials lock) (lr_remote lock);
     (case c of
         Inl err \<Rightarrow> do {
           _ \<leftarrow> ReleaseLock e (lr_lockID lock) ''error'' [];
           returnM (Inl err) }
       | Inr sp \<Rightarrow> handOver e sp wifi wifiBand askedAt granted) }"

definition Acquire :: "env \<Rightarrow> bytes list \<Rightarrow> int \<Rightarrow> acquire_req \<Rightarrow> int \<Rightarrow> bool \<Rightarrow> bytes \<Rightarrow> bool \<Rightarrow> bytes \<Rightarrow> bytes \<Rightarrow>
    (goerr + scoped_port) act" where
  "Acquire e requested cnt job priority wifi wifiBand sameProxy tenantKey clientIP = do {
     askedAt \<leftarrow> now e;
     r \<leftarrow> AcquireLock e requested cnt 30 job priority sameProxy tenantKey clientIP;
     (case r of
         Inl err \<Rightarrow> returnM (Inl err)
       | Inr lock \<Rightarrow> takeGrant e lock wifi wifiBand askedAt) }"

section \<open>Keeping a lock alive\<close>

text \<open>
  A turn of \<open>runKeepalive\<close> on either ticker; \<open>flushed\<close> is \<open>flushedSinceBeat\<close>. A beat can
  also end the goroutine, with a release or a close of the port to follow.
\<close>

definition flushTick :: "env \<Rightarrow> scoped_port \<Rightarrow> bool \<Rightarrow> bool act" where
  "flushTick e sp flushed = do {
     up \<leftarrow> sessionUp e;
     (if \<not> up then returnM flushed
      else do {
        entries \<leftarrow> drainWith Drain e sp;
        (if entries = [] then returnM flushed
         else do {
           err \<leftarrow> SendLockLog e (sp_lockID sp) entries;
           (if err \<noteq> None then do { requeue sp entries; returnM flushed }
            else returnM True) }) }) }"

datatype beat = Beating bool | Abandoned | Expired

definition beatTick :: "env \<Rightarrow> scoped_port \<Rightarrow> bool \<Rightarrow> beat act" where
  "beatTick e sp flushed = do {
     t \<leftarrow> now e;
     w \<leftarrow> getM;
     let idle = idleFor (stateOf w sp) t;
     (if en_idleTimeout e > 0 \<and> idle \<ge> en_idleTimeout e then do {
        noteService e sp [] (''sair: released, no adb client for '' @ DurationString (Round idle minute) @ '' (the job is gone)'');
        returnM Abandoned }
      else if flushed then returnM (Beating False)
      else do {
        up \<leftarrow> sessionUp e;
        entries \<leftarrow> (if \<not> up then drainWith Drain e sp else returnM []);
        (alive, unsent, err) \<leftarrow> LockHeartbeat e (sp_lockID sp) entries;
        whenM (unsent \<noteq> []) (requeue sp unsent);
        (if err \<noteq> None then returnM (Beating flushed)
         else if \<not> alive then returnM Expired
         else returnM (Beating flushed)) }) }"

section \<open>What the operations preserve\<close>

context world_invariant begin

lemma keeps_SetLockWifi:
  assumes "\<And>s addr st. allowed (DevCall addr s (SetWifiRequest st band))"
  shows "keeps inv (SetLockWifi e lockID serials on band)"
  unfolding SetLockWifi_def by (intro keeps keeps_wifiDevice assms)

lemma keeps_midJobCycle:
  "(\<And>addr. allowed (DevCall addr serial ResetBluetoothRequest)) \<Longrightarrow>
    keeps inv (cycleBluetooth e sp serial trailer False)"
  unfolding cycleBluetooth_def by (intro keeps keeps_ResetBluetooth) auto

lemma keeps_acquireEvents [keeps]: "keeps inv (acquireEvents e sp outcome err askedAt granted)"
  unfolding acquireEvents_def by (intro keeps)

lemma keeps_prepareDevice:
  assumes "phone_allowed serial" and "\<And>addr. allowed (DevCall addr serial WakeRequest)"
    and "\<And>addr. \<not> sp_relayed sp \<Longrightarrow> allowed (DevCall addr serial (ResetPackagesRequest None))"
  shows "keeps inv (prepareDevice e sp serial)"
  unfolding prepareDevice_def
  by (intro keeps keeps_cleanDevice keeps_cycleBluetooth keeps_setUpdates keeps_wakeDevice keeps_modify
      inv_btFresh assms) (use assms in auto)

end

context port_invariant begin

lemma keeps_setState [keeps]: "keeps inv (setState sp f)"
  unfolding setState_def by (intro keeps_modify inv_ports)

lemma keeps_drainWith [keeps]: "keeps inv (drainWith f e sp)"
  unfolding drainWith_def by (intro keeps)

lemma keeps_requeue [keeps]: "keeps inv (requeue sp entries)"
  unfolding requeue_def by (intro keeps)

lemma keeps_setupDeviceAPI:
  assumes "\<And>s addr. s \<in> set (sp_serials sp) \<Longrightarrow> s \<notin> fst ` set (sp_remote sp) \<Longrightarrow> phone_allowed s"
  shows "keeps inv (setupDeviceAPI e sp)"
  unfolding setupDeviceAPI_def
  by (intro keeps keeps_AddReverseForward) (auto intro: phone_allowedD assms)

lemma keeps_flushTick [keeps]: "keeps inv (flushTick e sp flushed)"
  unfolding flushTick_def by (intro keeps)

lemma keeps_beatTick [keeps]: "keeps inv (beatTick e sp flushed)"
  unfolding beatTick_def Let_def by (intro keeps)

end

context table_invariant begin

lemma keeps_CreateScopedPort [keeps]: "keeps inv (CreateScopedPort e lockID serials remote)"
  unfolding CreateScopedPort_def Let_def by (intro keeps keeps_modify inv_nextPort inv_scoped)

lemma keeps_CloseScopedPort:
  assumes "\<And>w sp addr serial req. inv w \<Longrightarrow> map_of (w_scoped w) lockID = Some sp \<Longrightarrow>
    serial \<in> set (sp_serials sp) \<Longrightarrow> serial \<notin> fst ` set (sp_remote sp) \<Longrightarrow> allowed (DevCall addr serial req)"
  shows "keeps inv (CloseScopedPort e lockID)"
  unfolding CloseScopedPort_def
proof (rule keeps_getI)
  fix w
  assume w: "inv w"
  show "keeps inv (case map_of (w_scoped w) lockID of
         None \<Rightarrow> returnM False
       | Some sp \<Rightarrow> do {
           modify (\<lambda>w. w\<lparr>w_scoped := del lockID (w_scoped w)\<rparr>);
           setState sp (\<lambda>ps. fst (closeConns (ps\<lparr>ps_stopped := True\<rparr>)));
           resetDevices e sp;
           returnM True })"
    by (intro keeps keeps_modify inv_scoped keeps_resetDevices) (auto intro: assms [OF w])
qed

lemma keeps_Release:
  assumes "\<And>w sp addr serial req. inv w \<Longrightarrow> map_of (w_scoped w) lockID = Some sp \<Longrightarrow>
    serial \<in> set (sp_serials sp) \<Longrightarrow> serial \<notin> fst ` set (sp_remote sp) \<Longrightarrow> allowed (DevCall addr serial req)"
  shows "keeps inv (Release e lockID status)"
  unfolding Release_def by (intro keeps keeps_CloseScopedPort assms)

end

section \<open>Requests of a job reach its own phones\<close>

lemma lockDevices_own:
  "lockDevices w lockID serials = Inr (sp, ss) \<Longrightarrow> map_of (w_scoped w) lockID = Some sp \<and> set ss \<subseteq> set (sp_serials sp)"
  by (auto simp: lockDevices_def Let_def find_None_iff split: option.splits)

lemma lockDevices_cases:
  "map_of (w_scoped w) lockID = None \<Longrightarrow> lockDevices w lockID serials = Inl UnknownLock"
  by (simp add: lockDevices_def)

lemma wp_mapM_calls:
  assumes "\<And>x. x \<in> set xs \<Longrightarrow> keeps (only_calls calls P) (f x)" and "w_devCalls w = calls"
  shows "wp (mapM xs f) (\<lambda>_. only_calls calls P) w"
  by (rule keeps_wp [OF keeps_mapM]) (use assms in \<open>auto simp: only_calls_def\<close>)

text \<open>
  What a running job may ask for reaches only phones of its own lock: a Wi-Fi change makes only that
  change, on serials of the lock; a Bluetooth restart only restarts Bluetooth there and never reboots a
  phone; naming a phone of another lock, or an unknown lock, reaches nothing.
\<close>

theorem job_requests_own_phones:
  "wp (SetLockWifi e lockID serials on band) (\<lambda>err w'. case lockDevices w lockID serials of
       Inl er \<Rightarrow> err = Some er \<and> w' = w
     | Inr (sp, ss) \<Rightarrow> map_of (w_scoped w) lockID = Some sp \<and> only_calls (w_devCalls w)
         (\<lambda>c. dc_serial c \<in> set (sp_serials sp) \<and>
            dc_request c = SetWifiRequest (if on then WifiON else WifiOFF) band) w') w \<and>
   wp (RestartBluetooth e lockID serials) (\<lambda>err w'. case lockDevices w lockID serials of
       Inl er \<Rightarrow> err = Some er \<and> w' = w
     | Inr (sp, ss) \<Rightarrow> map_of (w_scoped w) lockID = Some sp \<and> only_calls (w_devCalls w)
         (\<lambda>c. dc_serial c \<in> set (sp_serials sp) \<and> dc_request c = ResetBluetoothRequest) w') w"
proof (cases "lockDevices w lockID serials")
  case (Inr p)
  obtain sp ss where p: "lockDevices w lockID serials = Inr (sp, ss)" using Inr by (cases p) auto
  have own: "map_of (w_scoped w) lockID = Some sp" "\<And>s. s \<in> set ss \<Longrightarrow> s \<in> set (sp_serials sp)"
    using lockDevices_own [OF p] by auto
  have "wp (mapM ss (\<lambda>s. wifiDevice e lockID s (if on then WifiON else WifiOFF) band))
      (\<lambda>_. only_calls (w_devCalls w) (\<lambda>c. dc_serial c \<in> set (sp_serials sp) \<and>
         dc_request c = SetWifiRequest (if on then WifiON else WifiOFF) band)) w"
    by (intro wp_mapM_calls device_calls.keeps_wifiDevice) (use own in auto)
  moreover have "wp (mapM ss (\<lambda>s. cycleBluetooth e sp s '' (requested by the job)'' False))
      (\<lambda>_. only_calls (w_devCalls w) (\<lambda>c. dc_serial c \<in> set (sp_serials sp) \<and> dc_request c = ResetBluetoothRequest)) w"
    by (intro wp_mapM_calls device_calls.keeps_midJobCycle) (use own in auto)
  ultimately show ?thesis
    by (simp add: SetLockWifi_def RestartBluetooth_def p own)
qed (simp add: SetLockWifi_def RestartBluetooth_def)

section \<open>A phone that did not get online\<close>

text \<open>
  A Wi-Fi failure can hide behind another phone. \<open>SetWifi\<close> returns the error of the first phone
  that has one; when that phone's device source does not manage Wi-Fi, its error tells \<open>Acquire\<close> that
  the whole bench does not, and the lock is handed over although a phone on another source, which does
  manage Wi-Fi, has just failed to get online.
\<close>

theorem wifi_failure_masked:
  assumes "lockDevices w lockID [] = Inr (sp, [s1, s2])"
    and "\<forall>n s. en_resolve e n s \<noteq> []" and "en_hasResolve e" and "\<forall>addr. en_dial e addr = None"
    and "\<forall>n addr. rp_err (en_device e n (DevCall addr s1 (SetWifiRequest WifiON band))) = Some (Status FailedPrecondition m1)"
    and "\<forall>n addr. rp_err (en_device e n (DevCall addr s2 (SetWifiRequest WifiON band))) = Some (Status Internal m2)"
  shows "wp (SetLockWifi e lockID [] True band) (\<lambda>err w'. wifiUnmanaged err \<and>
     (case last (w_answers w') of (c, rep) \<Rightarrow> dc_serial c = s2 \<and> dc_request c = SetWifiRequest WifiON band \<and>
        \<not> wifiUnmanaged (rp_err rep) \<and> rp_err rep \<noteq> None)) w"
proof -
  have client: "wp (deviceClient e s) Q w0" if "\<And>addr w1. addr \<noteq> [] \<Longrightarrow> Q (Inr addr) w1" for s Q w0
    using assms(2-4) that by (simp add: deviceClient_def resolveSource_def getOrCreateDSClient_def)
  show ?thesis
    unfolding SetLockWifi_def
    by (simp add: assms(1) wifiDevice_def SetWifi_def, intro client)
      (use assms(5,6) in \<open>auto simp: Event_def wifiUnmanaged_def firstError_def intro!: client\<close>)
qed

definition mixed_bench :: env where
  "mixed_bench = env0\<lparr>en_device := \<lambda>_ c. reply0\<lparr>rp_err := Some (if dc_serial c = ''P1''
     then Status FailedPrecondition ''WIFI_SSID is not set'' else Status Internal ''radio is off'')\<rparr>\<rparr>"

definition two_phone_world :: world where
  "two_phone_world = world0\<lparr>w_scoped := [(''L0'', port0\<lparr>sp_serials := [''P1'', ''P2'']\<rparr>)]\<rparr>"

theorem wifi_failure_masked_witness:
  "wp (SetLockWifi mixed_bench ''L0'' [] True []) (\<lambda>err w'. wifiUnmanaged err \<and>
     (case last (w_answers w') of (c, rep) \<Rightarrow> dc_serial c = ''P2'' \<and> dc_request c = SetWifiRequest WifiON [] \<and>
        \<not> wifiUnmanaged (rp_err rep) \<and> rp_err rep \<noteq> None)) two_phone_world"
  by (rule wifi_failure_masked [of two_phone_world "''L0''" "port0\<lparr>sp_serials := [''P1'', ''P2'']\<rparr>"
        "''P1''" "''P2''" mixed_bench "[]" "''WIFI_SSID is not set''" "''radio is off''"])
    (simp_all add: two_phone_world_def mixed_bench_def env0_def port0_def reply0_def lockDevices_def Let_def)

text \<open>
  A Bluetooth restart that did not happen is reported as done: for a phone the proxy has no source
  for (relayed, or just unplugged) the request returns without an error and without a call to any phone.
\<close>

theorem restart_of_gone_phone_succeeds:
  assumes "map_of (w_scoped w) lockID = Some sp" and "serial \<in> set (sp_serials sp)"
    and "en_hasResolve e" and "\<forall>n. en_resolve e n serial = []"
  shows "wp (RestartBluetooth e lockID [serial]) (\<lambda>err w'. err = None \<and> w_devCalls w' = w_devCalls w) w"
  using assms
  by (simp add: RestartBluetooth_def lockDevices_def cycleBluetooth_def ResetBluetooth_def
      deviceClient_gone joinErrors_def)

theorem restart_of_gone_phone_succeeds_witness:
  "wp (RestartBluetooth (env0\<lparr>en_resolve := \<lambda>_ _. []\<rparr>) ''L0'' [''P2''])
     (\<lambda>err w'. err = None \<and> w_devCalls w' = []) two_phone_world"
  using restart_of_gone_phone_succeeds [of two_phone_world "''L0''" "port0\<lparr>sp_serials := [''P1'', ''P2'']\<rparr>" "''P2''"
      "env0\<lparr>en_resolve := \<lambda>_ _. []\<rparr>"]
  by (simp add: two_phone_world_def env0_def port0_def world0_def)

section \<open>Releasing\<close>

text \<open>What a reset leaves alone: the table of ports, the orchestrator, and what is pending in a log.\<close>

definition log_has :: "lock_log_entry list \<Rightarrow> nat \<Rightarrow> world \<Rightarrow> bool" where
  "log_has pend p w \<longleftrightarrow> (case ps_log (w_ports w p) of None \<Rightarrow> pend = [] | Some l \<Rightarrow> prefix pend (ll_pending l))"

definition lock_frame :: "(bytes \<times> scoped_port) list \<Rightarrow> orch_call list \<Rightarrow> lock_log_entry list \<Rightarrow> nat \<Rightarrow> world \<Rightarrow> bool" where
  "lock_frame sps calls pend p w \<longleftrightarrow> w_scoped w = sps \<and> w_orchCalls w = calls \<and> log_has pend p w"

lemma recordEntry_prefix: "prefix pend (ll_pending l) \<Longrightarrow> prefix pend (ll_pending (recordEntry l entry))"
  using recordEntry_appends [of l entry] by (auto simp: appends_def)

interpretation lock_frame: relay_invariant "lock_frame sps calls pend p" "\<lambda>_. True" for sps calls pend p
  by unfold_locales
    (auto simp: lock_frame_def log_has_def Record_def recordEntry_prefix split: option.splits)

lemma drainAllPending_all:
  "drainAllPending l = (l', out) \<Longrightarrow> out = ll_pending l \<and> ll_pending l' = []"
proof (induction l arbitrary: l' out rule: drainAllPending.induct)
  case (1 l)
  obtain l1 batch where d: "drain l [] maxLockLogDrainBytes False = (l1, batch)" by fastforce
  from drain_dead [OF d] have p: "ll_pending l = batch @ ll_pending l1" "ll_pending l \<noteq> [] \<longrightarrow> batch \<noteq> []"
    by blast+
  have unf: "drainAllPending l = (if batch = [] then (l1, [])
      else (case drainAllPending l1 of (l2, rest) \<Rightarrow> (l2, batch @ rest)))"
    by (subst drainAllPending.simps) (simp add: d)
  show ?case
  proof (cases "batch = []")
    case True
    then have "l' = l1" "out = []" and n: "ll_pending l = []"
      using 1(2) unf p(2) by simp_all
    moreover have "ll_pending l1 = []" using p(1) n by simp
    ultimately show ?thesis using n by (simp only: simp_thms)
  next
    case False
    obtain l2 rest where r: "drainAllPending l1 = (l2, rest)" by fastforce
    have "rest = ll_pending l1 \<and> ll_pending l2 = []"
      using 1(1) [OF d [symmetric] False r] by blast
    moreover have "l' = l2" "out = batch @ rest"
      using 1(2) unf r False by simp_all
    ultimately show ?thesis using p(1) by (simp only: simp_thms)
  qed
qed

lemma DrainAll_prefix: "prefix (ll_pending l) (snd (DrainAll l order))"
proof -
  obtain l1 out where a: "drainAllPending l = (l1, out)" by fastforce
  obtain l2 extra where d: "drain l1 order (int (card (ll_open l1)) * int maxUnflushedOutput) True = (l2, extra)"
    by fastforce
  have "snd (DrainAll l order) = out @ extra"
    using a d by (simp only: DrainAll_def prod.case snd_conv)
  then show ?thesis using drainAllPending_all [OF a] by (simp only: prefixI)
qed

text \<open>The entries waiting in the log of a port.\<close>

definition pendingOf :: "world \<Rightarrow> scoped_port \<Rightarrow> lock_log_entry list" where
  "pendingOf w sp = (case ps_log (stateOf w sp) of None \<Rightarrow> [] | Some l \<Rightarrow> ll_pending l)"

lemma CloseScopedPort_frame:
  "wp (CloseScopedPort e lockID) (\<lambda>closed w'. closed = (map_of (w_scoped w) lockID \<noteq> None) \<and>
     w_scoped w' = del lockID (w_scoped w) \<and> w_orchCalls w' = w_orchCalls w \<and>
     (\<forall>sp. map_of (w_scoped w) lockID = Some sp \<longrightarrow> log_has (pendingOf w sp) (sp_ref sp) w')) w"
proof (cases "map_of (w_scoped w) lockID")
  case None
  then have "del lockID (w_scoped w) = w_scoped w"
    by (force simp: del_def map_of_eq_None_iff intro!: filter_True)
  then show ?thesis using None by (simp add: CloseScopedPort_def)
next
  case (Some sp)
  let ?w = "w\<lparr>w_scoped := del lockID (w_scoped w), w_ports := (w_ports w)(sp_ref sp :=
      fst (closeConns ((w_ports w (sp_ref sp))\<lparr>ps_stopped := True\<rparr>)))\<rparr>"
  have "wp (resetDevices e sp) (\<lambda>_. lock_frame (del lockID (w_scoped w)) (w_orchCalls w) (pendingOf w sp) (sp_ref sp)) ?w"
    by (rule keeps_wp [OF lock_frame.keeps_resetDevices])
      (auto simp: lock_frame_def log_has_def pendingOf_def stateOf_def closeConns_def split: option.split)
  then show ?thesis
    using Some by (auto simp: CloseScopedPort_def setState_def lock_frame_def elim!: wp_mono)
qed

lemma drainWith_DrainAll:
  assumes "log_has pend (sp_ref sp) w"
  shows "wp (drainWith DrainAll e sp) (\<lambda>es w'. prefix pend es \<and> w_scoped w' = w_scoped w \<and> w_orchCalls w' = w_orchCalls w) w"
  using assms DrainAll_prefix
  by (auto simp: drainWith_def setState_def stateOf_def log_has_def split: option.split intro: prefix_order.trans)

lemma Release_post:
  "wp (Release e lockID status) (\<lambda>_ w'. w_scoped w' = del lockID (w_scoped w) \<and>
     (\<exists>es. w_orchCalls w' = w_orchCalls w @ [ReleaseCall lockID status es] \<and>
       (case map_of (w_scoped w) lockID of None \<Rightarrow> es = [] | Some sp \<Rightarrow> prefix (pendingOf w sp) es))) w"
proof -
  have rel: "wp (ReleaseLock e lockID status es) Q w1" if "\<And>r w2. w_scoped w2 = w_scoped w1 \<Longrightarrow>
      w_orchCalls w2 = w_orchCalls w1 @ [ReleaseCall lockID status es] \<Longrightarrow> Q r w2" for es Q w1
    using that by (simp add: ReleaseLock_def)
  show ?thesis
  proof (cases "map_of (w_scoped w) lockID")
    case None
    show ?thesis
      unfolding Release_def
      by (simp add: None, rule wp_mono [OF CloseScopedPort_frame]) (auto intro!: rel)
  next
    case (Some sp)
    have d: "wp (drainWith DrainAll e sp) (\<lambda>entries. wp (ReleaseLock e lockID status entries)
        (\<lambda>a s. w_scoped s = del lockID (w_scoped w) \<and>
          (\<exists>es. w_orchCalls s = w_orchCalls w @ [ReleaseCall lockID status es] \<and> prefix (pendingOf w sp) es))) w1"
      if "w_scoped w1 = del lockID (w_scoped w)" "w_orchCalls w1 = w_orchCalls w" "log_has (pendingOf w sp) (sp_ref sp) w1" for w1
      by (rule wp_mono [OF drainWith_DrainAll [OF that(3)]]) (use that in \<open>auto intro!: rel\<close>)
    show ?thesis
      unfolding Release_def
      by (simp add: Some, rule wp_mono [OF CloseScopedPort_frame])
        (use Some d in \<open>auto simp: wp_conj split_def elim!: wp_mono\<close>)
  qed
qed

text \<open>
  Releasing a lock closes its port, makes exactly one call to the orchestrator, the release with the
  status given, and that call carries the port's log: every entry that was pending, in order, before
  what the reset and the open tunnels add. Releasing a lock that has no port is the same call with no
  log; so a second release finds nothing to close.
\<close>

theorem release_ships_log:
  "wp (Release e lockID status) (\<lambda>_ w'. w_scoped w' = del lockID (w_scoped w) \<and>
     (\<exists>es. w_orchCalls w' = w_orchCalls w @ [ReleaseCall lockID status es] \<and>
       (case map_of (w_scoped w) lockID of None \<Rightarrow> es = [] | Some sp \<Rightarrow> prefix (pendingOf w sp) es))) w"
  by (rule Release_post)

end
