(* ===== verification/LockLife.thy ===== *)
theory LockLife
  imports ScopedPort Relay
begin

text \<open>
  The scoped ports over the life of the proxy: every operation of \<open>internal/proxy/scoped_port.go\<close> and
  \<open>internal/proxy/relay.go\<close> as a step, the table of ports as an invariant of any sequence of
  them, what a lock's end reaches, what a failed acquire leaves behind, the keepalive against the lock
  log, and the shutdown.
\<close>

section \<open>Steps\<close>

datatype lock_op =
    DoAcquire "bytes list" int acquire_req int bool bytes bool bytes bytes
  | DoRelease bytes bytes
  | DoExpire bytes
  | DoClose bytes
  | DoShutdown
  | DoWifi bytes "bytes list" bool bytes
  | DoBluetooth bytes "bytes list"
  | DoLabels bytes "label list"
  | DoFlush bytes bool
  | DoBeat bytes bool
  | DoRelay relay_open owner_end

text \<open>The result of an operation goes to whoever asked for it.\<close>

definition forget :: "'a act \<Rightarrow> unit act" where
  "forget m = do { _ \<leftarrow> m; returnM () }"

definition keepaliveOf :: "bytes \<Rightarrow> (scoped_port \<Rightarrow> unit act) \<Rightarrow> unit act" where
  "keepaliveOf lockID f = do {
     w \<leftarrow> getM;
     (case map_of (w_scoped w) lockID of None \<Rightarrow> returnM () | Some sp \<Rightarrow> f sp) }"

fun lockStep :: "env \<Rightarrow> lock_op \<Rightarrow> unit act" where
  "lockStep e (DoAcquire req n job prio wifi band same key ip) = forget (Acquire e req n job prio wifi band same key ip)"
| "lockStep e (DoRelease lockID status) = forget (Release e lockID status)"
| "lockStep e (DoExpire lockID) = OnLockExpired e lockID"
| "lockStep e (DoClose lockID) = forget (CloseScopedPort e lockID)"
| "lockStep e DoShutdown = ShutdownAll e"
| "lockStep e (DoWifi lockID serials on band) = forget (SetLockWifi e lockID serials on band)"
| "lockStep e (DoBluetooth lockID serials) = forget (RestartBluetooth e lockID serials)"
| "lockStep e (DoLabels lockID labels) = forget (AddLabels e lockID labels)"
| "lockStep e (DoFlush lockID flushed) = keepaliveOf lockID (\<lambda>sp. forget (flushTick e sp flushed))"
| "lockStep e (DoBeat lockID flushed) = keepaliveOf lockID (\<lambda>sp. forget (beatTick e sp flushed))"
| "lockStep e (DoRelay ro ow) = forget (ServeRelay e ro ow)"

lemma keeps_forget [keeps]: "keeps P m \<Longrightarrow> keeps P (forget m)"
  unfolding forget_def by (intro keeps)

text \<open>An invariant that looks at the ports, but not at the relay's tables.\<close>

locale bench_invariant = orch_invariant + relay_invariant
begin

lemma keeps_ServeRelay [keeps]:
  assumes "\<And>addr req. allowed (DevCall addr (ro_serial ro) req)"
  shows "keeps inv (ServeRelay e ro ow)"
  unfolding ServeRelay_def serveJoin_def joinTunnel_def failJoin_def sendRelayFailedW_def serveDevice_def
    tunnelDead_def openDevice_def takeSnapshot_def relayRecordFor_def newRecord_def setRec_def settledSnapshot_def Let_def
  by (intro keeps keeps_callDevice keeps_modify inv_recs inv_nextRec inv_relayLocks assms)

end

section \<open>The table of ports\<close>

definition port_live :: "port_state \<Rightarrow> bool" where
  "port_live ps \<longleftrightarrow> ps_log ps \<noteq> None \<and> \<not> ps_connsClosed ps \<and> \<not> ps_stopped ps"

definition ports_ok :: "world \<Rightarrow> bool" where
  "ports_ok w \<longleftrightarrow> distinct (map fst (w_scoped w)) \<and> distinct (map (sp_ref \<circ> snd) (w_scoped w)) \<and>
     (\<forall>(k, sp) \<in> set (w_scoped w). sp_lockID sp = k \<and> \<not> sp_relayed sp \<and> sp_ref sp < w_nextPort w \<and>
        port_live (w_ports w (sp_ref sp)))"

lemma ports_ok_cong:
  "ports_ok w \<Longrightarrow> w_scoped w' = w_scoped w \<Longrightarrow> w_nextPort w \<le> w_nextPort w' \<Longrightarrow>
    (\<And>p. p < w_nextPort w \<Longrightarrow> port_live (w_ports w p) \<Longrightarrow> port_live (w_ports w' p)) \<Longrightarrow> ports_ok w'"
  by (force simp: ports_ok_def)

interpretation ports_wf: bench_invariant ports_ok "\<lambda>_. True"
  by unfold_locales (auto elim!: ports_ok_cong simp: port_live_def Record_def split: option.split)

lemma keeps_setState_live: "(\<And>ps. port_live ps \<Longrightarrow> port_live (f ps)) \<Longrightarrow> keeps ports_ok (setState sp f)"
  unfolding setState_def by (rule keeps_modify) (auto elim!: ports_ok_cong)

lemma keeps_drainWith_live [keeps]: "keeps ports_ok (drainWith f e sp)"
  unfolding drainWith_def
  by (intro keeps ports_wf.keeps_tick keeps_setState_live) (auto simp: port_live_def)

lemma keeps_requeue_live [keeps]: "keeps ports_ok (requeue sp entries)"
  unfolding requeue_def by (rule keeps_setState_live) (simp add: port_live_def)

lemma ports_ok_del:
  assumes "ports_ok w" and "map_of (w_scoped w) lockID = Some sp"
  shows "ports_ok (w\<lparr>w_scoped := del lockID (w_scoped w), w_ports := (w_ports w)(sp_ref sp := ps)\<rparr>)"
proof -
  have sp: "(lockID, sp) \<in> set (w_scoped w)" using assms(2) by (rule map_of_SomeD)
  have inj: "inj_on (sp_ref \<circ> snd) (set (w_scoped w))" and d: "distinct (map (sp_ref \<circ> snd) (w_scoped w))"
    using assms(1) by (simp_all add: ports_ok_def distinct_map)
  have "sp_ref sp' \<noteq> sp_ref sp" if "(k, sp') \<in> set (w_scoped w)" "k \<noteq> lockID" for k sp'
    using inj_onD [OF inj, of "(k, sp')" "(lockID, sp)"] that sp by auto
  moreover have "distinct (map (sp_ref \<circ> snd) (del lockID (w_scoped w)))"
    using d by (simp add: del_def distinct_map inj_on_def)
  ultimately show ?thesis
    using assms(1) by (auto simp: ports_ok_def distinct_del)
qed

lemma keepsI_wp: "(\<And>s. P s \<Longrightarrow> wp m (\<lambda>_. P) s) \<Longrightarrow> keeps P m"
  by (simp add: keeps_def wp_def case_prod_beta)

lemma keeps_CloseScopedPort_ok [keeps]: "keeps ports_ok (CloseScopedPort e lockID)"
proof (rule keepsI_wp)
  fix w
  assume w: "ports_ok w"
  show "wp (CloseScopedPort e lockID) (\<lambda>_. ports_ok) w"
  proof (cases "map_of (w_scoped w) lockID")
    case (Some sp)
    have "wp (resetDevices e sp) (\<lambda>_. ports_ok)
        (w\<lparr>w_scoped := del lockID (w_scoped w), w_ports := (w_ports w)(sp_ref sp := ps)\<rparr>)" for ps
      by (rule keeps_wp [OF ports_wf.keeps_resetDevices ports_ok_del [OF w Some]]) simp
    then show ?thesis using Some by (simp add: CloseScopedPort_def setState_def)
  qed (use w in \<open>simp add: CloseScopedPort_def\<close>)
qed

lemma keeps_CreateScopedPort_ok [keeps]: "keeps ports_ok (CreateScopedPort e lockID serials remote)"
proof (rule keepsI_wp)
  fix w
  assume w: "ports_ok w"
  have fresh: "sp_ref sp \<noteq> w_nextPort w" if "(k, sp) \<in> set (w_scoped w)" for k sp
    using w that by (force simp: ports_ok_def)
  have put: "put lockID sp (w_scoped w) = (lockID, sp) # w_scoped w" if "map_of (w_scoped w) lockID = None" for sp
    using that by (force simp: put_def del_def map_of_eq_None_iff intro!: filter_True)
  show "wp (CreateScopedPort e lockID serials remote) (\<lambda>_. ports_ok) w"
    using w fresh
    by (auto simp: CreateScopedPort_def setState_def put ports_ok_def port_live_def map_of_eq_None_iff
        Let_def less_Suc_eq dest: fresh split: sum.split)
qed

lemma keeps_Release_ok [keeps]: "keeps ports_ok (Release e lockID status)"
  unfolding Release_def by (intro keeps ports_wf.keeps_ReleaseLock)

lemma keeps_resetRelayed_ok [keeps]: "keeps ports_ok (resetRelayed e lockID)"
proof (rule keepsI_wp)
  fix w
  assume w: "ports_ok w"
  have "ports_ok (w\<lparr>w_nextPort := Suc (w_nextPort w), w_ports := (w_ports w)(w_nextPort w := ps)\<rparr>)" for ps
    by (rule ports_ok_cong [OF w]) auto
  then show "wp (resetRelayed e lockID) (\<lambda>_. ports_ok) w"
    by (auto simp: resetRelayed_def setState_def standIn_def Let_def
        intro!: keeps_wp [OF keeps_foreach] ports_wf.keeps_resetDevice simp: ports_wf.phone_allowed_def)
qed

lemma keeps_setupDeviceAPI_ok [keeps]: "keeps ports_ok (setupDeviceAPI e sp)"
  unfolding setupDeviceAPI_def
  by (intro keeps ports_wf.keeps_AddReverseForward keeps_setState_live) (auto simp: port_live_def)

lemma keeps_Acquire_ok: "keeps ports_ok (Acquire e req n job prio wifi band same key ip)"
  unfolding Acquire_def takeGrant_def handOver_def acquireFailed_def Let_def
  by (intro keeps ports_wf.keeps_now ports_wf.keeps_AcquireLock ports_wf.keeps_ReleaseLock ports_wf.keeps_prepareDevice
      ports_wf.keeps_acquireEvents ports_wf.keeps_logExcerpt ports_wf.keeps_SetLockWifi)
    (auto simp: ports_wf.phone_allowed_def)

lemma keeps_lockStep: "keeps ports_ok (lockStep e op)"
proof (cases op)
  case (DoBluetooth lockID serials)
  then show ?thesis
    by (auto simp: RestartBluetooth_def intro!: keeps ports_wf.keeps_midJobCycle)
next
  case DoShutdown
  then show ?thesis by (auto simp: ShutdownAll_def intro!: keeps ports_wf.keeps_ReleaseLock)
next
  case (DoFlush lockID flushed)
  then show ?thesis
    by (auto simp: keepaliveOf_def flushTick_def intro!: keeps ports_wf.keeps_sessionUp ports_wf.keeps_SendLockLog)
next
  case (DoBeat lockID flushed)
  then show ?thesis
    by (auto simp: keepaliveOf_def beatTick_def Let_def intro!: keeps ports_wf.keeps_sessionUp ports_wf.keeps_now
        ports_wf.keeps_LockHeartbeat ports_wf.keeps_noteService)
next
  case (DoWifi lockID serials on band)
  then show ?thesis by (auto intro!: keeps ports_wf.keeps_SetLockWifi)
next
  case (DoLabels lockID labels)
  then show ?thesis by (auto simp: AddLabels_def intro!: keeps ports_wf.keeps_AddLockLabels)
next
  case (DoRelay ro ow)
  then show ?thesis by (auto intro!: keeps ports_wf.keeps_ServeRelay)
qed (auto simp: OnLockExpired_def intro!: keeps keeps_Acquire_ok)

text \<open>
  C9. The table of scoped ports is well formed after any sequence of the proxy's operations, from a
  proxy without ports and whatever devices, clocks and the orchestrator answer: one port per lock, filed
  under its own lock id, no two ports sharing their state, none of them the stand-in of a relayed lock,
  and every port in the table live, with a log to record into, not yet stopped and its connections not
  yet closed.
\<close>

theorem scoped_ports_wf:
  "wp (foreach ops (lockStep e)) (\<lambda>_. ports_ok) (w\<lparr>w_scoped := []\<rparr>)"
  by (rule keeps_wp [OF keeps_foreach]) (simp_all add: keeps_lockStep ports_ok_def)

section \<open>What the end of a lock reaches\<close>

text \<open>
  During the resets of one lock: the table of ports is fixed, relay records only leave the table, and
  the calls to devices are some given ones and then ones that satisfy \<open>P\<close>.
\<close>

definition resetting :: "(bytes \<times> scoped_port) list \<Rightarrow> world \<Rightarrow> (dev_call \<Rightarrow> bool) \<Rightarrow> world \<Rightarrow> bool" where
  "resetting sps w0 P w \<longleftrightarrow> w_scoped w = sps \<and> set (w_relayLocks w) \<subseteq> set (w_relayLocks w0) \<and>
     (\<forall>r. rr_lockID (w_recs w r) = rr_lockID (w_recs w0 r)) \<and> only_calls (w_devCalls w0) P w"

interpretation resetting: port_invariant "resetting sps w0 P" P for sps w0 P
  by unfold_locales (auto simp: resetting_def only_calls_def)

lemma keeps_resetDevice_free:
  assumes "\<not> list_ex (\<lambda>(_, sp). serial \<in> set (sp_serials sp)) sps \<Longrightarrow> \<forall>addr req. P (DevCall addr serial req)"
  shows "keeps (resetting sps w0 P) (resetDevice e sp serial)"
proof -
  have take: "keeps (resetting sps w0 P) (takeRelayRecord serial (sp_lockID sp))"
    unfolding takeRelayRecord_def by (intro keeps keeps_modify) (auto simp: resetting_def only_calls_def)
  have settle: "keeps (resetting sps w0 P) (settledSnapshot r)" for r
    unfolding settledSnapshot_def setRec_def by (intro keeps keeps_modify) (auto simp: resetting_def only_calls_def)
  have body: "keeps (resetting sps w0 P)
      (do { w \<leftarrow> getM; (if heldByAnyPort w serial then returnM () else resetBody e sp serial since) })" for since
  proof (rule keeps_getI, intro keeps)
    fix w
    assume "resetting sps w0 P w" and "\<not> heldByAnyPort w serial"
    then have "\<forall>addr req. P (DevCall addr serial req)"
      using assms by (simp add: heldByAnyPort_def resetting_def)
    then show "keeps (resetting sps w0 P) (resetBody e sp serial since)"
      by (intro resetting.keeps_resetBody) (simp_all add: resetting.phone_allowed_def)
  qed
  show ?thesis
    unfolding resetDevice_def by (intro keeps take settle body)
qed

text \<open>
  The phones a lock's end may reach: those of its own port attached to this proxy, and, if \<open>relayed\<close>,
  those relayed under it, when no port of another lock holds them.
\<close>

definition endedPhone :: "world \<Rightarrow> bytes \<Rightarrow> bool \<Rightarrow> bytes \<Rightarrow> bool" where
  "endedPhone w lockID relayed serial \<longleftrightarrow>
     ((case map_of (w_scoped w) lockID of None \<Rightarrow> False
        | Some sp \<Rightarrow> serial \<in> set (sp_serials sp) \<and> serial \<notin> fst ` set (sp_remote sp)) \<or>
      relayed \<and> serial \<in> fst ` set (filter (\<lambda>(_, r). rr_lockID (w_recs w r) = lockID) (w_relayLocks w))) \<and>
     \<not> list_ex (\<lambda>(_, sp). serial \<in> set (sp_serials sp)) (del lockID (w_scoped w))"

lemma resetting_CloseScopedPort:
  "wp (CloseScopedPort e lockID) (\<lambda>_. resetting (del lockID (w_scoped w)) w (\<lambda>c. endedPhone w lockID b (dc_serial c))) w"
proof (cases "map_of (w_scoped w) lockID")
  case None
  then have "del lockID (w_scoped w) = w_scoped w"
    by (force simp: del_def map_of_eq_None_iff intro!: filter_True)
  then show ?thesis using None by (simp add: CloseScopedPort_def resetting_def only_calls_def)
next
  case (Some sp)
  let ?J = "resetting (del lockID (w_scoped w)) w (\<lambda>c. endedPhone w lockID b (dc_serial c))"
  have "keeps ?J (resetDevices e sp)"
    unfolding resetDevices_def
    by (intro keeps keeps_resetDevice_free) (simp add: endedPhone_def Some)
  then have "wp (resetDevices e sp) (\<lambda>_. ?J) (w\<lparr>w_scoped := del lockID (w_scoped w), w_ports := ps\<rparr>)" for ps
    by (rule keeps_wp) (simp add: resetting_def only_calls_def)
  then show ?thesis using Some by (simp add: CloseScopedPort_def setState_def)
qed

lemma keeps_resetRelayed_free:
  "keeps (resetting (del lockID (w_scoped w)) w (\<lambda>c. endedPhone w lockID True (dc_serial c))) (resetRelayed e lockID)"
  unfolding resetRelayed_def Let_def
proof (rule keeps_getI)
  fix w1
  let ?J = "resetting (del lockID (w_scoped w)) w (\<lambda>c. endedPhone w lockID True (dc_serial c))"
  assume w1: "?J w1"
  have phone: "\<forall>addr req. endedPhone w lockID True (dc_serial (DevCall addr s req))"
    if "s \<in> set (map fst (filter (\<lambda>(_, r). rr_lockID (w_recs w1 r) = lockID) (w_relayLocks w1)))"
      "\<not> list_ex (\<lambda>(_, sp). s \<in> set (sp_serials sp)) (del lockID (w_scoped w))" for s
    using that w1 by (force simp: endedPhone_def resetting_def)
  show "keeps ?J (do {
     modify (\<lambda>w. w\<lparr>w_nextPort := Suc (w_nextPort w)\<rparr>);
     setState (standIn (w_nextPort w1) lockID) (\<lambda>ps. ps\<lparr>ps_log := None\<rparr>);
     foreach (map fst (filter (\<lambda>(_, r). rr_lockID (w_recs w1 r) = lockID) (w_relayLocks w1)))
       (\<lambda>serial. resetDevice e (standIn (w_nextPort w1) lockID) serial) })"
    by (intro keeps keeps_modify resetting.keeps_setState keeps_resetDevice_free phone)
      (auto simp: resetting_def only_calls_def)
qed

text \<open>
  The end of a lock, by a release with whatever outcome or by its expiry, reaches only phones of
  that lock: those of its own port that are attached here, and on expiry also those this proxy relayed
  under it. A phone that a port of another lock holds by now is left alone. The port is gone after it, and
  no other port.
\<close>

theorem lock_end_isolated:
  "wp (Release e lockID status) (\<lambda>_ w'. w_scoped w' = del lockID (w_scoped w) \<and>
     only_calls (w_devCalls w) (\<lambda>c. endedPhone w lockID False (dc_serial c)) w') w \<and>
   wp (OnLockExpired e lockID) (\<lambda>_ w'. w_scoped w' = del lockID (w_scoped w) \<and>
     only_calls (w_devCalls w) (\<lambda>c. endedPhone w lockID True (dc_serial c)) w') w"
proof
  let ?J = "\<lambda>b. resetting (del lockID (w_scoped w)) w (\<lambda>c. endedPhone w lockID b (dc_serial c))"
  have this_lock: "w_scoped w' = del lockID (w_scoped w) \<and> only_calls (w_devCalls w) (\<lambda>c. endedPhone w lockID b (dc_serial c)) w'"
    if "?J b w'" for b w'
    using that by (simp add: resetting_def)
  have "wp (case map_of (w_scoped w) lockID of None \<Rightarrow> returnM [] | Some sp \<Rightarrow> drainWith DrainAll e sp) (\<lambda>entries.
      wp (ReleaseLock e lockID status entries) (\<lambda>_. ?J False)) w1" if w1: "?J False w1" for w1
  proof -
    have "wp (case map_of (w_scoped w) lockID of None \<Rightarrow> returnM [] | Some sp \<Rightarrow> drainWith DrainAll e sp) (\<lambda>_. ?J False) w1"
      by (rule keeps_wp, intro keeps resetting.keeps_drainWith, rule w1)
    then show ?thesis
      by (rule wp_mono) (rule keeps_wp [OF resetting.keeps_ReleaseLock])
  qed
  then have "wp (Release e lockID status) (\<lambda>_. ?J False) w"
    unfolding Release_def
    by (simp add: split_def) (rule wp_mono [OF resetting_CloseScopedPort], blast)
  then show "wp (Release e lockID status) (\<lambda>_ w'. w_scoped w' = del lockID (w_scoped w) \<and>
     only_calls (w_devCalls w) (\<lambda>c. endedPhone w lockID False (dc_serial c)) w') w"
    by (rule wp_mono) (rule this_lock)
  have "wp (OnLockExpired e lockID) (\<lambda>_. ?J True) w"
    unfolding OnLockExpired_def
    by simp (rule wp_mono [OF resetting_CloseScopedPort], rule keeps_wp [OF keeps_resetRelayed_free])
  then show "wp (OnLockExpired e lockID) (\<lambda>_ w'. w_scoped w' = del lockID (w_scoped w) \<and>
     only_calls (w_devCalls w) (\<lambda>c. endedPhone w lockID True (dc_serial c)) w') w"
    by (rule wp_mono) (rule this_lock)
qed

section \<open>Shutdown\<close>

lemma wp_all: "wp m (\<lambda>a s. \<forall>x. Q x a s) s \<longleftrightarrow> (\<forall>x. wp m (Q x) s)"
  by (simp add: wp_def split: prod.split)

text \<open>Every port in the table has at least the entries \<open>pend\<close> waiting.\<close>

definition logs_have :: "(nat \<Rightarrow> lock_log_entry list) \<Rightarrow> world \<Rightarrow> bool" where
  "logs_have pend w \<longleftrightarrow> (\<forall>p. log_has (pend p) p w)"

lemma CloseScopedPort_logs:
  assumes "logs_have pend w"
  shows "wp (CloseScopedPort e lockID) (\<lambda>_ w'. w_scoped w' = del lockID (w_scoped w) \<and>
     w_orchCalls w' = w_orchCalls w \<and> logs_have pend w') w"
proof -
  have "wp (CloseScopedPort e lockID) (\<lambda>_. logs_have pend) w"
    unfolding logs_have_def wp_all
  proof
    fix p
    show "wp (CloseScopedPort e lockID) (\<lambda>_. log_has (pend p) p) w"
    proof (cases "map_of (w_scoped w) lockID")
      case (Some sp)
      let ?w = "w\<lparr>w_scoped := del lockID (w_scoped w), w_ports := (w_ports w)(sp_ref sp :=
          fst (closeConns ((w_ports w (sp_ref sp))\<lparr>ps_stopped := True\<rparr>)))\<rparr>"
      have "wp (resetDevices e sp) (\<lambda>_. lock_frame (w_scoped ?w) (w_orchCalls ?w) (pend p) p) ?w"
        by (rule keeps_wp [OF lock_frame.keeps_resetDevices])
          (use assms [unfolded logs_have_def, THEN spec, of p] in \<open>auto simp: lock_frame_def log_has_def closeConns_def\<close>)
      then show ?thesis
        using Some by (auto simp: CloseScopedPort_def setState_def lock_frame_def elim!: wp_mono)
    qed (use assms in \<open>simp add: CloseScopedPort_def logs_have_def\<close>)
  qed
  moreover have "wp (CloseScopedPort e lockID) (\<lambda>_ w'. w_scoped w' = del lockID (w_scoped w) \<and> w_orchCalls w' = w_orchCalls w) w"
    by (rule wp_mono [OF CloseScopedPort_frame]) simp
  ultimately show ?thesis by (simp add: wp_conj)
qed

text \<open>The end of a lock writes the state of no other port than \<open>q\<close>, its own.\<close>

definition others :: "nat \<Rightarrow> (nat \<Rightarrow> port_state) \<Rightarrow> world \<Rightarrow> bool" where
  "others q ps w \<longleftrightarrow> (\<forall>p. p \<noteq> q \<longrightarrow> w_ports w p = ps p)"

lemma keeps_others: "(\<And>w. w_ports (f w) = w_ports w) \<Longrightarrow> keeps (others q ps) (modify f)"
  by (rule keeps_modify) (simp add: others_def)

lemma keeps_others_own [keeps]:
  "sp_ref sp = q \<Longrightarrow> keeps (others q ps) (recordLog sp entry)"
  "sp_ref sp = q \<Longrightarrow> keeps (others q ps) (setState sp f)"
  unfolding recordLog_def setState_def by (intro keeps_modify, simp add: others_def)+

lemma keeps_others_rest [keeps]:
  "keeps (others q ps) tick" "keeps (others q ps) (now e)" "keeps (others q ps) (resolve e s)"
  "keeps (others q ps) (callDevice e c)" "keeps (others q ps) (callOrch e oc)"
  "keeps (others q ps) (modify (\<lambda>w. w\<lparr>w_clients := fc w\<rparr>))"
  "keeps (others q ps) (modify (\<lambda>w. w\<lparr>w_btFresh := fb w\<rparr>))"
  "keeps (others q ps) (modify (\<lambda>w. w\<lparr>w_events := fe w\<rparr>))"
  "keeps (others q ps) (modify (\<lambda>w. w\<lparr>w_relayLocks := fr w\<rparr>))"
  "keeps (others q ps) (modify (\<lambda>w. w\<lparr>w_recs := fs w\<rparr>))"
  "keeps (others q ps) (modify (\<lambda>w. w\<lparr>w_scoped := ft w\<rparr>))"
  "keeps (others q ps) (modify (\<lambda>w. w))"
  unfolding tick_def now_def resolve_def callDevice_def callOrch_def
  by (intro keeps keeps_others; simp)+

lemma keeps_others_wait [keeps]: "keeps (others q ps) (waitLoop e serial deadline n)"
  by (induction n) (auto intro!: keeps)

lemmas phone_calls = deviceClient_def resolveSource_def getOrCreateDSClient_def Event_def noteService_def excerpt_def
  waitForSource_def Wake_def HoldUpdates_def ResetBluetooth_def SetWifi_def ClearUiAutomation_def RebootIfStale_def
  RebootIfWedged_def RecentDeviceSourceLog_def RemoveReverseForwards_def ResetPackages_def wakeDevice_def wifiDevice_def

lemma keeps_others_event [keeps]: "keeps (others q ps) (Event e ev)"
  unfolding Event_def by (intro keeps)

lemma keeps_others_calls [keeps]:
  "keeps (others q ps) (wakeDevice e lockID serial)" "keeps (others q ps) (wifiDevice e lockID serial st band)"
  "keeps (others q ps) (RemoveReverseForwards e serial)" "keeps (others q ps) (waitForSource e serial)"
  "keeps (others q ps) (ResetBluetooth e serial)" "keeps (others q ps) (RebootIfStale e serial)"
  "keeps (others q ps) (takeRelayRecord serial lockID)" "keeps (others q ps) (settledSnapshot r)"
  unfolding phone_calls reverseReply_def takeRelayRecord_def settledSnapshot_def setRec_def
  by (intro keeps; simp)+

lemma keeps_others_steps [keeps]:
  assumes "sp_ref sp = q"
  shows "keeps (others q ps) (noteService e sp serial service)"
    and "keeps (others q ps) (unwedge e sp serial radio trailer)"
    and "keeps (others q ps) (setUpdates e sp serial b)"
    and "keeps (others q ps) (cleanUiAutomation e sp serial trailer)"
    and "keeps (others q ps) (cleanPackages e sp serial trailer since)"
    and "keeps (others q ps) (logExcerpt e sp serials)"
  unfolding phone_calls unwedge_def setUpdates_def cleanUiAutomation_def cleanPackages_def logExcerpt_def
  by (intro keeps assms; simp)+

lemma keeps_others_reset:
  assumes "sp_ref sp = q"
  shows "keeps (others q ps) (resetDevices e sp)"
proof -
  have own: "keeps (others q ps) (cycleBluetooth e sp serial trailer may)" "keeps (others q ps) (wifiReset e sp serial)"
    "keeps (others q ps) (rebootStale e sp serial)" "keeps (others q ps) (cleanDevice e sp serial trailer since)"
    for serial trailer may since
    unfolding cycleBluetooth_def wifiReset_def rebootStale_def cleanDevice_def by (intro keeps assms)+
  show ?thesis
    unfolding resetDevices_def resetDevice_def resetBody_def by (intro keeps own assms)
qed

lemma CloseScopedPort_others:
  assumes "map_of (w_scoped w) lockID \<in> {None, Some sp}"
  shows "wp (CloseScopedPort e lockID) (\<lambda>_. others (sp_ref sp) (w_ports w)) w"
proof (cases "map_of (w_scoped w) lockID")
  case (Some sp')
  then have "sp' = sp" using assms by simp
  with Some show ?thesis
    by (simp add: CloseScopedPort_def setState_def)
      (rule keeps_wp [OF keeps_others_reset], simp_all add: others_def)
qed (simp add: CloseScopedPort_def others_def)

text \<open>
  The entries \<open>es\<close> are what a drain of the port's whole log gave, and that drain is the last thing that happened to
  the log: it is now what the drain left.
\<close>

definition drainedLast :: "port_state \<Rightarrow> lock_log_entry list \<Rightarrow> bool" where
  "drainedLast ps es \<longleftrightarrow> (case ps_log ps of None \<Rightarrow> es = [] | Some l' \<Rightarrow> (\<exists>l order. DrainAll l order = (l', es)))"

text \<open>One lock of the loop of \<open>ShutdownAll\<close>.\<close>

lemma shutdown_turn:
  assumes "logs_have pend w" and "map_of (w_scoped w) (sp_lockID sp) \<in> {None, Some sp}"
  shows "wp (do {
       _ \<leftarrow> CloseScopedPort e (sp_lockID sp);
       entries \<leftarrow> drainWith DrainAll e sp;
       _ \<leftarrow> ReleaseLock e (sp_lockID sp) ''proxy_restart'' entries;
       returnM () }) (\<lambda>_ w'. w_scoped w' = del (sp_lockID sp) (w_scoped w) \<and> logs_have (pend(sp_ref sp := [])) w' \<and>
     others (sp_ref sp) (w_ports w) w' \<and>
     (\<exists>es. w_orchCalls w' = w_orchCalls w @ [ReleaseCall (sp_lockID sp) ''proxy_restart'' es] \<and> prefix (pend (sp_ref sp)) es \<and>
        drainedLast (w_ports w' (sp_ref sp)) es)) w"
proof -
  have "wp (do { entries \<leftarrow> drainWith DrainAll e sp;
       _ \<leftarrow> ReleaseLock e (sp_lockID sp) ''proxy_restart'' entries;
       returnM () }) (\<lambda>_ w'. w_scoped w' = w_scoped w1 \<and> logs_have (pend(sp_ref sp := [])) w' \<and>
     others (sp_ref sp) (w_ports w) w' \<and>
     (\<exists>es. w_orchCalls w' = w_orchCalls w1 @ [ReleaseCall (sp_lockID sp) ''proxy_restart'' es] \<and> prefix (pend (sp_ref sp)) es \<and>
        drainedLast (w_ports w' (sp_ref sp)) es)) w1"
    if w1: "logs_have pend w1" "others (sp_ref sp) (w_ports w) w1" for w1
  proof -
    have own: "case ps_log (w_ports w1 (sp_ref sp)) of None \<Rightarrow> pend (sp_ref sp) = [] | Some l \<Rightarrow> prefix (pend (sp_ref sp)) (ll_pending l)"
      and rest: "logs_have (pend(sp_ref sp := [])) w'" if "\<And>p. p \<noteq> sp_ref sp \<Longrightarrow> w_ports w' p = w_ports w1 p" for w'
      using w1(1) that by (auto simp: logs_have_def log_has_def split: option.split)
    have frame: "others (sp_ref sp) (w_ports w) w'" if "\<And>p. p \<noteq> sp_ref sp \<Longrightarrow> w_ports w' p = w_ports w1 p" for w'
      using w1(2) that by (simp add: others_def)
    show ?thesis
    proof (cases "ps_log (w_ports w1 (sp_ref sp))")
      case None
      then show ?thesis
        using own by (auto simp: drainWith_def ReleaseLock_def stateOf_def drainedLast_def intro!: rest frame)
    next
      case (Some l)
      then have "prefix (pend (sp_ref sp)) (snd (DrainAll l order))" for order
        using own DrainAll_prefix prefix_order.trans by fastforce
      then show ?thesis
        using Some
        by (auto simp: drainWith_def ReleaseLock_def stateOf_def setState_def drainedLast_def intro!: rest frame)
    qed
  qed
  note after = this
  show ?thesis
    by (subst wp_bind, rule wp_mono [OF wp_conj [THEN iffD2, OF conjI [OF CloseScopedPort_logs [OF assms(1)] CloseScopedPort_others [OF assms(2)]]]],
        elim conjE, rule wp_mono [OF after]) auto
qed

definition shutdownCall :: "(bytes \<times> scoped_port) \<times> lock_log_entry list \<Rightarrow> orch_call" where
  "shutdownCall p = ReleaseCall (fst (fst p)) ''proxy_restart'' (snd p)"

lemma shutdown_loop:
  assumes "w_scoped w = m" and "distinct (map fst m)" and "distinct (map (sp_ref \<circ> snd) m)"
    and "\<forall>(k, sp) \<in> set m. sp_lockID sp = k" and "logs_have pend w"
  shows "wp (foreach (map snd m) (\<lambda>sp. do {
       _ \<leftarrow> CloseScopedPort e (sp_lockID sp);
       entries \<leftarrow> drainWith DrainAll e sp;
       _ \<leftarrow> ReleaseLock e (sp_lockID sp) ''proxy_restart'' entries;
       returnM () })) (\<lambda>_ w'. w_scoped w' = [] \<and> (\<forall>p. p \<notin> (sp_ref \<circ> snd) ` set m \<longrightarrow> w_ports w' p = w_ports w p) \<and>
     (\<exists>logs. w_orchCalls w' = w_orchCalls w @ map shutdownCall (zip m logs) \<and>
        list_all2 (\<lambda>(_, sp) es. prefix (pend (sp_ref sp)) es \<and> drainedLast (w_ports w' (sp_ref sp)) es) m logs)) w"
  using assms
proof (induction m arbitrary: w pend)
  case (Cons x m)
  obtain k sp where x: "x = (k, sp)" "sp_lockID sp = k" using Cons.prems(4) by (cases x) auto
  let ?rest = "foreach (map snd m) (\<lambda>sp. do {
       _ \<leftarrow> CloseScopedPort e (sp_lockID sp);
       entries \<leftarrow> drainWith DrainAll e sp;
       _ \<leftarrow> ReleaseLock e (sp_lockID sp) ''proxy_restart'' entries;
       returnM () })"
  let ?post = "\<lambda>m pend w w'. w_scoped w' = [] \<and> (\<forall>p. p \<notin> (sp_ref \<circ> snd) ` set m \<longrightarrow> w_ports w' p = w_ports w p) \<and>
     (\<exists>logs. w_orchCalls w' = w_orchCalls w @ map shutdownCall (zip m logs) \<and>
        list_all2 (\<lambda>(_, sp) es. prefix (pend (sp_ref sp)) es \<and> drainedLast (w_ports w' (sp_ref sp)) es) m logs)"
  have rest: "wp ?rest (\<lambda>_ w'. ?post (x # m) pend w w') w1"
    if w1: "w_scoped w1 = del k (w_scoped w)" "logs_have (pend(sp_ref sp := [])) w1" "others (sp_ref sp) (w_ports w) w1"
      "w_orchCalls w1 = w_orchCalls w @ [ReleaseCall k ''proxy_restart'' es]" "prefix (pend (sp_ref sp)) es"
      "drainedLast (w_ports w1 (sp_ref sp)) es" for w1 es
  proof -
    have m: "w_scoped w1 = m"
      using w1(1) Cons.prems(1,2) x by (force simp: del_def intro!: filter_True)
    have other: "sp_ref sp' \<noteq> sp_ref sp" if "(k', sp') \<in> set m" for k' sp'
      using Cons.prems(3) that x by force
    have "wp ?rest (\<lambda>_ w'. ?post m (pend(sp_ref sp := [])) w1 w') w1"
      by (rule Cons.IH [OF m _ _ _ w1(2)]) (use Cons.prems in auto)
    then show ?thesis
    proof (rule wp_mono, elim conjE exE)
      fix w' logs
      assume h: "w_scoped w' = []" "\<forall>p. p \<notin> (sp_ref \<circ> snd) ` set m \<longrightarrow> w_ports w' p = w_ports w1 p"
        "w_orchCalls w' = w_orchCalls w1 @ map shutdownCall (zip m logs)"
        "list_all2 (\<lambda>(_, sp') es. prefix ((pend(sp_ref sp := [])) (sp_ref sp')) es \<and> drainedLast (w_ports w' (sp_ref sp')) es) m logs"
      have "list_all2 (\<lambda>(_, sp') es. prefix (pend (sp_ref sp')) es \<and> drainedLast (w_ports w' (sp_ref sp')) es) m logs"
        by (rule list.rel_mono_strong [OF h(4)]) (use other in \<open>auto split: if_splits\<close>)
      moreover have "sp_ref sp \<notin> (sp_ref \<circ> snd) ` set m" using other by force
      then have "w_ports w' (sp_ref sp) = w_ports w1 (sp_ref sp)" using h(2) by blast
      moreover have "w_ports w' p = w_ports w p" if "p \<notin> (sp_ref \<circ> snd) ` set (x # m)" for p
        using h(2) w1(3) that x by (auto simp: others_def)
      ultimately show "?post (x # m) pend w w'"
        using h w1 x by (intro conjI exI [of _ "es # logs"] allI impI) (simp_all add: shutdownCall_def)
    qed
  qed
  have "map_of (w_scoped w) (sp_lockID sp) \<in> {None, Some sp}" using Cons.prems(1) x by simp
  then show ?case
    unfolding list.map(2) foreach.simps(2)
    by (subst wp_bind, intro wp_mono [OF shutdown_turn [OF Cons.prems(5)]]) (use rest x in auto)
qed simp

text \<open>
  C10. A proxy that shuts down lets go of every lock it holds. After any sequence of operations from a
  proxy without ports, \<open>ShutdownAll\<close> closes every port, and its calls to the orchestrator are exactly
  one release per lock in the table, with the status proxy_restart. Each carries the whole log of its port: it
  begins with every entry that was pending when the shutdown began, and it is what the drain of the whole log gave
  that was the last thing to happen to this log, after the reset of the phones and its notes: at the end the log is
  what that drain left.
\<close>

theorem shutdown_releases_all:
  "wp (foreach ops (lockStep e)) (\<lambda>_ w1. wp (ShutdownAll e) (\<lambda>_ w2. w_scoped w2 = [] \<and>
     (\<exists>logs. w_orchCalls w2 = w_orchCalls w1 @ map shutdownCall (zip (w_scoped w1) logs) \<and>
        list_all2 (\<lambda>(_, sp) es. prefix (pendingOf w1 sp) es \<and> drainedLast (stateOf w2 sp) es) (w_scoped w1) logs)) w1)
    (w\<lparr>w_scoped := []\<rparr>)"
proof -
  have shut: "wp (ShutdownAll e) (\<lambda>_ w2. w_scoped w2 = [] \<and>
     (\<exists>logs. w_orchCalls w2 = w_orchCalls w1 @ map shutdownCall (zip (w_scoped w1) logs) \<and>
        list_all2 (\<lambda>(_, sp) es. prefix (pendingOf w1 sp) es \<and> drainedLast (stateOf w2 sp) es) (w_scoped w1) logs)) w1"
    if "ports_ok w1" for w1
  proof -
    let ?pend = "\<lambda>p. case ps_log (w_ports w1 p) of None \<Rightarrow> [] | Some l \<Rightarrow> ll_pending l"
    have "logs_have ?pend w1"
      by (auto simp: logs_have_def log_has_def split: option.split)
    moreover have "distinct (map fst (w_scoped w1))" "distinct (map (sp_ref \<circ> snd) (w_scoped w1))"
      "\<forall>(k, sp) \<in> set (w_scoped w1). sp_lockID sp = k"
      using that by (auto simp: ports_ok_def)
    ultimately have "wp (ShutdownAll e) (\<lambda>_ w2. w_scoped w2 = [] \<and> (\<forall>p. p \<notin> (sp_ref \<circ> snd) ` set (w_scoped w1) \<longrightarrow>
         w_ports w2 p = w_ports w1 p) \<and>
       (\<exists>logs. w_orchCalls w2 = w_orchCalls w1 @ map shutdownCall (zip (w_scoped w1) logs) \<and>
         list_all2 (\<lambda>(_, sp) es. prefix (?pend (sp_ref sp)) es \<and> drainedLast (w_ports w2 (sp_ref sp)) es) (w_scoped w1) logs)) w1"
      using shutdown_loop [OF refl, of w1 ?pend e] by (simp add: ShutdownAll_def)
    then show ?thesis by (rule wp_mono) (simp add: pendingOf_def stateOf_def)
  qed
  have "wp (foreach ops (lockStep e)) (\<lambda>_. ports_ok) (w\<lparr>w_scoped := []\<rparr>)"
    by (rule keeps_wp [OF keeps_foreach]) (simp_all add: keeps_lockStep ports_ok_def)
  then show ?thesis by (rule wp_mono) (rule shut)
qed

end
