(* ===== verification/LockGrant.thy ===== *)
theory LockGrant
  imports ScopedPort
begin

text \<open>
  What \<open>Acquire\<close> hands over or leaves behind, and the keepalive of a lock against the operations
  of the lock log (\<open>internal/proxy/scoped_port.go\<close>).
\<close>

section \<open>A grant is handed over or given back\<close>

definition is_acquire :: "orch_call \<Rightarrow> bool" where
  "is_acquire c \<longleftrightarrow> (case c of AcquireCall _ _ _ \<Rightarrow> True | _ \<Rightarrow> False)"

definition good_wake :: "dev_call \<times> dev_reply \<Rightarrow> bool" where
  "good_wake a \<longleftrightarrow> dc_request (fst a) \<noteq> WakeRequest \<or> \<not> wakeFailed (rp_err (snd a))"

text \<open>
  While a granted lock is prepared: the ports and the calls to the orchestrator are fixed, and, if
  \<open>strict\<close>, no phone has failed to wake.
\<close>

definition preparing :: "bool \<Rightarrow> (bytes \<times> scoped_port) list \<Rightarrow> orch_call list \<Rightarrow> (dev_call \<times> dev_reply) list \<Rightarrow>
    world \<Rightarrow> bool" where
  "preparing strict sps oc answers0 w \<longleftrightarrow> w_scoped w = sps \<and> w_orchCalls w = oc \<and>
     (\<exists>as. w_answers w = answers0 @ as \<and> (strict \<longrightarrow> list_all good_wake as))"

lemma preparing_relax: "preparing strict sps oc answers0 w \<Longrightarrow> preparing False sps oc answers0 w"
  by (auto simp: preparing_def)

interpretation preparing: world_invariant "preparing strict sps oc answers0" "\<lambda>c. strict \<longrightarrow> dc_request c \<noteq> WakeRequest"
  for strict sps oc answers0
  by unfold_locales (auto simp: preparing_def good_wake_def)

lemma preparing_phone [simp]:
  "device_calls.phone_allowed (\<lambda>c. dc_request c \<noteq> WakeRequest) serial"
  "device_calls.phone_allowed (\<lambda>c. True) serial"
  by (auto simp: device_calls.phone_allowed_def)

lemma preparing_setState: "keeps (preparing strict sps oc answers0) (setState sp f)"
  unfolding setState_def by (rule keeps_modify) (simp add: preparing_def)

lemma preparing_wakeDevice:
  assumes "preparing True sps oc answers0 w"
  shows "wp (wakeDevice e lockID serial) (\<lambda>err. preparing (\<not> wakeFailed err) sps oc answers0) w"
proof -
  have ev: "wp (Event e ev) (\<lambda>_. preparing False sps oc answers0) w1" if "preparing False sps oc answers0 w1" for ev w1
    by (rule keeps_wp [OF preparing.keeps_Event that])
  have wake: "wp (Wake e serial) (\<lambda>err. preparing (\<not> wakeFailed err) sps oc answers0) w"
    unfolding Wake_def
    by (simp, rule wp_mono [OF keeps_wp [OF preparing.keeps_deviceClient assms]])
      (auto simp: preparing_def good_wake_def split: sum.split)
  have noted: "wp (do { whenM (wakeFailed err) (Event e ev); returnM err })
      (\<lambda>err. preparing (\<not> wakeFailed err) sps oc answers0) w1" if "preparing (\<not> wakeFailed err) sps oc answers0 w1" for err ev w1
    using that ev by (cases "wakeFailed err") simp_all
  show ?thesis
    unfolding wakeDevice_def by (subst wp_bind) (rule wp_mono [OF wake noted])
qed

lemma preparing_prepareDevice:
  assumes "preparing True sps oc answers0 w"
  shows "wp (prepareDevice e sp serial) (\<lambda>err. preparing (\<not> wakeFailed err) sps oc answers0) w"
proof -
  let ?J = "preparing True sps oc answers0"
  have clean: "wp (cleanDevice e sp serial t since) (\<lambda>_. ?J) w1" if "?J w1" for t since w1
    by (rule keeps_wp [OF preparing.keeps_cleanDevice that]) simp_all
  have cycle: "wp (cycleBluetooth e sp serial t b) (\<lambda>_. ?J) w1" if "?J w1" for t b w1
    by (rule keeps_wp [OF preparing.keeps_cycleBluetooth that]) simp
  have upd: "wp (setUpdates e sp serial True) (\<lambda>_. ?J) w1" if "?J w1" for w1
    by (rule keeps_wp [OF preparing.keeps_setUpdates that]) simp
  have fresh: "?J (w1\<lparr>w_btFresh := bs\<rparr>)" if "?J w1" for bs w1
    using that by (rule preparing.inv_btFresh)
  have tail: "wp (setUpdates e sp serial True) (\<lambda>_. wp (wakeDevice e (sp_lockID sp) serial)
      (\<lambda>err. preparing (\<not> wakeFailed err) sps oc answers0)) w1" if "?J w1" for w1
    by (rule wp_mono [OF upd [OF that]]) (rule preparing_wakeDevice)
  show ?thesis
    unfolding prepareDevice_def
    by (simp, rule wp_mono [OF clean [OF assms]])
      (auto intro!: tail fresh wp_mono [OF cycle])
qed

lemma preparing_wakeAll:
  assumes "preparing True sps oc answers0 w"
  shows "wp (firstM serials (\<lambda>serial. do {
      err \<leftarrow> prepareDevice e sp serial;
      returnM (if wakeFailed err then err else None) })) (\<lambda>bad. preparing (bad = None) sps oc answers0) w"
  using assms
proof (induction serials arbitrary: w)
  case (Cons serial serials)
  have "wp (case if wakeFailed err then err else None of None \<Rightarrow> firstM serials (\<lambda>serial. do {
      err \<leftarrow> prepareDevice e sp serial;
      returnM (if wakeFailed err then err else None) }) | Some err \<Rightarrow> returnM (Some err))
    (\<lambda>bad. preparing (bad = None) sps oc answers0) w1" if "preparing (\<not> wakeFailed err) sps oc answers0 w1" for err w1
    using that Cons.IH by (cases "wakeFailed err") (auto simp: wakeFailed_def [of None] split: option.split)
  then show ?case
    by (simp only: firstM.simps wp_bind wp_return) (rule wp_mono [OF preparing_prepareDevice [OF Cons.prems]])
qed simp

lemma preparing_setupDeviceAPI: "keeps (preparing strict sps oc answers0) (setupDeviceAPI e sp)"
  unfolding setupDeviceAPI_def
  by (intro keeps preparing.keeps_AddReverseForward preparing_setState) simp

section \<open>Asking\<close>

definition asking :: "world \<Rightarrow> world \<Rightarrow> bool" where
  "asking w0 w \<longleftrightarrow> w_scoped w = w_scoped w0 \<and> w_answers w = w_answers w0 \<and>
     (\<exists>asks. w_orchCalls w = w_orchCalls w0 @ asks \<and> list_all is_acquire asks)"

interpretation asking: world_invariant "asking w0" "\<lambda>_. False" for w0
  by unfold_locales (auto simp: asking_def)

lemma asking_acquireLoop: "is_acquire c \<Longrightarrow> keeps (asking w0) (acquireLoop e c n)"
proof (induction n)
  have call: "keeps (asking w0) (callOrch e c)" if "is_acquire c"
    unfolding callOrch_def
    by (intro keeps asking.keeps_tick keeps_modify) (use that in \<open>force simp: asking_def\<close>)
  case 0
  then show ?case using call by simp
next
  have call: "keeps (asking w0) (callOrch e c)" if "is_acquire c"
    unfolding callOrch_def
    by (intro keeps asking.keeps_tick keeps_modify) (use that in \<open>force simp: asking_def\<close>)
  case (Suc n)
  then show ?case
    by (simp, intro keeps call asking.keeps_tick)
qed

lemma asking_AcquireLock:
  "keeps (asking w0) (AcquireLock e serials cnt deadline job priority sameProxy tenantKey clientIP)"
  unfolding AcquireLock_def by (intro keeps asking_acquireLoop) (simp_all add: is_acquire_def)

lemma CreateScopedPort_post:
  "wp (CreateScopedPort e lockID serials remote) (\<lambda>r w'. w_orchCalls w' = w_orchCalls w \<and> w_answers w' = w_answers w \<and>
     (case r of Inl _ \<Rightarrow> w_scoped w' = w_scoped w
      | Inr sp \<Rightarrow> map_of (w_scoped w) lockID = None \<and> sp_lockID sp = lockID \<and> sp_serials sp = serials \<and>
          sp_remote sp = remote \<and> w_scoped w' = (lockID, sp) # w_scoped w)) w"
proof -
  have "put lockID sp (w_scoped w) = (lockID, sp) # w_scoped w" if "map_of (w_scoped w) lockID = None" for sp
    using that by (force simp: put_def del_def map_of_eq_None_iff intro!: filter_True)
  then show ?thesis
    by (auto simp: CreateScopedPort_def setState_def Let_def split: sum.split)
qed

lemma acquireFailed_post:
  assumes "preparing False ((sp_lockID sp, sp) # sps) oc answers0 w" and "map_of sps (sp_lockID sp) = None"
  shows "wp (acquireFailed e sp outcome err askedAt granted) (\<lambda>_ w'. w_scoped w' = sps \<and>
     (\<exists>es. w_orchCalls w' = oc @ [ReleaseCall (sp_lockID sp) ''error'' es])) w"
proof -
  let ?J = "preparing False ((sp_lockID sp, sp) # sps) oc answers0"
  have rel: "wp (Release e (sp_lockID sp) ''error'') (\<lambda>_ w'. w_scoped w' = sps \<and>
     (\<exists>es. w_orchCalls w' = oc @ [ReleaseCall (sp_lockID sp) ''error'' es])) w1" if "?J w1" for w1
  proof -
    have "del (sp_lockID sp) ((sp_lockID sp, sp) # sps) = sps"
      using assms(2) by (force simp: del_def map_of_eq_None_iff intro!: filter_True)
    then show ?thesis
      by (intro wp_mono [OF Release_post]) (use that in \<open>auto simp: preparing_def\<close>)
  qed
  have log: "wp (logExcerpt e sp (localSerials sp)) (\<lambda>_. ?J) w1" if "?J w1" for w1
    by (rule keeps_wp [OF preparing.keeps_logExcerpt that]) simp
  show ?thesis
    unfolding acquireFailed_def
    by (simp, rule wp_mono [OF keeps_wp [OF preparing.keeps_acquireEvents assms(1)]])
      (rule wp_mono [OF log], assumption, rule rel)
qed

lemma handOver_post:
  assumes "preparing True ((sp_lockID sp, sp) # sps) oc answers0 w" and "map_of sps (sp_lockID sp) = None"
  shows "wp (handOver e sp wifi wifiBand askedAt granted) (\<lambda>r w'. case r of
      Inl _ \<Rightarrow> w_scoped w' = sps \<and> (\<exists>es. w_orchCalls w' = oc @ [ReleaseCall (sp_lockID sp) ''error'' es])
    | Inr sp' \<Rightarrow> sp' = sp \<and> preparing True ((sp_lockID sp, sp) # sps) oc answers0 w') w"
    (is "wp _ ?Q w")
proof -
  let ?J = "\<lambda>strict. preparing strict ((sp_lockID sp, sp) # sps) oc answers0"
  have giveUp: "wp (do { acquireFailed e sp outcome err askedAt granted; returnM (Inl er) }) ?Q w1"
    if "?J strict w1" for outcome err er w1 strict
    by simp (rule wp_mono [OF acquireFailed_post [OF preparing_relax [OF that] assms(2)]], simp)
  have keep: "wp (do { acquireEvents e sp ''granted'' None askedAt granted; returnM (Inr sp) }) ?Q w1" if "?J True w1" for w1
    by simp (rule wp_mono [OF keeps_wp [OF preparing.keeps_acquireEvents that]], simp)
  have wifi: "wp (SetLockWifi e (sp_lockID sp) [] wifi wifiBand) (\<lambda>_. ?J True) w1" if "?J True w1" for w1
    by (rule keeps_wp [OF preparing.keeps_SetLockWifi that]) simp
  have online: "wp (do { setupDeviceAPI e sp;
      err \<leftarrow> SetLockWifi e (sp_lockID sp) [] wifi wifiBand;
      (if err \<noteq> None \<and> \<not> wifiUnmanaged err then do {
         acquireFailed e sp ''wifi_failed'' err askedAt granted; returnM (Inl (the err)) }
       else do { acquireEvents e sp ''granted'' None askedAt granted; returnM (Inr sp) }) }) ?Q w1" if "?J True w1" for w1
    by (subst wp_bind, rule wp_mono [OF keeps_wp [OF preparing_setupDeviceAPI that]], subst wp_bind,
        rule wp_mono [OF wifi], assumption, subst wp_if, auto intro!: giveUp keep simp del: wp_bind)
  show ?thesis
    unfolding handOver_def
  proof (subst wp_bind, rule wp_mono [OF preparing_wakeAll [OF assms(1)]])
    fix bad :: "goerr option" and w1
    assume w1: "?J (bad = None) w1"
    show "wp (case bad of Some err \<Rightarrow> do { acquireFailed e sp ''wake_failed'' (Some err) askedAt granted; returnM (Inl err) }
       | None \<Rightarrow> do { setupDeviceAPI e sp;
          err \<leftarrow> SetLockWifi e (sp_lockID sp) [] wifi wifiBand;
          (if err \<noteq> None \<and> \<not> wifiUnmanaged err then do {
             acquireFailed e sp ''wifi_failed'' err askedAt granted; returnM (Inl (the err)) }
           else do { acquireEvents e sp ''granted'' None askedAt granted; returnM (Inr sp) }) }) ?Q w1"
    proof (cases bad)
      case None
      then show ?thesis using online [of w1] w1 by (simp only: option.case simp_thms)
    next
      case (Some err)
      then show ?thesis using giveUp [OF w1] by (simp only: option.case)
    qed
  qed
qed

lemma takeGrant_post:
  "wp (takeGrant e lock wifi wifiBand askedAt) (\<lambda>r w'. case r of
       Inl _ \<Rightarrow> w_scoped w' = w_scoped w \<and>
         (\<exists>es. w_orchCalls w' = w_orchCalls w @ [ReleaseCall (lr_lockID lock) ''error'' es])
     | Inr sp \<Rightarrow> map_of (w_scoped w) (lr_lockID lock) = None \<and>
         w_scoped w' = (lr_lockID lock, sp) # w_scoped w \<and> w_orchCalls w' = w_orchCalls w \<and>
         sp_lockID sp = lr_lockID lock \<and> sp_serials sp = lr_serials lock \<and> sp_remote sp = lr_remote lock \<and>
         (\<exists>as. w_answers w' = w_answers w @ as \<and> list_all good_wake as)) w"
    (is "wp _ ?Q w")
proof -
  have made: "wp (case c of
         Inl err \<Rightarrow> do { _ \<leftarrow> ReleaseLock e (lr_lockID lock) ''error'' []; returnM (Inl err) }
       | Inr sp \<Rightarrow> handOver e sp wifi wifiBand askedAt granted) ?Q w1"
    if "w_orchCalls w1 = w_orchCalls w" "w_answers w1 = w_answers w"
      "case c of Inl _ \<Rightarrow> w_scoped w1 = w_scoped w
       | Inr sp \<Rightarrow> map_of (w_scoped w) (lr_lockID lock) = None \<and> sp_lockID sp = lr_lockID lock \<and>
          sp_serials sp = lr_serials lock \<and> sp_remote sp = lr_remote lock \<and> w_scoped w1 = (lr_lockID lock, sp) # w_scoped w"
    for c granted w1
  proof (cases c)
    case (Inr sp)
    have "preparing True ((sp_lockID sp, sp) # w_scoped w) (w_orchCalls w) (w_answers w) w1"
      using that Inr by (simp add: preparing_def)
    then have "wp (handOver e sp wifi wifiBand askedAt granted) ?Q w1"
      by (rule wp_mono [OF handOver_post]) (use that(3) Inr in \<open>auto simp: preparing_def split: sum.splits\<close>)
    then show ?thesis using Inr by simp
  qed (use that in \<open>simp add: ReleaseLock_def\<close>)
  have made': "wp (CreateScopedPort e (lr_lockID lock) (lr_serials lock) (lr_remote lock)) (\<lambda>c. wp (case c of
         Inl err \<Rightarrow> do { _ \<leftarrow> ReleaseLock e (lr_lockID lock) ''error'' []; returnM (Inl err) }
       | Inr sp \<Rightarrow> handOver e sp wifi wifiBand askedAt granted) ?Q) (w\<lparr>w_step := n\<rparr>)" for n granted
    by (rule wp_mono [OF CreateScopedPort_post], rule made) (auto split: sum.splits)
  show ?thesis
    unfolding takeGrant_def by (simp only: wp_bind wp_now made')
qed

text \<open>
  C7. Acquiring hands over a lock or leaves nothing behind. Let \<open>g\<close> be what the orchestrator's answer
  comes to. If it grants no lock, \<open>Acquire\<close> returns that error and has only asked. If it does, either
  \<open>Acquire\<close> returns the port of that lock with the granted devices, that port is new in the table and no
  phone's wake has failed since the grant; or it returns an error, the table is as before, and the lock
  has been released, once, with the status error.
\<close>

theorem acquire_all_or_nothing:
  "case run_state (do { _ \<leftarrow> now e; AcquireLock e requested cnt 30 job priority sameProxy tenantKey clientIP }) w of
     (g, wg) \<Rightarrow> asking w wg \<and>
     wp (Acquire e requested cnt job priority wifi wifiBand sameProxy tenantKey clientIP) (\<lambda>r w'. case g of
         Inl err \<Rightarrow> r = Inl err \<and> w' = wg
       | Inr lock \<Rightarrow> (case r of
           Inl _ \<Rightarrow> w_scoped w' = w_scoped w \<and>
             (\<exists>es. w_orchCalls w' = w_orchCalls wg @ [ReleaseCall (lr_lockID lock) ''error'' es])
         | Inr sp \<Rightarrow> map_of (w_scoped w) (lr_lockID lock) = None \<and>
             w_scoped w' = (lr_lockID lock, sp) # w_scoped w \<and> w_orchCalls w' = w_orchCalls wg \<and>
             sp_lockID sp = lr_lockID lock \<and> sp_serials sp = lr_serials lock \<and> sp_remote sp = lr_remote lock \<and>
             (\<exists>as. w_answers w' = w_answers wg @ as \<and> list_all good_wake as))) w"
proof -
  let ?lock = "AcquireLock e requested cnt 30 job priority sameProxy tenantKey clientIP"
  obtain g wg where g: "run_state (do { _ \<leftarrow> now e; ?lock }) w = (g, wg)" by fastforce
  have "keeps (asking w) (do { _ \<leftarrow> now e; ?lock })"
    by (intro keeps asking.keeps_now asking_AcquireLock)
  then have asked: "asking w wg"
    using keepsD [of "asking w" _ w] g by (fastforce simp: asking_def)
  have run: "wp (do { askedAt \<leftarrow> now e; r \<leftarrow> ?lock; k askedAt r }) Q w = wp (k (en_clock e (w_step w)) g) Q wg" for k Q
    using g by (simp add: wp_def now_def tick_def split: prod.splits)
  have "wp (Acquire e requested cnt job priority wifi wifiBand sameProxy tenantKey clientIP) Q w \<longleftrightarrow>
      wp (case g of Inl err \<Rightarrow> returnM (Inl err) | Inr lock \<Rightarrow> takeGrant e lock wifi wifiBand (en_clock e (w_step w))) Q wg" for Q
    unfolding Acquire_def by (rule run)
  then show ?thesis
    using asked wp_mono [OF takeGrant_post [of e _ wifi wifiBand "en_clock e (w_step w)" wg]] g
    by (cases g) (simp_all add: asking_def cong: sum.case_cong)
qed

section \<open>Keepalive\<close>

definition ship :: "lock_log \<Rightarrow> shipping" where
  "ship l = \<lparr>sh_log = l, sh_inflight = [], sh_sent = []\<rparr>"

text \<open>
  What a turn of the keepalive did with the log: nothing, a note, a drain that found nothing, one whose batch was
  taken by the orchestrator, one whose batch was put back. Each is a run of the lock log's operations.
\<close>

datatype ka_turn = Untouched | Noted lock_log_entry | Emptied "nat list" | Shipped "nat list" | PutBack "nat list"

fun turnOps :: "ka_turn \<Rightarrow> log_op list" where
  "turnOps Untouched = []"
| "turnOps (Noted entry) = [Note entry]"
| "turnOps (Emptied order) = [DrainBatch order]"
| "turnOps (Shipped order) = [DrainBatch order, SendOk]"
| "turnOps (PutBack order) = [DrainBatch order, SendFailed]"

fun batch :: "lock_log \<Rightarrow> ka_turn \<Rightarrow> lock_log_entry list" where
  "batch l (Emptied order) = snd (Drain l order)"
| "batch l (Shipped order) = snd (Drain l order)"
| "batch l (PutBack order) = snd (Drain l order)"
| "batch l _ = []"

text \<open>Whether a call got through: the send or the request, made at step \<open>n\<close>, returned without an error.\<close>

definition arrived :: "env \<Rightarrow> nat \<Rightarrow> orch_call \<Rightarrow> bool" where
  "arrived e n c = (case c of SessionSend m \<Rightarrow> en_send e n m = None | _ \<Rightarrow> or_err (en_orch e n c) = None)"

definition carries :: "bytes \<Rightarrow> lock_log_entry list \<Rightarrow> orch_call \<Rightarrow> bool" where
  "carries lockID es c \<longleftrightarrow> c = SessionSend (LockLogMsg lockID es) \<or> c = HeartbeatCall lockID es"

definition beats :: "bytes \<Rightarrow> orch_call \<Rightarrow> bool" where
  "beats lockID c \<longleftrightarrow> c = SessionSend (HeartbeatMsg lockID) \<or> (\<exists>es. c = HeartbeatCall lockID es)"

text \<open>
  The session carries messages at a step, or there is none and never will be, so that unary calls replace it. A turn
  may be silent only if it saw neither: the session was down at one of its steps and means to be back at one of them.
\<close>

definition upAt :: "env \<Rightarrow> nat \<Rightarrow> bool" where
  "upAt e n = (case en_session e n of None \<Rightarrow> False | Some ss \<Rightarrow> connected ss)"

definition unaryAt :: "env \<Rightarrow> nat \<Rightarrow> bool" where
  "unaryAt e n = (case en_session e n of None \<Rightarrow> True | Some ss \<Rightarrow> unaryFallback ss \<and> \<not> connected ss)"

definition silent :: "env \<Rightarrow> nat \<Rightarrow> nat \<Rightarrow> bool" where
  "silent e a b \<longleftrightarrow> list_ex (\<lambda>n. \<not> upAt e n) [a..<b] \<and> list_ex (\<lambda>n. \<not> unaryAt e n) [a..<b]"

lemma silentI:
  "\<lbrakk>a \<le> n; n < b; \<not> upAt e n; a \<le> k; k < b; \<not> unaryAt e k\<rbrakk> \<Longrightarrow> silent e a b"
  by (auto simp: silent_def list_ex_iff)

lemma upAt_not_unary: "upAt e n \<Longrightarrow> \<not> unaryAt e n"
  by (auto simp: upAt_def unaryAt_def split: option.splits)

lemma silent_widen: "\<lbrakk>silent e a' b'; a \<le> a'; b' \<le> b\<rbrakk> \<Longrightarrow> silent e a b"
  by (fastforce simp: silent_def list_ex_iff)

text \<open>
  The calls of a turn. A batch counts as shipped exactly when the call that carried it arrived; it was put back when no
  call carried it, or the one that did failed.
\<close>

fun turnCalls :: "env \<Rightarrow> bytes \<Rightarrow> lock_log_entry list \<Rightarrow> nat \<Rightarrow> ka_turn \<Rightarrow> orch_call list \<Rightarrow> bool" where
  "turnCalls e lockID es n (Shipped order) cs \<longleftrightarrow> es \<noteq> [] \<and> (\<exists>c. cs = [c] \<and> carries lockID es c \<and> arrived e n c)"
| "turnCalls e lockID es n (PutBack order) cs \<longleftrightarrow> es \<noteq> [] \<and>
     (cs = [] \<or> cs = [SessionSend (HeartbeatMsg lockID)] \<or> (\<exists>c. cs = [c] \<and> carries lockID es c \<and> \<not> arrived e n c))"
| "turnCalls e lockID es n t cs \<longleftrightarrow> es = [] \<and>
     (cs = [] \<or> cs = [SessionSend (HeartbeatMsg lockID)] \<or> cs = [HeartbeatCall lockID []])"

definition turned :: "env \<Rightarrow> scoped_port \<Rightarrow> lock_log \<Rightarrow> world \<Rightarrow> ka_turn \<Rightarrow> orch_call list \<Rightarrow> nat \<Rightarrow> world \<Rightarrow> bool" where
  "turned e sp l w t cs n w' \<longleftrightarrow> w_step w \<le> n \<and> n < w_step w' \<and>
     (\<exists>l'. log_run (ship l) (turnOps t) =
        \<lparr>sh_log = l', sh_inflight = [], sh_sent = (case t of Shipped _ \<Rightarrow> batch l t | _ \<Rightarrow> [])\<rparr> \<and>
        ps_log (stateOf w' sp) = Some l') \<and>
     w_orchCalls w' = w_orchCalls w @ cs \<and> turnCalls e (sp_lockID sp) (batch l t) n t cs"

fun isShipped :: "ka_turn \<Rightarrow> bool" where
  "isShipped (Shipped _) = True"
| "isShipped _ = False"

fun isNoted :: "ka_turn \<Rightarrow> bool" where
  "isNoted (Noted _) = True"
| "isNoted _ = False"

definition flushTurned :: "env \<Rightarrow> scoped_port \<Rightarrow> lock_log \<Rightarrow> bool \<Rightarrow> world \<Rightarrow> bool \<Rightarrow> world \<Rightarrow> bool" where
  "flushTurned e sp l flushed w r w' \<longleftrightarrow> (\<exists>t cs n. turned e sp l w t cs n w' \<and> \<not> isNoted t \<and>
     (t = Untouched \<longleftrightarrow> \<not> upAt e (w_step w)) \<and> (cs = [] \<and> batch l t \<noteq> [] \<longrightarrow> silent e (w_step w) (w_step w')) \<and>
     list_all (\<lambda>c. \<not> beats (sp_lockID sp) c) cs \<and> r = (flushed \<or> isShipped t))"

definition beatTurned :: "env \<Rightarrow> scoped_port \<Rightarrow> lock_log \<Rightarrow> bool \<Rightarrow> world \<Rightarrow> beat \<Rightarrow> world \<Rightarrow> bool" where
  "beatTurned e sp l flushed w r w' \<longleftrightarrow> (\<exists>t cs n. turned e sp l w t cs n w' \<and> (case r of
       Abandoned \<Rightarrow> isNoted t \<and> cs = [] \<and> 0 < en_idleTimeout e
     | Beating f \<Rightarrow> \<not> f \<and> \<not> isNoted t \<and>
         (if flushed then t = Untouched \<and> cs = []
          else list_all (beats (sp_lockID sp)) cs \<and> (cs = [] \<longrightarrow> silent e (w_step w) (w_step w')))
     | Expired \<Rightarrow> \<not> flushed \<and> (\<exists>es. cs = [HeartbeatCall (sp_lockID sp) es] \<and>
         or_err (en_orch e n (HeartbeatCall (sp_lockID sp) es)) = None \<and>
         \<not> or_flag (en_orch e n (HeartbeatCall (sp_lockID sp) es)))))"

lemmas turned_simps = turned_def log_run_def ship_def drainInto_def

lemma turned_idle:
  assumes "ps_log (stateOf w' sp) = Some l" and "w_step w \<le> n" "n < w_step w'" and "w_orchCalls w' = w_orchCalls w @ cs"
    and "cs = [] \<or> cs = [SessionSend (HeartbeatMsg (sp_lockID sp))] \<or> cs = [HeartbeatCall (sp_lockID sp) []]"
  shows "turned e sp l w Untouched cs n w'"
  using assms by (simp add: turned_simps)

lemma turned_note:
  assumes "ps_log (stateOf w' sp) = Some (recordEntry l entry)" and "w_step w \<le> n" "n < w_step w'"
    and "w_orchCalls w' = w_orchCalls w"
  shows "turned e sp l w (Noted entry) [] n w'"
  using assms by (simp add: turned_simps)

lemma turned_drain:
  assumes d: "Drain l order = (l', es)" and w: "w_step w \<le> n" "n < w_step w'" and cs: "w_orchCalls w' = w_orchCalls w @ cs"
  shows "es = [] \<Longrightarrow> ps_log (stateOf w' sp) = Some l' \<Longrightarrow>
      cs = [] \<or> cs = [SessionSend (HeartbeatMsg (sp_lockID sp))] \<or> cs = [HeartbeatCall (sp_lockID sp) []] \<Longrightarrow>
      turned e sp l w (Emptied order) cs n w'"
    and "es \<noteq> [] \<Longrightarrow> ps_log (stateOf w' sp) = Some l' \<Longrightarrow> cs = [c] \<Longrightarrow> carries (sp_lockID sp) es c \<Longrightarrow> arrived e n c \<Longrightarrow>
      turned e sp l w (Shipped order) cs n w'"
    and "es \<noteq> [] \<Longrightarrow> ps_log (stateOf w' sp) = Some (Requeue l' es) \<Longrightarrow>
      cs = [] \<or> cs = [SessionSend (HeartbeatMsg (sp_lockID sp))] \<or>
        (\<exists>c. cs = [c] \<and> carries (sp_lockID sp) es c \<and> \<not> arrived e n c) \<Longrightarrow>
      turned e sp l w (PutBack order) cs n w'"
  using assms by (simp_all add: turned_simps)

lemma wp_drainWith:
  "ps_log (stateOf w sp) = Some l \<Longrightarrow> wp (drainWith f e sp) Q w = (case f l (en_tunnels e (w_step w)) of (l', es) \<Rightarrow>
     Q es (w\<lparr>w_step := Suc (w_step w), w_ports := (w_ports w)(sp_ref sp := (w_ports w (sp_ref sp))\<lparr>ps_log := Some l'\<rparr>)\<rparr>))"
  by (simp add: drainWith_def setState_def stateOf_def split: prod.split)

lemma wp_sessionUp:
  "wp (sessionUp e) Q w = Q (case en_session e (w_step w) of None \<Rightarrow> False | Some ss \<Rightarrow> connected ss) (w\<lparr>w_step := Suc (w_step w)\<rparr>)"
  by (simp add: sessionUp_def)

lemma wp_bind_session:
  "wp (State_Monad.bind (sessionUp e) k) Q w =
    wp (k (case en_session e (w_step w) of None \<Rightarrow> False | Some ss \<Rightarrow> connected ss)) Q (w\<lparr>w_step := Suc (w_step w)\<rparr>)"
  "wp (State_Monad.bind (reconnecting e) k) Q w =
    wp (k (case en_session e (w_step w) of None \<Rightarrow> False | Some ss \<Rightarrow> \<not> unaryFallback ss)) Q (w\<lparr>w_step := Suc (w_step w)\<rparr>)"
  by (simp_all add: wp_sessionUp reconnecting_def)

lemma wp_bind_read:
  "wp (State_Monad.bind (now e) k) Q w = wp (k (en_clock e (w_step w))) Q (w\<lparr>w_step := Suc (w_step w)\<rparr>)"
  "wp (State_Monad.bind getM k2) Q w = wp (k2 w) Q w"
  by (simp_all add: now_def)

lemma wp_bind_drainWith:
  assumes "ps_log (stateOf w sp) = Some l" and "f l (en_tunnels e (w_step w)) = (l', es)"
  shows "wp (State_Monad.bind (drainWith f e sp) k) Q w = wp (k es) Q
    (w\<lparr>w_step := Suc (w_step w), w_ports := (w_ports w)(sp_ref sp := (w_ports w (sp_ref sp))\<lparr>ps_log := Some l'\<rparr>)\<rparr>)"
  using assms(2) by (simp add: wp_drainWith [OF assms(1)])

lemma sendEnd_None [simp]: "snd (sendEnd ss st res) = None \<longleftrightarrow> res = None"
  by (auto simp: sendEnd_def split: option.split)

text \<open>A send: nothing was sent, or the message went out at a step and the error says whether it arrived.\<close>

lemma sessSend_post:
  "wp (sessSend e m) (\<lambda>err w'. w_ports w' = w_ports w \<and> w_step w < w_step w' \<and>
     (err \<noteq> None \<and> w_orchCalls w' = w_orchCalls w \<and> (\<exists>n. w_step w \<le> n \<and> n < w_step w' \<and> \<not> upAt e n) \<or>
      w_orchCalls w' = w_orchCalls w @ [SessionSend m] \<and>
      (\<exists>n. w_step w \<le> n \<and> n < w_step w' \<and> (err = None \<longleftrightarrow> en_send e n m = None)))) w"
proof (cases "upAt e (w_step w)")
  case True
  then obtain ss st where "en_session e (w_step w) = Some ss" "ss_stream ss = Some st"
    by (auto simp: upAt_def connected_def split: option.splits)
  then show ?thesis by (simp add: sessSend_def sendBegin_def exI [of _ "Suc (w_step w)"])
next
  case False
  then show ?thesis
    by (auto simp: sessSend_def sendBegin_def upAt_def connected_def split: option.splits intro!: exI [of _ "w_step w"])
qed

lemma SendLockLog_post:
  "wp (SendLockLog e lockID es) (\<lambda>err w'. w_ports w' = w_ports w \<and> w_step w < w_step w' \<and>
     (err \<noteq> None \<and> w_orchCalls w' = w_orchCalls w \<and> (\<exists>n. w_step w \<le> n \<and> n < w_step w' \<and> \<not> upAt e n) \<or>
      w_orchCalls w' = w_orchCalls w @ [SessionSend (LockLogMsg lockID es)] \<and>
      (\<exists>n. w_step w \<le> n \<and> n < w_step w' \<and> (err = None \<longleftrightarrow> en_send e n (LockLogMsg lockID es) = None)))) w"
proof (cases "upAt e (w_step w)")
  case True
  then have up: "(case en_session e (w_step w) of None \<Rightarrow> False | Some ss \<Rightarrow> connected ss) = True" by (simp add: upAt_def)
  show ?thesis
    unfolding SendLockLog_def wp_bind_session up not_True_eq_False if_False
    by (rule wp_mono [OF sessSend_post]) (auto dest: Suc_leD)
next
  case False
  then have up: "(case en_session e (w_step w) of None \<Rightarrow> False | Some ss \<Rightarrow> connected ss) = False" by (simp add: upAt_def)
  show ?thesis
    unfolding SendLockLog_def wp_bind_session up not_False_eq_True if_True
    using False by (auto intro!: exI [of _ "w_step w"])
qed

text \<open>A heartbeat: on the stream, without the log; by a call of its own, with it; or, while the session reconnects, not at all.\<close>

definition heartbeatPost :: "env \<Rightarrow> bytes \<Rightarrow> lock_log_entry list \<Rightarrow> world \<Rightarrow> bool \<times> lock_log_entry list \<times> goerr option \<Rightarrow> world \<Rightarrow> bool" where
  "heartbeatPost e lockID es w r w' \<longleftrightarrow> (case r of (alive, unsent, err) \<Rightarrow> w_ports w' = w_ports w \<and> w_step w < w_step w' \<and>
     (err \<noteq> None \<and> unsent = es \<and> w_orchCalls w' = w_orchCalls w \<and> silent e (w_step w) (w_step w') \<or>
      unsent = es \<and> (alive \<longleftrightarrow> err = None) \<and> w_orchCalls w' = w_orchCalls w @ [SessionSend (HeartbeatMsg lockID)] \<or>
      w_orchCalls w' = w_orchCalls w @ [HeartbeatCall lockID es] \<and>
      (\<exists>n. w_step w \<le> n \<and> n < w_step w' \<and> (case or_err (en_orch e n (HeartbeatCall lockID es)) of
         Some er \<Rightarrow> err = Some er \<and> unsent = es
       | None \<Rightarrow> err = None \<and> unsent = [] \<and> alive = or_flag (en_orch e n (HeartbeatCall lockID es))))))"

lemma LockHeartbeat_post: "wp (LockHeartbeat e lockID es) (heartbeatPost e lockID es w) w"
proof (cases "upAt e (w_step w)")
  case True
  then have up: "(case en_session e (w_step w) of None \<Rightarrow> False | Some ss \<Rightarrow> connected ss) = True" by (simp add: upAt_def)
  have post: "heartbeatPost e lockID es w (err = None, es, err) w'"
    if w': "w_ports w' = w_ports w" "Suc (w_step w) < w_step w'"
      and r: "err \<noteq> None \<and> w_orchCalls w' = w_orchCalls w \<and> (\<exists>n. Suc (w_step w) \<le> n \<and> n < w_step w' \<and> \<not> upAt e n) \<or>
        w_orchCalls w' = w_orchCalls w @ [SessionSend (HeartbeatMsg lockID)]" for err w'
  proof (cases "w_orchCalls w' = w_orchCalls w")
    case True
    with r obtain n where "Suc (w_step w) \<le> n" "n < w_step w'" "\<not> upAt e n" by auto
    then have "silent e (w_step w) (w_step w')"
      using w' upAt_not_unary [OF \<open>upAt e (w_step w)\<close>] by (intro silentI [of _ n _ _ "w_step w"]) simp_all
    then show ?thesis using w' r True by (auto simp: heartbeatPost_def)
  next
    case False
    then show ?thesis using w' r by (auto simp: heartbeatPost_def)
  qed
  show ?thesis
    unfolding LockHeartbeat_def wp_bind_session up if_True
    by (subst wp_bind, rule wp_mono [OF sessSend_post]) (simp, use post in blast)
next
  case False
  then have up: "(case en_session e (w_step w) of None \<Rightarrow> False | Some ss \<Rightarrow> connected ss) = False" by (simp add: upAt_def)
  have call: "wp (do { r \<leftarrow> callOrch e (HeartbeatCall lockID es);
      returnM (case or_err r of Some err \<Rightarrow> (False, es, Some err) | None \<Rightarrow> (or_flag r, [], None)) })
      (heartbeatPost e lockID es w) (w\<lparr>w_step := Suc (Suc (w_step w))\<rparr>)"
    by (simp add: callOrch_def heartbeatPost_def split: option.split)
      (auto intro!: exI [of _ "Suc (Suc (w_step w))"])
  have wait: "heartbeatPost e lockID es w (False, es, Some SessionDown) (w\<lparr>w_step := Suc (Suc (w_step w))\<rparr>)"
    if "case en_session e (Suc (w_step w)) of None \<Rightarrow> False | Some ss \<Rightarrow> \<not> unaryFallback ss"
  proof -
    from that have "\<not> unaryAt e (Suc (w_step w))" by (auto simp: unaryAt_def split: option.splits)
    then have "silent e (w_step w) (Suc (Suc (w_step w)))"
      using False by (intro silentI [of _ "w_step w" _ _ "Suc (w_step w)"]) simp_all
    then show ?thesis by (simp add: heartbeatPost_def)
  qed
  show ?thesis
    unfolding LockHeartbeat_def wp_bind_session up if_False
    using call wait by (simp add: wp_bind_session del: wp_bind)
qed

text \<open>What is left of a beat once the batch is drained: the heartbeat, and back with what was not taken.\<close>

definition beatRest :: "env \<Rightarrow> scoped_port \<Rightarrow> lock_log_entry list \<Rightarrow> beat act" where
  "beatRest e sp es = do { (alive, unsent, err) \<leftarrow> LockHeartbeat e (sp_lockID sp) es;
        whenM (unsent \<noteq> []) (requeue sp unsent);
        (if err \<noteq> None then returnM (Beating False)
         else if \<not> alive then returnM Expired
         else returnM (Beating False)) }"

lemma flush_turned:
  assumes l: "ps_log (stateOf w sp) = Some l"
  shows "wp (flushTick e sp flushed) (flushTurned e sp l flushed w) w"
proof -
  let ?w = "w\<lparr>w_step := Suc (w_step w)\<rparr>"
  obtain l' es where d: "Drain l (en_tunnels e (w_step ?w)) = (l', es)" by fastforce
  let ?w1 = "?w\<lparr>w_step := Suc (w_step ?w), w_ports := (w_ports w)(sp_ref sp := (w_ports w (sp_ref sp))\<lparr>ps_log := Some l'\<rparr>)\<rparr>"
  have up: "ps_log (stateOf ?w sp) = Some l" using l by (simp add: stateOf_def)
  have quiet: "flushTurned e sp l flushed w flushed ?w"
    if "\<not> upAt e (w_step w)"
    using turned_idle [OF up, of w "w_step w" "[]" e] that by (force simp: flushTurned_def)
  have found: "flushTurned e sp l flushed w flushed ?w1" if "es = []" "upAt e (w_step w)"
    unfolding flushTurned_def
    by (rule exI [of _ "Emptied (en_tunnels e (w_step ?w))"], rule exI [of _ "[]"], rule exI [of _ "w_step w"])
      (use turned_drain(1) [OF d, of w "w_step w" ?w1 "[]" sp e] that d in \<open>simp add: stateOf_def\<close>)
  have ship: "wp (do { err \<leftarrow> SendLockLog e (sp_lockID sp) es;
           (if err \<noteq> None then do { requeue sp es; returnM flushed } else returnM True) })
      (flushTurned e sp l flushed w) ?w1" if "es \<noteq> []" and at: "upAt e (w_step w)"
  proof (simp only: wp_bind wp_if wp_return, rule wp_mono [OF SendLockLog_post], elim conjE)
    fix err and w' :: world
    assume w': "w_ports w' = w_ports ?w1" "w_step ?w1 < w_step w'"
      and r: "err \<noteq> None \<and> w_orchCalls w' = w_orchCalls ?w1 \<and> (\<exists>n\<ge>w_step ?w1. n < w_step w' \<and> \<not> upAt e n) \<or>
        w_orchCalls w' = w_orchCalls ?w1 @ [SessionSend (LockLogMsg (sp_lockID sp) es)] \<and>
        (\<exists>n\<ge>w_step ?w1. n < w_step w' \<and> (err = None) = (en_send e n (LockLogMsg (sp_lockID sp) es) = None))"
    let ?c = "SessionSend (LockLogMsg (sp_lockID sp) es)"
    have c: "carries (sp_lockID sp) es ?c" "\<not> beats (sp_lockID sp) ?c" by (simp_all add: carries_def beats_def)
    have log: "ps_log (stateOf w' sp) = Some l'" using w'(1) by (simp add: stateOf_def)
    show "(if err \<noteq> None then wp (requeue sp es) (\<lambda>_. flushTurned e sp l flushed w flushed)
      else flushTurned e sp l flushed w True) w'"
    proof (cases err)
      case None
      with r obtain n where n: "w_orchCalls w' = w_orchCalls w @ [?c]" "w_step w \<le> n" "n < w_step w'" "arrived e n ?c"
        by (simp add: arrived_def) (meson Suc_leD)
      show ?thesis
        using turned_drain(2) [OF d n(2,3,1) that(1) log refl c(1) n(4)] c(2) None at n(1)
        by (force simp: flushTurned_def)
    next
      case (Some er)
      let ?w' = "w'\<lparr>w_ports := (w_ports w')(sp_ref sp := (w_ports w' (sp_ref sp))\<lparr>ps_log := Some (Requeue l' es)\<rparr>)\<rparr>"
      have log': "ps_log (stateOf ?w' sp) = Some (Requeue l' es)" by (simp add: stateOf_def)
      have down: "silent e (w_step w) (w_step w')" if "Suc (Suc (w_step w)) \<le> n" "n < w_step w'" "\<not> upAt e n" for n
        using that upAt_not_unary [OF at] by (intro silentI [of _ n _ _ "w_step w"]) simp_all
      obtain n cs where n: "w_orchCalls ?w' = w_orchCalls w @ cs" "w_step w \<le> n" "n < w_step ?w'"
        "cs = [] \<and> silent e (w_step w) (w_step ?w') \<or> cs = [?c] \<and> \<not> arrived e n ?c"
        using r
      proof (elim disjE conjE exE)
        fix n
        assume n: "w_orchCalls w' = w_orchCalls ?w1" "w_step ?w1 \<le> n" "n < w_step w'" "\<not> upAt e n"
        show thesis using n down by (intro that [of "[]" n]) simp_all
      next
        fix n
        assume n: "w_orchCalls w' = w_orchCalls ?w1 @ [?c]" "w_step ?w1 \<le> n" "n < w_step w'"
          "(err = None) = (en_send e n (LockLogMsg (sp_lockID sp) es) = None)"
        show thesis using n Some by (intro that [of "[?c]" n]) (simp_all add: arrived_def)
      qed
      then have "flushTurned e sp l flushed w flushed ?w'"
        using turned_drain(3) [OF d n(2,3,1) that(1) log'] c at by (force simp: flushTurned_def)
      then show ?thesis using Some log by (simp add: requeue_def setState_def stateOf_def)
    qed
  qed
  note drained = wp_bind_session upAt_def [symmetric] wp_bind_drainWith [where f = Drain, OF up d]
  show ?thesis
    unfolding flushTick_def using quiet found ship
    by (cases "es = []") (simp_all add: drained del: wp_bind)
qed

lemma beatRest_turned:
  assumes d: "es = [] \<and> ps_log (stateOf w1 sp) = Some l \<or> Drain l order = (l', es) \<and> ps_log (stateOf w1 sp) = Some l'"
    and w1: "w_step w \<le> w_step w1" "w_orchCalls w1 = w_orchCalls w"
  shows "wp (beatRest e sp es) (beatTurned e sp l False w) w1"
  unfolding beatRest_def wp_bind
proof (rule wp_mono [OF LockHeartbeat_post])
  fix r and w' :: world
  assume post: "heartbeatPost e (sp_lockID sp) es w1 r w'"
  obtain alive unsent err where r: "r = (alive, unsent, err)" by (metis prod.exhaust)
  let ?beat = "SessionSend (HeartbeatMsg (sp_lockID sp))" and ?call = "HeartbeatCall (sp_lockID sp) es"
  let ?w' = "w'\<lparr>w_ports := (w_ports w')(sp_ref sp := (w_ports w' (sp_ref sp))\<lparr>ps_log :=
     map_option (\<lambda>l. Requeue l unsent) (ps_log (w_ports w' (sp_ref sp)))\<rparr>)\<rparr>"
  let ?fin = "if unsent \<noteq> [] then ?w' else w'"
  let ?r = "if err \<noteq> None then Beating False else if \<not> alive then Expired else Beating False"
  have ports: "w_ports w' = w_ports w1" and step: "w_step w \<le> w_step w1" "w_step w1 < w_step w'"
    using post w1 by (simp_all add: heartbeatPost_def r)
  have b: "beats (sp_lockID sp) ?beat" "beats (sp_lockID sp) ?call" "carries (sp_lockID sp) es ?call"
    by (simp_all add: beats_def carries_def)
  have "beatTurned e sp l False w ?r ?fin"
  proof (cases "w_orchCalls w' = w_orchCalls w1 @ [?call] \<and> unsent = [] \<and> err = None")
    case True
    then obtain n where n: "w_step w1 \<le> n" "n < w_step w'" "or_err (en_orch e n ?call) = None" "alive = or_flag (en_orch e n ?call)"
      using post by (auto simp: heartbeatPost_def r split: option.splits)
    have c: "w_orchCalls ?fin = w_orchCalls w @ [?call]" "arrived e n ?call" "w_step w \<le> n" "n < w_step ?fin"
      using True w1 n by (simp_all add: arrived_def)
    have "\<exists>t. turned e sp l w t [?call] n ?fin \<and> \<not> isNoted t"
    proof (cases "es = []")
      case True
      then consider "ps_log (stateOf ?fin sp) = Some l" | "Drain l order = (l', es)" "ps_log (stateOf ?fin sp) = Some l'"
        using d ports \<open>_ \<and> unsent = [] \<and> _\<close> by (auto simp: stateOf_def)
      then show ?thesis
        using turned_idle [of ?fin sp l w n "[?call]" e] turned_drain(1) [OF _ c(3,4,1), of l order l' es sp e] c True
        by cases (metis isNoted.simps(2) isNoted.simps(3))+
    next
      case False
      then have "Drain l order = (l', es)" "ps_log (stateOf ?fin sp) = Some l'"
        using d ports \<open>_ \<and> unsent = [] \<and> _\<close> by (auto simp: stateOf_def)
      with turned_drain(2) [OF this(1) c(3,4,1) False this(2) refl b(3) c(2)] show ?thesis by (metis isNoted.simps(4))
    qed
    then show ?thesis using n True b(2) by (fastforce simp: beatTurned_def)
  next
    case False
    have kept: "unsent = es \<and> (err = None \<longrightarrow> alive) \<and> (\<exists>n cs. w_step w1 \<le> n \<and> n < w_step w' \<and> w_orchCalls w' = w_orchCalls w1 @ cs \<and>
        (cs = [] \<and> silent e (w_step w) (w_step w') \<or> cs = [?beat] \<or> cs = [?call] \<and> \<not> arrived e n ?call))"
      using post False step silent_widen [of e "w_step w1" "w_step w'" "w_step w" "w_step w'"]
      unfolding heartbeatPost_def r arrived_def
      by (fastforce split: option.splits)
    then obtain n cs where n: "w_step w1 \<le> n" "n < w_step w'" "w_orchCalls w' = w_orchCalls w1 @ cs"
        "cs = [] \<and> silent e (w_step w) (w_step w') \<or> cs = [?beat] \<or> cs = [?call] \<and> \<not> arrived e n ?call" and u: "unsent = es" by blast
    have c: "w_orchCalls ?fin = w_orchCalls w @ cs" "w_step w \<le> n" "n < w_step ?fin"
      using n w1 by simp_all
    have "\<exists>t. turned e sp l w t cs n ?fin \<and> \<not> isNoted t"
    proof (cases "es = []")
      case True
      then have cs: "cs = [] \<or> cs = [?beat] \<or> cs = [HeartbeatCall (sp_lockID sp) []]" using n by auto
      from True consider "ps_log (stateOf ?fin sp) = Some l" | "Drain l order = (l', es)" "ps_log (stateOf ?fin sp) = Some l'"
        using d ports u by (auto simp: stateOf_def)
      then show ?thesis
        using turned_idle [OF _ c(2,3,1) cs, of l e] turned_drain(1) [OF _ c(2,3,1) True _ cs, of l order l' e]
        by cases (metis isNoted.simps(2) isNoted.simps(3))+
    next
      case False
      then have "Drain l order = (l', es)" "ps_log (stateOf ?fin sp) = Some (Requeue l' es)"
        using d ports u by (auto simp: stateOf_def)
      with turned_drain(3) [OF this(1) c(2,3,1) False this(2), of e] n(4) b(3) show ?thesis by (metis isNoted.simps(5))
    qed
    then obtain t where t: "turned e sp l w t cs n ?fin" "\<not> isNoted t" by blast
    have "list_all (beats (sp_lockID sp)) cs \<and> (cs = [] \<longrightarrow> silent e (w_step w) (w_step ?fin))" using n(4) b by auto
    moreover have "?r = Beating False" using kept by auto
    ultimately show ?thesis unfolding beatTurned_def using t by (intro exI [of _ t] exI [of _ cs] exI [of _ n]) simp
  qed
  then show "wp (case r of (alive, unsent, err) \<Rightarrow> do { whenM (unsent \<noteq> []) (requeue sp unsent);
        (if err \<noteq> None then returnM (Beating False) else if \<not> alive then returnM Expired else returnM (Beating False)) })
      (beatTurned e sp l False w) w'"
    by (simp add: r requeue_def setState_def split: if_splits)
qed

lemma beat_turned:
  assumes l: "ps_log (stateOf w sp) = Some l"
  shows "wp (beatTick e sp flushed) (beatTurned e sp l flushed w) w"
proof -
  let ?w = "w\<lparr>w_step := Suc (w_step w)\<rparr>"
  have up: "ps_log (stateOf ?w sp) = Some l" "ps_log (stateOf (?w\<lparr>w_step := Suc (w_step ?w)\<rparr>) sp) = Some l"
    using l by (simp_all add: stateOf_def)
  obtain l' es where d: "Drain l (en_tunnels e (w_step (?w\<lparr>w_step := Suc (w_step ?w)\<rparr>))) = (l', es)" by fastforce
  have beat: "wp (do { up \<leftarrow> sessionUp e; entries \<leftarrow> (if \<not> up then drainWith Drain e sp else returnM []); beatRest e sp entries })
      (beatTurned e sp l False w) ?w"
  proof (cases "case en_session e (w_step ?w) of None \<Rightarrow> False | Some ss \<Rightarrow> connected ss")
    case True
    then show ?thesis
      using beatRest_turned [of "[]" "?w\<lparr>w_step := Suc (w_step ?w)\<rparr>" sp l] up(2)
      by (simp add: wp_bind_session del: wp_bind)
  next
    case False
    have up': "(case en_session e (w_step ?w) of None \<Rightarrow> False | Some ss \<Rightarrow> connected ss) = False" using False by simp
    show ?thesis
      unfolding wp_bind_session up' not_False_eq_True if_True wp_bind_drainWith [where f = Drain, OF up(2) d]
      by (rule beatRest_turned [where l' = l', OF disjI2, OF conjI, OF d]) (simp_all add: stateOf_def)
  qed
  have quiet: "beatTurned e sp l True w (Beating False) ?w"
    using turned_idle [OF up(1), of w "w_step w" "[]" e] by (force simp: beatTurned_def)
  have gone: "wp (do { noteService e sp [] msg; returnM Abandoned }) (beatTurned e sp l flushed w) ?w" if "0 < en_idleTimeout e" for msg
  proof -
    have "ps_log (stateOf (w\<lparr>w_step := n, w_ports := (w_ports w)(sp_ref sp := (w_ports w (sp_ref sp))\<lparr>ps_log :=
        Record (ps_log (w_ports w (sp_ref sp))) (Some entry)\<rparr>)\<rparr>) sp) = Some (recordEntry l entry)" for n entry
      using l by (simp add: stateOf_def Record_def)
    from turned_note [OF this, of w "w_step w"] show ?thesis
      using that by (simp add: noteService_def recordLog_def beatTurned_def) (metis isNoted.simps(1) less_SucI lessI order_refl)
  qed
  show ?thesis
    unfolding beatTick_def Let_def using beat quiet gone
    by - (rule bool.exhaust [of flushed]; hypsubst; simp add: beatRest_def wp_bind_read del: wp_bind not_None_eq)
qed

text \<open>
  C19. Whatever the session, the send and the heartbeat do, a turn of the keepalive (lock_keepalive.go,
  \<open>runKeepalive\<close>) is a run of the lock log's operations, and the log after it is the one that run leaves: a flush or
  a heartbeat touches nothing, or drains a batch that its one call carries. The batch counts as shipped exactly when
  that call came back without an error; if it failed, or no call was made, exactly this batch is put back. A flush
  drains the log exactly when the session is up, never heartbeats, and sets the flag that spares the next heartbeat
  exactly when its batch was taken. A beat with the flag set makes no call and clears it; a beat without it calls a
  heartbeat of this lock and nothing else, and the lock is over for it exactly when the orchestrator answered that call
  and said so, or when the lock has been idle. A batch goes unsent, or a heartbeat unmade, only while the session is
  down and means to reconnect.
\<close>

theorem keepalive_refines_log:
  shows "case ps_log (stateOf w sp) of None \<Rightarrow> True
    | Some l \<Rightarrow> wp (flushTick e sp flushed) (flushTurned e sp l flushed w) w \<and>
        wp (beatTick e sp flushed) (beatTurned e sp l flushed w) w"
  using flush_turned beat_turned by (auto split: option.split)

end
