(* ===== verification/HttpApi.thy ===== *)
theory HttpApi
  imports LockLife LockGrant
begin

text \<open>
  \<open>internal/proxy/http_api.go\<close>: the requests runners and device sources make of the proxy. A request is
  its headers, its parsed query and its decoded body; a response is a status code and the value that is
  written as JSON, or nothing. Wi-Fi statistics, which the proxy only hands on, are left out of a device.
\<close>

section \<open>Requests and responses\<close>

record device_report =
  dr_sourceAddr :: bytes
  dr_version :: bytes
  dr_devices :: "device_info list"

record request =
  rq_apiKey :: bytes
  rq_deviceToken :: bytes
  rq_query :: "(bytes \<times> bytes list) list"
  rq_remoteAddr :: bytes
  rq_body :: "device_report option"

definition paramValues :: "request \<Rightarrow> bytes \<Rightarrow> bytes list" where
  "paramValues rq k = (case map_of (rq_query rq) k of None \<Rightarrow> [] | Some vs \<Rightarrow> vs)"

definition getq :: "request \<Rightarrow> bytes \<Rightarrow> bytes" where
  "getq rq k = (case paramValues rq k of [] \<Rightarrow> [] | v # _ \<Rightarrow> v)"

record port_info =
  pi_lockID :: bytes
  pi_serials :: "bytes list"
  pi_port :: int
  pi_ageMs :: int

record dev_info =
  di_serial :: bytes
  di_lastReboot :: bytes
  di_warning :: bytes

datatype body =
    ErrorBody bytes
  | StatusBody bytes
  | Granted bytes "bytes list" int bytes int
  | Overview "port_info list" "dev_info list" bytes

type_synonym response = "(int \<times> body) option"

definition writeJSON :: "int \<Rightarrow> body \<Rightarrow> response" where
  "writeJSON status data = Some (status, data)"

definition fail :: "int \<Rightarrow> bytes \<Rightarrow> response" where
  "fail status msg = writeJSON status (ErrorBody msg)"

section \<open>Package strings, strconv and net\<close>

text \<open>
  \<open>strings.TrimSpace\<close> in full: the space runes past ASCII, and how many bytes of space a string begins
  and ends with.
\<close>

definition spaceRunes :: "bytes list" where
  "spaceRunes = [[CHR 0xC2, CHR 0x85], [CHR 0xC2, CHR 0xA0], [CHR 0xE1, CHR 0x9A, CHR 0x80]]
     @ map (\<lambda>b. [CHR 0xE2, CHR 0x80, b]) [CHR 0x80, CHR 0x81, CHR 0x82, CHR 0x83, CHR 0x84, CHR 0x85,
         CHR 0x86, CHR 0x87, CHR 0x88, CHR 0x89, CHR 0x8A, CHR 0xA8, CHR 0xA9, CHR 0xAF]
     @ [[CHR 0xE2, CHR 0x81, CHR 0x9F], [CHR 0xE3, CHR 0x80, CHR 0x80]]"

definition spaceStart :: "bytes \<Rightarrow> nat" where
  "spaceStart s = (case s of [] \<Rightarrow> 0
     | c # _ \<Rightarrow> if isSpace c then 1
        else (case find (\<lambda>r. HasPrefix s r) spaceRunes of None \<Rightarrow> 0 | Some r \<Rightarrow> length r))"

definition spaceEnd :: "bytes \<Rightarrow> nat" where
  "spaceEnd s = (if s = [] then 0 else if isSpace (last s) then 1
     else (case find (\<lambda>r. HasSuffix s r) spaceRunes of None \<Rightarrow> 0 | Some r \<Rightarrow> length r))"

function trimStart :: "bytes \<Rightarrow> bytes" where
  "trimStart s = (if s = [] \<or> spaceStart s = 0 then s else trimStart (drop (spaceStart s) s))"
  by auto
termination by (relation "measure length") auto

function trimEnd :: "bytes \<Rightarrow> bytes" where
  "trimEnd s = (if s = [] \<or> spaceEnd s = 0 then s else trimEnd (take (length s - spaceEnd s) s))"
  by auto
termination by (relation "measure length") auto

declare trimStart.simps [simp del] trimEnd.simps [simp del]

definition Trim :: "bytes \<Rightarrow> bytes" where
  "Trim s = trimEnd (trimStart s)"

text \<open>A comma-separated parameter without its empty items.\<close>

definition items :: "bytes \<Rightarrow> bytes list" where
  "items s = filter (\<lambda>x. x \<noteq> []) (map Trim (Split s (CHR '','')))"

definition ParseBool :: "bytes \<Rightarrow> bool option" where
  "ParseBool s = (if s \<in> {''1'', ''t'', ''T'', ''true'', ''TRUE'', ''True''} then Some True
     else if s \<in> {''0'', ''f'', ''F'', ''false'', ''FALSE'', ''False''} then Some False else None)"

definition intParam :: "nat \<Rightarrow> bytes \<Rightarrow> int option" where
  "intParam bits s = (case ParseInt 10 bits s of POk n \<Rightarrow> Some n | _ \<Rightarrow> None)"

text \<open>The host of \<open>net.SplitHostPort\<close>, \<open>None\<close> when that is an error.\<close>

definition splitHost :: "bytes \<Rightarrow> bytes option" where
  "splitHost hp = (case LastIndexByte hp (CHR '':'') of
       None \<Rightarrow> None
     | Some i \<Rightarrow>
         if hd hp = CHR ''['' then
           (case Index hp '']'' of
               None \<Rightarrow> None
             | Some stop \<Rightarrow>
                 if stop + 1 \<noteq> i then None
                 else if CHR ''['' \<in> set (drop 1 hp) \<or> CHR '']'' \<in> set (drop (stop + 1) hp) then None
                 else Some (take (stop - 1) (drop 1 hp)))
         else if CHR '':'' \<in> set (take i hp) \<or> CHR ''['' \<in> set hp \<or> CHR '']'' \<in> set hp then None
         else Some (take i hp))"

definition clientIP :: "request \<Rightarrow> bytes" where
  "clientIP rq = (case splitHost (rq_remoteAddr rq) of Some host \<Rightarrow> host | None \<Rightarrow> rq_remoteAddr rq)"

section \<open>State\<close>

text \<open>What other goroutines do to the tracker: record another report, publish a snapshot taken earlier, reap.\<close>

datatype tracker_move =
    MoveRecord int bytes bytes "device_info list"
  | MovePublish "device_info list \<times> (bytes \<times> bytes) list"
  | MoveReap int "bytes list"

fun trackerMove :: "tracker \<Rightarrow> tracker_move \<Rightarrow> tracker" where
  "trackerMove t (MoveRecord t0 sourceAddr version devices) = recordSource t t0 sourceAddr version devices"
| "trackerMove t (MovePublish snap) = publish t snap"
| "trackerMove t (MoveReap t0 order) = reapStale t t0 order"

text \<open>
  \<open>UpdateDevices\<close> with what other goroutines do to the tracker between its steps: before its rebuild takes the
  snapshot, and before it publishes it. Without such moves it is \<open>UpdateDevices\<close> of the tracker.
\<close>

definition updateAmid :: "tracker_move list \<times> tracker_move list \<Rightarrow> tracker \<Rightarrow> bytes list \<Rightarrow> int \<Rightarrow> bytes \<Rightarrow> bytes \<Rightarrow>
    device_info list \<Rightarrow> tracker" where
  "updateAmid ms t order t0 sourceAddr version devices =
     (let t1 = foldl trackerMove (recordSource t t0 sourceAddr version devices) (fst ms)
      in publish (foldl trackerMove t1 (snd ms)) (snapshot t1 order))"

lemma updateAmid_alone: "updateAmid ([], []) t order t0 sourceAddr version devices = UpdateDevices t order t0 sourceAddr version devices"
  by (simp add: updateAmid_def UpdateDevices_def rebuild_def Let_def)

text \<open>
  The key cache maps a key to the answer and until when it counts. \<open>ap_order\<close> is the order in which
  the tracker walks its sources, and \<open>ap_meanwhile\<close> what other goroutines do to it in the middle of a report, at each step.
\<close>

record api =
  ap_apiKey :: bytes
  ap_guestKeys :: "bytes list"
  ap_hasCheck :: bool
  ap_version :: bytes
  ap_order :: "nat \<Rightarrow> bytes list"
  ap_meanwhile :: "nat \<Rightarrow> tracker_move list \<times> tracker_move list"

record http =
  ht_cache :: "(bytes \<times> bool \<times> int) list"
  ht_tracker :: tracker
  ht_world :: world

type_synonym 'a hact = "(http, 'a) state"

definition proxy :: "'a act \<Rightarrow> 'a hact" where
  "proxy m = State (\<lambda>h. case run_state m (ht_world h) of (a, w) \<Rightarrow> (a, h\<lparr>ht_world := w\<rparr>))"

lemma wp_proxy [simp]: "wp (proxy m) Q = (\<lambda>h. wp m (\<lambda>a w. Q a (h\<lparr>ht_world := w\<rparr>)) (ht_world h))"
  by (simp add: wp_def proxy_def fun_eq_iff split: prod.split)

section \<open>Who may ask\<close>

definition keyCacheTTL :: int where
  "keyCacheTTL = 30 * secondT"

definition ownKey :: "api \<Rightarrow> bytes \<Rightarrow> bool" where
  "ownKey a key \<longleftrightarrow> key = ap_apiKey a \<or> key \<in> set (ap_guestKeys a)"

definition cachedAnswer :: "(bytes \<times> bool \<times> int) list \<Rightarrow> bytes \<Rightarrow> int \<Rightarrow> bool option" where
  "cachedAnswer cache key t = (case map_of cache key of
       None \<Rightarrow> None | Some (ok, until) \<Rightarrow> if t < until then Some ok else None)"

definition requireAuth :: "env \<Rightarrow> api \<Rightarrow> request \<Rightarrow> bool hact" where
  "requireAuth e a rq = (let key = rq_apiKey rq in
     if ownKey a key then returnM True
     else if key = [] \<or> \<not> ap_hasCheck a then returnM False
     else do {
       t \<leftarrow> proxy (now e);
       h \<leftarrow> getM;
       (case cachedAnswer (ht_cache h) key t of
           Some ok \<Rightarrow> returnM ok
         | None \<Rightarrow> do {
             (ok, err) \<leftarrow> proxy (CheckKey e key (ap_guestKeys a));
             (if err \<noteq> None then returnM False
              else do {
                modify (\<lambda>h. h\<lparr>ht_cache := put key (ok, t + keyCacheTTL) (ht_cache h)\<rparr>);
                returnM ok }) }) })"

definition tenantKey :: "api \<Rightarrow> request \<Rightarrow> bytes" where
  "tenantKey a rq = (if rq_apiKey rq \<noteq> ap_apiKey a then rq_apiKey rq else [])"

definition unauthorized :: response where
  "unauthorized = fail 401 ''invalid or missing x-api-key header''"

section \<open>Labels\<close>

definition maxLabels :: nat where "maxLabels = 32"
definition maxLabelKeyLen :: nat where "maxLabelKeyLen = 64"
definition maxLabelValueLen :: nat where "maxLabelValueLen = 256"

definition parseLabel :: "env \<Rightarrow> bytes \<Rightarrow> bytes + label" where
  "parseLabel e p = (let malformed = ''label '' @ Quote (en_isPrint e) p @ '' must be k=v or SERIAL:k=v'' in
     (case Cut p ''='' of
         None \<Rightarrow> Inl malformed
       | Some (left, val) \<Rightarrow>
           let (serial, key) = (case LastIndexByte left (CHR '':'') of
                 Some i \<Rightarrow> (take i left, drop (i + 1) left) | None \<Rightarrow> ([], left))
           in if key = [] \<or> (serial = [] \<and> Contains left '':'') then Inl malformed
              else if length key > maxLabelKeyLen \<or> length val > maxLabelValueLen then
                Inl (''label '' @ Quote (en_isPrint e) p @ '': key is at most '' @ fmtNat maxLabelKeyLen @
                  '' bytes, value at most '' @ fmtNat maxLabelValueLen)
              else Inr \<lparr>lb_serial = serial, lb_key = key, lb_value = val\<rparr>))"

fun collectLabels :: "env \<Rightarrow> bytes list \<Rightarrow> bytes + label list" where
  "collectLabels e [] = Inr []"
| "collectLabels e (p # ps) = (case parseLabel e p of
       Inl err \<Rightarrow> Inl err
     | Inr l \<Rightarrow> (case collectLabels e ps of Inl err \<Rightarrow> Inl err | Inr ls \<Rightarrow> Inr (l # ls)))"

definition parseLabels :: "env \<Rightarrow> bytes list \<Rightarrow> bytes + label list" where
  "parseLabels e params = (if length params > maxLabels
     then Inl (''at most '' @ fmtNat maxLabels @ '' labels per request'') else collectLabels e params)"

section \<open>Errors\<close>

definition httpStatusForAcquireError :: "goerr \<Rightarrow> int \<times> bytes" where
  "httpStatusForAcquireError err = (case fromError err of
       None \<Rightarrow> (500, errorText err)
     | Some (c, msg) \<Rightarrow> ((case c of
           ResourceExhausted \<Rightarrow> 429
         | InvalidArgument \<Rightarrow> 400
         | PermissionDenied \<Rightarrow> 403
         | Unauthenticated \<Rightarrow> 403
         | DeadlineExceeded \<Rightarrow> 504
         | FailedPrecondition \<Rightarrow> 501
         | Unimplemented \<Rightarrow> 501
         | NotFound \<Rightarrow> 404
         | _ \<Rightarrow> 500), msg))"

text \<open>\<open>errors.Is\<close> of the two errors a lock's request may have.\<close>

fun isUnknownLock :: "goerr \<Rightarrow> bool" where
  "isUnknownLock UnknownLock = True"
| "isUnknownLock (RelayRefused e) = isUnknownLock e"
| "isUnknownLock (Joined es) = list_ex isUnknownLock es"
| "isUnknownLock _ = False"

fun isNotInLock :: "goerr \<Rightarrow> bool" where
  "isNotInLock (NotInLock _) = True"
| "isNotInLock (RelayRefused e) = isNotInLock e"
| "isNotInLock (Joined es) = list_ex isNotInLock es"
| "isNotInLock _ = False"

definition writeLockResult :: "goerr option \<Rightarrow> response" where
  "writeLockResult err = (case err of
       None \<Rightarrow> writeJSON 200 (StatusBody ''ok'')
     | Some er \<Rightarrow>
         if isUnknownLock er then fail 404 (errorText er)
         else if isNotInLock er then fail 403 (errorText er)
         else fail (fst (httpStatusForAcquireError er)) (snd (httpStatusForAcquireError er)))"

section \<open>Acquire and release\<close>

definition parseWifiState :: "bytes \<Rightarrow> bool \<Rightarrow> bool option" where
  "parseWifiState v def = (if v = [] then Some def else if v = ''on'' then Some True
     else if v = ''off'' then Some False else None)"

definition validWifiBand :: "bytes \<Rightarrow> bool" where
  "validWifiBand v \<longleftrightarrow> v \<in> {[], ''2.4'', ''5'', ''6''}"

record acquire_params =
  pa_serials :: "bytes list"
  pa_count :: int
  pa_priority :: int
  pa_wifi :: bool
  pa_wifiBand :: bytes
  pa_sameProxy :: bool
  pa_job :: acquire_req

text \<open>The parameters in the order they are checked; an error is a 400.\<close>

definition parseCount :: "request \<Rightarrow> bytes + int" where
  "parseCount rq = (let c = getq rq ''count''; serials = items (getq rq ''serial'') in
     if c = [] then Inr 0
     else (case intParam 32 c of
         None \<Rightarrow> Inl ''count parameter must be a non-negative integer''
       | Some n \<Rightarrow>
           if n < 0 then Inl ''count parameter must be a non-negative integer''
           else if n > 0 \<and> serials \<noteq> [] then Inl ''count and serial parameters are mutually exclusive''
           else Inr n))"

definition optInt :: "request \<Rightarrow> bytes \<Rightarrow> bytes + int" where
  "optInt rq k = (let v = getq rq k in if v = [] then Inr 0
     else (case intParam 32 v of Some n \<Rightarrow> Inr n | None \<Rightarrow> Inl (k @ '' parameter must be a 32-bit integer'')))"

definition parseRadio :: "request \<Rightarrow> bytes + bool \<times> bytes" where
  "parseRadio rq = (let band = getq rq ''wifi_band'' in
     (case parseWifiState (getq rq ''wifi'') True of
         None \<Rightarrow> Inl ''wifi parameter must be on or off''
       | Some wifi \<Rightarrow>
           if \<not> validWifiBand band \<or> (band \<noteq> [] \<and> \<not> wifi)
           then Inl ''wifi_band parameter must be 2.4, 5 or 6, with wifi on''
           else Inr (wifi, band)))"

definition parseSameProxy :: "request \<Rightarrow> bytes + bool" where
  "parseSameProxy rq = (let v = getq rq ''same_proxy'' in if v = [] then Inr False
     else (case ParseBool v of Some b \<Rightarrow> Inr b | None \<Rightarrow> Inl ''same_proxy parameter must be true or false''))"

definition jobOf :: "request \<Rightarrow> int \<Rightarrow> label list \<Rightarrow> acquire_req" where
  "jobOf rq runAttempt labels = \<lparr>aq_serials = [], aq_repo = getq rq ''repo'', aq_runUrl = getq rq ''run_url'',
     aq_job = getq rq ''job'', aq_runAttempt = runAttempt, aq_sha = getq rq ''sha'', aq_branch = getq rq ''branch'',
     aq_workflow = getq rq ''workflow'', aq_stage = getq rq ''stage'', aq_labels = labels, aq_count = 0,
     aq_proxyId = [], aq_priority = 0, aq_sameProxy = False, aq_tenantKey = []\<rparr>"

definition parseAcquire :: "env \<Rightarrow> request \<Rightarrow> bytes + acquire_params" where
  "parseAcquire e rq = (let serials = items (getq rq ''serial'') in
     if getq rq ''serial'' \<noteq> [] \<and> serials = [] then
       Inl ''serial parameter must contain at least one non-empty serial''
     else (case parseCount rq of Inl m \<Rightarrow> Inl m | Inr n \<Rightarrow>
       (case optInt rq ''priority'' of Inl m \<Rightarrow> Inl m | Inr prio \<Rightarrow>
       (case parseRadio rq of Inl m \<Rightarrow> Inl m | Inr (wifi, band) \<Rightarrow>
       (case parseSameProxy rq of Inl m \<Rightarrow> Inl m | Inr same \<Rightarrow>
       (case optInt rq ''run_attempt'' of Inl m \<Rightarrow> Inl m | Inr attempt \<Rightarrow>
       (case parseLabels e (paramValues rq ''label'') of Inl m \<Rightarrow> Inl m | Inr labels \<Rightarrow>
         Inr \<lparr>pa_serials = remdups serials, pa_count = n, pa_priority = prio, pa_wifi = wifi, pa_wifiBand = band,
           pa_sameProxy = same, pa_job = jobOf rq attempt labels\<rparr>)))))))"

definition handleAcquire :: "env \<Rightarrow> api \<Rightarrow> request \<Rightarrow> response hact" where
  "handleAcquire e a rq = do {
     auth \<leftarrow> requireAuth e a rq;
     (if \<not> auth then returnM unauthorized
      else (case parseAcquire e rq of
          Inl msg \<Rightarrow> returnM (fail 400 msg)
        | Inr p \<Rightarrow> do {
            r \<leftarrow> proxy (Acquire e (pa_serials p) (pa_count p) (pa_job p) (pa_priority p) (pa_wifi p) (pa_wifiBand p)
              (pa_sameProxy p) (tenantKey a rq) (clientIP rq));
            (case r of
                Inl err \<Rightarrow> returnM (fail (fst (httpStatusForAcquireError err)) (snd (httpStatusForAcquireError err)))
              | Inr sp \<Rightarrow> do {
                  k \<leftarrow> proxy tick;
                  (if en_cancelled e k then do {
                     _ \<leftarrow> proxy (Release e (sp_lockID sp) ''cancelled'');
                     returnM None }
                   else do {
                     h \<leftarrow> getM;
                     returnM (writeJSON 200 (Granted (sp_lockID sp) (sp_serials sp) (sp_port sp) (sp_token sp)
                       (ps_deviceAPIPort (stateOf (ht_world h) sp)))) }) }) })) }"

definition handleRelease :: "env \<Rightarrow> api \<Rightarrow> request \<Rightarrow> response hact" where
  "handleRelease e a rq = do {
     auth \<leftarrow> requireAuth e a rq;
     (if \<not> auth then returnM unauthorized
      else if getq rq ''lock_id'' = [] then returnM (fail 400 ''lock_id parameter required'')
      else do {
        released \<leftarrow> proxy (Release e (getq rq ''lock_id'') (getq rq ''status''));
        returnM (if released then writeJSON 200 (StatusBody ''released'') else fail 404 ''unknown lock_id'') }) }"

section \<open>Requests of a running job\<close>

definition handleLabel :: "env \<Rightarrow> api \<Rightarrow> request \<Rightarrow> response hact" where
  "handleLabel e a rq = do {
     auth \<leftarrow> requireAuth e a rq;
     (if \<not> auth then returnM unauthorized
      else if getq rq ''lock_id'' = [] then returnM (fail 400 ''lock_id parameter required'')
      else (case parseLabels e (paramValues rq ''label'') of
          Inl msg \<Rightarrow> returnM (fail 400 msg)
        | Inr labels \<Rightarrow>
            if labels = [] then returnM (fail 400 ''label parameter required'')
            else do {
              err \<leftarrow> proxy (AddLabels e (getq rq ''lock_id'') labels);
              returnM (writeLockResult err) })) }"

text \<open>The lock and the serials of a request, or the response that refuses it.\<close>

definition lockRequest :: "env \<Rightarrow> api \<Rightarrow> request \<Rightarrow> (response + bytes \<times> bytes list) hact" where
  "lockRequest e a rq = (let lockID = getq rq ''lock_id'' in
     if lockID = [] then returnM (Inl (fail 400 ''lock_id parameter required''))
     else do {
       auth \<leftarrow> requireAuth e a rq;
       h \<leftarrow> getM;
       (if \<not> auth \<and> \<not> DeviceTokenValid (ht_world h) lockID (rq_deviceToken rq) then
          returnM (Inl (fail 401 ''invalid or missing x-api-key or x-device-token header''))
        else if \<not> auth \<and> Trim (getq rq ''serial'') = [] then
          returnM (Inl (fail 400 ''serial parameter required with x-device-token''))
        else returnM (Inr (lockID, items (getq rq ''serial'')))) })"

definition handleWifi :: "env \<Rightarrow> api \<Rightarrow> request \<Rightarrow> response hact" where
  "handleWifi e a rq = do {
     q \<leftarrow> lockRequest e a rq;
     (case q of
         Inl resp \<Rightarrow> returnM resp
       | Inr (lockID, serials) \<Rightarrow>
           let band = getq rq ''band'' in
           (case (if getq rq ''state'' = [] then None else parseWifiState (getq rq ''state'') False) of
               None \<Rightarrow> returnM (fail 400 ''state parameter must be on or off'')
             | Some on \<Rightarrow>
                 if \<not> validWifiBand band \<or> (band \<noteq> [] \<and> \<not> on) then
                   returnM (fail 400 ''band parameter must be 2.4, 5 or 6, with state on'')
                 else do {
                   err \<leftarrow> proxy (SetLockWifi e lockID serials on band);
                   returnM (writeLockResult err) })) }"

definition handleBluetooth :: "env \<Rightarrow> api \<Rightarrow> request \<Rightarrow> response hact" where
  "handleBluetooth e a rq = do {
     q \<leftarrow> lockRequest e a rq;
     (case q of
         Inl resp \<Rightarrow> returnM resp
       | Inr (lockID, serials) \<Rightarrow>
           if getq rq ''action'' \<noteq> ''restart'' then returnM (fail 400 ''action parameter must be restart'')
           else do {
             err \<leftarrow> proxy (RestartBluetooth e lockID serials);
             returnM (writeLockResult err) }) }"

section \<open>Status and device reports\<close>

definition portInfo :: "int \<Rightarrow> scoped_port \<Rightarrow> port_info" where
  "portInfo t sp = \<lparr>pi_lockID = sp_lockID sp, pi_serials = sp_serials sp, pi_port = sp_port sp,
     pi_ageMs = Milliseconds (t - sp_createdAt sp)\<rparr>"

definition devInfo :: "device_info \<Rightarrow> dev_info" where
  "devInfo d = \<lparr>di_serial = device_info.Serial d,
     di_lastReboot = (if LastRebootMs d > 0 then RFC3339 (LastRebootMs d div 1000) else []), di_warning = Warning d\<rparr>"

definition handleStatus :: "env \<Rightarrow> api \<Rightarrow> request \<Rightarrow> response hact" where
  "handleStatus e a rq = do {
     auth \<leftarrow> requireAuth e a rq;
     (if \<not> auth then returnM unauthorized
      else do {
        h \<leftarrow> getM;
        t \<leftarrow> proxy (now e);
        returnM (writeJSON 200 (Overview (map (portInfo t) (GetAllScopedPorts (ht_world h)))
          (map devInfo (GetDevices (ht_tracker h))) (ap_version a))) }) }"

definition handleRegisterDevices :: "env \<Rightarrow> api \<Rightarrow> request \<Rightarrow> response hact" where
  "handleRegisterDevices e a rq = do {
     auth \<leftarrow> requireAuth e a rq;
     (if \<not> auth then returnM unauthorized
      else (case rq_body rq of
          None \<Rightarrow> returnM (fail 400 ''invalid JSON'')
        | Some report \<Rightarrow>
            if dr_sourceAddr report = [] then returnM (fail 400 ''source_addr required'')
            else do {
              k \<leftarrow> proxy tick;
              modify (\<lambda>h. h\<lparr>ht_tracker := updateAmid (ap_meanwhile a k) (ht_tracker h) (ap_order a k) (en_clock e k div secondT)
                (dr_sourceAddr report) (dr_version report) (dr_devices report)\<rparr>);
              returnM (writeJSON 200 (StatusBody ''ok'')) })) }"

datatype route = AcquireRoute | ReleaseRoute | WifiRoute | BluetoothRoute | LabelRoute | StatusRoute | DevicesRoute

fun serve :: "env \<Rightarrow> api \<Rightarrow> route \<Rightarrow> request \<Rightarrow> response hact" where
  "serve e a AcquireRoute rq = handleAcquire e a rq"
| "serve e a ReleaseRoute rq = handleRelease e a rq"
| "serve e a WifiRoute rq = handleWifi e a rq"
| "serve e a BluetoothRoute rq = handleBluetooth e a rq"
| "serve e a LabelRoute rq = handleLabel e a rq"
| "serve e a StatusRoute rq = handleStatus e a rq"
| "serve e a DevicesRoute rq = handleRegisterDevices e a rq"

end
