(* ===== verification/HttpFacts.thy ===== *)
theory HttpFacts
  imports HttpApi
begin

text \<open>
  What the HTTP API of \<open>internal/proxy/http_api.go\<close> grants to whom: labels, keys, device tokens, and
  what a response says about the table of ports.
\<close>

section \<open>Labels\<close>

definition label_text :: "label \<Rightarrow> bytes" where
  "label_text l = (if lb_serial l = [] then [] else lb_serial l @ '':'') @ lb_key l @ ''='' @ lb_value l"

definition label_ok :: "label \<Rightarrow> bool" where
  "label_ok l \<longleftrightarrow> lb_key l \<noteq> [] \<and> CHR '':'' \<notin> set (lb_key l) \<and> CHR ''='' \<notin> set (lb_serial l @ lb_key l) \<and>
     length (lb_key l) \<le> 64 \<and> length (lb_value l) \<le> 256"

lemma Index_single: "Index s [c] = (if c \<in> set s then Some (length (takeWhile (\<lambda>x. x \<noteq> c) s)) else None)"
  by (induction s) (auto simp: HasPrefix_def)

lemma Cut_single: "Cut s [c] = Some (a, b) \<longleftrightarrow> s = a @ c # b \<and> c \<notin> set a"
proof
  assume cut: "Cut s [c] = Some (a, b)"
  then have a: "a = takeWhile (\<lambda>x. x \<noteq> c) s"
    by (subst takeWhile_eq_take) (simp add: Cut_def Index_single split: if_splits)
  have "c \<notin> set a" unfolding a by (auto dest: set_takeWhileD)
  then show "s = a @ c # b \<and> c \<notin> set a" using Cut_Some [OF cut] by simp
next
  assume s: "s = a @ c # b \<and> c \<notin> set a"
  then have "takeWhile (\<lambda>x. x \<noteq> c) a = a"
    by (auto simp: takeWhile_eq_all_conv)
  with s show "Cut s [c] = Some (a, b)"
    by (auto simp: Cut_def Index_single takeWhile_append2 takeWhile_tail)
qed

lemma Contains_single: "Contains s [c] \<longleftrightarrow> c \<in> set s"
  by (simp add: Contains_def Index_single)

lemma LastIndexByte_split: "LastIndexByte s c = Some i \<longleftrightarrow> (\<exists>u v. s = u @ c # v \<and> c \<notin> set v \<and> i = length u)"
proof
  assume "LastIndexByte s c = Some i"
  from LastIndexByte_Some [OF this] show "\<exists>u v. s = u @ c # v \<and> c \<notin> set v \<and> i = length u"
    by (metis id_take_nth_drop length_take min.absorb4)
qed (auto simp: LastIndexByte_append_no)

lemma parseLabel_exact: "parseLabel e p = Inr l \<longleftrightarrow> p = label_text l \<and> label_ok l"
proof
  assume "parseLabel e p = Inr l"
  then show "p = label_text l \<and> label_ok l"
    by (auto simp: parseLabel_def Let_def Cut_single Contains_single LastIndexByte_split LastIndexByte_None label_text_def label_ok_def
        maxLabelKeyLen_def maxLabelValueLen_def split: option.splits if_splits)
next
  assume l: "p = label_text l \<and> label_ok l"
  have cut: "Cut (label_text l) ''='' = Some ((if lb_serial l = [] then [] else lb_serial l @ '':'') @ lb_key l, lb_value l)"
    using l by (auto simp: Cut_single label_text_def label_ok_def)
  have "LastIndexByte (lb_serial l @ CHR '':'' # lb_key l) (CHR '':'') = Some (length (lb_serial l))"
    using l by (simp add: LastIndexByte_append_no label_ok_def)
  moreover have "LastIndexByte (lb_key l) (CHR '':'') = None"
    using l by (simp add: LastIndexByte_None label_ok_def)
  ultimately show "parseLabel e p = Inr l"
    using l cut by (auto simp: parseLabel_def Let_def Contains_single label_ok_def maxLabelKeyLen_def maxLabelValueLen_def)
qed

lemma collectLabels_exact: "collectLabels e ps = Inr ls \<longleftrightarrow> list_all2 (\<lambda>p l. parseLabel e p = Inr l) ps ls"
  by (induction ps arbitrary: ls) (auto simp: list_all2_Cons1 split: sum.splits, metis sum.inject(2))

text \<open>
  Labels are read exactly. The parameters are accepted as a list of labels if and only if there are at
  most 32 of them and each is the written form of its label, \<open>k=v\<close> or \<open>SERIAL:k=v\<close>, with a key
  that is not empty, has no colon and no equals sign and at most 64 bytes, a serial without an equals sign,
  and a value of at most 256 bytes that may be anything. So a serial with a port, which has a colon of its
  own, is told from its key, and nothing is lost or accepted in two ways.
\<close>

theorem parseLabels_exact:
  "parseLabels e params = Inr labels \<longleftrightarrow>
     length params \<le> 32 \<and> params = map label_text labels \<and> list_all label_ok labels"
proof -
  have "list_all2 (\<lambda>p l. p = label_text l \<and> label_ok l) params labels \<longleftrightarrow>
      params = map label_text labels \<and> list_all label_ok labels"
    by (induction labels arbitrary: params) (auto simp: list_all2_Cons2)
  then show ?thesis
    by (simp add: parseLabels_def collectLabels_exact parseLabel_exact maxLabels_def)
qed

section \<open>Keys\<close>

text \<open>The orchestrator vouched for a key at step \<open>n\<close>: it was asked, and said yes.\<close>

definition vouchedAt :: "env \<Rightarrow> api \<Rightarrow> bytes \<Rightarrow> nat \<Rightarrow> bool" where
  "vouchedAt e a key n \<longleftrightarrow>
     (let reply = en_orch e n (CheckKeyCall key (ap_guestKeys a)) in or_err reply = None \<and> or_flag reply)"

text \<open>Every yes in the cache was the orchestrator's, asked right after the reading of the clock it counts from.\<close>

definition cache_ok :: "env \<Rightarrow> api \<Rightarrow> http \<Rightarrow> bool" where
  "cache_ok e a h \<longleftrightarrow> (\<forall>key until. map_of (ht_cache h) key = Some (True, until) \<longrightarrow>
     (\<exists>n. vouchedAt e a key (Suc n) \<and> until = en_clock e n + keyCacheTTL))"

lemma cache_ok_cong: "ht_cache h' = ht_cache h \<Longrightarrow> cache_ok e a h' = cache_ok e a h"
  by (simp add: cache_ok_def)

lemma keeps_cache_proxy [keeps]: "keeps (cache_ok e a) (proxy m)"
  by (rule keepsI) (simp add: proxy_def cache_ok_def split: prod.split)

lemma requireAuth_post:
  assumes "cache_ok e a h"
  shows "wp (requireAuth e a rq) (\<lambda>ok h'. cache_ok e a h' \<and> (ok \<longrightarrow> ownKey a (rq_apiKey rq) \<or>
     (\<exists>n. vouchedAt e a (rq_apiKey rq) (Suc n) \<and> en_clock e (w_step (ht_world h)) < en_clock e n + keyCacheTTL))) h"
proof -
  let ?key = "rq_apiKey rq"
  let ?n = "w_step (ht_world h)"
  have cached: "\<exists>n. vouchedAt e a ?key (Suc n) \<and> en_clock e ?n < en_clock e n + keyCacheTTL"
    if "map_of (ht_cache h) ?key = Some (True, until)" "en_clock e ?n < until" for until
    using assms that unfolding cache_ok_def by blast
  have asked: "\<exists>n. vouchedAt e a ?key (Suc n) \<and> en_clock e ?n < en_clock e n + keyCacheTTL"
    if "vouchedAt e a ?key (Suc ?n)"
    using that by (intro exI [of _ ?n]) (simp add: keyCacheTTL_def secondT_def)
  have stored: "cache_ok e a (h\<lparr>ht_world := w, ht_cache := put ?key (ok, en_clock e ?n + keyCacheTTL) (ht_cache h)\<rparr>)"
    if "ok \<longrightarrow> vouchedAt e a ?key (Suc ?n)" for ok w
    using assms that unfolding cache_ok_def by auto
  have vouched: "vouchedAt e a ?key (Suc ?n) \<longleftrightarrow> or_err (en_orch e (Suc ?n) (CheckKeyCall ?key (ap_guestKeys a))) = None \<and>
      or_flag (en_orch e (Suc ?n) (CheckKeyCall ?key (ap_guestKeys a)))"
    by (simp add: vouchedAt_def Let_def)
  have same: "cache_ok e a (h\<lparr>ht_world := w\<rparr>)" for w
    using assms by (simp add: cache_ok_def)
  show ?thesis
  proof (cases "ownKey a ?key \<or> ?key = [] \<or> \<not> ap_hasCheck a")
    case True
    then show ?thesis using assms by (auto simp: requireAuth_def Let_def)
  next
    case False
    show ?thesis
    proof (cases "cachedAnswer (ht_cache h) ?key (en_clock e ?n)")
      case None
      then show ?thesis
        using False asked stored same by (auto simp: requireAuth_def Let_def CheckKey_def vouched split: option.split)
    next
      case (Some ok)
      have "ok \<longrightarrow> (\<exists>n. vouchedAt e a ?key (Suc n) \<and> en_clock e ?n < en_clock e n + keyCacheTTL)"
        using Some cached by (auto simp: cachedAnswer_def split: option.splits if_splits)
      then show ?thesis
        using False Some same by (simp add: requireAuth_def Let_def)
    qed
  qed
qed

lemma keeps_cache_requireAuth [keeps]: "keeps (cache_ok e a) (requireAuth e a rq)"
  by (rule keepsI_wp) (rule wp_mono [OF requireAuth_post], auto)

lemma keeps_cache_serve: "keeps (cache_ok e a) (serve e a route rq)"
proof -
  have lock: "keeps (cache_ok e a) (lockRequest e a rq)"
    unfolding lockRequest_def Let_def by (intro keeps)
  have track: "keeps (cache_ok e a) (modify (\<lambda>h. h\<lparr>ht_tracker := f h\<rparr>))" for f
    by (rule keeps_modify) (simp add: cache_ok_def)
  show ?thesis
    by (cases route) (auto simp: handleAcquire_def handleRelease_def handleWifi_def handleBluetooth_def handleLabel_def
        handleStatus_def handleRegisterDevices_def Let_def intro!: keeps lock track)
qed

text \<open>
  C21. Whoever is let in by a key has one. After any requests to a proxy that starts with an empty cache, a
  request passes only with the owner's key, with a listed guest key, or with a key the orchestrator has
  vouched for less than 30 seconds before, by the proxy's clock. A revoked key thus works for at most 30
  seconds, and no refusal, error or other key's answer is ever taken for a yes.
\<close>

theorem key_accepted_is_vouched:
  "wp (foreach requests (\<lambda>(route, rq). do { _ \<leftarrow> serve e a route rq; returnM () })) (\<lambda>_ h1.
     wp (requireAuth e a rq) (\<lambda>ok _. if ok then ownKey a (rq_apiKey rq) \<or>
        (\<exists>n. vouchedAt e a (rq_apiKey rq) (Suc n) \<and> en_clock e (w_step (ht_world h1)) < en_clock e n + 30 * secondT)
      else True) h1) (h\<lparr>ht_cache := []\<rparr>)"
proof -
  have "wp (foreach requests (\<lambda>(route, rq). do { _ \<leftarrow> serve e a route rq; returnM () })) (\<lambda>_. cache_ok e a) (h\<lparr>ht_cache := []\<rparr>)"
    by (rule keeps_wp [OF keeps_foreach]) (auto intro!: keeps keeps_cache_serve simp: cache_ok_def)
  then show ?thesis
    by (rule wp_mono) (rule wp_mono [OF requireAuth_post], auto simp: keyCacheTTL_def)
qed

section \<open>Without a key\<close>

text \<open>What a request about a running job may ask of the phones of its lock.\<close>

definition midJob :: "world \<Rightarrow> bytes \<Rightarrow> dev_call \<Rightarrow> bool" where
  "midJob w lockID c \<longleftrightarrow> (case map_of (w_scoped w) lockID of
       None \<Rightarrow> False
     | Some sp \<Rightarrow> dc_serial c \<in> set (sp_serials sp) \<and> (case dc_request c of
           SetWifiRequest st _ \<Rightarrow> st \<noteq> WifiRESET | ResetBluetoothRequest \<Rightarrow> True | _ \<Rightarrow> False))"

definition job_frame :: "world \<Rightarrow> (dev_call \<Rightarrow> bool) \<Rightarrow> world \<Rightarrow> bool" where
  "job_frame w0 P w \<longleftrightarrow> w_scoped w = w_scoped w0 \<and> w_orchCalls w = w_orchCalls w0 \<and> only_calls (w_devCalls w0) P w"

interpretation job_frame: world_invariant "job_frame w0 P" P for w0 P
  by unfold_locales (auto simp: job_frame_def only_calls_def)

lemma job_frame_refl [simp]: "job_frame w P w"
  by (simp add: job_frame_def only_calls_def)

lemma SetLockWifi_frame: "wp (SetLockWifi e lockID serials on band) (\<lambda>_. job_frame w (midJob w lockID)) w"
proof (cases "lockDevices w lockID serials")
  case (Inr p)
  obtain sp ss where p: "lockDevices w lockID serials = Inr (sp, ss)" using Inr by (cases p) auto
  have "wp (mapM ss (\<lambda>s. wifiDevice e lockID s (if on then WifiON else WifiOFF) band))
      (\<lambda>_. job_frame w (midJob w lockID)) w"
    by (rule keeps_wp [OF keeps_mapM], rule job_frame.keeps_wifiDevice)
      (use lockDevices_own [OF p] in \<open>auto simp: midJob_def\<close>)
  then show ?thesis by (simp add: SetLockWifi_def p)
qed (simp add: SetLockWifi_def)

lemma RestartBluetooth_frame: "wp (RestartBluetooth e lockID serials) (\<lambda>_. job_frame w (midJob w lockID)) w"
proof (cases "lockDevices w lockID serials")
  case (Inr p)
  obtain sp ss where p: "lockDevices w lockID serials = Inr (sp, ss)" using Inr by (cases p) auto
  have "wp (mapM ss (\<lambda>s. cycleBluetooth e sp s '' (requested by the job)'' False))
      (\<lambda>_. job_frame w (midJob w lockID)) w"
    by (rule keeps_wp [OF keeps_mapM], rule job_frame.keeps_midJobCycle)
      (use lockDevices_own [OF p] in \<open>auto simp: midJob_def\<close>)
  then show ?thesis by (simp add: RestartBluetooth_def p)
qed (simp add: RestartBluetooth_def)

definition isKeyCheck :: "orch_call \<Rightarrow> bool" where
  "isKeyCheck c \<longleftrightarrow> (case c of CheckKeyCall _ _ \<Rightarrow> True | _ \<Rightarrow> False)"

text \<open>Nothing happened between two states but questions about keys and allowed calls to devices.\<close>

definition confined :: "http \<Rightarrow> (dev_call \<Rightarrow> bool) \<Rightarrow> http \<Rightarrow> bool" where
  "confined h P h' \<longleftrightarrow> ht_tracker h' = ht_tracker h \<and> w_scoped (ht_world h') = w_scoped (ht_world h) \<and>
     (\<exists>asks. w_orchCalls (ht_world h') = w_orchCalls (ht_world h) @ asks \<and> list_all isKeyCheck asks) \<and>
     only_calls (w_devCalls (ht_world h)) P (ht_world h')"

lemma requireAuth_confined:
  "wp (requireAuth e a rq) (\<lambda>ok h'. ok = fst (run_state (requireAuth e a rq) h) \<and>
     w_devCalls (ht_world h') = w_devCalls (ht_world h) \<and> confined h P h') h"
proof -
  have "wp (requireAuth e a rq) (\<lambda>_ h'. w_devCalls (ht_world h') = w_devCalls (ht_world h) \<and> confined h P h') h"
    by (auto simp: requireAuth_def Let_def CheckKey_def confined_def only_calls_def isKeyCheck_def split: option.split)
  moreover have "wp (requireAuth e a rq) (\<lambda>ok _. ok = fst (run_state (requireAuth e a rq) h)) h"
    by (rule wp_runI) simp
  ultimately show ?thesis by (simp add: wp_conj)
qed

lemma confined_job:
  assumes "confined h P h1" and "w_devCalls (ht_world h1) = w_devCalls (ht_world h)"
    and "job_frame (ht_world h1) (midJob (ht_world h1) lockID) w" and "\<And>c. midJob (ht_world h) lockID c \<Longrightarrow> P c"
  shows "confined h P (h1\<lparr>ht_world := w\<rparr>)"
proof -
  have "midJob (ht_world h1) lockID = midJob (ht_world h) lockID"
    using assms(1) by (simp add: midJob_def confined_def fun_eq_iff)
  then show ?thesis
    using assms by (auto simp: confined_def job_frame_def only_calls_def list_all_iff)
qed

abbreviation admits :: "env \<Rightarrow> api \<Rightarrow> request \<Rightarrow> http \<Rightarrow> bool" where
  "admits e a rq h \<equiv> fst (run_state (requireAuth e a rq) h)"

lemma lockRequest_confined:
  "wp (lockRequest e a rq) (\<lambda>q h1. confined h P h1 \<and> w_devCalls (ht_world h1) = w_devCalls (ht_world h) \<and>
     (case q of Inl _ \<Rightarrow> True | Inr (lockID, _) \<Rightarrow> lockID = getq rq ''lock_id'' \<and>
        (admits e a rq h \<or> DeviceTokenValid (ht_world h) lockID (rq_deviceToken rq)))) h"
  unfolding lockRequest_def Let_def
  by (simp, intro conjI impI, simp add: confined_def only_calls_def, rule wp_mono [OF requireAuth_confined])
    (auto simp: DeviceTokenValid_def confined_def)

lemma refused_confined:
  assumes "\<not> admits e a rq h"
  shows "wp (do { ok \<leftarrow> requireAuth e a rq; (if \<not> ok then returnM unauthorized else k) })
    (\<lambda>resp h'. confined h P h' \<and> resp = unauthorized) h"
  by (subst wp_bind) (rule wp_mono [OF requireAuth_confined], use assms in auto)

text \<open>A request without a key and with a device token: \<open>k\<close> is what it asks of the lock's phones.\<close>

lemma token_confined:
  assumes "\<not> admits e a rq h"
    and "\<And>serials u. confined h P u \<Longrightarrow> w_devCalls (ht_world u) = w_devCalls (ht_world h) \<Longrightarrow>
      DeviceTokenValid (ht_world h) (getq rq ''lock_id'') (rq_deviceToken rq) \<Longrightarrow>
      wp (k (getq rq ''lock_id'') serials) (\<lambda>_ h'. confined h P h') u"
  shows "wp (do { q \<leftarrow> lockRequest e a rq;
      (case q of Inl resp \<Rightarrow> returnM resp | Inr (lockID, serials) \<Rightarrow> k lockID serials) }) (\<lambda>_ h'. confined h P h') h"
  unfolding wp_bind
  by (rule wp_mono [OF lockRequest_confined [of e a rq h P]]) (use assms in \<open>auto split: sum.splits\<close>)

lemma job_confined:
  assumes "confined h P u" and "w_devCalls (ht_world u) = w_devCalls (ht_world h)"
    and "\<And>c. midJob (ht_world h) lockID c \<Longrightarrow> P c"
    and "wp m (\<lambda>_. job_frame (ht_world u) (midJob (ht_world u) lockID)) (ht_world u)"
  shows "wp (do { err \<leftarrow> proxy m; returnM (writeLockResult err) }) (\<lambda>_ h'. confined h P h') u"
  by (simp only: wp_bind wp_proxy wp_return, rule wp_mono [OF assms(4)], rule confined_job [OF assms(1,2)])
    (use assms(3) in auto)

lemma unauthorized_wifi_bluetooth:
  assumes "\<not> admits e a rq h"
    and "\<And>c. DeviceTokenValid (ht_world h) (getq rq ''lock_id'') (rq_deviceToken rq) \<Longrightarrow>
      midJob (ht_world h) (getq rq ''lock_id'') c \<Longrightarrow> P c"
  shows "wp (handleWifi e a rq) (\<lambda>_ h'. confined h P h') h"
    and "wp (handleBluetooth e a rq) (\<lambda>_ h'. confined h P h') h"
  unfolding handleWifi_def handleBluetooth_def Let_def
  by (rule token_confined [OF assms(1)],
      use assms(2) in \<open>auto intro!: job_confined SetLockWifi_frame RestartBluetooth_frame
        split: option.split simp del: wp_bind\<close>)+

text \<open>
  C6. Without a key, a request changes nothing, with one exception that is confined to a lock. When the key
  is not accepted, every route but /wifi and /bluetooth answers 401 and has done nothing but ask the
  orchestrator about the key. Those two go on only for a lock whose device token the request has, and then
  only turn Wi-Fi on or off, or cycle Bluetooth, on phones of that lock: no port is opened or closed, no device list
  changes, no other call goes out.
\<close>

theorem unauthorized_confined:
  "wp (serve e a route rq) (\<lambda>resp h'. if fst (run_state (requireAuth e a rq) h) then True
     else confined h (\<lambda>c. route \<in> {WifiRoute, BluetoothRoute} \<and>
          DeviceTokenValid (ht_world h) (getq rq ''lock_id'') (rq_deviceToken rq) \<and>
          midJob (ht_world h) (getq rq ''lock_id'') c) h' \<and>
        (if route \<in> {WifiRoute, BluetoothRoute} then True else resp = unauthorized)) h"
proof (cases "admits e a rq h")
  case True
  then show ?thesis by (simp add: wp_def split: prod.split)
next
  case False
  note refused = refused_confined [OF False]
  show ?thesis
  proof (cases "route \<in> {WifiRoute, BluetoothRoute}")
    case True
    then show ?thesis
      using unauthorized_wifi_bluetooth [OF False] False by (auto elim!: wp_mono)
  next
    case other: False
    have "wp (serve e a route rq) (\<lambda>resp h'. confined h P h' \<and> resp = unauthorized) h" for P
      using other refused
      by (cases route) (simp_all add: handleAcquire_def handleRelease_def handleLabel_def handleStatus_def
          handleRegisterDevices_def del: wp_bind)
    with False other show ?thesis by (simp del: wp_bind)
  qed
qed

section \<open>A device token and every phone\<close>

text \<open>
  A device token can name no phone and mean all of them. A request with a lock's device token has to
  name the serial, since the proxy cannot tell which phone it came from; but the check is that the
  parameter is not blank, and a parameter of commas alone passes it and lists no serial, which then means
  every phone of the lock that is attached to this proxy.
\<close>

theorem device_token_reaches_every_phone:
  assumes "rq_apiKey rq = []" and "\<not> ownKey a []" and "getq rq ''lock_id'' = lockID" and "lockID \<noteq> []"
    and "DeviceTokenValid (ht_world h) lockID (rq_deviceToken rq)" and "getq rq ''serial'' = '',''"
  shows "wp (lockRequest e a rq) (\<lambda>q h'. h' = h \<and> (case q of Inl _ \<Rightarrow> False | Inr (lock, serials) \<Rightarrow> lock = lockID \<and>
     (case lockDevices (ht_world h) lock serials of Inl _ \<Rightarrow> False | Inr (sp, phones) \<Rightarrow>
        map_of (w_scoped (ht_world h)) lockID = Some sp \<and>
        phones = filter (\<lambda>s. s \<notin> fst ` set (sp_remote sp)) (sp_serials sp)))) h"
proof -
  have none: "items '','' = []" and some: "Trim '','' \<noteq> []"
    by (simp_all add: items_def Trim_def trimStart.simps trimEnd.simps spaceStart_def spaceEnd_def isSpace_def
        spaceRunes_def HasPrefix_def HasSuffix_def)
  obtain sp where sp: "map_of (w_scoped (ht_world h)) lockID = Some sp"
    using assms(5) by (auto simp: DeviceTokenValid_def split: option.splits)
  have "find (\<lambda>s. s \<notin> set (sp_serials sp)) (filter (\<lambda>s. s \<notin> fst ` set (sp_remote sp)) (sp_serials sp)) = None"
    by (auto simp: find_None_iff)
  then show ?thesis
    using assms none some sp by (simp add: lockRequest_def requireAuth_def lockDevices_def Let_def)
qed

definition token_request :: request where
  "token_request = \<lparr>rq_apiKey = [], rq_deviceToken = ''t'', rq_query = [(''lock_id'', [''L0'']), (''serial'', ['','']),
     (''state'', [''off''])], rq_remoteAddr = ''127.0.0.1:9'', rq_body = None\<rparr>"

definition api0 :: api where
  "api0 = \<lparr>ap_apiKey = ''k'', ap_guestKeys = [], ap_hasCheck = True, ap_version = [], ap_order = \<lambda>_. [],
     ap_meanwhile = \<lambda>_. ([], [])\<rparr>"

definition phones_http :: http where
  "phones_http = \<lparr>ht_cache = [], ht_tracker = NewDeviceListTracker, ht_world = two_phone_world\<rparr>"

theorem device_token_reaches_every_phone_witness:
  "wp (lockRequest env0 api0 token_request) (\<lambda>q h'. h' = phones_http \<and> (case q of Inl _ \<Rightarrow> False
     | Inr (lock, serials) \<Rightarrow> lock = ''L0'' \<and> (case lockDevices two_phone_world lock serials of Inl _ \<Rightarrow> False
       | Inr (sp, phones) \<Rightarrow> map_of (w_scoped two_phone_world) ''L0'' = Some sp \<and>
           phones = filter (\<lambda>s. s \<notin> fst ` set (sp_remote sp)) (sp_serials sp)))) phones_http"
proof -
  have w: "ht_world phones_http = two_phone_world" by (simp add: phones_http_def)
  have token: "DeviceTokenValid two_phone_world ''L0'' ''t''"
    by (simp add: DeviceTokenValid_def two_phone_world_def port0_def)
  have rq: "rq_apiKey token_request = []" "rq_deviceToken token_request = ''t''" "getq token_request ''lock_id'' = ''L0''"
    "getq token_request ''serial'' = '',''"
    by (simp_all add: token_request_def getq_def paramValues_def)
  have "\<not> ownKey api0 []" by (simp add: ownKey_def api0_def)
  from device_token_reaches_every_phone [OF rq(1) this rq(3) _ _ rq(4), of phones_http env0] show ?thesis
    by (simp only: w rq token) simp
qed

section \<open>The answer to an acquire\<close>

lemma Acquire_post:
  "wp (Acquire e requested cnt job priority wifi wifiBand sameProxy key ip) (\<lambda>r w'. case r of
      Inl _ \<Rightarrow> w_scoped w' = w_scoped w
    | Inr sp \<Rightarrow> map_of (w_scoped w) (sp_lockID sp) = None \<and> w_scoped w' = (sp_lockID sp, sp) # w_scoped w) w"
proof -
  let ?lock = "AcquireLock e requested cnt 30 job priority sameProxy key ip"
  have ask: "wp ?lock (\<lambda>_. asking w) (w\<lparr>w_step := n\<rparr>)" for n
    by (rule keeps_wp [OF asking_AcquireLock]) (simp add: asking_def)
  have grant: "wp (takeGrant e lock wifi wifiBand t) (\<lambda>r w'. case r of
      Inl _ \<Rightarrow> w_scoped w' = w_scoped w
    | Inr sp \<Rightarrow> map_of (w_scoped w) (sp_lockID sp) = None \<and> w_scoped w' = (sp_lockID sp, sp) # w_scoped w) w1"
    if "asking w w1" for lock t w1
    by (rule wp_mono [OF takeGrant_post]) (use that in \<open>auto simp: asking_def split: sum.splits\<close>)
  show ?thesis
    unfolding Acquire_def
  proof (simp only: wp_bind wp_now, rule wp_mono [OF ask])
    fix r w1
    assume "asking w w1"
    then show "wp (case r of Inl err \<Rightarrow> returnM (Inl err)
       | Inr lock \<Rightarrow> takeGrant e lock wifi wifiBand (en_clock e (w_step w))) (\<lambda>r w'. case r of
      Inl _ \<Rightarrow> w_scoped w' = w_scoped w
    | Inr sp \<Rightarrow> map_of (w_scoped w) (sp_lockID sp) = None \<and> w_scoped w' = (sp_lockID sp, sp) # w_scoped w) w1"
      by (cases r) (simp_all only: sum.case grant, simp add: asking_def)
  qed
qed

text \<open>
  C22. What a runner is told about an acquire is true. A 200 names a lock that had no port before and whose
  port is in the table when the answer is written, with the serials, the port number and the device token
  of that port. After any other answer the table of ports is as it was. And when the runner has hung up by
  the time the lock could be handed over, there is no answer, the lock's port is gone again and the last
  call to the orchestrator has released the lock as cancelled.
\<close>

theorem acquire_answer_true:
  "wp (handleAcquire e a rq) (\<lambda>resp h'. case resp of
      Some (status, Granted lockID serials port token _) \<Rightarrow> status = 200 \<and> map_of (w_scoped (ht_world h)) lockID = None \<and>
        (\<exists>sp. w_scoped (ht_world h') = (lockID, sp) # w_scoped (ht_world h) \<and> sp_lockID sp = lockID \<and>
           sp_serials sp = serials \<and> sp_port sp = port \<and> sp_token sp = token)
    | Some _ \<Rightarrow> w_scoped (ht_world h') = w_scoped (ht_world h)
    | None \<Rightarrow> w_scoped (ht_world h') = w_scoped (ht_world h) \<and>
        (\<exists>calls lockID es. w_orchCalls (ht_world h') = calls @ [ReleaseCall lockID ''cancelled'' es])) h"
    (is "wp _ ?Q h")
proof -
  have gone: "wp (Release e (sp_lockID sp) ''cancelled'') (\<lambda>_ w'. w_scoped w' = sps \<and>
      (\<exists>calls lockID es. w_orchCalls w' = calls @ [ReleaseCall lockID ''cancelled'' es])) w1"
    if "w_scoped w1 = (sp_lockID sp, sp) # sps" "map_of sps (sp_lockID sp) = None" for sp sps w1
  proof -
    have "del (sp_lockID sp) ((sp_lockID sp, sp) # sps) = sps"
      using that(2) by (force simp: del_def map_of_eq_None_iff intro!: filter_True)
    then show ?thesis
      by (intro wp_mono [OF Release_post]) (use that in auto)
  qed
  have auth: "wp (requireAuth e a rq) (\<lambda>_ h'. w_scoped (ht_world h') = w_scoped (ht_world h)) h"
    by (rule wp_mono [OF requireAuth_confined [where P = "\<lambda>_. True"]]) (simp add: confined_def)
  have after: "wp (case parseAcquire e rq of
          Inl msg \<Rightarrow> returnM (fail 400 msg)
        | Inr p \<Rightarrow> do {
            r \<leftarrow> proxy (Acquire e (pa_serials p) (pa_count p) (pa_job p) (pa_priority p) (pa_wifi p) (pa_wifiBand p)
              (pa_sameProxy p) (tenantKey a rq) (clientIP rq));
            (case r of
                Inl err \<Rightarrow> returnM (fail (fst (httpStatusForAcquireError err)) (snd (httpStatusForAcquireError err)))
              | Inr sp \<Rightarrow> do {
                  k \<leftarrow> proxy tick;
                  (if en_cancelled e k then do {
                     _ \<leftarrow> proxy (Release e (sp_lockID sp) ''cancelled'');
                     returnM None }
                   else do {
                     h \<leftarrow> getM;
                     returnM (writeJSON 200 (Granted (sp_lockID sp) (sp_serials sp) (sp_port sp) (sp_token sp)
                       (ps_deviceAPIPort (stateOf (ht_world h) sp)))) }) }) }) ?Q h1"
    if "w_scoped (ht_world h1) = w_scoped (ht_world h)" for h1
  proof (cases "parseAcquire e rq")
    case (Inr p)
    show ?thesis
      unfolding Inr sum.case
      by (subst wp_bind, subst wp_proxy, rule wp_mono [OF Acquire_post])
        (use that in \<open>auto simp: fail_def writeJSON_def intro!: wp_mono [OF gone] split: sum.splits\<close>)
  qed (use that in \<open>simp add: fail_def writeJSON_def\<close>)
  show ?thesis
    unfolding handleAcquire_def
    by (subst wp_bind, rule wp_mono [OF auth])
      (use after in \<open>auto simp: unauthorized_def fail_def writeJSON_def simp del: wp_bind wp_sum\<close>)
qed

end
