(* ===== verification/Phone.thy ===== *)
theory Phone
  imports Effects GoTime GoStatus
begin

text \<open>
  A device source and the phones at its adb server: the fields of \<open>Server\<close>
  (\<open>devicesource/server.go\<close>), the serial filter, the one way a command gets to a phone
  (\<open>adbShell\<close>), and the loop that waits for a phone to reach a state (\<open>waitFor\<close>).

  Outside are the phones, the clock and the caller's context. Every question takes the next number
  and at least a nanosecond; the answer is a function of that number, so nothing is assumed about
  it. The adb processes the source has run are kept in order, each with its arguments, its standard
  input and what came of it. A Go map that is a set is the list of its keys.
\<close>

section \<open>Strings\<close>

text \<open>\<open>strings.Fields\<close>.\<close>

fun splitWhere :: "(char \<Rightarrow> bool) \<Rightarrow> bytes \<Rightarrow> bytes list" where
  "splitWhere P [] = [[]]"
| "splitWhere P (x # s) = (if P x then [] # splitWhere P s
     else (case splitWhere P s of [] \<Rightarrow> [[x]] | p # ps \<Rightarrow> (x # p) # ps))"

definition Fields :: "bytes \<Rightarrow> bytes list" where
  "Fields s = filter (\<lambda>f. f \<noteq> []) (splitWhere isSpace s)"

definition newline :: char where
  "newline = CHR 0x0A"

definition linesOf :: "bytes \<Rightarrow> bytes list" where
  "linesOf s = Split s newline"

text \<open>What \<open>strings.Cut\<close> returns first and second, whether the separator was there or not.\<close>

definition before :: "bytes \<Rightarrow> bytes \<Rightarrow> bytes" where
  "before s sep = (case Cut s sep of None \<Rightarrow> s | Some (a, _) \<Rightarrow> a)"

definition after :: "bytes \<Rightarrow> bytes \<Rightarrow> bytes" where
  "after s sep = (case Cut s sep of None \<Rightarrow> [] | Some (_, b) \<Rightarrow> b)"

text \<open>\<open>slices.Sorted(maps.Keys(m))\<close> of a set.\<close>

definition sortedKeys :: "bytes list \<Rightarrow> bytes list" where
  "sortedKeys ks = sort (remdups ks)"

text \<open>\<open>%v\<close> of an error.\<close>

definition errV :: "goerr option \<Rightarrow> bytes" where
  "errV err = (case err of None \<Rightarrow> ''<nil>'' | Some e \<Rightarrow> errorText e)"

text \<open>\<open>cmp.Or\<close> of two errors and of two strings.\<close>

definition errOr :: "goerr option \<Rightarrow> goerr option \<Rightarrow> goerr option" where
  "errOr a b = (case a of None \<Rightarrow> b | Some e \<Rightarrow> Some e)"

definition orElse :: "bytes \<Rightarrow> bytes \<Rightarrow> bytes" where
  "orElse a b = (if a = [] then b else a)"

section \<open>State\<close>

datatype adb_run = AdbRun (ar_args: "bytes list") (ar_stdin: bytes) (ar_output: bytes) (ar_err: "goerr option")

record build_props =
  bp_model :: bytes
  bp_manufacturer :: bytes
  bp_release :: bytes
  bp_sdk :: bytes

record wifi_stats =
  ws_joins :: "32 word"
  ws_failures :: "32 word"
  ws_byReason :: "(bytes \<times> 32 word) list"
  ws_lastFailure :: bytes
  ws_lastFailureAt :: "int option"
  ws_recent :: "int list"
  ws_slowest :: int
  ws_warned :: bool

record source =
  ds_step :: nat
  ds_time :: int
  ds_runs :: "adb_run list"
  ds_warnings :: "bytes \<Rightarrow> bytes option"
  ds_btWarnings :: "bytes \<Rightarrow> bytes option"
  ds_reboots :: "bytes \<Rightarrow> int option"
  ds_wifi :: "bytes \<Rightarrow> wifi_stats option"
  ds_props :: "bytes \<Rightarrow> build_props option"
  ds_accounts :: "bytes \<Rightarrow> (bytes list \<times> int) option"
  ds_baseline :: "bytes \<Rightarrow> bytes list option"
  ds_baselineWarned :: "bytes set"
  ds_filterLogged :: bytes
  ds_unknownKeyguard :: "bytes set"

text \<open>The configuration, from the environment (\<open>NewServer\<close>).\<close>

record config =
  cf_adbPort :: int
  cf_wifiSSID :: bytes
  cf_wifiPassphrase :: bytes
  cf_wifiPingHost :: bytes
  cf_wifiTimeout :: int
  cf_wifiOffTimeout :: int
  cf_wakeTimeout :: int
  cf_bluetoothTimeout :: int
  cf_radioTimeout :: int
  cf_rebootAfter :: int
  cf_rebootTimeout :: int
  cf_baselineOverride :: "bytes list option"
  cf_stopPackages :: "bytes list"
  cf_clearPackages :: "bytes list"
  cf_allow :: "bytes list option"
  cf_deny :: "bytes list option"

text \<open>
  What is outside: \<open>bn_adb\<close> runs adb with arguments and standard input and returns what
  \<open>CombinedOutput\<close> does, \<open>bn_expired\<close> and \<open>bn_ctxErr\<close> are \<open>Err() != nil\<close> of a context with a
  timeout and \<open>Err()\<close> of the caller's, \<open>bn_float\<close> is \<open>ParseFloat\<close> times a number of nanoseconds.
\<close>

record bench = config +
  bn_lapse :: "nat \<Rightarrow> nat"
  bn_adb :: "nat \<Rightarrow> bytes list \<Rightarrow> bytes \<Rightarrow> bytes \<times> goerr option"
  bn_expired :: "nat \<Rightarrow> bool"
  bn_ctxErr :: "nat \<Rightarrow> goerr option"
  bn_float :: "bytes \<Rightarrow> int \<Rightarrow> goerr + int"
  bn_isPrint :: "bytes \<Rightarrow> bool"

type_synonym 'a op = "(source, 'a) state"

section \<open>Asking\<close>

definition ask :: "bench \<Rightarrow> nat op" where
  "ask b = do {
     s \<leftarrow> getM;
     modify (\<lambda>s. s\<lparr>ds_step := Suc (ds_step s), ds_time := ds_time s + 1 + int (bn_lapse b (ds_step s))\<rparr>);
     returnM (ds_step s) }"

definition clock :: "bench \<Rightarrow> int op" where
  "clock b = do { _ \<leftarrow> ask b; s \<leftarrow> getM; returnM (ds_time s) }"

definition ctxErr :: "bench \<Rightarrow> goerr option op" where
  "ctxErr b = do { n \<leftarrow> ask b; returnM (bn_ctxErr b n) }"

text \<open>The \<open>select\<close> between a timer and the context: a timer that fires has taken its time.\<close>

definition sleepOrDone :: "bench \<Rightarrow> int \<Rightarrow> goerr option op" where
  "sleepOrDone b d = do {
     n \<leftarrow> ask b;
     (case bn_ctxErr b n of
        Some er \<Rightarrow> returnM (Some er)
      | None \<Rightarrow> do { modify (\<lambda>s. s\<lparr>ds_time := ds_time s + max 0 d\<rparr>); returnM None }) }"

section \<open>Commands\<close>

text \<open>
  \<open>adbShell\<close>: \<open>sh\<close> on the phone reads the command from its standard input.
\<close>

definition shellArgs :: "bench \<Rightarrow> bytes \<Rightarrow> bytes list" where
  "shellArgs b serial = [''-P'', fmtInt (cf_adbPort b), ''-s'', serial, ''shell'', ''sh'']"

definition script :: "bytes \<Rightarrow> bytes" where
  "script command = command @ newline # ''exit'' @ [newline]"

definition shell :: "bench \<Rightarrow> bytes \<Rightarrow> bytes \<Rightarrow> (bytes \<times> goerr option) op" where
  "shell b serial command = do {
     n \<leftarrow> ask b;
     (case bn_adb b n (shellArgs b serial) (script command) of (out, err) \<Rightarrow> do {
        modify (\<lambda>s. s\<lparr>ds_runs := ds_runs s @ [AdbRun (shellArgs b serial) (script command) out err]\<rparr>);
        returnM (out, map_option (\<lambda>er. Wrapf er (errorText er @ '': '' @ TrimSpace out)) err) }) }"

definition radioShell :: "bench \<Rightarrow> bytes \<Rightarrow> bytes \<Rightarrow> (bytes \<times> goerr option) op" where
  "radioShell b serial command = do {
     let timeout = (if cf_radioTimeout b = 0 then 15 * secondT else cf_radioTimeout b);
     (out, err) \<leftarrow> shell b serial command;
     n \<leftarrow> ask b;
     (if err \<noteq> None \<and> bn_expired b n \<and> bn_ctxErr b n = None
      then returnM (out, Some (Wrapf (Sentinel ErrRadioHung) (sentinelText ErrRadioHung @ '' within '' @ DurationString timeout)))
      else returnM (out, err)) }"

definition svc :: "bench \<Rightarrow> bytes \<Rightarrow> bytes \<Rightarrow> goerr option op" where
  "svc b serial args = do {
     (_, err) \<leftarrow> radioShell b serial (''svc '' @ args);
     returnM (if errIs err ErrRadioHung then None else err) }"

text \<open>\<open>shellQuote\<close>: a single-quoted word, each single quote in it written outside the quotes.\<close>

definition quote :: char where
  "quote = CHR 0x27"

definition shellQuote :: "bytes \<Rightarrow> bytes" where
  "shellQuote s = [quote] @ ReplaceByte quote [quote, CHR 0x5C, quote, quote] s @ [quote]"

section \<open>Waiting\<close>

text \<open>
  \<open>waitFor\<close>. A check says what it waited for (the variables its closure assigns) or why not; a
  wait that fails also says the last reason, which a closure may have kept. A \<open>Panic\<close> of the check is
  the end of the process. \<open>waitPolls\<close> is the loop for at most \<open>n\<close> turns, \<open>None\<close> when they were
  not enough.
\<close>

datatype 'v waited = Reached 'v | GaveUp (gu_err: goerr) (gu_last: goerr)

definition pollAgain :: "bench \<Rightarrow> int \<Rightarrow> bytes \<Rightarrow> int \<Rightarrow> goerr \<Rightarrow> 'v waited option op \<Rightarrow> 'v waited option op" where
  "pollAgain b timeout what deadline er again = do {
     t \<leftarrow> clock b;
     (if deadline < t
      then returnM (Some (GaveUp (Status DeadlineExceeded
        (what @ '' within '' @ DurationString timeout @ '': '' @ errorText er)) er))
      else do {
        t \<leftarrow> clock b;
        r \<leftarrow> sleepOrDone b (min (2 * secondT) (deadline - t));
        (case r of Some ctx \<Rightarrow> returnM (Some (GaveUp ctx er)) | None \<Rightarrow> again) }) }"

fun waitPolls :: "bench \<Rightarrow> int \<Rightarrow> bytes \<Rightarrow> int \<Rightarrow> (goerr + 'v) op \<Rightarrow> nat \<Rightarrow> 'v waited option op" where
  "waitPolls b timeout what deadline check 0 = returnM None"
| "waitPolls b timeout what deadline check (Suc n) = do {
     r \<leftarrow> check;
     (case r of
        Inr v \<Rightarrow> returnM (Some (Reached v))
      | Inl er \<Rightarrow> if er = Panic then returnM (Some (GaveUp Panic Panic))
          else pollAgain b timeout what deadline er (waitPolls b timeout what deadline check n)) }"

definition pollTurns :: "int \<Rightarrow> nat" where
  "pollTurns timeout = nat (timeout div (2 * secondT)) + 2"

definition waitValue :: "bench \<Rightarrow> int \<Rightarrow> bytes \<Rightarrow> (goerr + 'v) op \<Rightarrow> 'v waited op" where
  "waitValue b timeout what check = do {
     t \<leftarrow> clock b;
     r \<leftarrow> waitPolls b timeout what (t + timeout) check (pollTurns timeout);
     returnM (case r of Some w \<Rightarrow> w | None \<Rightarrow> GaveUp OutOfTurns OutOfTurns) }"

text \<open>A check that only says why not.\<close>

definition asCheck :: "goerr option op \<Rightarrow> (goerr + unit) op" where
  "asCheck check = do { err \<leftarrow> check; returnM (case err of None \<Rightarrow> Inr () | Some er \<Rightarrow> Inl er) }"

definition waitForPhone :: "bench \<Rightarrow> int \<Rightarrow> bytes \<Rightarrow> goerr option op \<Rightarrow> goerr option op" where
  "waitForPhone b timeout what check = do {
     w \<leftarrow> waitValue b timeout what (asCheck check);
     returnM (case w of Reached _ \<Rightarrow> None | GaveUp er _ \<Rightarrow> Some er) }"

section \<open>The serial filter\<close>

definition managed :: "bench \<Rightarrow> bytes \<Rightarrow> bool" where
  "managed b serial = (case cf_allow b of
     Some allow \<Rightarrow> serial \<in> set allow
   | None \<Rightarrow> (case cf_deny b of Some deny \<Rightarrow> serial \<notin> set deny | None \<Rightarrow> True))"

text \<open>\<open>serialPattern\<close>.\<close>

definition isAlnum :: "char \<Rightarrow> bool" where
  "isAlnum c \<longleftrightarrow> (let n = byte c in 48 \<le> n \<and> n \<le> 57 \<or> 65 \<le> n \<and> n \<le> 90 \<or> 97 \<le> n \<and> n \<le> 122)"

definition isSerialChar :: "char \<Rightarrow> bool" where
  "isSerialChar c \<longleftrightarrow> isAlnum c \<or> c \<in> set ''._:()-''"

definition validateSerial :: "bytes \<Rightarrow> goerr option" where
  "validateSerial serial = (if serial = [] \<or> \<not> list_all isSerialChar serial
     then Some (Status InvalidArgument (''invalid device serial: '' @ serial)) else None)"

definition checkSerial :: "bench \<Rightarrow> bytes \<Rightarrow> goerr option" where
  "checkSerial b serial = (case validateSerial serial of
     Some er \<Rightarrow> Some er
   | None \<Rightarrow> if managed b serial then None
       else Some (Status NotFound (''device '' @ serial @ '' is excluded by DEVICE_SERIALS/EXCLUDE_SERIALS'')))"

section \<open>Running the questions\<close>

lemma wp_ask [simp]: "wp (ask b) Q = (\<lambda>s. Q (ds_step s)
    (s\<lparr>ds_step := Suc (ds_step s), ds_time := ds_time s + 1 + int (bn_lapse b (ds_step s))\<rparr>))"
  by (simp add: ask_def)

lemma wp_clock [simp]: "wp (clock b) Q = (\<lambda>s. let t = ds_time s + 1 + int (bn_lapse b (ds_step s)) in
    Q t (s\<lparr>ds_step := Suc (ds_step s), ds_time := t\<rparr>))"
  by (simp add: clock_def Let_def)

text \<open>
  What \<open>bn_adb\<close> answers to command \<open>c\<close> as question \<open>n\<close>, and the state after it.
\<close>

definition answer :: "bench \<Rightarrow> nat \<Rightarrow> bytes \<Rightarrow> bytes \<Rightarrow> bytes \<times> goerr option" where
  "answer b n serial c = (case bn_adb b n (shellArgs b serial) (script c) of
     (out, err) \<Rightarrow> (out, map_option (\<lambda>er. Wrapf er (errorText er @ '': '' @ TrimSpace out)) err))"

definition ran :: "bench \<Rightarrow> bytes \<Rightarrow> bytes \<Rightarrow> source \<Rightarrow> source" where
  "ran b serial c s = s\<lparr>ds_step := Suc (ds_step s), ds_time := ds_time s + 1 + int (bn_lapse b (ds_step s)),
     ds_runs := ds_runs s @ [case bn_adb b (ds_step s) (shellArgs b serial) (script c) of
       (out, err) \<Rightarrow> AdbRun (shellArgs b serial) (script c) out err]\<rparr>"

lemma wp_shell [simp]: "wp (shell b serial c) Q = (\<lambda>s. Q (answer b (ds_step s) serial c) (ran b serial c s))"
  by (simp add: shell_def answer_def ran_def fun_eq_iff split: prod.split)

section \<open>Invariants\<close>

text \<open>
  What an invariant has to survive for every operation on phone \<open>serial\<close> to preserve it: time, the
  commands that are \<open>allowed\<close>, and what the source keeps about that phone.
\<close>

locale phone_invariant =
  fixes b :: bench
    and serial :: bytes
    and inv :: "source \<Rightarrow> bool"
    and allowed :: "bytes \<Rightarrow> bool"
  assumes inv_time: "inv s \<Longrightarrow> ds_time s \<le> t \<Longrightarrow> inv (s\<lparr>ds_step := n, ds_time := t\<rparr>)"
    and inv_run: "inv s \<Longrightarrow> allowed c \<Longrightarrow>
      inv (s\<lparr>ds_runs := ds_runs s @ [AdbRun (shellArgs b serial) (script c) out err]\<rparr>)"
    and inv_warnings: "inv s \<Longrightarrow> inv (s\<lparr>ds_warnings := (ds_warnings s)(serial := w)\<rparr>)"
    and inv_btWarnings: "inv s \<Longrightarrow> inv (s\<lparr>ds_btWarnings := (ds_btWarnings s)(serial := w)\<rparr>)"
    and inv_reboots: "inv s \<Longrightarrow> inv (s\<lparr>ds_reboots := (ds_reboots s)(serial := r)\<rparr>)"
    and inv_wifi: "inv s \<Longrightarrow> inv (s\<lparr>ds_wifi := (ds_wifi s)(serial := ws)\<rparr>)"
    and inv_props: "inv s \<Longrightarrow> inv (s\<lparr>ds_props := (ds_props s)(serial := bp)\<rparr>)"
    and inv_accounts: "inv s \<Longrightarrow> inv (s\<lparr>ds_accounts := (ds_accounts s)(serial := ac)\<rparr>)"
    and inv_baseline: "inv s \<Longrightarrow> inv (s\<lparr>ds_baseline := (ds_baseline s)(serial := bl)\<rparr>)"
    and inv_baselineWarned: "inv s \<Longrightarrow> inv (s\<lparr>ds_baselineWarned := insert serial (ds_baselineWarned s)\<rparr>)"
    and inv_unknownKeyguard: "inv s \<Longrightarrow> inv (s\<lparr>ds_unknownKeyguard := insert serial (ds_unknownKeyguard s)\<rparr>)"
begin

lemma keeps_ask [keeps]: "keeps inv (ask b)"
  unfolding ask_def by (intro keeps keeps_modify inv_time) simp_all

lemma keeps_clock [keeps]: "keeps inv (clock b)"
  unfolding clock_def by (intro keeps)

lemma keeps_ctxErr [keeps]: "keeps inv (ctxErr b)"
  unfolding ctxErr_def by (intro keeps)

lemma inv_sleep: "inv s \<Longrightarrow> inv (s\<lparr>ds_time := ds_time s + max 0 d\<rparr>)"
  using inv_time [of s "ds_time s + max 0 d" "ds_step s"] by simp

lemma keeps_sleepOrDone [keeps]: "keeps inv (sleepOrDone b d)"
  unfolding sleepOrDone_def by (intro keeps keeps_modify inv_sleep)

lemma keeps_shell: "allowed c \<Longrightarrow> keeps inv (shell b serial c)"
  unfolding shell_def by (intro keeps keeps_modify inv_run)

lemma keeps_radioShell: "allowed c \<Longrightarrow> keeps inv (radioShell b serial c)"
  unfolding radioShell_def Let_def by (intro keeps keeps_shell)

lemma keeps_svc: "allowed (''svc '' @ c) \<Longrightarrow> keeps inv (svc b serial c)"
  unfolding svc_def by (intro keeps keeps_radioShell)

lemma keeps_pollAgain [keeps]: "keeps inv again \<Longrightarrow> keeps inv (pollAgain b timeout what deadline er again)"
  unfolding pollAgain_def by (intro keeps)

lemma keeps_waitPolls: "keeps inv check \<Longrightarrow> keeps inv (waitPolls b timeout what deadline check n)"
  by (induction n) (auto intro!: keeps)

lemma keeps_waitValue [keeps]: "keeps inv check \<Longrightarrow> keeps inv (waitValue b timeout what check)"
  unfolding waitValue_def by (intro keeps keeps_waitPolls)

lemma keeps_waitForPhone [keeps]: "keeps inv check \<Longrightarrow> keeps inv (waitForPhone b timeout what check)"
  unfolding waitForPhone_def asCheck_def by (intro keeps)

end

text \<open>An invariant that allows any command.\<close>

locale any_command = phone_invariant b serial inv "\<lambda>_. True" for b serial inv
begin

lemma keeps_anyShell [keeps]: "keeps inv (shell b serial c)"
  by (rule keeps_shell) simp

lemma keeps_anyRadioShell [keeps]: "keeps inv (radioShell b serial c)"
  by (rule keeps_radioShell) simp

lemma keeps_anySvc [keeps]: "keeps inv (svc b serial c)"
  by (rule keeps_svc) simp

end

text \<open>Time only goes forward.\<close>

interpretation forward: any_command b serial "\<lambda>s. t \<le> ds_time s" for b serial t
  by unfold_locales auto

section \<open>The end of a wait\<close>

lemma wp_sleepOrDone:
  assumes "\<And>er s'. Q (Some er) s'" and "\<And>s'. ds_time s + 1 + max 0 d \<le> ds_time s' \<Longrightarrow> Q None s'"
  shows "wp (sleepOrDone b d) Q s"
  using assms by (simp add: sleepOrDone_def split: option.split)

lemma wp_clockI:
  fixes s :: source
  assumes "\<And>u :: source. ds_time s < ds_time u \<Longrightarrow> Q (ds_time u) u"
  shows "wp (clock b) Q s"
  using assms [of "s\<lparr>ds_step := Suc (ds_step s), ds_time := ds_time s + 1 + int (bn_lapse b (ds_step s))\<rparr>"]
  by (simp add: Let_def)

text \<open>The post-condition \<open>Q\<close> only asks for a turn that ended: it holds of every \<open>Some\<close>.\<close>

lemma pollAgain_ends:
  fixes s :: source
  assumes Q: "\<And>r s. Q (Some r) s"
    and again: "\<And>s' :: source. deadline < ds_time s' \<or> ds_time s + 2 * secondT \<le> ds_time s' \<Longrightarrow>
      wp again Q s'"
  shows "wp (pollAgain b timeout what deadline er again) Q s"
proof -
  let ?d = "\<lambda>t. min (2 * secondT) (deadline - t)"
  have "wp (sleepOrDone b (?d (ds_time u)))
      (\<lambda>r. wp (case r of Some ctx \<Rightarrow> returnM (Some (GaveUp ctx er)) | None \<Rightarrow> again) Q) u"
    if "ds_time s \<le> ds_time u" for u :: source
  proof (rule wp_sleepOrDone)
    fix s' :: source assume "ds_time u + 1 + max 0 (?d (ds_time u)) \<le> ds_time s'"
    with that have "deadline < ds_time s' \<or> ds_time s + 2 * secondT \<le> ds_time s'"
      by linarith
    from again [OF this] show "wp (case None of Some ctx \<Rightarrow> returnM (Some (GaveUp ctx er)) | None \<Rightarrow> again) Q s'"
      by simp
  qed (simp add: Q)
  then show ?thesis
    unfolding pollAgain_def wp_bind wp_if wp_return
    by (intro wp_clockI) (auto simp: Q intro!: wp_clockI simp del: wp_option wp_clock)
qed

lemma waitPolls_turn:
  fixes s :: source
  assumes Q: "\<And>r s. Q (Some r) s"
    and check: "keeps (\<lambda>s'. ds_time s \<le> ds_time s') check"
    and again: "\<And>er (u :: source). ds_time s \<le> ds_time u \<Longrightarrow>
      wp (pollAgain b timeout what deadline er (waitPolls b timeout what deadline check n)) Q u"
  shows "wp (waitPolls b timeout what deadline check (Suc n)) Q s"
  by (subst waitPolls.simps, subst wp_bind, rule wp_mono [OF keeps_wp [OF check order.refl]])
    (simp add: Q again split: sum.split)

lemma waitPolls_ends:
  fixes s :: source
  assumes Q: "\<And>r s. Q (Some r) s" and check: "\<And>t. keeps (\<lambda>s. t \<le> ds_time s) check"
  shows "deadline - ds_time s < 2 * secondT * int n \<Longrightarrow>
    wp (waitPolls b timeout what deadline check (Suc n)) Q s"
proof (induction n arbitrary: s)
  case 0
  then show ?case
    by (intro waitPolls_turn Q check) (simp add: pollAgain_def Let_def Q)
next
  case (Suc n)
  show ?case
  proof (rule waitPolls_turn, rule Q, rule check, rule pollAgain_ends, rule Q)
    fix er and u s' :: source
    assume u: "ds_time s \<le> ds_time u"
      and s': "deadline < ds_time s' \<or> ds_time u + 2 * secondT \<le> ds_time s'"
    have "0 \<le> secondT * int n" by (simp add: secondT_def)
    with u s' Suc.prems have "deadline - ds_time s' < 2 * secondT * int n"
      by (auto simp: algebra_simps)
    then show "wp (waitPolls b timeout what deadline check (Suc n)) Q s'"
      by (rule Suc.IH)
  qed
qed

lemma waitFor_turns_enough:
  fixes check :: "(goerr + 'v) op"
  assumes "\<And>t. keeps (\<lambda>s. t \<le> ds_time s) check"
  shows "wp (do { t \<leftarrow> clock b; waitPolls b timeout what (t + timeout) check (pollTurns timeout) })
    (\<lambda>r _. r \<noteq> None) s"
proof -
  define Q :: "'v waited option \<Rightarrow> source \<Rightarrow> bool" where "Q = (\<lambda>r _. r \<noteq> None)"
  have "timeout < 2 * secondT * int (Suc (nat (timeout div (2 * secondT))))"
    by (cases "0 \<le> timeout") (auto simp: secondT_def)
  then have "wp (waitPolls b timeout what (ds_time u + timeout) check (pollTurns timeout)) Q u" for u :: source
    unfolding pollTurns_def add_2_eq_Suc'
    by (intro waitPolls_ends assms) (simp_all add: Q_def)
  then show ?thesis
    unfolding Q_def [symmetric] wp_bind by (intro wp_clockI)
qed

section \<open>What an operation runs\<close>

definition runs :: "bytes \<Rightarrow> adb_run \<Rightarrow> bool" where
  "runs c x \<longleftrightarrow> ar_stdin x = script c"

lemma runs_AdbRun [simp]: "runs c (AdbRun a (script c') out err) \<longleftrightarrow> c = c'"
  by (auto simp: runs_def script_def)

text \<open>
  \<open>emits m Q\<close>: from any state, whatever is answered, \<open>m\<close> returns some \<open>r\<close> after running commands
  \<open>rs\<close> such that \<open>Q r rs\<close>; the answers are in \<open>rs\<close>. The rules in the collection \<open>emits\<close>
  compute what is left to show.
\<close>

definition emits :: "'a op \<Rightarrow> ('a \<Rightarrow> adb_run list \<Rightarrow> bool) \<Rightarrow> bool" where
  "emits m Q \<longleftrightarrow> (\<forall>s. wp m (\<lambda>r s'. \<exists>rs. ds_runs s' = ds_runs s @ rs \<and> Q r rs) s)"

named_theorems emits "what is left to show of an operation's commands"

lemma emits_wp: "emits m Q \<Longrightarrow> wp m (\<lambda>r s'. \<exists>rs. ds_runs s' = ds_runs s @ rs \<and> Q r rs) s"
  by (simp add: emits_def)

lemma emits_mono: "emits m Q \<Longrightarrow> (\<And>r rs. Q r rs \<Longrightarrow> R r rs) \<Longrightarrow> emits m R"
  unfolding emits_def by (blast intro: wp_mono)

lemma emits_conj: "emits m Q \<Longrightarrow> emits m R \<Longrightarrow> emits m (\<lambda>r rs. Q r rs \<and> R r rs)"
  by (auto simp: emits_def wp_def split: prod.splits) (metis same_append_eq)

lemma emits_return [emits]: "Q a [] \<Longrightarrow> emits (State_Monad.return a) Q"
  by (simp add: emits_def)

lemma emits_get [emits]: "(\<And>s. Q s []) \<Longrightarrow> emits State_Monad.get Q"
  by (simp add: emits_def)

lemma emits_bind [emits]:
  assumes "emits m (\<lambda>r rs. emits (f r) (\<lambda>r' rs'. Q r' (rs @ rs')))"
  shows "emits (State_Monad.bind m f) Q"
  unfolding emits_def wp_bind
proof
  fix s
  show "wp m (\<lambda>a. wp (f a) (\<lambda>r s'. \<exists>rs. ds_runs s' = ds_runs s @ rs \<and> Q r rs)) s"
    by (rule wp_mono [OF emits_wp [OF assms]]) (auto dest!: emits_wp elim!: wp_mono)
qed

lemma emits_modify [emits]: "(\<And>s. ds_runs (f s) = ds_runs s) \<Longrightarrow> Q () [] \<Longrightarrow> emits (modify f) Q"
  by (simp add: emits_def)

lemma emits_if [emits]: "(c \<Longrightarrow> emits m Q) \<Longrightarrow> (\<not> c \<Longrightarrow> emits n Q) \<Longrightarrow> emits (if c then m else n) Q"
  by simp

lemma emits_when [emits]: "(c \<Longrightarrow> emits m Q) \<Longrightarrow> (\<not> c \<Longrightarrow> Q () []) \<Longrightarrow> emits (whenM c m) Q"
  by (simp add: whenM_def emits_return)

lemma emits_option [emits]:
  "(x = None \<Longrightarrow> emits m Q) \<Longrightarrow> (\<And>y. x = Some y \<Longrightarrow> emits (f y) Q) \<Longrightarrow>
    emits (case x of None \<Rightarrow> m | Some y \<Rightarrow> f y) Q"
  by (cases x) simp_all

lemma emits_sum [emits]:
  "(\<And>y. x = Inl y \<Longrightarrow> emits (f y) Q) \<Longrightarrow> (\<And>y. x = Inr y \<Longrightarrow> emits (g y) Q) \<Longrightarrow>
    emits (case x of Inl y \<Rightarrow> f y | Inr y \<Rightarrow> g y) Q"
  by (cases x) simp_all

lemma emits_prod [emits]:
  "(\<And>y z. x = (y, z) \<Longrightarrow> emits (f y z) Q) \<Longrightarrow> emits (case x of (y, z) \<Rightarrow> f y z) Q"
  by (cases x) simp

lemma emits_ask [emits]: "(\<And>n. Q n []) \<Longrightarrow> emits (ask b) Q"
  by (simp add: emits_def)

lemma emits_clock [emits]: "(\<And>t. Q t []) \<Longrightarrow> emits (clock b) Q"
  by (simp add: emits_def Let_def)

lemma emits_sleepOrDone [emits]: "(\<And>r. Q r []) \<Longrightarrow> emits (sleepOrDone b d) Q"
  unfolding sleepOrDone_def by (intro emits) simp_all

lemma emits_foreach:
  "(\<And>x. emits (f x) (\<lambda>_ rs. list_all P rs)) \<Longrightarrow> emits (foreach xs f) (\<lambda>_ rs. list_all P rs)"
proof (induction xs)
  case Nil
  then show ?case by (simp add: emits_return)
next
  case (Cons x xs)
  then show ?case
    by (auto intro!: emits_bind emits_mono [OF Cons.prems] elim!: emits_mono)
qed

definition shellErr :: "bytes \<Rightarrow> goerr option \<Rightarrow> goerr option" where
  "shellErr out err = map_option (\<lambda>er. Wrapf er (errorText er @ '': '' @ TrimSpace out)) err"

lemma shellErr_None [simp]: "shellErr out err = None \<longleftrightarrow> err = None"
  by (simp add: shellErr_def)

lemma shellErr_nil [simp]: "shellErr out None = None"
  by (simp add: shellErr_def)

lemma emits_shell [emits]:
  "(\<And>out err. Q (out, shellErr out err) [AdbRun (shellArgs b serial) (script c) out err]) \<Longrightarrow>
    emits (shell b serial c) Q"
  by (simp add: emits_def answer_def ran_def shellErr_def split: prod.split)

lemma emits_radioShell [emits]:
  assumes "\<And>out err err'. err' = None \<longleftrightarrow> err = None \<Longrightarrow>
    Q (out, err') [AdbRun (shellArgs b serial) (script c) out err]"
  shows "emits (radioShell b serial c) Q"
  unfolding radioShell_def Let_def by (intro emits) (auto intro!: assms)

lemma emits_svc [emits]:
  assumes "\<And>out err r. Q r [AdbRun (shellArgs b serial) (script (''svc '' @ args)) out err]"
  shows "emits (svc b serial args) Q"
  unfolding svc_def by (intro emits) (use assms in auto)

lemma emits_pollAgain:
  assumes "\<And>e. Q (Some (GaveUp e er)) []" and "emits again Q"
  shows "emits (pollAgain b timeout what deadline er again) Q"
  unfolding pollAgain_def using assms by (intro emits) simp_all

text \<open>\<open>I\<close> holds of what the failed checks have run; \<open>er\<close> is the reason of the latest.\<close>

lemma emits_waitPolls:
  assumes check: "\<And>pre. I pre \<Longrightarrow> emits check (\<lambda>r rs. case r of
      Inr v \<Rightarrow> Q (Some (Reached v)) (pre @ rs)
    | Inl er \<Rightarrow> if er = Panic then Q (Some (GaveUp Panic Panic)) (pre @ rs)
        else I (pre @ rs) \<and> (\<forall>e. Q (Some (GaveUp e er)) (pre @ rs)))"
    and none: "\<And>rs. I rs \<Longrightarrow> Q None rs"
  shows "I pre \<Longrightarrow> emits (waitPolls b timeout what deadline check n) (\<lambda>r rs. Q r (pre @ rs))"
proof (induction n arbitrary: pre)
  case 0
  then show ?case by (simp add: emits_return none)
next
  case (Suc n)
  show ?case unfolding waitPolls.simps
  proof (rule emits_bind, rule emits_mono [OF check [OF Suc.prems]])
    fix r rs
    assume r: "case r of Inr v \<Rightarrow> Q (Some (Reached v)) (pre @ rs)
      | Inl er \<Rightarrow> if er = Panic then Q (Some (GaveUp Panic Panic)) (pre @ rs)
          else I (pre @ rs) \<and> (\<forall>e. Q (Some (GaveUp e er)) (pre @ rs))"
    show "emits (case r of Inr v \<Rightarrow> returnM (Some (Reached v))
      | Inl er \<Rightarrow> if er = Panic then returnM (Some (GaveUp Panic Panic))
          else pollAgain b timeout what deadline er (waitPolls b timeout what deadline check n))
      (\<lambda>r' rs'. Q r' (pre @ rs @ rs'))"
      using r Suc.IH [of "pre @ rs"] by (intro emits emits_pollAgain) simp_all
  qed
qed

lemma emits_waitValue:
  assumes "I []" and "\<And>pre. I pre \<Longrightarrow> emits check (\<lambda>r rs. case r of
      Inr v \<Rightarrow> Q (Reached v) (pre @ rs)
    | Inl er \<Rightarrow> if er = Panic then Q (GaveUp Panic Panic) (pre @ rs)
        else I (pre @ rs) \<and> (\<forall>e. Q (GaveUp e er) (pre @ rs)))"
    and "\<And>rs. I rs \<Longrightarrow> Q (GaveUp OutOfTurns OutOfTurns) rs"
  shows "emits (waitValue b timeout what check) Q"
  unfolding waitValue_def
  by (intro emits emits_mono [OF emits_waitPolls [of I check "\<lambda>r. Q (case r of Some w \<Rightarrow> w | None \<Rightarrow> GaveUp OutOfTurns OutOfTurns)" "[]"]]
      emits_mono [OF assms(2)]) (auto simp: assms split: sum.splits option.splits if_splits)

lemma emits_waitForPhone:
  assumes "I []" and "\<And>pre. I pre \<Longrightarrow> emits check (\<lambda>err rs. if err = None then Q None (pre @ rs) else I (pre @ rs))"
    and "\<And>rs er. I rs \<Longrightarrow> Q (Some er) rs"
  shows "emits (waitForPhone b timeout what check) Q"
  unfolding waitForPhone_def asCheck_def
  by (intro emits emits_waitValue [where I = I] emits_mono [OF assms(2)])
    (auto simp: assms intro!: emits_return split: option.splits if_splits)

section \<open>Quoting\<close>

text \<open>
  POSIX quote removal as far as \<open>shellQuote\<close> needs it, one reader of words that keeps its rules:
  between single quotes every character is itself, a backslash outside quotes protects the next one,
  and an unquoted blank or newline ends the word.
\<close>

fun posixWord :: "bool \<Rightarrow> bytes \<Rightarrow> bytes \<times> bytes" where
  "posixWord q [] = ([], [])"
| "posixWord True (c # s) = (if c = quote then posixWord False s else apfst ((#) c) (posixWord True s))"
| "posixWord False [c] = (if c = quote \<or> isSpace c then ([], [c]) else ([c], []))"
| "posixWord False (c # d # s) = (if c = quote then posixWord True (d # s)
     else if isSpace c then ([], c # d # s)
     else if c = CHR 0x5C then apfst ((#) d) (posixWord False s)
     else apfst ((#) c) (posixWord False (d # s)))"

lemma posixWord_quoted:
  "quote \<notin> set t \<Longrightarrow> posixWord True (t @ quote # u) = apfst ((@) t) (posixWord False u)"
  by (induction t) (auto simp: apfst_def map_prod_def split: prod.split)

lemma shellQuote_body:
  assumes quoted: "\<And>t u. quote \<notin> set t \<Longrightarrow> word (quote # t @ quote # u) = apfst ((@) t) (word u)"
    and escaped: "\<And>u. word (CHR 0x5C # quote # u) = apfst ((#) quote) (word u)"
  shows "quote \<notin> set t \<Longrightarrow> word (quote # t @ ReplaceByte quote [quote, CHR 0x5C, quote, quote] s @ quote # u)
    = apfst ((@) (t @ s)) (word u)"
proof (induction s arbitrary: t)
  case Nil
  then show ?case by (simp add: quoted ReplaceByte_def)
next
  case (Cons c s)
  show ?case
  proof (cases "c = quote")
    case True
    with Cons.IH [of "[]"] Cons.prems show ?thesis
      by (simp add: quoted escaped ReplaceByte_def apfst_compose comp_def)
  next
    case False
    with Cons.IH [of "t @ [c]"] Cons.prems show ?thesis by (simp add: ReplaceByte_def)
  qed
qed

text \<open>
  Nothing a value contains gets out of its quotes: the phone's \<open>sh\<close> reads what \<open>shellQuote\<close>
  writes back as exactly the quoted value, whatever it is, for every reader of words that keeps the rules of
  POSIX for single quotes, for a backslash before a quote and for the end of a word.
\<close>

theorem shellQuote_reads_back:
  assumes "\<And>t u. quote \<notin> set t \<Longrightarrow> word (quote # t @ quote # u) = apfst ((@) t) (word u)"
    and "\<And>u. word (CHR 0x5C # quote # u) = apfst ((#) quote) (word u)"
    and "\<And>c u. c \<in> {CHR '' '', newline} \<Longrightarrow> word (c # u) = ([], c # u)"
    and "c \<in> {CHR '' '', newline}"
  shows "word (shellQuote s @ c # u) = (s, c # u)"
  using shellQuote_body [of word "[]" s "c # u"] assms by (simp add: shellQuote_def)

theorem shellQuote_reads_back_witness:
  "posixWord False (shellQuote ''it's; reboot'' @ CHR '' '' # ''open'') = (''it's; reboot'', CHR '' '' # ''open'')"
proof (rule shellQuote_reads_back)
  show "posixWord False (quote # t @ quote # u) = apfst ((@) t) (posixWord False u)"
    if "quote \<notin> set t" for t u
    using posixWord_quoted [OF that, of u] by (cases t) (auto simp: quote_def)
  show "posixWord False (CHR 0x5C # quote # u) = apfst ((#) quote) (posixWord False u)" for u
    by (simp add: quote_def isSpace_def)
  show "posixWord False (c # u) = ([], c # u)" if "c \<in> {CHR '' '', newline}" for c u
    using that by (cases u) (auto simp: quote_def isSpace_def newline_def)
qed simp

end
