(* ===== verification/PhonePackages.thy ===== *)
theory PhonePackages
  imports Phone
begin

text \<open>
  \<open>devicesource/packages.go\<close>: the packages a phone had before a job, and uninstalling what a job
  left behind. A set of packages is the list of its names.
\<close>

section \<open>Listings\<close>

definition parsePackages :: "bytes \<Rightarrow> bytes list" where
  "parsePackages out = concat (map (\<lambda>line. case CutPrefix (TrimSpace line) ''package:'' of
     Some name \<Rightarrow> if name \<noteq> [] then [name] else [] | None \<Rightarrow> []) (linesOf out))"

definition instrumented :: "bytes list \<Rightarrow> bytes \<Rightarrow> bytes list" where
  "instrumented installed line = (case CutPrefix (TrimSpace line) ''instrumentation:'' of
     None \<Rightarrow> []
   | Some rest \<Rightarrow> let pkg = before rest ''/'';
         target = TrimSuffix (TrimSpace (after rest ''(target='')) '')''
       in if pkg = [] \<or> target = [] \<or> pkg = target \<or> pkg \<notin> set installed \<or> target \<notin> set installed
          then [] else [pkg, target])"

definition instrumentationPackages :: "bytes \<Rightarrow> bytes list \<Rightarrow> bytes list" where
  "instrumentationPackages out installed = sortedKeys (concat (map (instrumented installed) (linesOf out)))"

definition linesGone :: "bytes \<Rightarrow> bytes \<Rightarrow> bytes list" where
  "linesGone old new = (let have = map TrimSpace (linesOf new)
     in filter (\<lambda>line. line \<notin> set have \<and> line \<noteq> []) (map TrimSpace (linesOf old)))"

text \<open>\<open>packageList\<close> on the value of an environment variable.\<close>

definition packageList :: "bytes \<Rightarrow> bytes list" where
  "packageList v = filter (\<lambda>p. p \<noteq> []) (map TrimSpace (Split v CHR '',''))"

section \<open>The baseline\<close>

definition listCommand :: "bytes \<Rightarrow> bytes" where
  "listCommand flag = ''pm list packages '' @ flag"

definition recordBaseline :: "bench \<Rightarrow> bytes \<Rightarrow> unit op" where
  "recordBaseline b serial = do {
     s \<leftarrow> getM;
     (if cf_baselineOverride b \<noteq> None \<or> ds_baseline s serial \<noteq> None then returnM ()
      else do {
        (out, err) \<leftarrow> shell b serial (listCommand ''-3'');
        (if err \<noteq> None
         then modify (\<lambda>s. s\<lparr>ds_baselineWarned := insert serial (ds_baselineWarned s)\<rparr>)
         else do {
           let pkgs = parsePackages out;
           (out, err) \<leftarrow> shell b serial ''pm list instrumentation'';
           let excluded = (if err = None then instrumentationPackages out pkgs else []);
           modify (\<lambda>s. s\<lparr>ds_baseline := (ds_baseline s)(serial := Some (filter (\<lambda>p. p \<notin> set excluded) pkgs))\<rparr>) }) }) }"

definition baselineFor :: "bench \<Rightarrow> source \<Rightarrow> bytes \<Rightarrow> bytes list option" where
  "baselineFor b s serial = (case cf_baselineOverride b of Some ov \<Rightarrow> Some ov | None \<Rightarrow> ds_baseline s serial)"

section \<open>Complete listings\<close>

definition listingEnd :: bytes where
  "listingEnd = ''sair-listing-end''"

fun listedNames :: "bytes list \<Rightarrow> bytes + bytes list" where
  "listedNames [] = Inr []"
| "listedNames (line # ls) = (case CutPrefix line ''package:'' of
     None \<Rightarrow> Inl line
   | Some name \<Rightarrow> if name = [] then Inl line
       else (case listedNames ls of Inl bad \<Rightarrow> Inl bad | Inr names \<Rightarrow> Inr (name # names)))"

text \<open>What a listing is taken for: \<open>Inl None\<close> when it was cut short, \<open>Inl (Some line)\<close> for a bad line.\<close>

definition parseListing :: "bytes \<Rightarrow> bytes option + bytes list" where
  "parseListing out = (let ls = filter (\<lambda>l. l \<noteq> []) (map TrimSpace (linesOf out))
     in if ls = [] \<or> last ls \<noteq> listingEnd then Inl None
        else (case listedNames (butlast ls) of Inl line \<Rightarrow> Inl (Some line) | Inr names \<Rightarrow> Inr names))"

definition fullListCommand :: "bytes \<Rightarrow> bytes" where
  "fullListCommand flag = listCommand flag @ '' && echo '' @ listingEnd"

definition completeListing :: "bench \<Rightarrow> bytes \<Rightarrow> bytes \<Rightarrow> (goerr + bytes list) op" where
  "completeListing b serial flag = do {
     let failed = (\<lambda>why. Status Internal (serial @ '': list packages '' @ flag @ '': '' @ why));
     (out, err) \<leftarrow> shell b serial (fullListCommand flag);
     returnM (case err of
       Some er \<Rightarrow> Inl (failed (errorText er))
     | None \<Rightarrow> (case parseListing out of
         Inl None \<Rightarrow> Inl (failed ''listing cut short'')
       | Inl (Some line) \<Rightarrow> Inl (failed (''unexpected line '' @ Quote (bn_isPrint b) line))
       | Inr names \<Rightarrow> Inr names)) }"

definition ListPackages_src :: "bench \<Rightarrow> bytes \<Rightarrow> (goerr + bytes list) op" where
  "ListPackages_src b serial = (case checkSerial b serial of
     Some er \<Rightarrow> returnM (Inl er)
   | None \<Rightarrow> do {
       r \<leftarrow> completeListing b serial ''-3'';
       (case r of
          Inl er \<Rightarrow> returnM (Inl er)
        | Inr (p # ps) \<Rightarrow> returnM (Inr (sortedKeys (p # ps)))
        | Inr [] \<Rightarrow> do {
            sys \<leftarrow> completeListing b serial ''-s'';
            returnM (case sys of
              Inl er \<Rightarrow> Inl er
            | Inr [] \<Rightarrow> Inl (Status Internal (serial @ '': package manager listed nothing, not even system packages''))
            | Inr _ \<Rightarrow> Inr []) }) })"

section \<open>The reset\<close>

definition uninstallCommand :: "bytes list option \<Rightarrow> bytes" where
  "uninstallCommand since = ''pm uninstall '' @ (if since \<noteq> None then ''--user 0 '' else [])"

fun uninstallAll :: "bench \<Rightarrow> bytes \<Rightarrow> bytes \<Rightarrow> bytes list \<Rightarrow> bytes list op" where
  "uninstallAll b serial uninstall [] = returnM []"
| "uninstallAll b serial uninstall (pkg # pkgs) = do {
     (out, err) \<leftarrow> shell b serial (uninstall @ shellQuote pkg);
     rest \<leftarrow> uninstallAll b serial uninstall pkgs;
     returnM (if err \<noteq> None \<or> \<not> HasPrefix (TrimSpace out) ''Success'' then rest else pkg # rest) }"

text \<open>The third-party packages to go through; with \<open>since\<close> only a complete listing counts.\<close>

definition listForReset :: "bench \<Rightarrow> bytes \<Rightarrow> bytes list option \<Rightarrow> (goerr + bytes list) op" where
  "listForReset b serial since = (if since \<noteq> None then completeListing b serial ''-3''
     else do {
       (out, err) \<leftarrow> shell b serial (listCommand ''-3'');
       returnM (case err of
         Some er \<Rightarrow> Inl (Status Internal (serial @ '': list packages: '' @ errorText er))
       | None \<Rightarrow> Inr (parsePackages out)) })"

definition resetKeeping :: "bench \<Rightarrow> bytes \<Rightarrow> bytes list option \<Rightarrow> bytes list \<Rightarrow> (goerr + bytes list \<times> bytes list) op" where
  "resetKeeping b serial since keep = do {
     (suggestions, _) \<leftarrow> shell b serial ''cmd wifi list-all-suggestions'';
     r \<leftarrow> listForReset b serial since;
     (case r of
        Inl er \<Rightarrow> returnM (Inl er)
      | Inr listed \<Rightarrow> do {
          removed \<leftarrow> uninstallAll b serial (uninstallCommand since)
            (filter (\<lambda>p. p \<notin> set keep) (sortedKeys listed));
          foreach (cf_stopPackages b) (\<lambda>pkg. do { _ \<leftarrow> shell b serial (''am force-stop '' @ shellQuote pkg); returnM () });
          foreach (cf_clearPackages b) (\<lambda>pkg. do { _ \<leftarrow> shell b serial (''pm clear '' @ shellQuote pkg); returnM () });
          (if removed \<noteq> [] \<and> suggestions \<noteq> [] then do {
             (now, _) \<leftarrow> shell b serial ''cmd wifi list-all-suggestions'';
             returnM (Inr (removed, linesGone suggestions now)) }
           else returnM (Inr (removed, []))) }) }"

definition ResetPackages_src ::
  "bench \<Rightarrow> bytes \<Rightarrow> bytes list option \<Rightarrow> (goerr + bytes list \<times> bytes list) op" where
  "ResetPackages_src b serial since = (case checkSerial b serial of
     Some er \<Rightarrow> returnM (Inl er)
   | None \<Rightarrow> do {
       s \<leftarrow> getM;
       (case (case since of Some ps \<Rightarrow> Some ps | None \<Rightarrow> baselineFor b s serial) of
          None \<Rightarrow> returnM (Inl (Status FailedPrecondition (''no baseline package set recorded for '' @ serial @ '' yet'')))
        | Some keep \<Rightarrow> resetKeeping b serial since keep) })"

section \<open>What a reset uninstalls\<close>

definition isUninstall :: "adb_run \<Rightarrow> bool" where
  "isUninstall x = HasPrefix (ar_stdin x) ''pm uninstall ''"

definition uninstalled :: "adb_run \<Rightarrow> bool" where
  "uninstalled x \<longleftrightarrow> ar_err x = None \<and> HasPrefix (TrimSpace (ar_output x)) ''Success''"

text \<open>What the listing of a reset named, if it was one to go by.\<close>

definition listedBy :: "bytes list option \<Rightarrow> adb_run \<Rightarrow> bytes list option" where
  "listedBy since x = (if ar_err x \<noteq> None then None
     else if since = None then (if ar_stdin x = script (listCommand ''-3'') then Some (parsePackages (ar_output x)) else None)
     else if ar_stdin x = script (fullListCommand ''-3'') then
       (case parseListing (ar_output x) of Inl _ \<Rightarrow> None | Inr names \<Rightarrow> Some names)
     else None)"

lemma isUninstall_command [simp]:
  "isUninstall (AdbRun a (script (uninstallCommand since @ w)) out err)"
  by (simp add: isUninstall_def uninstallCommand_def script_def go_string)

lemma not_isUninstall [simp]:
  "\<not> isUninstall (AdbRun a (script (''am force-stop '' @ w)) out err)"
  "\<not> isUninstall (AdbRun a (script (''pm clear '' @ w)) out err)"
  "\<not> isUninstall (AdbRun a (script (listCommand w)) out err)"
  "\<not> isUninstall (AdbRun a (script (fullListCommand w)) out err)"
  "\<not> isUninstall (AdbRun a (script ''cmd wifi list-all-suggestions'') out err)"
  by (simp_all add: isUninstall_def listCommand_def fullListCommand_def script_def go_string)

lemma emits_uninstallAll:
  "emits (uninstallAll b serial (uninstallCommand since) pkgs) (\<lambda>removed rs.
     list_all isUninstall rs \<and> map ar_stdin rs = map (\<lambda>p. script (uninstallCommand since @ shellQuote p)) pkgs \<and>
     removed = map snd (filter (\<lambda>(x, _). uninstalled x) (zip rs pkgs)))"
proof (induction pkgs)
  case Nil
  then show ?case by (simp add: emits_return)
next
  case (Cons p pkgs)
  show ?case
    unfolding uninstallAll.simps
    by (intro emits emits_mono [OF Cons.IH]) (auto simp: uninstalled_def)
qed

lemma emits_listForReset:
  "emits (listForReset b serial since) (\<lambda>r rs. filter isUninstall rs = [] \<and>
     (case r of Inl _ \<Rightarrow> True | Inr names \<Rightarrow> map (listedBy since) rs = [Some names]))"
  unfolding listForReset_def completeListing_def Let_def
  by (intro emits) (auto simp: listedBy_def split: option.splits sum.splits)

text \<open>The reset's commands and its report against the names in the listing it went by.\<close>

definition reported :: "bytes list option \<Rightarrow> bytes list \<Rightarrow> goerr + bytes list \<times> bytes list \<Rightarrow> adb_run list \<Rightarrow> bool" where
  "reported since keep r rs = (case r of
     Inl _ \<Rightarrow> filter isUninstall rs = []
   | Inr (removed, _) \<Rightarrow> \<exists>names. Some names \<in> set (map (listedBy since) rs) \<and>
       (let gone = filter (\<lambda>p. p \<notin> set keep) (sortedKeys names) in
          map ar_stdin (filter isUninstall rs) = map (\<lambda>p. script (uninstallCommand since @ shellQuote p)) gone \<and>
          removed = map snd (filter (\<lambda>(x, _). uninstalled x) (zip (filter isUninstall rs) gone))))"

lemma emits_resetKeeping: "emits (resetKeeping b serial since keep) (reported since keep)"
proof -
  have stop: "emits (foreach ps (\<lambda>pkg. do { _ \<leftarrow> shell b serial (''am force-stop '' @ shellQuote pkg); returnM () }))
      (\<lambda>_ rs. list_all (\<lambda>x. \<not> isUninstall x) rs)" for ps
    by (rule emits_foreach) (intro emits, simp add: not_isUninstall [simplified])
  have clear: "emits (foreach ps (\<lambda>pkg. do { _ \<leftarrow> shell b serial (''pm clear '' @ shellQuote pkg); returnM () }))
      (\<lambda>_ rs. list_all (\<lambda>x. \<not> isUninstall x) rs)" for ps
    by (rule emits_foreach) (intro emits, simp add: not_isUninstall [simplified])
  show ?thesis
    unfolding resetKeeping_def
    by (intro emits emits_mono [OF emits_listForReset] emits_mono [OF emits_uninstallAll]
        emits_mono [OF stop] emits_mono [OF clear])
      (auto simp: reported_def Let_def list_all_iff filter_empty_conv)
qed

text \<open>
  C13. A reset of packages takes only what came since, and says what it took. It uninstalls nothing
  when it fails; otherwise there is a listing of the phone, complete if the reset is relative to a snapshot
  (\<open>since\<close>), such that the packages named in it that are not to be kept are each uninstalled once, in
  order, nothing else is uninstalled, and the report names exactly those whose uninstall answered \<open>Success\<close>.
  Kept are the packages of the snapshot or, without one, those of the phone's baseline.
\<close>

theorem ResetPackages_takes_only_new:
  "wp (ResetPackages_src b serial since) (\<lambda>r s'. \<exists>rs. ds_runs s' = ds_runs s @ rs \<and>
     (case r of
        Inl _ \<Rightarrow> filter isUninstall rs = []
      | Inr (removed, _) \<Rightarrow> \<exists>names. Some names \<in> set (map (listedBy since) rs) \<and>
          (let keep = (case since of Some ps \<Rightarrow> Some ps | None \<Rightarrow> baselineFor b s serial);
               gone = filter (\<lambda>p. p \<notin> set (the keep)) (sortedKeys names)
           in keep \<noteq> None \<and>
              map ar_stdin (filter isUninstall rs) = map (\<lambda>p. script (uninstallCommand since @ shellQuote p)) gone \<and>
              removed = map snd (filter (\<lambda>(x, _). uninstalled x) (zip (filter isUninstall rs) gone))))) s"
proof -
  let ?keep = "case since of Some ps \<Rightarrow> Some ps | None \<Rightarrow> baselineFor b s serial"
  define Q :: "goerr + bytes list \<times> bytes list \<Rightarrow> source \<Rightarrow> bool" where
    "Q = (\<lambda>r s'. \<exists>rs. ds_runs s' = ds_runs s @ rs \<and>
     (case r of
        Inl _ \<Rightarrow> filter isUninstall rs = []
      | Inr (removed, _) \<Rightarrow> \<exists>names. Some names \<in> set (map (listedBy since) rs) \<and>
          (let gone = filter (\<lambda>p. p \<notin> set (the ?keep)) (sortedKeys names)
           in ?keep \<noteq> None \<and>
              map ar_stdin (filter isUninstall rs) = map (\<lambda>p. script (uninstallCommand since @ shellQuote p)) gone \<and>
              removed = map snd (filter (\<lambda>(x, _). uninstalled x) (zip (filter isUninstall rs) gone)))))"
  have refused: "Q (Inl er) s" for er by (auto simp: Q_def)
  have "wp (resetKeeping b serial since keep) Q s" if "?keep = Some keep" for keep
  proof (rule wp_mono [OF emits_wp [OF emits_resetKeeping]], elim exE conjE)
    fix r rs and s' :: source assume "ds_runs s' = ds_runs s @ rs" "reported since keep r rs"
    with that show "Q r s'"
      unfolding Q_def by (intro exI [of _ rs]) (cases r, simp_all add: reported_def Let_def split: prod.splits)
  qed
  then have "wp (ResetPackages_src b serial since) Q s"
    by (simp add: ResetPackages_src_def refused split: option.split)
  then show ?thesis by (simp only: Q_def Let_def)
qed

section \<open>A listing that was cut short\<close>

definition contentLines :: "bytes \<Rightarrow> bytes list" where
  "contentLines out = filter (\<lambda>l. l \<noteq> []) (map TrimSpace (linesOf out))"

definition solid :: "bytes \<Rightarrow> bool" where
  "solid s \<longleftrightarrow> s \<noteq> [] \<and> list_all (\<lambda>c. \<not> isSpace c) s"

definition listing :: "bytes list \<Rightarrow> bytes" where
  "listing names = concat (map (\<lambda>p. ''package:'' @ p @ [newline]) names) @ listingEnd @ [newline]"

lemma list_all_take: "list_all P xs \<Longrightarrow> list_all P (take n xs)"
  by (auto simp: list_all_iff dest: in_set_takeD)

lemma TrimSpace_solid: "list_all (\<lambda>c. \<not> isSpace c) s \<Longrightarrow> TrimSpace s = s"
proof -
  have "dropWhile isSpace t = t" if "list_all (\<lambda>c. \<not> isSpace c) t" for t
    using that by (cases t) simp_all
  from this [of s] this [of "rev s"] show "list_all (\<lambda>c. \<not> isSpace c) s \<Longrightarrow> ?thesis"
    by (simp add: TrimSpace_def)
qed

lemma newline_space: "isSpace newline"
  by (simp add: isSpace_def newline_def)

lemma contentLines_cons:
  assumes "list_all (\<lambda>c. \<not> isSpace c) l" "l \<noteq> []"
  shows "contentLines (l @ newline # s) = l # contentLines s"
proof -
  from assms newline_space have "newline \<notin> set l" by (auto simp: list_all_iff)
  then show ?thesis
    using assms by (simp add: contentLines_def linesOf_def Split_append_sep Split_no_sep_single TrimSpace_solid)
qed

lemma contentLines_single:
  assumes "list_all (\<lambda>c. \<not> isSpace c) l"
  shows "contentLines l = (if l = [] then [] else [l])"
proof -
  from assms newline_space have "newline \<notin> set l" by (auto simp: list_all_iff)
  then show ?thesis
    using assms by (simp add: contentLines_def linesOf_def Split_no_sep_single TrimSpace_solid)
qed

lemma parseListing_lines: "parseListing out = (let ls = contentLines out
    in if ls = [] \<or> last ls \<noteq> listingEnd then Inl None
       else (case listedNames (butlast ls) of Inl line \<Rightarrow> Inl (Some line) | Inr names \<Rightarrow> Inr names))"
  by (simp add: parseListing_def contentLines_def Let_def)

lemma solid_listingEnd: "list_all (\<lambda>c. \<not> isSpace c) listingEnd" "listingEnd \<noteq> []"
  by (simp_all add: listingEnd_def isSpace_def)

lemma solid_package: "solid p \<Longrightarrow> list_all (\<lambda>c. \<not> isSpace c) (''package:'' @ p)"
  by (simp add: solid_def isSpace_def)

lemma contentLines_listing:
  "list_all solid names \<Longrightarrow> contentLines (listing names) = map ((@) ''package:'') names @ [listingEnd]"
proof (induction names)
  case Nil
  show ?case using contentLines_cons [OF solid_listingEnd, of "[]"]
    by (simp add: listing_def contentLines_single)
next
  case (Cons p names)
  then have "contentLines ((''package:'' @ p) @ newline # listing names) = (''package:'' @ p) # contentLines (listing names)"
    by (intro contentLines_cons solid_package) simp_all
  with Cons show ?case by (simp add: listing_def)
qed

lemma listedNames_map: "list_all solid names \<Longrightarrow> listedNames (map ((@) ''package:'') names) = Inr names"
  by (induction names) (auto simp: solid_def go_string)

lemma take_package: "take n (''package:'' @ p) \<noteq> listingEnd"
  by (cases n) (simp_all add: listingEnd_def)

lemma cut_lines:
  "list_all solid names \<Longrightarrow> n < length (listing names) - 1 \<Longrightarrow>
    (let ls = contentLines (take n (listing names)) in ls = [] \<or> last ls \<noteq> listingEnd)"
proof (induction names arbitrary: n)
  case Nil
  then have n: "n < length listingEnd" by (simp add: listing_def)
  have "list_all (\<lambda>c. \<not> isSpace c) (take n listingEnd)"
    by (rule list_all_take [OF solid_listingEnd(1)])
  moreover have "take n listingEnd \<noteq> listingEnd"
    using n by (metis length_take min.strict_order_iff not_less_iff_gr_or_eq)
  ultimately show ?case
    using n by (simp add: listing_def contentLines_single Let_def)
next
  case (Cons p names)
  let ?l = "''package:'' @ p"
  have l: "list_all (\<lambda>c. \<not> isSpace c) ?l" using Cons.prems(1) by (intro solid_package) simp
  have eq: "listing (p # names) = ?l @ newline # listing names" by (simp add: listing_def)
  show ?case
  proof (cases "n \<le> length ?l")
    case True
    have "list_all (\<lambda>c. \<not> isSpace c) (take n ?l)" using l by (rule list_all_take)
    with True take_package [of n p] show ?thesis
      unfolding eq by (simp add: contentLines_single Let_def del: append.simps(2))
  next
    case False
    then obtain m where m: "n = length ?l + Suc m" by (metis less_imp_Suc_add not_le add_Suc_right)
    have "take n (listing (p # names)) = ?l @ newline # take m (listing names)"
      unfolding eq m by simp
    moreover have "m < length (listing names) - 1"
      using Cons.prems(2) unfolding eq m by simp
    ultimately show ?thesis
      using Cons.IH [of m] Cons.prems(1) contentLines_cons [OF l, of "take m (listing names)"] take_package [of "length ?l" p]
      by (auto simp: Let_def)
  qed
qed

text \<open>
  C14. A snapshot is the whole list or none: a complete listing of package names without blanks is read back
  as exactly those names, and one that adb cuts anywhere before its last visible character, even at
  the end of a line, is refused as cut short.
\<close>

theorem listing_whole_or_refused:
  assumes "list_all solid names"
  shows "parseListing (listing names) = Inr names \<and>
    list_all (\<lambda>n. parseListing (take n (listing names)) = Inl None) [0..<length (listing names) - 1]"
  using contentLines_listing [OF assms] listedNames_map [OF assms] cut_lines [OF assms]
  by (auto simp: parseListing_lines Let_def list_all_iff)

theorem listing_whole_or_refused_witness:
  "parseListing (listing [''com.example.app'', ''org.mail'']) = Inr [''com.example.app'', ''org.mail'']"
  using listing_whole_or_refused [of "[''com.example.app'', ''org.mail'']"]
  by (simp add: solid_def isSpace_def)

end
