(* ===== verification/PhoneReboot.thy ===== *)
theory PhoneReboot
  imports Phone
begin

text \<open>
  What the device source does to the phone as a whole: rebooting it and waiting for it to be back
  (\<open>reboot.go\<close>), waking and unlocking it (\<open>screen.go\<close>), and clearing a leaked UiAutomation
  registration (\<open>uiautomation.go\<close>).
\<close>

section \<open>Reading dumps\<close>

definition dumpsysField :: "bytes \<Rightarrow> bytes \<Rightarrow> bytes" where
  "dumpsysField out key = (case find (\<lambda>t. HasPrefix t key) (Fields out) of
     None \<Rightarrow> [] | Some t \<Rightarrow> drop (length key) t)"

text \<open>The \<open>CredentialType:\<close> line of \<open>dumpsys lock_settings\<close>.\<close>

definition credential :: "bytes \<Rightarrow> bytes" where
  "credential out = (case find (\<lambda>l. HasPrefix l ''CredentialType:'') (map TrimSpace (linesOf out)) of
     None \<Rightarrow> []
   | Some l \<Rightarrow> if TrimSpace (drop (length ''CredentialType:'') l) \<noteq> ''NONE'' then ''true'' else ''false'')"

definition secureLock :: "bench \<Rightarrow> bytes \<Rightarrow> (goerr + bytes) op" where
  "secureLock b serial = do {
     (out, err) \<leftarrow> shell b serial ''dumpsys window policy'';
     (case err of
        Some er \<Rightarrow> returnM (Inl (Wrapf er (''dumpsys window policy: '' @ errorText er)))
      | None \<Rightarrow>
          if dumpsysField out ''secure='' \<noteq> [] then returnM (Inr (dumpsysField out ''secure=''))
          else do {
            (out, err) \<leftarrow> shell b serial ''dumpsys lock_settings'';
            returnM (case err of
              Some er \<Rightarrow> Inl (Wrapf er (''dumpsys lock_settings: '' @ errorText er))
            | None \<Rightarrow> Inr (credential out)) }) }"

definition parseUptime :: "bench \<Rightarrow> bytes \<Rightarrow> goerr + int" where
  "parseUptime b out = (case Fields out of
     [] \<Rightarrow> Inl (Plain ''empty /proc/uptime'') | f # _ \<Rightarrow> bn_float b f secondT)"

section \<open>Rebooting\<close>

definition unsafeReboot :: "bytes \<Rightarrow> goerr" where
  "unsafeReboot why = Wrapf (Sentinel ErrUnsafeReboot) (sentinelText ErrUnsafeReboot @ '': '' @ why)"

definition secureLockSet :: bytes where
  "secureLockSet = ''a secure lock is set, and sair could not unlock the phone after a reboot. '' @
     ''Set Settings > Lock screen > Screen lock type to Swipe or None''"

definition secureLockUnknown :: bytes where
  "secureLockUnknown = ''cannot tell from dumpsys window policy or lock_settings whether a secure lock '' @
     ''is set on this Android version''"

definition bootIdCommand :: bytes where
  "bootIdCommand = ''cat /proc/sys/kernel/random/boot_id''"

definition bootCommand :: bytes where
  "bootCommand = bootIdCommand @ ''; getprop sys.boot_completed''"

text \<open>Why a phone that answered \<open>out\<close> is not back from a reboot, if it is not.\<close>

definition bootPending :: "bench \<Rightarrow> bytes \<Rightarrow> bytes \<Rightarrow> goerr option" where
  "bootPending b oldBoot out = (let t = TrimSpace out; completed = TrimSpace (after t [newline])
     in if TrimSpace (before t [newline]) = oldBoot then Some (Plain ''still the old boot'')
        else if completed \<noteq> ''1'' then Some (Plain (''sys.boot_completed='' @ Quote (bn_isPrint b) completed))
        else None)"

definition checkBooted :: "bench \<Rightarrow> bytes \<Rightarrow> bytes \<Rightarrow> goerr option op" where
  "checkBooted b serial oldBoot = do {
     (out, err) \<leftarrow> shell b serial bootCommand;
     returnM (case err of Some er \<Rightarrow> Some er | None \<Rightarrow> bootPending b oldBoot out) }"

definition reboot :: "bench \<Rightarrow> bytes \<Rightarrow> goerr option op" where
  "reboot b serial = do {
     secure \<leftarrow> secureLock b serial;
     (case secure of
        Inl er \<Rightarrow> returnM (Some (Status Internal (serial @ '': '' @ errorText er)))
      | Inr v \<Rightarrow>
          if v = ''true'' then returnM (Some (unsafeReboot secureLockSet))
          else if v \<noteq> ''false'' then returnM (Some (unsafeReboot secureLockUnknown))
          else do {
            (out, err) \<leftarrow> shell b serial bootIdCommand;
            let oldBoot = TrimSpace out;
            (if err \<noteq> None \<or> oldBoot = []
             then returnM (Some (Status Internal (serial @ '': boot_id before reboot: '' @ errV err @ ''; not rebooting'')))
             else do {
               _ \<leftarrow> shell b serial ''reboot'';
               err \<leftarrow> waitForPhone b (cf_rebootTimeout b) (serial @ '' not back after reboot'') (checkBooted b serial oldBoot);
               (case err of
                  Some er \<Rightarrow> returnM (Some er)
                | None \<Rightarrow> do {
                    t \<leftarrow> clock b;
                    modify (\<lambda>s. s\<lparr>ds_reboots := (ds_reboots s)(serial := Some t)\<rparr>);
                    returnM None }) }) }) }"

text \<open>\<open>RebootResponse\<close>: the uptime in seconds, and whether the phone was rebooted.\<close>

definition RebootIfStale_src :: "bench \<Rightarrow> bytes \<Rightarrow> (goerr + int \<times> bool) op" where
  "RebootIfStale_src b serial = (case checkSerial b serial of
     Some er \<Rightarrow> returnM (Inl er)
   | None \<Rightarrow> do {
       (out, err) \<leftarrow> shell b serial ''cat /proc/uptime'';
       (case (case err of Some er \<Rightarrow> Inl er | None \<Rightarrow> parseUptime b out) of
          Inl er \<Rightarrow> returnM (Inl (Status Internal (serial @ '': uptime: '' @ errorText er)))
        | Inr uptime \<Rightarrow> do {
            let secs = (if uptime < 0 then - (- uptime div secondT) else uptime div secondT);
            (if cf_rebootAfter b \<le> 0 \<or> uptime < cf_rebootAfter b then returnM (Inr (secs, False))
             else do {
               err \<leftarrow> reboot b serial;
               returnM (case err of
                 None \<Rightarrow> Inr (secs, True)
               | Some er \<Rightarrow> if isSentinel er ErrUnsafeReboot then Inr (secs, False) else Inl er) }) }) })"

definition radioServices :: "(bytes \<times> bytes) list" where
  "radioServices = [(''wifi'', ''wifi''), (''bluetooth'', ''bluetooth_manager'')]"

definition RebootIfWedged_src :: "bench \<Rightarrow> bytes \<Rightarrow> bytes \<Rightarrow> (goerr + bool) op" where
  "RebootIfWedged_src b serial radio = (case checkSerial b serial of
     Some er \<Rightarrow> returnM (Inl er)
   | None \<Rightarrow> (case map_of radioServices radio of
       None \<Rightarrow> returnM (Inl (Status InvalidArgument (''unknown radio '' @ Quote (bn_isPrint b) radio)))
     | Some service \<Rightarrow> do {
         (out, err) \<leftarrow> radioShell b serial (''dumpsys '' @ service);
         (if \<not> errIs err ErrRadioHung \<and> \<not> Contains out ''DUMP TIMEOUT'' then returnM (Inr False)
          else do {
            err \<leftarrow> reboot b serial;
            returnM (case err of
              None \<Rightarrow> Inr True
            | Some er \<Rightarrow> if isSentinel er ErrUnsafeReboot
                then Inl (Status FailedPrecondition (serial @ '': '' @ radio @ '' wedged, and '' @ errorText er))
                else Inl er) }) }))"

section \<open>Waking\<close>

definition checkAwake :: "bench \<Rightarrow> bytes \<Rightarrow> goerr option op" where
  "checkAwake b serial = do {
     (out, err) \<leftarrow> shell b serial ''dumpsys power'';
     (case err of
        Some er \<Rightarrow> returnM (Some (Wrapf er (''dumpsys power: '' @ errorText er)))
      | None \<Rightarrow> do {
          let w = dumpsysField out ''mWakefulness='';
          (if w \<noteq> ''Awake'' then returnM (Some (Plain (''screen is '' @ w @ '', not Awake'')))
           else do {
             (out, err) \<leftarrow> shell b serial ''dumpsys window policy'';
             (case err of
                Some er \<Rightarrow> returnM (Some (Wrapf er (''dumpsys window policy: '' @ errorText er)))
              | None \<Rightarrow> do {
                  let v = orElse (dumpsysField out ''showing='') (dumpsysField out ''mShowingLockscreen='');
                  (if v = ''false'' then returnM None
                   else if v = [] then do {
                     modify (\<lambda>s. s\<lparr>ds_unknownKeyguard := insert serial (ds_unknownKeyguard s)\<rparr>);
                     returnM None }
                   else returnM (Some (Plain ''keyguard is showing''))) }) }) }) }"

fun wakeAttempts :: "bench \<Rightarrow> bytes \<Rightarrow> nat \<Rightarrow> goerr option op" where
  "wakeAttempts b serial 0 = returnM None"
| "wakeAttempts b serial (Suc n) = do {
     (_, err) \<leftarrow> shell b serial ''input keyevent KEYCODE_WAKEUP'';
     (if err \<noteq> None then returnM err
      else do {
        (_, err) \<leftarrow> shell b serial ''wm dismiss-keyguard'';
        (if err \<noteq> None then returnM err
         else do {
           err \<leftarrow> waitForPhone b (cf_wakeTimeout b) (serial @ '' not awake and unlocked'') (checkAwake b serial);
           (if err = None \<or> n = 0 then returnM err else wakeAttempts b serial n) }) }) }"

definition screenLocked :: "bytes \<Rightarrow> goerr \<Rightarrow> goerr" where
  "screenLocked serial er = Status FailedPrecondition (serial @ '': screen locked: '' @ convertMessage er @
     ''. sair cannot dismiss a secure lock: on the phone set Settings > Lock screen > Screen lock type to Swipe or None'')"

definition wakeError :: "bytes \<Rightarrow> goerr \<Rightarrow> goerr" where
  "wakeError serial er = (if fromError er = None then Status Internal (serial @ '': wake: '' @ errorText er)
     else if statusCode (Some er) = DeadlineExceeded then screenLocked serial er
     else er)"

definition wake :: "bench \<Rightarrow> bytes \<Rightarrow> goerr option op" where
  "wake b serial = do {
     err \<leftarrow> wakeAttempts b serial 3;
     (case err of
        Some er \<Rightarrow> do {
          modify (\<lambda>s. s\<lparr>ds_warnings := (ds_warnings s)(serial := Some (convertMessage (wakeError serial er)))\<rparr>);
          returnM (Some (wakeError serial er)) }
      | None \<Rightarrow> do {
          modify (\<lambda>s. s\<lparr>ds_warnings := (ds_warnings s)(serial := None)\<rparr>);
          _ \<leftarrow> shell b serial ''settings get global stay_on_while_plugged_in'';
          returnM None }) }"

definition Wake_src :: "bench \<Rightarrow> bytes \<Rightarrow> goerr option op" where
  "Wake_src b serial = (case checkSerial b serial of Some er \<Rightarrow> returnM (Some er) | None \<Rightarrow> wake b serial)"

text \<open>\<open>warning\<close>: what the dashboard shows about the phone.\<close>

definition warning :: "source \<Rightarrow> bytes \<Rightarrow> bytes" where
  "warning s serial = Join (filter (\<lambda>w. w \<noteq> [])
     [case ds_warnings s serial of Some w \<Rightarrow> w | None \<Rightarrow> [],
      case ds_btWarnings s serial of Some w \<Rightarrow> w | None \<Rightarrow> []]) ''; ''"

section \<open>UiAutomation\<close>

definition uiaProbe :: bytes where
  "uiaProbe = ''uiautomator dump /data/local/tmp/sair-uia-probe.xml 2>&1 & p=$!; wait $p; rm -f /data/local/tmp/sair-uia-probe.xml; ''
     @ ''logcat -d -b main,crash --pid=$p 2>/dev/null | grep '' @ [quote] @ ''already registered'' @ [quote] @ ''; true''"

definition uiaLeaked :: "bench \<Rightarrow> bytes \<Rightarrow> (goerr + bool) op" where
  "uiaLeaked b serial = do {
     (out, err) \<leftarrow> shell b serial uiaProbe;
     returnM (case err of
       Some er \<Rightarrow> Inl (Status Internal (serial @ '': uiautomator probe: '' @ errorText er))
     | None \<Rightarrow> Inr (Contains out ''already registered'')) }"

text \<open>\<open>path.Base\<close>.\<close>

definition pathBase :: "bytes \<Rightarrow> bytes" where
  "pathBase p = (if p = [] then ''.'' else
     let q = TrimRightByte p CHR ''/'';
         r = (case LastIndexByte q CHR ''/'' of Some i \<Rightarrow> drop (Suc i) q | None \<Rightarrow> q)
     in if r = [] then ''/'' else r)"

text \<open>A holder is \<open>"<pid> <name>"\<close>.\<close>

definition uiaHolder :: "bytes \<Rightarrow> bytes list" where
  "uiaHolder line = (let f = Fields line in
     if length f < 3 \<or> f ! 0 \<noteq> ''shell'' then []
     else let name = pathBase (last f) in
       if HasPrefix name ''app_process'' \<or> HasPrefix name ''uiautomator'' \<or> HasPrefix name ''com.android.commands.''
       then [f ! 1 @ '' '' @ name] else [])"

definition uiaHolders :: "bytes \<Rightarrow> bytes list" where
  "uiaHolders ps = concat (map uiaHolder (linesOf ps))"

definition killCommand :: "bytes \<Rightarrow> bytes" where
  "killCommand pid = ''kill -9 '' @ pid"

fun killAll :: "bench \<Rightarrow> bytes \<Rightarrow> bytes list \<Rightarrow> bytes list op" where
  "killAll b serial [] = returnM []"
| "killAll b serial (h # hs) = do {
     (_, err) \<leftarrow> shell b serial (killCommand (before h '' ''));
     rest \<leftarrow> killAll b serial hs;
     returnM (if err = None then h # rest else rest) }"

definition listProcesses :: "bench \<Rightarrow> bytes \<Rightarrow> bytes op" where
  "listProcesses b serial = do {
     (ps, _) \<leftarrow> shell b serial ''ps -A'';
     (if newline \<notin> set (TrimSpace ps) then do { (ps, _) \<leftarrow> shell b serial ''ps''; returnM ps }
      else returnM ps) }"

definition killHolders :: "bench \<Rightarrow> bytes \<Rightarrow> bytes list op" where
  "killHolders b serial = do { ps \<leftarrow> listProcesses b serial; killAll b serial (uiaHolders ps) }"

definition stillRegistered :: goerr where
  "stillRegistered = Plain ''probe still says already registered''"

definition checkCleared :: "bench \<Rightarrow> bytes \<Rightarrow> goerr option op" where
  "checkCleared b serial = do {
     leaked \<leftarrow> uiaLeaked b serial;
     returnM (case leaked of
       Inl er \<Rightarrow> Some (Joined [er, stillRegistered])
     | Inr l \<Rightarrow> if l then Some (Joined [stillRegistered]) else None) }"

text \<open>The reboot when killing did not clear it; the result is \<open>UiAutomationResponse.cleared\<close>.\<close>

definition rebootToClear :: "bench \<Rightarrow> bytes \<Rightarrow> (goerr + bytes) op" where
  "rebootToClear b serial = do {
     err \<leftarrow> reboot b serial;
     (case err of
        Some er \<Rightarrow> returnM (Inl (if isSentinel er ErrUnsafeReboot
          then Status FailedPrecondition (serial @ '': leaked UiAutomation registration, not cleared by killing its holders, and '' @ errorText er)
          else er))
      | None \<Rightarrow> do {
          leaked \<leftarrow> uiaLeaked b serial;
          returnM (case leaked of
            Inl er \<Rightarrow> Inl er
          | Inr l \<Rightarrow> if l then Inl (Status Internal (serial @ '': UiAutomation still registered after a reboot''))
              else Inr ''rebooted'') }) }"

definition ClearUiAutomation_src :: "bench \<Rightarrow> bytes \<Rightarrow> (goerr + bytes) op" where
  "ClearUiAutomation_src b serial = (case checkSerial b serial of
     Some er \<Rightarrow> returnM (Inl er)
   | None \<Rightarrow> do {
       leaked \<leftarrow> uiaLeaked b serial;
       (case leaked of
          Inl er \<Rightarrow> returnM (Inl er)
        | Inr l \<Rightarrow> if \<not> l then returnM (Inr []) else do {
            killed \<leftarrow> killHolders b serial;
            (if killed = [] then rebootToClear b serial
             else do {
               err \<leftarrow> waitForPhone b (10 * secondT) ''UiAutomation still registered'' (checkCleared b serial);
               (if err = None then returnM (Inr (''killed '' @ Join killed '', ''))
                else rebootToClear b serial) }) }) })"

section \<open>When a phone is rebooted\<close>

text \<open>The first \<open>CredentialType:\<close> line says \<open>NONE\<close>; the phone is in a completed boot other than \<open>oldBoot\<close>.\<close>

definition noCredential :: "bytes \<Rightarrow> bool" where
  "noCredential out \<longleftrightarrow> (\<exists>l. find (\<lambda>l. HasPrefix l ''CredentialType:'') (map TrimSpace (linesOf out)) = Some l \<and>
     TrimSpace (drop (length ''CredentialType:'') l) = ''NONE'')"

definition bootedSince :: "bytes \<Rightarrow> bytes \<Rightarrow> bool" where
  "bootedSince oldBoot out \<longleftrightarrow> TrimSpace (before (TrimSpace out) [newline]) \<noteq> oldBoot \<and>
     TrimSpace (after (TrimSpace out) [newline]) = ''1''"

lemma credential_open: "credential out = ''false'' \<longleftrightarrow> noCredential out"
  by (auto simp: credential_def noCredential_def split: option.split)

lemma bootPending_None: "bootPending b oldBoot out = None \<longleftrightarrow> bootedSince oldBoot out"
  by (auto simp: bootPending_def bootedSince_def Let_def)

text \<open>The answer says that the phone has no secure lock.\<close>

definition saysOpen :: "adb_run \<Rightarrow> bool" where
  "saysOpen x \<longleftrightarrow> ar_err x = None \<and>
     (runs ''dumpsys window policy'' x \<and> dumpsysField (ar_output x) ''secure='' = ''false'' \<or>
      runs ''dumpsys lock_settings'' x \<and> noCredential (ar_output x))"

definition bootIdRead :: "adb_run \<Rightarrow> bool" where
  "bootIdRead x \<longleftrightarrow> runs bootIdCommand x \<and> ar_err x = None \<and> TrimSpace (ar_output x) \<noteq> []"

text \<open>
  Every \<open>reboot\<close> comes right after the two answers that allow it. \<open>pre\<close> is what ran before.
\<close>

fun rebootsSafely :: "adb_run list \<Rightarrow> adb_run list \<Rightarrow> bool" where
  "rebootsSafely pre [] = True"
| "rebootsSafely pre (x # xs) =
     ((if runs ''reboot'' x then (case rev pre of i # d # _ \<Rightarrow> bootIdRead i \<and> saysOpen d | _ \<Rightarrow> False) else True) \<and>
      rebootsSafely (pre @ [x]) xs)"

text \<open>A reboot that the phone has come back from: the last poll answers another boot, completed.\<close>

definition cameBack :: "adb_run list \<Rightarrow> bool" where
  "cameBack rs \<longleftrightarrow> (\<exists>pre i x polls y. rs = pre @ [i, x] @ polls @ [y] \<and> bootIdRead i \<and> runs ''reboot'' x \<and>
     runs bootCommand y \<and> ar_err y = None \<and> bootedSince (TrimSpace (ar_output i)) (ar_output y))"

lemma rebootsSafely_append: "rebootsSafely pre (xs @ ys) \<longleftrightarrow> rebootsSafely pre xs \<and> rebootsSafely (pre @ xs) ys"
  by (induction xs arbitrary: pre) auto

lemma rebootsSafely_none: "list_all (\<lambda>x. \<not> runs ''reboot'' x) xs \<Longrightarrow> rebootsSafely pre xs"
  by (induction xs arbitrary: pre) auto

lemma rebootsSafely_weaken: "rebootsSafely [] xs \<Longrightarrow> rebootsSafely pre xs"
proof -
  have "rebootsSafely p xs \<Longrightarrow> rebootsSafely (pre @ p) xs" for p
  proof (induction xs arbitrary: p)
    case (Cons x xs)
    then show ?case by (auto split: list.splits if_splits simp: append_eq_Cons_conv)
  qed simp
  then show "rebootsSafely [] xs \<Longrightarrow> ?thesis" by (metis append_Nil2)
qed

lemma not_reboot [simp]:
  "\<not> runs ''reboot'' (AdbRun a (script bootCommand) out err)"
  "\<not> runs ''reboot'' (AdbRun a (script bootIdCommand) out err)"
  "\<not> runs ''reboot'' (AdbRun a (script uiaProbe) out err)"
  by (simp_all add: bootCommand_def bootIdCommand_def uiaProbe_def)

lemma emits_checkBooted:
  "emits (checkBooted b serial old) (\<lambda>r rs. \<exists>y. rs = [y] \<and> runs bootCommand y \<and>
     (r = None \<longrightarrow> ar_err y = None \<and> bootedSince old (ar_output y)))"
  unfolding checkBooted_def by (intro emits) (auto simp: bootPending_None split: option.splits)

lemma emits_waitBooted:
  "emits (waitForPhone b timeout what (checkBooted b serial old)) (\<lambda>r rs. list_all (runs bootCommand) rs \<and>
     (r = None \<longrightarrow> rs \<noteq> [] \<and> ar_err (last rs) = None \<and> bootedSince old (ar_output (last rs))))"
  by (intro emits_waitForPhone [where I = "list_all (runs bootCommand)"] emits_mono [OF emits_checkBooted]) auto

lemma emits_secureLock:
  "emits (secureLock b serial) (\<lambda>r rs. rs \<noteq> [] \<and> list_all (\<lambda>x. \<not> runs ''reboot'' x) rs \<and>
     (r = Inr ''false'' \<longrightarrow> saysOpen (last rs)))"
  unfolding secureLock_def by (intro emits) (auto simp: saysOpen_def credential_open split: option.splits)

definition rebootPost :: "bench \<Rightarrow> goerr option \<Rightarrow> adb_run list \<Rightarrow> bool" where
  "rebootPost b r rs \<longleftrightarrow> rebootsSafely [] rs \<and> (if r = None then cameBack rs else True)"

lemma bootCommand_not_reboot: "runs bootCommand x \<Longrightarrow> \<not> runs ''reboot'' x"
  by (auto simp: runs_def script_def bootCommand_def bootIdCommand_def)

lemma cameBackI:
  assumes "bootIdRead i" "runs ''reboot'' x" "list_all (runs bootCommand) polls" "polls \<noteq> []"
    and "ar_err (last polls) = None" "bootedSince (TrimSpace (ar_output i)) (ar_output (last polls))"
  shows "cameBack (pre @ i # x # polls)"
  unfolding cameBack_def using assms
  by (intro exI [of _ pre] exI [of _ i] exI [of _ x] exI [of _ "butlast polls"] exI [of _ "last polls"])
    (auto simp: list_all_iff)

lemma rebootsSafely_guarded:
  assumes "rs \<noteq> []" "list_all (\<lambda>x. \<not> runs ''reboot'' x) rs" "saysOpen (last rs)"
    and "bootIdRead i" "runs ''reboot'' x" "list_all (runs bootCommand) polls"
  shows "rebootsSafely [] (rs @ i # x # polls)"
proof -
  from assms(1) obtain p d where rs: "rs = p @ [d]" by (metis rev_exhaust)
  have "\<not> runs ''reboot'' i" using assms(4) by (auto simp: bootIdRead_def runs_def script_def bootIdCommand_def)
  moreover have "rebootsSafely [] rs" "rebootsSafely (rs @ [i, x]) polls"
    using assms by (auto intro!: rebootsSafely_none simp: list_all_iff bootCommand_not_reboot)
  ultimately show ?thesis using assms by (simp add: rs rebootsSafely_append)
qed

lemma bootIdRead_run [simp]:
  "bootIdRead (AdbRun a (script bootIdCommand) out err) \<longleftrightarrow> err = None \<and> TrimSpace out \<noteq> []"
  by (simp add: bootIdRead_def)

lemma reboot_not_bootId [simp]: "''reboot'' \<noteq> bootIdCommand" "bootIdCommand \<noteq> ''reboot''"
  by (simp_all add: bootIdCommand_def)

lemma list_all_not_reboot_poll: "list_all (runs bootCommand) rs \<Longrightarrow> list_all (\<lambda>x. \<not> runs ''reboot'' x) rs"
  by (simp add: list_all_iff bootCommand_not_reboot)

lemma emits_reboot: "emits (reboot b serial) (rebootPost b)"
  unfolding reboot_def Let_def
  by (intro emits emits_mono [OF emits_secureLock] emits_mono [OF emits_waitBooted])
    (auto simp: rebootPost_def rebootsSafely_none intro!: rebootsSafely_guarded cameBackI split: if_splits)

section \<open>Who is killed\<close>

lemma splitWhere_pieces: "f \<in> set (splitWhere P s) \<Longrightarrow> x \<in> set f \<Longrightarrow> \<not> P x"
  by (induction P s arbitrary: f rule: splitWhere.induct) (fastforce split: if_splits list.splits)+

lemma Fields_no_space: "f \<in> set (Fields s) \<Longrightarrow> CHR '' '' \<notin> set f"
  using splitWhere_pieces [of f isSpace s "CHR '' ''"] by (auto simp: Fields_def isSpace_def)

lemma before_space: "CHR '' '' \<notin> set p \<Longrightarrow> before (p @ '' '' @ n) '' '' = p"
proof -
  assume p: "CHR '' '' \<notin> set p"
  have "Index (p @ CHR '' '' # n) '' '' = Some (length p)"
    using p by (induction p) (auto simp: HasPrefix_def)
  then show ?thesis by (simp add: before_def Cut_def)
qed

text \<open>A tool that can hold a UiAutomation, run by the shell user as process \<open>pid\<close>.\<close>

definition shellTool :: "bytes \<Rightarrow> bytes \<Rightarrow> bool" where
  "shellTool pid line \<longleftrightarrow> (let f = Fields line; name = pathBase (last f) in
     3 \<le> length f \<and> f ! 0 = ''shell'' \<and> f ! 1 = pid \<and>
     list_ex (HasPrefix name) [''app_process'', ''uiautomator'', ''com.android.commands.''])"

lemma uiaHolders_tools:
  assumes "h \<in> set (uiaHolders ps)"
  shows "list_ex (shellTool (before h '' '')) (linesOf ps)"
proof -
  from assms obtain line where line: "line \<in> set (linesOf ps)" "h \<in> set (uiaHolder line)"
    by (auto simp: uiaHolders_def)
  let ?f = "Fields line"
  from line(2) have f: "3 \<le> length ?f" "?f ! 0 = ''shell''" "h = ?f ! 1 @ '' '' @ pathBase (last ?f)"
    and "list_ex (HasPrefix (pathBase (last ?f))) [''app_process'', ''uiautomator'', ''com.android.commands.'']"
    by (auto simp: uiaHolder_def Let_def split: if_splits)
  moreover have "before h '' '' = ?f ! 1"
    unfolding f(3) by (rule before_space, rule Fields_no_space, rule nth_mem) (use f(1) in simp)
  ultimately show ?thesis using line(1) by (auto simp: list_ex_iff shellTool_def Let_def)
qed

definition probedClean :: "adb_run \<Rightarrow> bool" where
  "probedClean x \<longleftrightarrow> runs uiaProbe x \<and> ar_err x = None \<and> \<not> Contains (ar_output x) ''already registered''"

definition probedLeak :: "adb_run \<Rightarrow> bool" where
  "probedLeak x \<longleftrightarrow> runs uiaProbe x \<and> ar_err x = None \<and> Contains (ar_output x) ''already registered''"

definition isKill :: "adb_run \<Rightarrow> bool" where
  "isKill x \<longleftrightarrow> HasPrefix (ar_stdin x) ''kill''"

text \<open>Every kill is of a tool that a process listing among \<open>rs\<close> shows.\<close>

definition listsTool :: "bytes \<Rightarrow> adb_run \<Rightarrow> bool" where
  "listsTool pid x \<longleftrightarrow> (runs ''ps -A'' x \<or> runs ''ps'' x) \<and> list_ex (shellTool pid) (linesOf (ar_output x))"

definition killsTools :: "adb_run list \<Rightarrow> bool" where
  "killsTools rs \<longleftrightarrow> (\<forall>x \<in> set rs. isKill x \<longrightarrow> (\<exists>pid. runs (killCommand pid) x \<and> list_ex (listsTool pid) rs))"

lemma not_isKill [simp]:
  "\<not> isKill (AdbRun a (script uiaProbe) out err)"
  "\<not> isKill (AdbRun a (script ''ps'') out err)"
  "\<not> isKill (AdbRun a (script ''ps -A'') out err)"
  by (simp_all add: isKill_def script_def uiaProbe_def go_string)

lemma emits_uiaLeaked:
  "emits (uiaLeaked b serial) (\<lambda>r rs. \<exists>y. rs = [y] \<and> runs uiaProbe y \<and> (r = Inr False \<longleftrightarrow> probedClean y) \<and>
     (r = Inr True \<longleftrightarrow> probedLeak y))"
  unfolding uiaLeaked_def by (intro emits) (auto simp: probedClean_def probedLeak_def shellErr_def split: option.splits)

lemma emits_checkCleared:
  "emits (checkCleared b serial) (\<lambda>r rs. \<exists>y. rs = [y] \<and> runs uiaProbe y \<and> (r = None \<longrightarrow> probedClean y))"
  unfolding checkCleared_def by (intro emits emits_mono [OF emits_uiaLeaked]) (auto split: sum.splits if_splits)

text \<open>A wait runs its check at least once, and gives up only after checks that failed.\<close>

lemma emits_waitForPhone_once:
  assumes once: "emits check (\<lambda>_ rs. rs \<noteq> [])"
    and check: "\<And>pre. list_all P pre \<Longrightarrow> emits check (\<lambda>err rs. if err = None then Q None (pre @ rs) else list_all P (pre @ rs))"
    and final: "\<And>rs er. list_all P rs \<Longrightarrow> rs \<noteq> [] \<Longrightarrow> Q (Some er) rs"
  shows "emits (waitForPhone b timeout what check) Q"
proof -
  have triv: "emits (waitPolls b timeout what deadline (asCheck check) n) (\<lambda>_ _. True)" for deadline n
  proof (induction n)
    case (Suc n)
    have "emits (asCheck check) (\<lambda>_ _. True)" unfolding asCheck_def by (intro emits emits_mono [OF once]) simp
    then show ?case
      unfolding waitPolls.simps
      by (intro emits, elim emits_mono) (intro emits emits_pollAgain, simp_all add: Suc.IH emits_return)
  qed (simp add: emits_return)
  have ask: "emits (asCheck check) (\<lambda>_ rs. rs \<noteq> [])" unfolding asCheck_def by (intro emits emits_mono [OF once]) simp
  have polls: "emits (waitPolls b timeout what deadline (asCheck check) (Suc n)) (\<lambda>_ rs. rs \<noteq> [])" for deadline n
    unfolding waitPolls.simps
    by (intro emits emits_mono [OF ask]; (intro emits_pollAgain emits_mono [OF triv])?) simp_all
  have "emits (waitForPhone b timeout what check) (\<lambda>_ rs. rs \<noteq> [])"
    unfolding waitForPhone_def waitValue_def pollTurns_def add_2_eq_Suc'
    by (intro emits emits_mono [OF polls]) simp_all
  moreover have "emits (waitForPhone b timeout what check) (\<lambda>err rs. Q err rs \<or> rs = [])"
    by (rule emits_waitForPhone [where I = "list_all P"]) (auto intro: emits_mono [OF check] final split: if_splits)
  ultimately have "emits (waitForPhone b timeout what check) (\<lambda>err rs. rs \<noteq> [] \<and> (Q err rs \<or> rs = []))"
    by (rule emits_conj)
  then show ?thesis by (rule emits_mono) auto
qed

definition unclean :: "adb_run \<Rightarrow> bool" where
  "unclean x \<longleftrightarrow> runs uiaProbe x \<and> \<not> probedClean x"

lemma emits_waitCleared:
  "emits (waitForPhone b timeout what (checkCleared b serial)) (\<lambda>r rs. list_all (runs uiaProbe) rs \<and> rs \<noteq> [] \<and>
     (if r = None then probedClean (last rs) else list_all unclean rs))"
proof -
  have check: "emits (checkCleared b serial) (\<lambda>r rs. \<exists>y. rs = [y] \<and> runs uiaProbe y \<and> (r = None \<longleftrightarrow> probedClean y))"
    unfolding checkCleared_def
    by (intro emits emits_mono [OF emits_uiaLeaked]) (auto split: sum.splits if_splits)
  show ?thesis
    by (rule emits_waitForPhone_once [where P = unclean]; (rule emits_mono [OF check])?)
      (auto simp: unclean_def list_all_iff)
qed

text \<open>The kills that succeeded are the ones reported.\<close>

lemma emits_killAll:
  "emits (killAll b serial hs) (\<lambda>killed rs. list_all (\<lambda>x. \<exists>h \<in> set hs. runs (killCommand (before h '' '')) x) rs \<and>
     (killed = [] \<longleftrightarrow> list_all (\<lambda>x. ar_err x \<noteq> None) rs))"
proof (induction hs)
  case Nil
  then show ?case by (simp add: emits_return)
next
  case (Cons h hs)
  show ?case
    unfolding killAll.simps by (intro emits emits_mono [OF Cons.IH]) (auto simp: list_all_iff shellErr_def)
qed

lemma emits_listProcesses:
  "emits (listProcesses b serial) (\<lambda>ps rs. list_all (\<lambda>x. runs ''ps -A'' x \<or> runs ''ps'' x) rs \<and>
     list_ex (\<lambda>x. ar_output x = ps) rs)"
  unfolding listProcesses_def by (intro emits) auto

section \<open>What the requests promise\<close>

lemma rebootsSafely_around:
  assumes "list_all (\<lambda>x. \<not> runs ''reboot'' x) xs" "rebootsSafely [] rs" "list_all (\<lambda>x. \<not> runs ''reboot'' x) ys"
  shows "rebootsSafely [] (xs @ rs @ ys)"
  using assms by (simp add: rebootsSafely_append rebootsSafely_none rebootsSafely_weaken [of rs])

lemma cameBack_after: "cameBack rs \<Longrightarrow> cameBack (xs @ rs)"
  unfolding cameBack_def by (metis append.assoc)

definition staleFor :: "bench \<Rightarrow> adb_run \<Rightarrow> bool" where
  "staleFor b x \<longleftrightarrow> 0 < cf_rebootAfter b \<and> runs ''cat /proc/uptime'' x \<and> ar_err x = None \<and>
     (case parseUptime b (ar_output x) of Inr u \<Rightarrow> cf_rebootAfter b \<le> u | Inl _ \<Rightarrow> False)"

lemma emits_RebootIfStale:
  "emits (RebootIfStale_src b serial) (\<lambda>r rs. rebootsSafely [] rs \<and>
     (case r of Inr (_, True) \<Rightarrow> cameBack rs | _ \<Rightarrow> True) \<and>
     (if list_ex (runs ''reboot'') rs then staleFor b (hd rs) else True))"
  unfolding RebootIfStale_src_def Let_def
  by (intro emits emits_mono [OF emits_reboot])
    (auto simp: rebootPost_def rebootsSafely_weaken cameBack_after [of _ "[x]" for x, simplified] staleFor_def
      split: option.splits if_splits)

text \<open>
  The radio is wedged: its service's dump says so, or it failed and the command's own time-out, looked at as question
  \<open>n\<close>, had expired while the request's had not (an error of adb that is itself that sentinel counts, too).
\<close>

definition wedgedDump :: "bench \<Rightarrow> nat \<Rightarrow> bytes \<Rightarrow> adb_run \<Rightarrow> bool" where
  "wedgedDump b n radio x \<longleftrightarrow> (case map_of radioServices radio of None \<Rightarrow> False | Some service \<Rightarrow> runs (''dumpsys '' @ service) x) \<and>
     (Contains (ar_output x) ''DUMP TIMEOUT'' \<or>
      (case ar_err x of None \<Rightarrow> False
       | Some er \<Rightarrow> bn_expired b n \<and> bn_ctxErr b n = None \<or> errIs (Some er) ErrRadioHung))"

lemma radioShell_hung:
  "wp (radioShell b serial c) (\<lambda>(out, err) s'. \<exists>x. ds_runs s' = ds_runs s @ [x] \<and> runs c x \<and> ar_output x = out \<and>
     (errIs err ErrRadioHung \<longleftrightarrow> (case ar_err x of None \<Rightarrow> False
       | Some er \<Rightarrow> bn_expired b (Suc (ds_step s)) \<and> bn_ctxErr b (Suc (ds_step s)) = None \<or> errIs (Some er) ErrRadioHung))) s"
  by (cases "bn_adb b (ds_step s) (shellArgs b serial) (script c)")
    (auto simp: radioShell_def answer_def ran_def errIs_def Let_def split: option.split)

lemma reboots_after:
  assumes "rebootPost b err rs" and "runs c x" and "c \<noteq> ''reboot''"
  shows "rebootsSafely [] (x # rs)" and "err = None \<Longrightarrow> cameBack (x # rs)"
  using assms cameBack_after [of rs "[x]"]
  by (simp_all add: rebootPost_def rebootsSafely_weaken) (auto simp: runs_def script_def)

definition wedgedPost :: "bench \<Rightarrow> nat \<Rightarrow> bytes \<Rightarrow> goerr + bool \<Rightarrow> adb_run list \<Rightarrow> bool" where
  "wedgedPost b n radio r rs \<longleftrightarrow> rebootsSafely [] rs \<and>
     (if list_ex (runs ''reboot'') rs then wedgedDump b n radio (hd rs) else True) \<and>
     (case r of Inl _ \<Rightarrow> True
      | Inr done \<Rightarrow> if done then cameBack rs else length rs = 1 \<and> \<not> wedgedDump b n radio (hd rs))"

lemma RebootIfWedged_wp:
  "wp (RebootIfWedged_src b serial radio)
    (\<lambda>r s'. \<exists>rs. ds_runs s' = ds_runs s @ rs \<and> wedgedPost b (Suc (ds_step s)) radio r rs) s"
proof -
  let ?n = "Suc (ds_step s)"
  let ?Q = "\<lambda>r s'. \<exists>rs. ds_runs s' = ds_runs s @ rs \<and> wedgedPost b ?n radio r rs"
  have refused: "?Q (Inl er) s" for er by (simp add: wedgedPost_def)
  have other: "''dumpsys '' @ service \<noteq> ''reboot''" for service by simp
  have judge: "wp (if \<not> errIs err ErrRadioHung \<and> \<not> Contains out ''DUMP TIMEOUT'' then returnM (Inr False)
          else do {
            err \<leftarrow> reboot b serial;
            returnM (case err of
              None \<Rightarrow> Inr True
            | Some er \<Rightarrow> if isSentinel er ErrUnsafeReboot
                then Inl (Status FailedPrecondition (serial @ '': '' @ radio @ '' wedged, and '' @ errorText er))
                else Inl er) }) ?Q u"
    if u: "ds_runs u = ds_runs s @ [x]" "runs (''dumpsys '' @ service) x" "ar_output x = out"
      and hung: "errIs err ErrRadioHung \<longleftrightarrow> (case ar_err x of None \<Rightarrow> False
        | Some er \<Rightarrow> bn_expired b ?n \<and> bn_ctxErr b ?n = None \<or> errIs (Some er) ErrRadioHung)"
      and service: "map_of radioServices radio = Some service" for x u out err service
  proof (cases "wedgedDump b ?n radio x")
    case False
    then have "\<not> errIs err ErrRadioHung \<and> \<not> Contains out ''DUMP TIMEOUT''"
      using u hung service by (auto simp: wedgedDump_def)
    moreover have "\<not> runs ''reboot'' x" using u(2) other by (auto simp: runs_def script_def)
    ultimately show ?thesis using False u(1) by (auto simp: wedgedPost_def)
  next
    case True
    then have "\<not> (\<not> errIs err ErrRadioHung \<and> \<not> Contains out ''DUMP TIMEOUT'')"
      using u hung service by (auto simp: wedgedDump_def split: option.splits)
    moreover have "wedgedPost b ?n radio (case err' of None \<Rightarrow> Inr True
        | Some er \<Rightarrow> if isSentinel er ErrUnsafeReboot
            then Inl (Status FailedPrecondition (serial @ '': '' @ radio @ '' wedged, and '' @ errorText er))
            else Inl er) (x # rs)" if "rebootPost b err' rs" for err' rs
      using reboots_after [OF that u(2) other] True by (auto simp: wedgedPost_def split: option.split)
    then have "wp (reboot b serial) (\<lambda>err'. ?Q (case err' of None \<Rightarrow> Inr True
        | Some er \<Rightarrow> if isSentinel er ErrUnsafeReboot
            then Inl (Status FailedPrecondition (serial @ '': '' @ radio @ '' wedged, and '' @ errorText er))
            else Inl er)) u"
      by (intro wp_mono [OF emits_wp [OF emits_reboot]]) (use u(1) in fastforce)
    ultimately show ?thesis by auto
  qed
  show ?thesis
    unfolding RebootIfWedged_src_def
    using refused
    by (auto split: option.split simp del: wp_if)
      (rule wp_mono [OF radioShell_hung], auto intro!: judge simp del: wp_if)
qed

lemma probe_harmless: "runs uiaProbe x \<Longrightarrow> \<not> runs ''reboot'' x \<and> \<not> isKill x"
  by (auto simp: runs_def script_def uiaProbe_def isKill_def go_string)

lemma rebootCommand_no_kill:
  "runs c x \<Longrightarrow> c \<in> {''dumpsys window policy'', ''dumpsys lock_settings'', bootIdCommand, ''reboot'', bootCommand} \<Longrightarrow> \<not> isKill x"
  by (auto simp: runs_def script_def isKill_def bootIdCommand_def bootCommand_def go_string)

lemma emits_reboot_no_kill: "emits (reboot b serial) (\<lambda>_ rs. list_all (\<lambda>x. \<not> isKill x) rs)"
proof -
  have run: "\<not> isKill (AdbRun a (script c) out err)"
    if "c \<in> {''dumpsys window policy'', ''dumpsys lock_settings'', bootIdCommand, ''reboot'', bootCommand}" for a c out err
    by (rule rebootCommand_no_kill [OF _ that]) simp
  have secure: "emits (secureLock b serial) (\<lambda>_ rs. list_all (\<lambda>x. \<not> isKill x) rs)"
    unfolding secureLock_def by (intro emits) (simp_all add: run)
  have polls: "emits (waitForPhone b timeout what (checkBooted b serial old)) (\<lambda>_ rs. list_all (\<lambda>x. \<not> isKill x) rs)"
    for timeout what old
    by (rule emits_mono [OF emits_waitBooted]) (auto simp: list_all_iff dest: rebootCommand_no_kill)
  show ?thesis
    unfolding reboot_def Let_def
    by (intro emits emits_mono [OF secure] emits_mono [OF polls]) (simp_all add: run)
qed

text \<open>What \<open>ClearUiAutomation\<close> does when it reboots.\<close>

lemma emits_rebootToClear:
  "emits (rebootToClear b serial) (\<lambda>r rs. rebootsSafely [] rs \<and> list_all (\<lambda>x. \<not> isKill x) rs \<and>
     (case r of Inr how \<Rightarrow> rs \<noteq> [] \<and> probedClean (last rs) \<and> how = ''rebooted'' \<and> cameBack (butlast rs) | Inl _ \<Rightarrow> True))"
  unfolding rebootToClear_def
  by (intro emits emits_mono [OF emits_conj [OF emits_reboot emits_reboot_no_kill]] emits_mono [OF emits_uiaLeaked])
    (auto simp: rebootPost_def rebootsSafely_append probe_harmless split: option.splits if_splits sum.splits)

text \<open>
  \<open>pre\<close> is what runs before a reboot is thought of: a probe that found a registration, and if a process was killed,
  at least one probe after the kills, none of which found it gone.
\<close>

definition survived :: "adb_run list \<Rightarrow> bool" where
  "survived pre \<longleftrightarrow> (case pre of [] \<Rightarrow> False
     | u # ps \<Rightarrow> probedLeak u \<and> list_all (\<lambda>x. \<not> probedClean x) ps \<and>
         (if list_ex (\<lambda>x. isKill x \<and> ar_err x = None) ps then unclean (last ps) else True))"

definition uiaPost :: "goerr + bytes \<Rightarrow> adb_run list \<Rightarrow> bool" where
  "uiaPost r rs \<longleftrightarrow> rebootsSafely [] rs \<and> killsTools rs \<and>
     (if list_ex (runs ''reboot'') rs
      then list_ex (\<lambda>n. list_all (\<lambda>x. \<not> runs ''reboot'' x) (take n rs) \<and> survived (take n rs)) [0..<length rs] else True) \<and>
     (case r of Inr how \<Rightarrow> rs \<noteq> [] \<and> probedClean (last rs) \<and>
        (if how = ''rebooted'' then cameBack (butlast rs) else \<not> list_ex (runs ''reboot'') rs) | Inl _ \<Rightarrow> True)"

lemma kills_shown:
  assumes ps: "list_all (\<lambda>x. runs ''ps -A'' x \<or> runs ''ps'' x) ps" "list_ex (\<lambda>x. ar_output x = out) ps"
    and ks: "list_all (\<lambda>x. \<exists>h \<in> set (uiaHolders out). runs (killCommand (before h '' '')) x) ks"
  shows "killsTools (ps @ ks)"
  unfolding killsTools_def
proof (intro ballI impI)
  fix x assume x: "x \<in> set (ps @ ks)" "isKill x"
  have "\<not> isKill y" if "runs ''ps -A'' y \<or> runs ''ps'' y" for y
    using that by (auto simp: runs_def script_def isKill_def go_string)
  with assms x have "x \<in> set ks" by (auto simp: list_all_iff)
  with ks obtain h where h: "h \<in> set (uiaHolders out)" "runs (killCommand (before h '' '')) x"
    by (auto simp: list_all_iff)
  from ps obtain l where l: "l \<in> set ps" "ar_output l = out" "runs ''ps -A'' l \<or> runs ''ps'' l"
    by (auto simp: list_ex_iff list_all_iff)
  then have "listsTool (before h '' '') l"
    using uiaHolders_tools [OF h(1)] by (simp add: listsTool_def)
  with h(2) l(1) show "\<exists>pid. runs (killCommand pid) x \<and> list_ex (listsTool pid) (ps @ ks)"
    by (auto simp: list_ex_iff)
qed

lemma killsTools_around:
  "killsTools rs \<Longrightarrow> list_all (\<lambda>x. \<not> isKill x) us \<Longrightarrow> list_all (\<lambda>x. \<not> isKill x) vs \<Longrightarrow> killsTools (us @ rs @ vs)"
  unfolding killsTools_def list_all_iff list_ex_iff by auto blast

lemma list_all_kills_no_reboot:
  "list_all (\<lambda>x. \<exists>h \<in> H. runs (killCommand (before h '' '')) x) ks \<Longrightarrow> list_all (\<lambda>x. \<not> runs ''reboot'' x) ks"
  by (auto simp: list_all_iff runs_def script_def killCommand_def)

lemma list_all_ps_no_reboot:
  "list_all (\<lambda>x. runs ''ps -A'' x \<or> runs ''ps'' x) ps \<Longrightarrow> list_all (\<lambda>x. \<not> runs ''reboot'' x) ps"
  by (auto simp: list_all_iff runs_def script_def)

lemma list_all_kills_no_probe:
  "list_all (\<lambda>x. \<exists>h \<in> H. runs (killCommand (before h '' '')) x) ks \<Longrightarrow> list_all (\<lambda>x. isKill x \<and> \<not> probedClean x) ks"
  by (auto simp: list_all_iff runs_def script_def killCommand_def probedClean_def uiaProbe_def isKill_def HasPrefix_def)

lemma list_all_ps_no_probe:
  "list_all (\<lambda>x. runs ''ps -A'' x \<or> runs ''ps'' x) ps \<Longrightarrow> list_all (\<lambda>x. \<not> isKill x \<and> \<not> probedClean x) ps"
  by (auto simp: list_all_iff runs_def script_def probedClean_def uiaProbe_def isKill_def go_string)

lemma emits_killHolders:
  "emits (killHolders b serial) (\<lambda>killed rs. killsTools rs \<and> list_all (\<lambda>x. \<not> runs ''reboot'' x) rs \<and>
     list_all (\<lambda>x. \<not> probedClean x) rs \<and> (killed = [] \<longleftrightarrow> \<not> list_ex (\<lambda>x. isKill x \<and> ar_err x = None) rs))"
  unfolding killHolders_def
proof (intro emits emits_mono [OF emits_listProcesses] emits_mono [OF emits_killAll], elim conjE, goal_cases)
  case (1 ps rs killed rs')
  have "killsTools (rs @ rs')" using kills_shown 1 by blast
  moreover have "list_all (\<lambda>x. \<not> runs ''reboot'' x) (rs @ rs')"
    using list_all_ps_no_reboot list_all_kills_no_reboot 1 by auto
  moreover have "list_all (\<lambda>x. isKill x \<and> \<not> probedClean x) rs'" using list_all_kills_no_probe 1 by blast
  moreover have "list_all (\<lambda>x. \<not> isKill x \<and> \<not> probedClean x) rs" using list_all_ps_no_probe 1 by blast
  ultimately show ?case using 1 by (auto simp: list_all_iff list_ex_iff)
qed

text \<open>A probe \<open>u\<close>, the kills \<open>ks\<close>, probes \<open>ws\<close> while waiting, and what a reboot runs.\<close>

lemma before_reboot:
  assumes "runs uiaProbe u" "killsTools ks" "list_all (\<lambda>x. \<not> runs ''reboot'' x) ks" "list_all (runs uiaProbe) ws"
  shows "killsTools (u # ks @ ws)" "list_all (\<lambda>x. \<not> runs ''reboot'' x) (u # ks @ ws)"
  using killsTools_around [of ks "[u]" ws] assms probe_harmless by (auto simp: list_all_iff)

lemma uiaPost_quiet:
  assumes "killsTools rs" "list_all (\<lambda>x. \<not> runs ''reboot'' x) rs"
    and "case r of Inr how \<Rightarrow> rs \<noteq> [] \<and> probedClean (last rs) \<and> how \<noteq> ''rebooted'' | Inl _ \<Rightarrow> True"
  shows "uiaPost r rs"
  using assms by (auto simp: uiaPost_def rebootsSafely_none list_all_iff list_ex_iff split: sum.splits)

lemma uiaPost_reboot:
  assumes pre: "survived pre" "killsTools pre" "list_all (\<lambda>x. \<not> runs ''reboot'' x) pre"
    and vs: "rebootsSafely [] vs" "list_all (\<lambda>x. \<not> isKill x) vs"
    and r: "case r of Inr how \<Rightarrow> vs \<noteq> [] \<and> probedClean (last vs) \<and> how = ''rebooted'' \<and> cameBack (butlast vs) | Inl _ \<Rightarrow> True"
  shows "uiaPost r (pre @ vs)"
proof -
  have "list_ex (\<lambda>n. list_all (\<lambda>x. \<not> runs ''reboot'' x) (take n (pre @ vs)) \<and> survived (take n (pre @ vs))) [0..<length (pre @ vs)]"
    if "list_ex (runs ''reboot'') (pre @ vs)"
  proof -
    have "vs \<noteq> []" using that pre(3) by (auto simp: list_ex_iff list_all_iff)
    then have "length pre \<in> set [0..<length (pre @ vs)]" by simp
    then show ?thesis using pre unfolding list_ex_iff by (intro bexI [of _ "length pre"]) auto
  qed
  moreover have "rebootsSafely [] (pre @ vs)"
    using pre(3) vs(1) by (simp add: rebootsSafely_append rebootsSafely_none rebootsSafely_weaken)
  moreover have "killsTools (pre @ vs)" using killsTools_around [of pre "[]" vs] pre(2) vs(2) by simp
  moreover have "cameBack (butlast vs) \<Longrightarrow> vs \<noteq> [] \<Longrightarrow> cameBack (butlast (pre @ vs))"
    by (simp add: butlast_append cameBack_after)
  ultimately show ?thesis using r by (auto simp: uiaPost_def split: sum.splits)
qed

lemma emits_ClearUiAutomation: "emits (ClearUiAutomation_src b serial) uiaPost"
proof -
  have probe: "uiaPost r [u]" if "runs uiaProbe u" "case r of Inr how \<Rightarrow> probedClean u \<and> how = [] | Inl _ \<Rightarrow> True" for u r
    using that before_reboot [of u "[]" "[]"] by (intro uiaPost_quiet) (auto simp: killsTools_def split: sum.splits)
  have refused: "uiaPost (Inl er) []" for er by (rule uiaPost_quiet) (simp_all add: killsTools_def)
  have cleared: "uiaPost (Inr how) (u # ks @ ws)"
    if "how \<noteq> ''rebooted''" "runs uiaProbe u" "killsTools ks" "list_all (\<lambda>x. \<not> runs ''reboot'' x) ks" "list_all (runs uiaProbe) ws" "ws \<noteq> []"
      "probedClean (last ws)" for u ks ws how
    using before_reboot [OF that(2-5)] that(1,6,7) by (intro uiaPost_quiet) auto
  have unkilled: "uiaPost r (u # ks @ vs)"
    if "probedLeak u" "killsTools ks" "list_all (\<lambda>x. \<not> runs ''reboot'' x) ks" "list_all (\<lambda>x. \<not> probedClean x) ks"
      "\<not> list_ex (\<lambda>x. isKill x \<and> ar_err x = None) ks" "rebootsSafely [] vs" "list_all (\<lambda>x. \<not> isKill x) vs"
      "case r of Inr how \<Rightarrow> vs \<noteq> [] \<and> probedClean (last vs) \<and> how = ''rebooted'' \<and> cameBack (butlast vs) | Inl _ \<Rightarrow> True"
    for r u ks vs
    using uiaPost_reboot [of "u # ks" vs r] before_reboot [of u ks "[]"] that by (simp add: survived_def probedLeak_def)
  have killed: "uiaPost r (u # ks @ ws @ vs)"
    if "probedLeak u" "killsTools ks" "list_all (\<lambda>x. \<not> runs ''reboot'' x) ks" "list_all (\<lambda>x. \<not> probedClean x) ks"
      "list_all (runs uiaProbe) ws" "ws \<noteq> []" "list_all unclean ws" "rebootsSafely [] vs" "list_all (\<lambda>x. \<not> isKill x) vs"
      "case r of Inr how \<Rightarrow> vs \<noteq> [] \<and> probedClean (last vs) \<and> how = ''rebooted'' \<and> cameBack (butlast vs) | Inl _ \<Rightarrow> True"
    for r u ks ws vs
  proof -
    have "survived (u # ks @ ws)" using that(1,4,6,7) by (auto simp: survived_def unclean_def list_all_iff)
    then show ?thesis
      using uiaPost_reboot [of "u # ks @ ws" vs r] before_reboot [of u ks ws] that by (simp add: probedLeak_def)
  qed
  show ?thesis
    unfolding ClearUiAutomation_src_def
    by (intro emits emits_mono [OF emits_uiaLeaked] emits_mono [OF emits_killHolders]
        emits_mono [OF emits_waitCleared] emits_mono [OF emits_rebootToClear])
      (auto simp: refused intro!: probe intro: cleared unkilled killed)
qed

text \<open>
  C17. A phone is only rebooted when it is safe and for a reason, and a reboot that is reported has happened.
  Every \<open>reboot\<close> that \<open>RebootIfStale\<close>, \<open>RebootIfWedged\<close> or \<open>ClearUiAutomation\<close> runs comes right
  after the phone has said that it has no secure lock and what boot it is in. The first reboots only a phone that
  answered an uptime above the limit; the second only if the dump of the radio's service said it timed out or hung until
  the command's own time-out, not for any other error, and answers that it was not wedged exactly if neither is so and
  nothing but the dump ran; the third only if a probe found a registration, none since found it gone, and a probe came
  after any kill that succeeded. A phone that is reported as rebooted, by any of them, has answered with another
  boot id and a completed boot, and one reported as cleared otherwise was not rebooted.
\<close>

theorem reboots_only_unlocked:
  "wp (RebootIfStale_src b serial) (\<lambda>r s'. \<exists>rs. ds_runs s' = ds_runs s @ rs \<and> rebootsSafely [] rs \<and>
     (case r of Inr (_, True) \<Rightarrow> cameBack rs | _ \<Rightarrow> True) \<and>
     (if list_ex (runs ''reboot'') rs then staleFor b (hd rs) else True)) s \<and>
   wp (RebootIfWedged_src b serial radio) (\<lambda>r s'. \<exists>rs. ds_runs s' = ds_runs s @ rs \<and> rebootsSafely [] rs \<and>
     (if list_ex (runs ''reboot'') rs then wedgedDump b (Suc (ds_step s)) radio (hd rs) else True) \<and>
     (case r of Inl _ \<Rightarrow> True
      | Inr done \<Rightarrow> if done then cameBack rs
          else length rs = 1 \<and> \<not> wedgedDump b (Suc (ds_step s)) radio (hd rs))) s \<and>
   wp (ClearUiAutomation_src b serial) (\<lambda>r s'. \<exists>rs. ds_runs s' = ds_runs s @ rs \<and> rebootsSafely [] rs \<and>
     (if list_ex (runs ''reboot'') rs
      then list_ex (\<lambda>n. list_all (\<lambda>x. \<not> runs ''reboot'' x) (take n rs) \<and> survived (take n rs)) [0..<length rs] else True) \<and>
     (case r of Inl _ \<Rightarrow> True
      | Inr how \<Rightarrow> if how = ''rebooted'' then cameBack (butlast rs) else \<not> list_ex (runs ''reboot'') rs)) s"
  by (intro conjI emits_wp [OF emits_RebootIfStale] RebootIfWedged_wp [unfolded wedgedPost_def]
      emits_wp [OF emits_mono [OF emits_ClearUiAutomation]]) (auto simp: uiaPost_def split: sum.splits)

text \<open>
  Clearing a leaked UiAutomation kills only what can hold one: every process that is killed is one of
  the shell user's tools in a process listing just read from the phone. And a phone reported as clear is
  clear: the last thing that ran was the probe, and it did not find a registration.
\<close>

theorem ClearUiAutomation_kills_tools:
  "wp (ClearUiAutomation_src b serial) (\<lambda>r s'. \<exists>rs. ds_runs s' = ds_runs s @ rs \<and> killsTools rs \<and>
     (case r of Inr _ \<Rightarrow> rs \<noteq> [] \<and> probedClean (last rs) | Inl _ \<Rightarrow> True)) s"
  by (rule emits_wp [OF emits_mono [OF emits_ClearUiAutomation]]) (auto simp: uiaPost_def split: sum.splits)

section \<open>The screen contract\<close>

definition saysAwake :: "adb_run \<Rightarrow> bool" where
  "saysAwake x \<longleftrightarrow> runs ''dumpsys power'' x \<and> ar_err x = None \<and> dumpsysField (ar_output x) ''mWakefulness='' = ''Awake''"

text \<open>No keyguard, or a dump of a format without its fields.\<close>

definition saysUnlocked :: "adb_run \<Rightarrow> bool" where
  "saysUnlocked x \<longleftrightarrow> runs ''dumpsys window policy'' x \<and> ar_err x = None \<and>
     orElse (dumpsysField (ar_output x) ''showing='') (dumpsysField (ar_output x) ''mShowingLockscreen='') \<in> {[], ''false''}"

definition isWakeup :: "adb_run \<Rightarrow> bool" where
  "isWakeup x \<longleftrightarrow> runs ''input keyevent KEYCODE_WAKEUP'' x"

definition awakeAtEnd :: "adb_run list \<Rightarrow> bool" where
  "awakeAtEnd rs \<longleftrightarrow> (case rev rs of w # p # _ \<Rightarrow> saysAwake p \<and> saysUnlocked w | _ \<Rightarrow> False)"

lemma isWakeup_run [simp]:
  "isWakeup (AdbRun a (script c) out err) \<longleftrightarrow> c = ''input keyevent KEYCODE_WAKEUP''"
  by (auto simp: isWakeup_def)

lemma awakeAtEnd_append: "awakeAtEnd rs \<Longrightarrow> awakeAtEnd (xs @ rs)"
  by (auto simp: awakeAtEnd_def split: list.splits)

lemma awakeAtEnd_Cons: "awakeAtEnd rs \<Longrightarrow> awakeAtEnd (x # rs)"
  using awakeAtEnd_append [of rs "[x]"] by simp

lemma emits_checkAwake:
  "emits (checkAwake b serial) (\<lambda>r rs. filter isWakeup rs = [] \<and> (r = None \<longrightarrow> awakeAtEnd rs))"
  unfolding checkAwake_def Let_def
  by (intro emits) (auto simp: awakeAtEnd_def saysAwake_def saysUnlocked_def)

lemma emits_waitAwake:
  "emits (waitForPhone b timeout what (checkAwake b serial))
     (\<lambda>r rs. filter isWakeup rs = [] \<and> (r = None \<longrightarrow> awakeAtEnd rs))"
  by (intro emits_waitForPhone [where I = "\<lambda>rs. filter isWakeup rs = []"] emits_mono [OF emits_checkAwake])
    (auto simp: awakeAtEnd_append)

lemma emits_wakeAttempts:
  "emits (wakeAttempts b serial n) (\<lambda>r rs. length (filter isWakeup rs) \<le> n \<and>
     (r = None \<longrightarrow> n = 0 \<or> awakeAtEnd rs))"
proof (induction n)
  case 0
  show ?case by (simp add: emits_return)
next
  case (Suc n)
  show ?case
    unfolding wakeAttempts.simps
    by (intro emits emits_mono [OF emits_waitAwake] emits_mono [OF Suc.IH])
      (auto intro: awakeAtEnd_append awakeAtEnd_Cons)
qed

lemma ds_warnings_ran [simp]: "ds_warnings (ran b serial c s) = ds_warnings s"
  by (simp add: ran_def)

lemma ds_runs_ran: "\<exists>x. ds_runs (ran b serial c s) = ds_runs s @ [x] \<and> runs c x"
  by (auto simp: ran_def split: prod.splits)

lemma wakeError_status: "\<exists>c m. fromError (wakeError serial er) = Some (c, m)"
  "statusCode (Some (wakeError serial er)) \<noteq> DeadlineExceeded"
  by (cases "fromError er") (auto simp: wakeError_def screenLocked_def statusCode_def)

text \<open>
  The screen contract: when \<open>Wake\<close> returns without an error, the last thing the phone was asked about
  its screen before the closing question was answered with awake and no keyguard (or in a format without
  those fields). It wakes the phone at most three times; an error is a status, never a bare time-out; and
  the phone's warning on the dashboard is the message of this error, or gone.
\<close>

theorem Wake_contract:
  "wp (Wake_src b serial) (\<lambda>r s'. \<exists>rs. ds_runs s' = ds_runs s @ rs \<and>
     (case checkSerial b serial of
        Some er \<Rightarrow> r = Some er \<and> rs = []
      | None \<Rightarrow> length (filter isWakeup rs) \<le> 3 \<and> ds_warnings s' serial = map_option convertMessage r \<and>
          (case r of
             None \<Rightarrow> awakeAtEnd (butlast rs) \<and> runs ''settings get global stay_on_while_plugged_in'' (last rs)
           | Some er \<Rightarrow> fromError er \<noteq> None \<and> statusCode (Some er) \<noteq> DeadlineExceeded))) s"
proof (cases "checkSerial b serial")
  case None
  let ?ask = "''settings get global stay_on_while_plugged_in''"
  have last: "\<exists>rs. ds_runs (ran b serial ?ask u) = ds_runs s @ rs \<and> length (filter isWakeup rs) \<le> 3 \<and>
      awakeAtEnd (butlast rs) \<and> runs ?ask (last rs)"
    if "ds_runs u = ds_runs s @ rs" "length (filter isWakeup rs) \<le> 3" "awakeAtEnd rs" for u :: source and rs
    using that ds_runs_ran [of b serial ?ask u] by (auto simp: isWakeup_def runs_def script_def)
  show ?thesis
    using last unfolding Wake_src_def wake_def None
    by (auto intro!: wp_mono [OF emits_wp [OF emits_wakeAttempts]] simp: wakeError_status split: option.split)
qed (simp add: Wake_src_def)

end
