(* ===== verification/PhoneBluetooth.thy ===== *)
theory PhoneBluetooth
  imports Phone
begin

text \<open>
  \<open>devicesource/bluetooth.go\<close>: cycling a phone's Bluetooth until the adapter is fully off and back
  on, whatever holds it half on.
\<close>

section \<open>Reading the dump\<close>

definition toLower :: "char \<Rightarrow> char" where
  "toLower c = (if 65 \<le> byte c \<and> byte c \<le> 90 then char_of (byte c + 32) else c)"

definition isLetter :: "char \<Rightarrow> bool" where
  "isLetter c \<longleftrightarrow> 65 \<le> byte c \<and> byte c \<le> 90 \<or> 97 \<le> byte c \<and> byte c \<le> 122"

definition isWord :: "char \<Rightarrow> bool" where
  "isWord c \<longleftrightarrow> isAlnum c \<or> c = CHR ''_''"

text \<open>\<open>packageName\<close>: at least two words joined by dots, the first starting with a letter.\<close>

definition isPackageName :: "bytes \<Rightarrow> bool" where
  "isPackageName s \<longleftrightarrow> (let ws = Split s CHR ''.'' in
     2 \<le> length ws \<and> list_all (\<lambda>w. w \<noteq> [] \<and> list_all isWord w) ws \<and> isLetter (hd s))"

fun bleAppsIn :: "bool \<Rightarrow> bytes list \<Rightarrow> bytes list" where
  "bleAppsIn inList [] = []"
| "bleAppsIn inList (line # ls) = (let t = TrimSpace line in
     if Contains (map toLower t) ''ble app'' then bleAppsIn True ls
     else if inList \<and> t \<noteq> [] \<and> line \<noteq> t \<and> isPackageName t then t # bleAppsIn inList ls
     else bleAppsIn (inList \<and> t = []) ls)"

definition bleApps :: "bytes \<Rightarrow> bytes list" where
  "bleApps out = bleAppsIn False (linesOf out)"

text \<open>The first \<open>state:\<close> line, in any case of letters.\<close>

definition adapterState :: "bytes \<Rightarrow> bytes" where
  "adapterState out = (case find (\<lambda>t. 6 < length t \<and> map toLower (take 6 t) = ''state:'') (map TrimSpace (linesOf out)) of
     None \<Rightarrow> []
   | Some t \<Rightarrow> TrimPrefix (TrimSpace (drop 6 t)) ''STATE_'')"

definition btDump :: bytes where
  "btDump = ''dumpsys bluetooth_manager''"

definition bluetoothState :: "bench \<Rightarrow> bytes \<Rightarrow> (goerr + bytes) op" where
  "bluetoothState b serial = do {
     (out, err) \<leftarrow> radioShell b serial btDump;
     returnM (case err of
       Some er \<Rightarrow> if Contains out (''Can'' @ quote # ''t find service'') then Inr []
           else Inl (Wrapf er (btDump @ '': '' @ errorText er))
     | None \<Rightarrow> Inr (adapterState out)) }"

definition checkBluetooth :: "bench \<Rightarrow> bytes \<Rightarrow> bytes list \<Rightarrow> goerr option op" where
  "checkBluetooth b serial states = do {
     st \<leftarrow> bluetoothState b serial;
     returnM (case st of
       Inl er \<Rightarrow> Some er
     | Inr st \<Rightarrow> if st \<notin> set states then Some (Plain (''adapter is '' @ orElse st ''unknown'')) else None) }"

section \<open>Off\<close>

definition waitBluetooth :: "bench \<Rightarrow> bytes \<Rightarrow> int \<Rightarrow> bytes list \<Rightarrow> goerr option op" where
  "waitBluetooth b serial timeout states =
     waitForPhone b timeout (serial @ '' Bluetooth not off'') (checkBluetooth b serial states)"

text \<open>\<open>held\<close>: the error of a wait that a BLE app keeps from passing.\<close>

definition heldBy :: "bytes list \<Rightarrow> goerr \<Rightarrow> bytes \<Rightarrow> goerr" where
  "heldBy apps er how = Status (statusCode (Some er))
     (convertMessage er @ '' '' @ how @ '' (BLE apps: '' @ orElse (Join apps '', '') ''none listed'' @ '')'')"

definition shortOff :: "bench \<Rightarrow> int" where
  "shortOff b = min (5 * secondT) (cf_bluetoothTimeout b)"

definition radiosPut :: "bytes \<Rightarrow> bytes" where
  "radiosPut v = ''settings put global airplane_mode_radios '' @ v"

definition radiosRestore :: "bytes \<Rightarrow> bytes" where
  "radiosRestore radios = (if TrimSpace radios = ''null'' then ''settings delete global airplane_mode_radios''
     else radiosPut (shellQuote (TrimSpace radios)))"

definition airplaneMode :: "bytes \<Rightarrow> bytes" where
  "airplaneMode v = ''cmd connectivity airplane-mode '' @ v"

text \<open>Airplane mode on, the wait, airplane mode off.\<close>

definition airplaneToggle :: "bench \<Rightarrow> bytes \<Rightarrow> bytes list \<Rightarrow> goerr option op" where
  "airplaneToggle b serial apps = do {
     _ \<leftarrow> radioShell b serial (airplaneMode ''enable'');
     err \<leftarrow> waitBluetooth b serial (cf_bluetoothTimeout b) [''OFF''];
     _ \<leftarrow> radioShell b serial (airplaneMode ''disable'');
     returnM (map_option (\<lambda>er. heldBy apps er ''even through airplane mode'') err) }"

definition airplaneCycle :: "bench \<Rightarrow> bytes \<Rightarrow> bytes list \<Rightarrow> goerr option op" where
  "airplaneCycle b serial apps = do {
     (radios, err) \<leftarrow> shell b serial ''settings get global airplane_mode_radios'';
     (if err \<noteq> None then airplaneToggle b serial apps
      else do {
        (_, err) \<leftarrow> shell b serial (radiosPut ''bluetooth'');
        (if err \<noteq> None then airplaneToggle b serial apps
         else do {
           r \<leftarrow> airplaneToggle b serial apps;
           _ \<leftarrow> shell b serial (radiosRestore radios);
           returnM r }) }) }"

text \<open>From \<open>BLE_ON\<close>, with BLE scanning no longer the reason.\<close>

definition dropHolders :: "bench \<Rightarrow> bytes \<Rightarrow> goerr option op" where
  "dropHolders b serial = do {
     (out, err) \<leftarrow> shell b serial btDump;
     (case err of
        Some er \<Rightarrow> returnM (Some (Wrapf er (btDump @ '': '' @ errorText er)))
      | None \<Rightarrow> do {
          let apps = bleApps out;
          foreach apps (\<lambda>pkg. do { _ \<leftarrow> shell b serial (''am force-stop '' @ shellQuote pkg); returnM () });
          err \<leftarrow> waitBluetooth b serial (shortOff b) [''OFF''];
          (case err of
             None \<Rightarrow> returnM None
           | Some er \<Rightarrow> do {
               (apm, apmErr) \<leftarrow> shell b serial ''settings get global airplane_mode_on'';
               (if apmErr = None \<and> TrimSpace apm = ''1'' then returnM (Some (heldBy apps er ''in airplane mode already''))
                else airplaneCycle b serial apps) }) }) }"

definition scanPut :: "bytes \<Rightarrow> bytes" where
  "scanPut v = ''settings put global ble_scan_always_enabled '' @ v"

text \<open>BLE scanning is off until this returns.\<close>

definition withoutScanning :: "bench \<Rightarrow> bytes \<Rightarrow> goerr option op" where
  "withoutScanning b serial = do {
     err \<leftarrow> waitBluetooth b serial (shortOff b) [''OFF''];
     r \<leftarrow> (if err = None then returnM None else dropHolders b serial);
     _ \<leftarrow> shell b serial (scanPut ''1'');
     returnM r }"

definition bluetoothOff :: "bench \<Rightarrow> bytes \<Rightarrow> goerr option op" where
  "bluetoothOff b serial = do {
     err \<leftarrow> waitBluetooth b serial (cf_bluetoothTimeout b) [''OFF'', ''BLE_ON''];
     (if err \<noteq> None then returnM err
      else do {
        err \<leftarrow> checkBluetooth b serial [''OFF''];
        (if err = None then returnM None
         else do {
           (scan, err) \<leftarrow> shell b serial ''settings get global ble_scan_always_enabled'';
           (if err \<noteq> None \<or> TrimSpace scan \<noteq> ''1'' then dropHolders b serial
            else do {
              (_, err) \<leftarrow> shell b serial (scanPut ''0'');
              (if err \<noteq> None then dropHolders b serial else withoutScanning b serial) }) }) }) }"

section \<open>The cycle\<close>

definition cycleError :: "bytes \<Rightarrow> goerr option \<Rightarrow> goerr option \<Rightarrow> goerr option" where
  "cycleError serial offErr onErr = (case onErr of
     None \<Rightarrow> map_option (\<lambda>er. Status (statusCode (Some er))
       (serial @ '': Bluetooth back on but never fully off: '' @ convertMessage er)) offErr
   | Some er \<Rightarrow> Some (if fromError er = None
       then Status Internal (serial @ '': Bluetooth reset: '' @ errorText er) else er))"

definition offHalf :: "bench \<Rightarrow> bytes \<Rightarrow> goerr option op" where
  "offHalf b serial = do {
     err \<leftarrow> svc b serial (''bluetooth '' @ ''disable'');
     (if err = None then bluetoothOff b serial else returnM err) }"

definition onHalf :: "bench \<Rightarrow> bytes \<Rightarrow> goerr option op" where
  "onHalf b serial = do {
     err \<leftarrow> svc b serial (''bluetooth '' @ ''enable'');
     (if err = None
      then waitForPhone b (cf_bluetoothTimeout b) (serial @ '' Bluetooth not back on'') (checkBluetooth b serial [''ON''])
      else returnM err) }"

definition bothHalves :: "bench \<Rightarrow> bytes \<Rightarrow> (goerr option \<times> goerr option) op" where
  "bothHalves b serial = do {
     offErr \<leftarrow> offHalf b serial;
     onErr \<leftarrow> onHalf b serial;
     returnM (offErr, onErr) }"

text \<open>The cycle and the phone's warning.\<close>

definition cycleBluetooth_src :: "bench \<Rightarrow> bytes \<Rightarrow> goerr option op" where
  "cycleBluetooth_src b serial = do {
     (offErr, onErr) \<leftarrow> bothHalves b serial;
     let err = cycleError serial offErr onErr;
     modify (\<lambda>s. s\<lparr>ds_btWarnings := (ds_btWarnings s)(serial := map_option convertMessage err)\<rparr>);
     returnM err }"

definition noAdapter :: "bytes \<Rightarrow> goerr" where
  "noAdapter serial = Status Unimplemented
     (serial @ '': no adapter state in dumpsys bluetooth_manager; Bluetooth is not managed on this phone'')"

definition ResetBluetooth_src :: "bench \<Rightarrow> bytes \<Rightarrow> goerr option op" where
  "ResetBluetooth_src b serial = (case checkSerial b serial of
     Some er \<Rightarrow> returnM (Some er)
   | None \<Rightarrow> do {
       st \<leftarrow> bluetoothState b serial;
       (case st of
          Inl er \<Rightarrow> returnM (Some (Status Internal (serial @ '': Bluetooth: '' @ errorText er)))
        | Inr st \<Rightarrow> if st = [] then returnM (Some (noAdapter serial)) else cycleBluetooth_src b serial) })"

section \<open>What the cycle changes for a while\<close>

text \<open>
  A setting of the phone, as the commands of a run leave it: what the phone answered when it was last asked for it
  before anything wrote it, and the last command that wrote it. Nothing is assumed about what the phone has.
\<close>

record kept =
  kp_read :: "(bytes \<times> goerr option) option"
  kp_wrote :: "bytes option"

record bt_settings =
  bs_scan :: kept
  bs_radios :: kept
  bs_airplane :: kept

definition settingAsked :: "adb_run \<Rightarrow> kept \<Rightarrow> kept" where
  "settingAsked x k = (if kp_wrote k = None then k\<lparr>kp_read := Some (ar_output x, ar_err x)\<rparr> else k)"

definition settingWrote :: "adb_run \<Rightarrow> kept \<Rightarrow> kept" where
  "settingWrote x k = k\<lparr>kp_wrote := Some (ar_stdin x)\<rparr>"

definition getScan :: bytes where
  "getScan = ''settings get global ble_scan_always_enabled''"

definition getRadios :: bytes where
  "getRadios = ''settings get global airplane_mode_radios''"

definition getAirplane :: bytes where
  "getAirplane = ''settings get global airplane_mode_on''"

definition isRestore :: "adb_run \<Rightarrow> bool" where
  "isRestore x \<longleftrightarrow> runs ''settings delete global airplane_mode_radios'' x \<or> HasPrefix (ar_stdin x) (radiosPut [quote])"

text \<open>
  The step of one command. The two puts that begin a change count unless they report an error (the code then goes on
  as if they had changed nothing); every other write counts.
\<close>

definition bs_step :: "bt_settings \<Rightarrow> adb_run \<Rightarrow> bt_settings" where
  "bs_step st x =
     (if runs getScan x then st\<lparr>bs_scan := settingAsked x (bs_scan st)\<rparr>
      else if runs getRadios x then st\<lparr>bs_radios := settingAsked x (bs_radios st)\<rparr>
      else if runs getAirplane x then st\<lparr>bs_airplane := settingAsked x (bs_airplane st)\<rparr>
      else if runs (scanPut ''0'') x then (if ar_err x = None then st\<lparr>bs_scan := settingWrote x (bs_scan st)\<rparr> else st)
      else if runs (scanPut ''1'') x then st\<lparr>bs_scan := settingWrote x (bs_scan st)\<rparr>
      else if runs (radiosPut ''bluetooth'') x then
        (if ar_err x = None then st\<lparr>bs_radios := settingWrote x (bs_radios st)\<rparr> else st)
      else if runs (airplaneMode ''enable'') x \<or> runs (airplaneMode ''disable'') x
        then st\<lparr>bs_airplane := settingWrote x (bs_airplane st)\<rparr>
      else if isRestore x then st\<lparr>bs_radios := settingWrote x (bs_radios st)\<rparr>
      else st)"

definition settingsAfter :: "bt_settings \<Rightarrow> adb_run list \<Rightarrow> bt_settings" where
  "settingsAfter st rs = foldl bs_step st rs"

definition isSetting :: "adb_run \<Rightarrow> bool" where
  "isSetting x \<longleftrightarrow> list_ex (\<lambda>c. runs c x) [getScan, getRadios, getAirplane, scanPut ''0'', scanPut ''1'',
     radiosPut ''bluetooth'', airplaneMode ''enable'', airplaneMode ''disable''] \<or> isRestore x"

lemma settingsAfter_simps [simp]:
  "settingsAfter st [] = st"
  "settingsAfter st (x # rs) = settingsAfter (bs_step st x) rs"
  "settingsAfter st (rs @ rs') = settingsAfter (settingsAfter st rs) rs'"
  by (simp_all add: settingsAfter_def)

lemma settingsAfter_others: "list_all (\<lambda>x. \<not> isSetting x) rs \<Longrightarrow> settingsAfter st rs = st"
  by (induction rs) (auto simp: bs_step_def isSetting_def)

lemmas setting_defs = isSetting_def isRestore_def scanPut_def getScan_def getRadios_def getAirplane_def radiosPut_def airplaneMode_def

lemma not_isSetting [simp]:
  "\<not> isSetting (AdbRun a (script btDump) out err)"
  "\<not> isSetting (AdbRun a (script (''svc '' @ c)) out err)"
  "\<not> isSetting (AdbRun a (script (''am force-stop '' @ c)) out err)"
  by (simp_all add: setting_defs btDump_def script_def runs_def newline_def quote_def go_string)

section \<open>Checks\<close>

definition adapterSays :: "bytes \<Rightarrow> adb_run \<Rightarrow> bool" where
  "adapterSays st x \<longleftrightarrow> runs btDump x \<and> ar_err x = None \<and> adapterState (ar_output x) = st"

lemma emits_bluetoothState:
  "emits (bluetoothState b serial) (\<lambda>r rs. \<exists>x. rs = [x] \<and> runs btDump x \<and>
     (case r of Inr st \<Rightarrow> st = [] \<or> adapterSays st x | Inl _ \<Rightarrow> True))"
  unfolding bluetoothState_def by (intro emits) (auto simp: adapterSays_def split: option.splits)

lemma emits_checkBluetooth:
  "[] \<notin> set sts \<Longrightarrow> emits (checkBluetooth b serial sts) (\<lambda>r rs. \<exists>x. rs = [x] \<and> runs btDump x \<and>
     (r = None \<longrightarrow> (\<exists>st \<in> set sts. adapterSays st x)))"
  unfolding checkBluetooth_def
  by (intro emits emits_mono [OF emits_bluetoothState]) (auto split: sum.splits if_splits)

lemma emits_waitState:
  "[] \<notin> set sts \<Longrightarrow> emits (waitForPhone b timeout what (checkBluetooth b serial sts)) (\<lambda>r rs. list_all (runs btDump) rs \<and>
     (r = None \<longrightarrow> rs \<noteq> [] \<and> (\<exists>st \<in> set sts. adapterSays st (last rs))))"
  by (intro emits_waitForPhone [where I = "list_all (runs btDump)"] emits_mono [OF emits_checkBluetooth]) auto

lemma runs_dump_other: "runs c x \<Longrightarrow> \<not> isSetting (AdbRun a (script c) out err) \<Longrightarrow> \<not> isSetting x"
  by (simp add: setting_defs runs_def script_def)

section \<open>Everything is put back\<close>

text \<open>
  A setting is as it was found: nothing wrote it, or it was read first and the last write puts back what was read. Of
  airplane mode: it was asked for first, did not say that it was on, and was last switched off.
\<close>

definition scanFound :: "kept \<Rightarrow> bool" where
  "scanFound k \<longleftrightarrow> (case kp_wrote k of None \<Rightarrow> True
     | Some c \<Rightarrow> (case kp_read k of Some (v, None) \<Rightarrow> c = script (scanPut (TrimSpace v)) | _ \<Rightarrow> False))"

definition radiosFound :: "kept \<Rightarrow> bool" where
  "radiosFound k \<longleftrightarrow> (case kp_wrote k of None \<Rightarrow> True
     | Some c \<Rightarrow> (case kp_read k of Some (v, None) \<Rightarrow> c = script (radiosRestore v) | _ \<Rightarrow> False))"

definition airplaneFound :: "kept \<Rightarrow> bool" where
  "airplaneFound k \<longleftrightarrow> (case kp_wrote k of None \<Rightarrow> True
     | Some c \<Rightarrow> c = script (airplaneMode ''disable'') \<and>
         (case kp_read k of Some (v, None) \<Rightarrow> TrimSpace v \<noteq> ''1'' | Some (v, Some err) \<Rightarrow> True | None \<Rightarrow> False))"

definition asFound :: "bt_settings \<Rightarrow> bool" where
  "asFound st \<longleftrightarrow> scanFound (bs_scan st) \<and> radiosFound (bs_radios st) \<and> airplaneFound (bs_airplane st)"

definition untouched :: bt_settings where
  "untouched = (let k = \<lparr>kp_read = None, kp_wrote = None\<rparr> in \<lparr>bs_scan = k, bs_radios = k, bs_airplane = k\<rparr>)"

text \<open>Airplane mode and its radios have not been written; nor has BLE scanning.\<close>

definition calm :: "bt_settings \<Rightarrow> bool" where
  "calm st \<longleftrightarrow> kp_wrote (bs_radios st) = None \<and> kp_wrote (bs_airplane st) = None"

definition fresh :: "bt_settings \<Rightarrow> bool" where
  "fresh st \<longleftrightarrow> calm st \<and> kp_wrote (bs_scan st) = None"

text \<open>What an operation that turns Bluetooth off and puts airplane mode and its radios back runs.\<close>

definition offPost :: "goerr option \<Rightarrow> adb_run list \<Rightarrow> bool" where
  "offPost r rs \<longleftrightarrow> (\<forall>st. calm st \<longrightarrow> bs_scan (settingsAfter st rs) = bs_scan st \<and>
       radiosFound (bs_radios (settingsAfter st rs)) \<and> airplaneFound (bs_airplane (settingsAfter st rs))) \<and>
     (if r = None then list_ex (adapterSays ''OFF'') rs else True)"

lemma setting_commands_differ [simp]:
  "scanPut ''1'' \<noteq> scanPut ''0''" "radiosPut w \<noteq> scanPut v" "airplaneMode w \<noteq> scanPut v" "airplaneMode w \<noteq> radiosPut v"
  "airplaneMode ''disable'' \<noteq> airplaneMode ''enable''"
  "getScan \<noteq> getRadios" "getScan \<noteq> getAirplane" "getRadios \<noteq> getAirplane"
  "scanPut v \<noteq> getScan" "scanPut v \<noteq> getRadios" "scanPut v \<noteq> getAirplane"
  "radiosPut v \<noteq> getScan" "radiosPut v \<noteq> getRadios" "radiosPut v \<noteq> getAirplane"
  "airplaneMode v \<noteq> getScan" "airplaneMode v \<noteq> getRadios" "airplaneMode v \<noteq> getAirplane"
  by (simp_all add: scanPut_def getScan_def getRadios_def getAirplane_def radiosPut_def airplaneMode_def)

lemma delete_differs [simp]:
  "''settings delete global airplane_mode_radios'' \<noteq> scanPut v"
  "''settings delete global airplane_mode_radios'' \<noteq> getScan"
  "''settings delete global airplane_mode_radios'' \<noteq> getRadios"
  "''settings delete global airplane_mode_radios'' \<noteq> getAirplane"
  "''settings delete global airplane_mode_radios'' \<noteq> radiosPut v"
  "''settings delete global airplane_mode_radios'' \<noteq> airplaneMode v"
  by (simp_all add: scanPut_def getScan_def getRadios_def getAirplane_def radiosPut_def airplaneMode_def)

lemma radiosRestore_differs: "radiosRestore v \<notin> {getScan, getRadios, getAirplane, scanPut ''0'', scanPut ''1'', radiosPut ''bluetooth'',
    airplaneMode ''enable'', airplaneMode ''disable''}"
proof (cases "TrimSpace v = ''null''")
  case False
  have "radiosPut (shellQuote w) \<noteq> radiosPut ''bluetooth''" for w
    by (simp add: radiosPut_def shellQuote_def quote_def)
  with False show ?thesis
    by (simp add: radiosRestore_def setting_commands_differ [symmetric])
qed (simp add: radiosRestore_def)

lemma isRestore_run: "isRestore (AdbRun a (script (radiosRestore v)) out err)"
proof (cases "TrimSpace v = ''null''")
  case False
  have "HasPrefix (script (radiosPut (shellQuote w))) (radiosPut [quote])" for w
    by (simp add: radiosPut_def shellQuote_def script_def HasPrefix_def)
  with False show ?thesis by (simp add: isRestore_def radiosRestore_def)
qed (simp add: isRestore_def radiosRestore_def)

lemma bs_step_restore [simp]:
  "bs_step st (AdbRun a (script (radiosRestore v)) out err) =
     st\<lparr>bs_radios := (bs_radios st)\<lparr>kp_wrote := Some (script (radiosRestore v))\<rparr>\<rparr>"
proof -
  define c where "c = radiosRestore v"
  have ne: "c \<noteq> getScan" "c \<noteq> getRadios" "c \<noteq> getAirplane" "c \<noteq> scanPut ''0''" "c \<noteq> scanPut ''1''"
    "c \<noteq> radiosPut ''bluetooth''" "c \<noteq> airplaneMode ''enable''" "c \<noteq> airplaneMode ''disable''"
    unfolding c_def using radiosRestore_differs [of v] by blast+
  have "isRestore (AdbRun a (script c) out err)" unfolding c_def by (rule isRestore_run)
  then have "bs_step st (AdbRun a (script c) out err) = st\<lparr>bs_radios := settingWrote (AdbRun a (script c) out err) (bs_radios st)\<rparr>"
    by (simp only: bs_step_def runs_AdbRun ne [symmetric] if_False if_True simp_thms)
  then show ?thesis by (simp add: c_def settingWrote_def)
qed

lemma bs_step_simps [simp]:
  "bs_step st (AdbRun a (script getScan) out err) = st\<lparr>bs_scan := settingAsked (AdbRun a (script getScan) out err) (bs_scan st)\<rparr>"
  "bs_step st (AdbRun a (script getRadios) out err) = st\<lparr>bs_radios := settingAsked (AdbRun a (script getRadios) out err) (bs_radios st)\<rparr>"
  "bs_step st (AdbRun a (script getAirplane) out err) =
     st\<lparr>bs_airplane := settingAsked (AdbRun a (script getAirplane) out err) (bs_airplane st)\<rparr>"
  "bs_step st (AdbRun a (script (scanPut ''0'')) out err) =
     (if err = None then st\<lparr>bs_scan := (bs_scan st)\<lparr>kp_wrote := Some (script (scanPut ''0''))\<rparr>\<rparr> else st)"
  "bs_step st (AdbRun a (script (scanPut ''1'')) out err) = st\<lparr>bs_scan := (bs_scan st)\<lparr>kp_wrote := Some (script (scanPut ''1''))\<rparr>\<rparr>"
  "bs_step st (AdbRun a (script (radiosPut ''bluetooth'')) out err) =
     (if err = None then st\<lparr>bs_radios := (bs_radios st)\<lparr>kp_wrote := Some (script (radiosPut ''bluetooth''))\<rparr>\<rparr> else st)"
  "bs_step st (AdbRun a (script (airplaneMode ''enable'')) out err) =
     st\<lparr>bs_airplane := (bs_airplane st)\<lparr>kp_wrote := Some (script (airplaneMode ''enable''))\<rparr>\<rparr>"
  "bs_step st (AdbRun a (script (airplaneMode ''disable'')) out err) =
     st\<lparr>bs_airplane := (bs_airplane st)\<lparr>kp_wrote := Some (script (airplaneMode ''disable''))\<rparr>\<rparr>"
  by (simp_all add: bs_step_def settingWrote_def setting_commands_differ [symmetric])

lemma bs_step_other: "\<not> isSetting x \<Longrightarrow> bs_step st x = st"
  using settingsAfter_others [of "[x]"] by simp

lemma dumps_not_settings: "list_all (runs btDump) rs \<Longrightarrow> list_all (\<lambda>x. \<not> isSetting x) rs"
  using runs_dump_other [OF _ not_isSetting(1)] by (auto simp: list_all_iff)

lemma emits_waitOff:
  "emits (waitBluetooth b serial timeout [''OFF'']) (\<lambda>r rs. (\<forall>st. settingsAfter st rs = st) \<and>
     (if r = None then list_ex (adapterSays ''OFF'') rs else True))"
  unfolding waitBluetooth_def
  by (rule emits_mono [OF emits_waitState])
    (auto simp: settingsAfter_others dumps_not_settings list_ex_iff intro: last_in_set)

lemma emits_airplaneToggle:
  "emits (airplaneToggle b serial apps) (\<lambda>r rs. (\<forall>st. settingsAfter st rs =
       st\<lparr>bs_airplane := (bs_airplane st)\<lparr>kp_wrote := Some (script (airplaneMode ''disable''))\<rparr>\<rparr>) \<and>
     (if r = None then list_ex (adapterSays ''OFF'') rs else True))"
  unfolding airplaneToggle_def by (intro emits emits_mono [OF emits_waitOff]) auto

lemma emits_airplaneCycle:
  "emits (airplaneCycle b serial apps) (\<lambda>r rs. (\<forall>st. kp_wrote (bs_radios st) = None \<longrightarrow>
       bs_scan (settingsAfter st rs) = bs_scan st \<and> radiosFound (bs_radios (settingsAfter st rs)) \<and>
       bs_airplane (settingsAfter st rs) = (bs_airplane st)\<lparr>kp_wrote := Some (script (airplaneMode ''disable''))\<rparr>) \<and>
     (if r = None then list_ex (adapterSays ''OFF'') rs else True))"
  unfolding airplaneCycle_def getRadios_def [symmetric]
  by (intro emits emits_mono [OF emits_airplaneToggle])
    (auto simp: radiosFound_def settingAsked_def split: if_splits)

lemma emits_forceStops:
  "emits (foreach apps (\<lambda>pkg. do { _ \<leftarrow> shell b serial (''am force-stop '' @ shellQuote pkg); returnM () }))
     (\<lambda>_ rs. \<forall>st. settingsAfter st rs = st)"
proof -
  have "emits (foreach apps (\<lambda>pkg. do { _ \<leftarrow> shell b serial (''am force-stop '' @ shellQuote pkg); returnM () }))
      (\<lambda>_ rs. list_all (\<lambda>x. \<not> isSetting x) rs)"
    by (rule emits_foreach) (intro emits, simp del: append.simps)
  then show ?thesis by (rule emits_mono) (simp add: settingsAfter_others)
qed

lemma emits_dropHolders: "emits (dropHolders b serial) offPost"
  unfolding dropHolders_def Let_def getAirplane_def [symmetric]
  by (intro emits emits_mono [OF emits_forceStops] emits_mono [OF emits_waitOff] emits_mono [OF emits_airplaneCycle])
    (auto simp: offPost_def calm_def bs_step_other radiosFound_def airplaneFound_def settingAsked_def split: if_splits option.split)

lemma emits_withoutScanning:
  "emits (withoutScanning b serial) (\<lambda>r rs. (\<forall>st v. calm st \<and> kp_read (bs_scan st) = Some (v, None) \<and> TrimSpace v = ''1'' \<longrightarrow>
       asFound (settingsAfter st rs)) \<and>
     (if r = None then list_ex (adapterSays ''OFF'') rs else True))"
  unfolding withoutScanning_def
  by (intro emits emits_mono [OF emits_waitOff] emits_mono [OF emits_dropHolders])
    (auto simp: offPost_def calm_def asFound_def scanFound_def radiosFound_def airplaneFound_def split: if_splits)

lemma fresh_asFound: "fresh st \<Longrightarrow> asFound st"
  by (simp add: fresh_def calm_def asFound_def scanFound_def radiosFound_def airplaneFound_def)

lemma calm_scan [simp]: "calm (st\<lparr>bs_scan := k\<rparr>) = calm st"
  by (simp add: calm_def)

lemma kp_asked [simp]:
  "kp_wrote (settingAsked x k) = kp_wrote k"
  "kp_wrote k = None \<Longrightarrow> kp_read (settingAsked x k) = Some (ar_output x, ar_err x)"
  by (simp_all add: settingAsked_def)

lemma scanFound_unwritten [simp]: "kp_wrote k = None \<Longrightarrow> scanFound k"
  by (simp add: scanFound_def)

lemma emits_dropHolders_found:
  "emits (dropHolders b serial) (\<lambda>r rs. (\<forall>st. calm st \<and> scanFound (bs_scan st) \<longrightarrow> asFound (settingsAfter st rs)) \<and>
     (if r = None then list_ex (adapterSays ''OFF'') rs else True))"
  by (rule emits_mono [OF emits_dropHolders]) (auto simp: offPost_def asFound_def)

lemma emits_bluetoothOff:
  "emits (bluetoothOff b serial) (\<lambda>r rs. (\<forall>st. fresh st \<longrightarrow> asFound (settingsAfter st rs)) \<and>
     (if r = None then list_ex (adapterSays ''OFF'') rs else True))"
proof -
  have dump: "runs btDump x \<Longrightarrow> bs_step st x = st" for st x
    using dumps_not_settings [of "[x]"] by (simp add: bs_step_other)
  have dumps: "list_all (runs btDump) rs \<Longrightarrow> settingsAfter st rs = st" for st rs
    by (simp add: dumps_not_settings settingsAfter_others)
  show ?thesis
    unfolding bluetoothOff_def waitBluetooth_def getScan_def [symmetric]
    by (intro emits emits_mono [OF emits_waitState] emits_mono [OF emits_checkBluetooth]
        emits_mono [OF emits_dropHolders_found] emits_mono [OF emits_withoutScanning])
      (auto simp: fresh_asFound dump dumps fresh_def)
qed

section \<open>The contract\<close>

definition svcBluetooth :: "bytes \<Rightarrow> bytes" where
  "svcBluetooth v = ''svc bluetooth '' @ v"

text \<open>A whole cycle: disable, \<open>off\<close>, enable, \<open>on\<close>.\<close>

definition cycled :: "goerr option \<Rightarrow> adb_run list \<Rightarrow> bool" where
  "cycled r rs \<longleftrightarrow> (\<exists>x d off en on. rs = x # d # off @ en # on \<and>
     runs (svcBluetooth ''disable'') d \<and> runs (svcBluetooth ''enable'') en \<and>
     asFound (settingsAfter untouched (x # d # off)) \<and> asFound (settingsAfter untouched rs) \<and>
     (if r = None then list_ex (adapterSays ''OFF'') off \<and> on \<noteq> [] \<and> adapterSays ''ON'' (last on) else True))"

lemma cycleError_None [simp]: "cycleError serial offErr onErr = None \<longleftrightarrow> offErr = None \<and> onErr = None"
  by (cases onErr) (auto simp: cycleError_def)

lemma not_isSetting_svc [simp]: "\<not> isSetting (AdbRun a (script (svcBluetooth v)) out err)"
  using not_isSetting(2) [of a "''bluetooth '' @ v" out err] by (simp add: svcBluetooth_def)

lemma emits_svcBluetooth:
  assumes "\<And>r x. runs (svcBluetooth v) x \<Longrightarrow> \<not> isSetting x \<Longrightarrow> Q r [x]"
  shows "emits (svc b serial (''bluetooth '' @ v)) Q"
proof (rule emits_svc)
  fix out err r
  have "Q r [AdbRun (shellArgs b serial) (script (svcBluetooth v)) out err]"
    by (rule assms) (simp_all only: runs_AdbRun not_isSetting_svc not_False_eq_True)
  then show "Q r [AdbRun (shellArgs b serial) (script (''svc '' @ ''bluetooth '' @ v)) out err]"
    by (simp add: svcBluetooth_def)
qed

lemma emits_offHalf:
  "emits (offHalf b serial) (\<lambda>r rs. \<exists>d off. rs = d # off \<and> runs (svcBluetooth ''disable'') d \<and>
     (\<forall>st. fresh st \<longrightarrow> asFound (settingsAfter st rs)) \<and>
     (if r = None then list_ex (adapterSays ''OFF'') off else True))"
  unfolding offHalf_def
  by (intro emits_svcBluetooth emits emits_mono [OF emits_bluetoothOff])
    (auto simp: bs_step_other fresh_def asFound_def calm_def scanFound_def radiosFound_def airplaneFound_def)

lemma emits_onHalf:
  "emits (onHalf b serial) (\<lambda>r rs. \<exists>en on. rs = en # on \<and> runs (svcBluetooth ''enable'') en \<and>
     (\<forall>st. settingsAfter st rs = st) \<and>
     (if r = None then on \<noteq> [] \<and> adapterSays ''ON'' (last on) else True))"
  unfolding onHalf_def
  by (intro emits_svcBluetooth emits emits_mono [OF emits_waitState])
    (auto simp: bs_step_other settingsAfter_others dumps_not_settings)

lemma emits_bothHalves:
  "emits (bothHalves b serial)
    (\<lambda>r rs. \<forall>x. runs btDump x \<longrightarrow> cycled (cycleError serial (fst r) (snd r)) (x # rs))"
  unfolding bothHalves_def
proof (intro emits emits_mono [OF emits_offHalf] emits_mono [OF emits_onHalf] allI impI, elim exE conjE)
  fix offErr onErr :: "goerr option" and rs rs' d off en on x
  assume off: "rs = d # off" "runs (svcBluetooth ''disable'') d" "\<forall>st. fresh st \<longrightarrow> asFound (settingsAfter st rs)"
      "if offErr = None then list_ex (adapterSays ''OFF'') off else True"
    and on: "rs' = en # on" "runs (svcBluetooth ''enable'') en" "\<forall>st. settingsAfter st rs' = st"
      "if onErr = None then on \<noteq> [] \<and> adapterSays ''ON'' (last on) else True"
    and x: "runs btDump x"
  have "fresh untouched" by (simp add: fresh_def calm_def untouched_def Let_def)
  moreover have "bs_step st x = st" for st
    using dumps_not_settings [of "[x]"] x by (simp add: bs_step_other)
  ultimately have st: "asFound (settingsAfter untouched (x # d # off))" "asFound (settingsAfter untouched (x # d # off @ en # on))"
    using off(1,3) on(1,3) by (metis settingsAfter_simps(2), metis append_Cons settingsAfter_simps(2,3))
  have "if cycleError serial offErr onErr = None then list_ex (adapterSays ''OFF'') off \<and> on \<noteq> [] \<and> adapterSays ''ON'' (last on) else True"
    using off(4) on(4) by (cases offErr; cases onErr) simp_all
  with off(1,2) on(1,2) st
  show "cycled (cycleError serial (fst (offErr, onErr)) (snd (offErr, onErr))) (x # rs @ rs' @ [])"
    unfolding cycled_def fst_conv snd_conv
    by (intro exI [of _ x] exI [of _ d] exI [of _ off] exI [of _ en] exI [of _ on] conjI) simp_all
qed

lemma cycled_disable: "cycled r rs \<Longrightarrow> list_ex (runs (svcBluetooth ''disable'')) rs"
  by (auto simp: cycled_def)

text \<open>
  C16. A Bluetooth reset that returns without an error has seen the adapter off and then on; and whatever
  happens on the way, once it has turned Bluetooth off it turns it on again, and by then every setting it wrote is back
  as the phone itself gave it: BLE scanning and the list of airplane mode's radios are written only after they were
  read without an error, and the last command that wrote them puts what was read; airplane mode is switched only
  after it was asked for and did not say it was on (a question that failed counts as that), and is last switched off.
  The phone's Bluetooth warning on the dashboard is the message of the cycle's error, or gone. A phone
  whose adapter state cannot be read is left alone, with an error.
\<close>

theorem ResetBluetooth_contract:
  "wp (ResetBluetooth_src b serial) (\<lambda>r s'. \<exists>rs. ds_runs s' = ds_runs s @ rs \<and>
     (if list_ex (runs (svcBluetooth ''disable'')) rs
      then ds_btWarnings s' serial = map_option convertMessage r \<and>
        (\<exists>x d off en on. rs = x # d # off @ en # on \<and>
           runs (svcBluetooth ''disable'') d \<and> runs (svcBluetooth ''enable'') en \<and>
           asFound (settingsAfter untouched (x # d # off)) \<and> asFound (settingsAfter untouched rs) \<and>
           (if r = None then list_ex (adapterSays ''OFF'') off \<and> on \<noteq> [] \<and> adapterSays ''ON'' (last on) else True))
      else r \<noteq> None \<and> list_all (runs btDump) rs)) s"
proof -
  define Q :: "goerr option \<Rightarrow> source \<Rightarrow> bool" where "Q = (\<lambda>r s'. \<exists>rs. ds_runs s' = ds_runs s @ rs \<and>
     (if list_ex (runs (svcBluetooth ''disable'')) rs
      then ds_btWarnings s' serial = map_option convertMessage r \<and> cycled r rs
      else r \<noteq> None \<and> list_all (runs btDump) rs))"
  have no_disable: "\<not> list_ex (runs (svcBluetooth ''disable'')) rs" if "list_all (runs btDump) rs" for rs
    using that by (auto simp: list_all_iff list_ex_iff runs_def script_def btDump_def svcBluetooth_def)
  have refused: "Q (Some er) u" if "ds_runs u = ds_runs s @ rs" "list_all (runs btDump) rs" for er rs and u :: source
    using that no_disable unfolding Q_def by auto
  have cycle: "wp (cycleBluetooth_src b serial) Q u"
    if u: "ds_runs u = ds_runs s @ [x]" "runs btDump x" for x and u :: source
    unfolding cycleBluetooth_src_def wp_bind
    by (rule wp_mono [OF emits_wp [OF emits_bothHalves]])
      (use u in \<open>auto simp: Q_def Let_def split_beta dest!: spec [of _ x] intro: cycled_disable\<close>)
  have start: "wp (do { st \<leftarrow> bluetoothState b serial; f st }) Q s"
    if "\<And>st u x. ds_runs u = ds_runs s @ [x] \<Longrightarrow> runs btDump x \<Longrightarrow> wp (f st) Q u" for f
    unfolding wp_bind
    by (rule wp_mono [OF emits_wp [OF emits_bluetoothState]]) (use that in auto)
  have "wp (ResetBluetooth_src b serial) Q s"
  proof (cases "checkSerial b serial")
    case None
    show ?thesis
      unfolding ResetBluetooth_src_def None option.case
    proof (rule start)
      fix st x and u :: source
      assume u: "ds_runs u = ds_runs s @ [x]" "runs btDump x"
      then have "Q (Some er) u" for er by (intro refused [of u "[x]"]) simp_all
      then show "wp (case st of
          Inl er \<Rightarrow> returnM (Some (Status Internal (serial @ '': Bluetooth: '' @ errorText er)))
        | Inr st \<Rightarrow> if st = [] then returnM (Some (noAdapter serial)) else cycleBluetooth_src b serial) Q u"
        using cycle [OF u] by (cases st) (simp_all del: append.simps)
    qed
  qed (simp add: ResetBluetooth_src_def refused [of s "[]"])
  then show ?thesis by (simp only: Q_def cycled_def)
qed

end
