(* ===== verification/PhoneWifi.thy ===== *)
theory PhoneWifi
  imports Phone "HOL-Library.Word"
begin

text \<open>
  \<open>devicesource/wifi.go\<close>: putting a phone's Wi-Fi in a known state, what counts as online and
  offline, and the statistics of joins.
\<close>

section \<open>Parsers\<close>

record scan_result =
  sr_bssid :: bytes
  sr_freq :: int
  sr_rssi :: int
  sr_ssid :: bytes

definition scanLine :: "bytes \<Rightarrow> scan_result list" where
  "scanLine line = (let f = Fields line in
     if length f < 4 \<or> length (filter (\<lambda>c. c = CHR '':'') (f ! 0)) \<noteq> 5 then []
     else (case (Atoi (f ! 1), Atoi (before (f ! 2) ''('')) of
         (POk freq, POk rssi) \<Rightarrow> [\<lparr>sr_bssid = f ! 0, sr_freq = freq, sr_rssi = rssi,
           sr_ssid = Join (takeWhile (\<lambda>w. \<not> HasPrefix w ''['') (drop 4 f)) '' ''\<rparr>]
       | _ \<Rightarrow> []))"

definition parseScanResults :: "bytes \<Rightarrow> scan_result list" where
  "parseScanResults out = concat (map scanLine (linesOf out))"

definition savedNetworkIDs :: "bytes \<Rightarrow> bytes list" where
  "savedNetworkIDs out = concat (map (\<lambda>line. case Fields line of
     [] \<Rightarrow> [] | f # _ \<Rightarrow> (case Atoi f of POk _ \<Rightarrow> [f] | _ \<Rightarrow> [])) (linesOf out))"

record wifi_status =
  wi_enabled :: bool
  wi_ssid :: bytes
  wi_freq :: int

text \<open>\<open>strings.Trim(s, "\"")\<close>.\<close>

definition trimQuotes :: "bytes \<Rightarrow> bytes" where
  "trimQuotes s = (let q = (\<lambda>c. c = CHR 0x22) in rev (dropWhile q (rev (dropWhile q s))))"

definition statusLine :: "wifi_status \<Rightarrow> bytes \<Rightarrow> wifi_status" where
  "statusLine st line0 = (let line = TrimSpace line0 in
     if line = ''Wifi is enabled'' then st\<lparr>wi_enabled := True\<rparr>
     else (case CutPrefix line ''Wifi is connected to '' of
         Some ssid \<Rightarrow> st\<lparr>wi_ssid := trimQuotes ssid\<rparr>
       | None \<Rightarrow> (case Cut line ''Frequency: '' of
           Some (_, rest) \<Rightarrow> if HasPrefix line ''WifiInfo:''
             then st\<lparr>wi_freq := parseValue 64 (Atoi (before rest ''MHz''))\<rparr> else st
         | None \<Rightarrow> st)))"

definition parseWifiStatus :: "bytes \<Rightarrow> wifi_status" where
  "parseWifiStatus out = foldl statusLine \<lparr>wi_enabled = False, wi_ssid = [], wi_freq = 0\<rparr> (linesOf out)"

text \<open>\<open>transports\<close>: \<open>None\<close> is the panic of indexing the empty \<open>Fields\<close>.\<close>

definition transports :: "bytes \<Rightarrow> bytes list option" where
  "transports line = (case Cut line ''Transports: '' of
     None \<Rightarrow> Some []
   | Some (_, rest) \<Rightarrow> (case Fields rest of [] \<Rightarrow> None | f # _ \<Rightarrow> Some (Split f CHR ''|'')))"

text \<open>The first loop of \<open>wifiValidatedNotCellularDefault\<close>: the default network and the Wi-Fi line.\<close>

fun scanNetworks :: "bytes \<Rightarrow> bytes \<Rightarrow> bytes list \<Rightarrow> (bytes \<times> bytes) option" where
  "scanNetworks i w [] = Some (i, w)"
| "scanNetworks i w (line # ls) = (let i' = (case CutPrefix (TrimSpace line) ''Active default network: '' of
       Some v \<Rightarrow> TrimSpace v | None \<Rightarrow> i)
     in if w \<noteq> [] then scanNetworks i' w ls
        else (case transports line of
            None \<Rightarrow> None
          | Some ts \<Rightarrow> scanNetworks i' (if ''WIFI'' \<in> set ts then line else w) ls))"

text \<open>The second: whether a line of network \<open>i\<close> is a cellular one.\<close>

fun cellularDefault :: "bytes \<Rightarrow> bytes list \<Rightarrow> bool option" where
  "cellularDefault i [] = Some False"
| "cellularDefault i (line # ls) =
     (if i = [] \<or> \<not> Contains line (''network{'' @ i @ ''}'') then cellularDefault i ls
      else (case transports line of
          None \<Rightarrow> None
        | Some ts \<Rightarrow> if ''CELLULAR'' \<in> set ts then Some True else cellularDefault i ls))"

definition wifiValidatedNotCellularDefault :: "bytes \<Rightarrow> goerr option" where
  "wifiValidatedNotCellularDefault out = (case scanNetworks [] [] (linesOf out) of
     None \<Rightarrow> Some Panic
   | Some (i, wifiLine) \<Rightarrow>
       if wifiLine = [] then Some (Plain ''no Wi-Fi network in dumpsys connectivity'')
       else if \<not> Contains wifiLine ''VALIDATED'' then Some (Sentinel ErrNotValidated)
       else (case cellularDefault i (linesOf out) of
           None \<Rightarrow> Some Panic
         | Some True \<Rightarrow> Some (Plain ''default network is cellular, not Wi-Fi'')
         | Some False \<Rightarrow> None))"

section \<open>Online and offline\<close>

text \<open>\<open>wifiBands\<close>, in MHz.\<close>

definition wifiBands :: "(bytes \<times> int \<times> int) list" where
  "wifiBands = [(''2.4'', 2400, 2500), (''5'', 4900, 5900), (''6'', 5925, 7125)]"

definition inBand :: "bytes \<Rightarrow> int \<Rightarrow> bool" where
  "inBand band freq = (case map_of wifiBands band of Some (lo, hi) \<Rightarrow> lo \<le> freq \<and> freq \<le> hi
     | None \<Rightarrow> 0 \<le> freq \<and> freq \<le> 0)"

definition wifiStatus :: "bench \<Rightarrow> bytes \<Rightarrow> (goerr + wifi_status) op" where
  "wifiStatus b serial = do {
     (out, err) \<leftarrow> radioShell b serial ''cmd wifi status'';
     returnM (case err of
       Some er \<Rightarrow> Inl (Wrapf er (''cmd wifi status: '' @ errorText er))
     | None \<Rightarrow> Inr (parseWifiStatus out)) }"

definition pingCommand :: "bench \<Rightarrow> bytes" where
  "pingCommand b = ''ping -c1 -W2 '' @ shellQuote (cf_wifiPingHost b)"

text \<open>Why the status alone says that the phone is not on the bench network, in the band.\<close>

definition notAssociated :: "bench \<Rightarrow> bytes \<Rightarrow> wifi_status \<Rightarrow> goerr option" where
  "notAssociated b band st =
     (if \<not> wi_enabled st then Some (Plain ''Wi-Fi radio is off'')
      else if wi_ssid st = [] then Some (Sentinel ErrNotAssociated)
      else if wi_ssid st \<noteq> cf_wifiSSID b then Some (Wrapf (Sentinel ErrOtherSSID)
        (sentinelText ErrOtherSSID @ '' '' @ Quote (bn_isPrint b) (wi_ssid st) @ '', not '' @ Quote (bn_isPrint b) (cf_wifiSSID b)))
      else if band \<noteq> [] \<and> \<not> inBand band (wi_freq st) then Some (Plain
        (''associated on '' @ fmtInt (wi_freq st) @ '' MHz, not '' @ band @ '' GHz''))
      else None)"

definition checkOnline :: "bench \<Rightarrow> bytes \<Rightarrow> bytes \<Rightarrow> goerr option op" where
  "checkOnline b serial band = do {
     st \<leftarrow> wifiStatus b serial;
     (case (case st of Inl er \<Rightarrow> Some er | Inr st \<Rightarrow> notAssociated b band st) of
        Some er \<Rightarrow> returnM (Some er)
      | None \<Rightarrow> do {
          (out, err) \<leftarrow> shell b serial ''dumpsys connectivity'';
          (case (case err of Some er \<Rightarrow> Some (Wrapf er (''dumpsys connectivity: '' @ errorText er))
                   | None \<Rightarrow> wifiValidatedNotCellularDefault out) of
             Some er \<Rightarrow> returnM (Some er)
           | None \<Rightarrow> do {
               (_, err) \<leftarrow> shell b serial (pingCommand b);
               returnM (if err \<noteq> None then Some (Wrapf (Sentinel ErrNoRoute)
                 (sentinelText ErrNoRoute @ '' '' @ cf_wifiPingHost b @ '' (DNS or route)'')) else None) }) }) }"

definition stillOnWifi :: "bench \<Rightarrow> bool \<Rightarrow> wifi_status \<Rightarrow> goerr option" where
  "stillOnWifi b radioOn st =
     (if radioOn \<and> \<not> wi_enabled st then Some (Plain ''Wi-Fi radio is still off'')
      else if wi_ssid st \<noteq> [] \<and> wi_ssid st = cf_wifiSSID b
        then Some (Plain (''still associated to '' @ Quote (bn_isPrint b) (wi_ssid st)))
      else None)"

definition checkOffline :: "bench \<Rightarrow> bytes \<Rightarrow> bool \<Rightarrow> goerr option op" where
  "checkOffline b serial radioOn = do {
     st \<leftarrow> wifiStatus b serial;
     (case st of
        Inl er \<Rightarrow> returnM (Some er)
      | Inr st \<Rightarrow> (case stillOnWifi b radioOn st of
          Some er \<Rightarrow> returnM (Some er)
        | None \<Rightarrow> do {
            (_, err) \<leftarrow> shell b serial (pingCommand b);
            returnM (if err = None then Some (Plain (''still reaches '' @ cf_wifiPingHost b @
              (if wi_ssid st \<noteq> [] then '' over Wi-Fi '' @ Quote (bn_isPrint b) (wi_ssid st) else '' (mobile data?)'')))
              else None) })) }"

section \<open>Statistics of joins\<close>

definition joinFailureReason :: "goerr \<Rightarrow> bytes" where
  "joinFailureReason er =
     (if isSentinel er ErrNotAssociated then ''not_associated''
      else if isSentinel er ErrOtherSSID then ''other_ssid''
      else if isSentinel er ErrNotValidated then ''not_validated''
      else if isSentinel er ErrNoRoute then ''no_route''
      else ''other'')"

definition noStats :: wifi_stats where
  "noStats = \<lparr>ws_joins = 0, ws_failures = 0, ws_byReason = [], ws_lastFailure = [], ws_lastFailureAt = None,
     ws_recent = [], ws_slowest = 0, ws_warned = False\<rparr>"

definition reasonCount :: "(bytes \<times> 32 word) list \<Rightarrow> bytes \<Rightarrow> 32 word" where
  "reasonCount m k = (case map_of m k of Some n \<Rightarrow> n | None \<Rightarrow> 0)"

fun countReason :: "(bytes \<times> 32 word) list \<Rightarrow> bytes \<Rightarrow> (bytes \<times> 32 word) list" where
  "countReason [] k = [(k, 1)]"
| "countReason ((a, n) # m) k = (if a = k then (a, n + 1) # m else (a, n) # countReason m k)"

definition joined :: "int \<Rightarrow> wifi_stats \<Rightarrow> wifi_stats" where
  "joined took st = (let recent = ws_recent st @ [took] in
     st\<lparr>ws_recent := if 100 < length recent then tl recent else recent, ws_slowest := max (ws_slowest st) took\<rparr>)"

definition joinFailed :: "goerr \<Rightarrow> goerr \<Rightarrow> int \<Rightarrow> wifi_stats \<Rightarrow> wifi_stats" where
  "joinFailed er lastReason at st = st\<lparr>ws_failures := ws_failures st + 1,
     ws_byReason := countReason (ws_byReason st) (joinFailureReason lastReason),
     ws_lastFailure := convertMessage er, ws_lastFailureAt := Some at\<rparr>"

text \<open>\<open>outcome\<close>: the error of the wait and the last reason, if it failed.\<close>

definition countJoin :: "int \<Rightarrow> (goerr \<times> goerr) option \<Rightarrow> int \<Rightarrow> wifi_stats \<Rightarrow> wifi_stats" where
  "countJoin took outcome at st0 = (let
       st1 = st0\<lparr>ws_joins := ws_joins st0 + 1\<rparr>;
       st = (case outcome of None \<Rightarrow> joined took st1 | Some (er, why) \<Rightarrow> joinFailed er why at st1)
     in st\<lparr>ws_warned := 5 \<le> sint (ws_joins st) \<and> sint (ws_joins st) \<le> sint (ws_failures st * 10)\<rparr>)"

definition statsOf :: "source \<Rightarrow> bytes \<Rightarrow> wifi_stats" where
  "statsOf s serial = (case ds_wifi s serial of Some st \<Rightarrow> st | None \<Rightarrow> noStats)"

definition recordJoin :: "bench \<Rightarrow> bytes \<Rightarrow> int \<Rightarrow> (goerr \<times> goerr) option \<Rightarrow> unit op" where
  "recordJoin b serial took outcome = do {
     at \<leftarrow> clock b;
     modify (\<lambda>s. s\<lparr>ds_wifi := (ds_wifi s)(serial := Some (countJoin took outcome at (statsOf s serial)))\<rparr>) }"

definition joinHint :: "int \<Rightarrow> wifi_stats \<Rightarrow> bytes" where
  "joinHint timeout st =
     (if timeout * 3 div 4 < ws_slowest st then ''slowest join took '' @ DurationString (Round (ws_slowest st) secondT) @
        '' of the '' @ DurationString timeout @ '' limit: raise WIFI_CONNECT_TIMEOUT_SECONDS''
      else if sint (ws_failures st) < sint (reasonCount (ws_byReason st) ''not_associated'' * 2)
        then ''most failed joins never associated: weak signal where the phone sits? Move it or the AP''
      else [])"

text \<open>\<open>pb.WifiStats\<close>.\<close>

record wifi_report =
  wr_joins :: "32 word"
  wr_failures :: "32 word"
  wr_byReason :: "(bytes \<times> 32 word) list"
  wr_lastFailure :: bytes
  wr_lastFailureMs :: int
  wr_lastJoinMs :: int
  wr_medianJoinMs :: int
  wr_slowestJoinMs :: int
  wr_timeoutMs :: int
  wr_hint :: bytes

definition reportOf :: "int \<Rightarrow> wifi_stats \<Rightarrow> wifi_report" where
  "reportOf timeout st = (let n = length (ws_recent st) in
     \<lparr>wr_joins = ws_joins st, wr_failures = ws_failures st, wr_byReason = ws_byReason st,
      wr_lastFailure = ws_lastFailure st,
      wr_lastFailureMs = (case ws_lastFailureAt st of Some t \<Rightarrow> UnixMilli t | None \<Rightarrow> 0),
      wr_lastJoinMs = (if 0 < n then Milliseconds (ws_recent st ! (n - 1)) else 0),
      wr_medianJoinMs = (if 0 < n then Milliseconds (sort (ws_recent st) ! (n div 2)) else 0),
      wr_slowestJoinMs = Milliseconds (ws_slowest st), wr_timeoutMs = Milliseconds timeout,
      wr_hint = joinHint timeout st\<rparr>)"

definition wifiStatsReport :: "bench \<Rightarrow> source \<Rightarrow> bytes \<Rightarrow> wifi_report option" where
  "wifiStatsReport b s serial = map_option (reportOf (cf_wifiTimeout b)) (ds_wifi s serial)"

section \<open>Changing the state\<close>

definition removeSuggestions :: "bench \<Rightarrow> bytes \<Rightarrow> goerr option op" where
  "removeSuggestions b serial = do {
     (_, err) \<leftarrow> shell b serial ''cmd wifi remove-all-suggestions'';
     (if err = None then returnM None
      else do {
        (_, err) \<leftarrow> shell b serial (''cmd wifi remove-suggestion '' @ shellQuote (cf_wifiSSID b));
        returnM (map_option (\<lambda>er. Wrapf er (''remove suggestion: '' @ errorText er)) err) }) }"

definition wifiForget :: "bench \<Rightarrow> bytes \<Rightarrow> goerr option op" where
  "wifiForget b serial = do {
     err \<leftarrow> removeSuggestions b serial;
     (if err \<noteq> None then returnM err
      else do {
        (out, err) \<leftarrow> shell b serial ''cmd wifi list-networks'';
        (if err \<noteq> None then returnM None
         else firstM (savedNetworkIDs out) (\<lambda>i. do {
           (_, err) \<leftarrow> shell b serial (''cmd wifi forget-network '' @ i);
           returnM (map_option (\<lambda>er. Wrapf er (''forget network '' @ i @ '': '' @ errorText er)) err) })) }) }"

text \<open>The strongest access point of the bench network in the band, the first of equals.\<close>

definition better :: "bench \<Rightarrow> bytes \<Rightarrow> scan_result option \<Rightarrow> scan_result \<Rightarrow> scan_result option" where
  "better b band best sr = (if sr_ssid sr = cf_wifiSSID b \<and> inBand band (sr_freq sr) \<and>
       (case best of None \<Rightarrow> True | Some x \<Rightarrow> sr_rssi x < sr_rssi sr) then Some sr else best)"

definition startScan :: "bench \<Rightarrow> bytes \<Rightarrow> goerr option op" where
  "startScan b serial = do {
     (_, err) \<leftarrow> shell b serial ''cmd wifi start-scan'';
     returnM (map_option (\<lambda>er. Wrapf er (''start scan: '' @ errorText er)) err) }"

definition checkScan :: "bench \<Rightarrow> bytes \<Rightarrow> bytes \<Rightarrow> (goerr + scan_result) op" where
  "checkScan b serial band = do {
     (out, err) \<leftarrow> shell b serial ''cmd wifi list-scan-results'';
     returnM (case err of
       Some er \<Rightarrow> Inl (Wrapf er (''list-scan-results: '' @ errorText er))
     | None \<Rightarrow> (case foldl (better b band) None (parseScanResults out) of
         None \<Rightarrow> Inl (Plain ''not in the scan results yet'')
       | Some sr \<Rightarrow> Inr sr)) }"

definition wifiPickBSSID :: "bench \<Rightarrow> bytes \<Rightarrow> bytes \<Rightarrow> (goerr + bytes) op" where
  "wifiPickBSSID b serial band = do {
     err \<leftarrow> startScan b serial;
     (case err of
        Some er \<Rightarrow> returnM (Inl er)
      | None \<Rightarrow> do {
          w \<leftarrow> waitValue b (cf_wifiTimeout b) (serial @ '' does not see Wi-Fi '' @
            Quote (bn_isPrint b) (cf_wifiSSID b) @ '' on '' @ band @ '' GHz'') (checkScan b serial band);
          returnM (case w of Reached sr \<Rightarrow> Inr (sr_bssid sr) | GaveUp er _ \<Rightarrow> Inl er) }) }"

definition addSuggestion :: "bench \<Rightarrow> bytes" where
  "addSuggestion b = ''cmd wifi add-suggestion '' @ shellQuote (cf_wifiSSID b) @
     (if cf_wifiPassphrase b \<noteq> [] then '' wpa2 '' @ shellQuote (cf_wifiPassphrase b) else '' open'')"

text \<open>With a band: the access point to pin to, after forgetting everything else.\<close>

definition pinBand :: "bench \<Rightarrow> bytes \<Rightarrow> bytes \<Rightarrow> (goerr + bytes) op" where
  "pinBand b serial band = (if band = [] then returnM (Inr [])
     else do {
       r \<leftarrow> wifiPickBSSID b serial band;
       (case r of
          Inl er \<Rightarrow> returnM (Inl er)
        | Inr bssid \<Rightarrow> do {
            err \<leftarrow> wifiForget b serial;
            returnM (case err of Some er \<Rightarrow> Inl er | None \<Rightarrow> Inr ('' -b '' @ shellQuote bssid)) }) })"

definition awaitOnline :: "bench \<Rightarrow> bytes \<Rightarrow> bytes \<Rightarrow> goerr option op" where
  "awaitOnline b serial band = do {
     start \<leftarrow> clock b;
     w \<leftarrow> waitValue b (cf_wifiTimeout b) (serial @ '' not online on Wi-Fi '' @ Quote (bn_isPrint b) (cf_wifiSSID b))
       (asCheck (checkOnline b serial band));
     (case w of
        GaveUp er why \<Rightarrow> if er = Panic then returnM (Some Panic) else do {
          ctx \<leftarrow> ctxErr b;
          t \<leftarrow> clock b;
          whenM (ctx = None) (recordJoin b serial (t - start) (Some (er, why)));
          returnM (Some er) }
      | Reached _ \<Rightarrow> do {
          ctx \<leftarrow> ctxErr b;
          t \<leftarrow> clock b;
          whenM (ctx = None) (recordJoin b serial (t - start) None);
          returnM None }) }"

definition wifiConnect :: "bench \<Rightarrow> bytes \<Rightarrow> bytes \<Rightarrow> goerr option op" where
  "wifiConnect b serial band = do {
     pin \<leftarrow> pinBand b serial band;
     (case pin of
        Inl er \<Rightarrow> returnM (Some er)
      | Inr pinArg \<Rightarrow> do {
          (_, err) \<leftarrow> shell b serial (addSuggestion b @ pinArg);
          (case err of
             Some er \<Rightarrow> returnM (Some (Wrapf er (''add suggestion: '' @ errorText er)))
           | None \<Rightarrow> do {
               err \<leftarrow> startScan b serial;
               (if err \<noteq> None then returnM err else awaitOnline b serial band) }) }) }"

text \<open>Stop at the first error.\<close>

definition andThen :: "goerr option op \<Rightarrow> goerr option op \<Rightarrow> goerr option op" where
  "andThen m n = do { err \<leftarrow> m; (if err = None then n else returnM err) }"

definition wifiReset_src :: "bench \<Rightarrow> bytes \<Rightarrow> goerr option op" where
  "wifiReset_src b serial = andThen (wifiForget b serial) (andThen (svc b serial ''wifi disable'')
     (andThen (svc b serial ''wifi enable'') (waitForPhone b (cf_wifiOffTimeout b)
       (serial @ '' not back to radio on and offline'') (checkOffline b serial True))))"

definition wifiOff :: "bench \<Rightarrow> bytes \<Rightarrow> goerr option op" where
  "wifiOff b serial = andThen (wifiForget b serial)
     (waitForPhone b (cf_wifiOffTimeout b) (serial @ '' not offline'') (checkOffline b serial False))"

text \<open>\<open>WifiRequest_State\<close>: any 32-bit number, three of them named.\<close>

definition wifiRESET :: int where "wifiRESET = 0"
definition wifiOFF :: int where "wifiOFF = 1"
definition wifiON :: int where "wifiON = 2"

definition stateName :: "int \<Rightarrow> bytes" where
  "stateName st = (if st = wifiRESET then ''RESET'' else if st = wifiOFF then ''OFF'' else if st = wifiON then ''ON''
     else fmtInt st)"

definition wifiError :: "bytes \<Rightarrow> int \<Rightarrow> goerr \<Rightarrow> goerr" where
  "wifiError serial st er = (if er = Panic \<or> fromError er \<noteq> None then er
     else Status Internal (serial @ '': Wi-Fi '' @ stateName st @ '': '' @ errorText er))"

definition SetWifi_src :: "bench \<Rightarrow> bytes \<Rightarrow> int \<Rightarrow> bytes \<Rightarrow> goerr option op" where
  "SetWifi_src b serial st band = (case checkSerial b serial of
     Some er \<Rightarrow> returnM (Some er)
   | None \<Rightarrow>
       if cf_wifiSSID b = [] then returnM (Some (Status FailedPrecondition
         ''WIFI_SSID is not set on the device source; Wi-Fi is not managed on this bench''))
       else if band \<noteq> [] \<and> (map_of wifiBands band = None \<or> st \<noteq> wifiON) then returnM (Some (Status InvalidArgument
         (''Wi-Fi band '' @ Quote (bn_isPrint b) band @ '': want 2.4, 5 or 6, and only with ON'')))
       else if st \<notin> {wifiRESET, wifiOFF, wifiON} then returnM (Some (Status InvalidArgument
         (''unknown Wi-Fi state '' @ fmtInt st)))
       else do {
         err \<leftarrow> (if st = wifiRESET then wifiReset_src b serial
           else if st = wifiOFF then wifiOff b serial else wifiConnect b serial band);
         returnM (map_option (wifiError serial st) err) })"

section \<open>What a state is worth\<close>

definition saysStatus :: "(wifi_status \<Rightarrow> bool) \<Rightarrow> adb_run \<Rightarrow> bool" where
  "saysStatus P x \<longleftrightarrow> runs ''cmd wifi status'' x \<and> ar_err x = None \<and> P (parseWifiStatus (ar_output x))"

text \<open>On the bench network, in the band if one was asked for (any other band has been refused).\<close>

definition onBench :: "bench \<Rightarrow> bytes \<Rightarrow> wifi_status \<Rightarrow> bool" where
  "onBench b band w \<longleftrightarrow> wi_enabled w \<and> wi_ssid w \<noteq> [] \<and> wi_ssid w = cf_wifiSSID b \<and>
     (if band = ''2.4'' then wi_freq w \<in> {2400..2500}
      else if band = ''5'' then wi_freq w \<in> {4900..5900}
      else if band = ''6'' then wi_freq w \<in> {5925..7125} else True)"

definition offBench :: "bench \<Rightarrow> bool \<Rightarrow> wifi_status \<Rightarrow> bool" where
  "offBench b radioOn w \<longleftrightarrow> (wi_ssid w = [] \<or> wi_ssid w \<noteq> cf_wifiSSID b) \<and> (radioOn \<longrightarrow> wi_enabled w)"

lemma notAssociated_None: "notAssociated b band w = None \<Longrightarrow> onBench b band w"
  by (auto simp: notAssociated_def onBench_def inBand_def wifiBands_def split: if_splits)

lemma stillOnWifi_None: "stillOnWifi b radioOn w = None \<Longrightarrow> offBench b radioOn w"
  by (auto simp: stillOnWifi_def offBench_def split: if_splits)

text \<open>The default network that a dump of the connectivity names last; a Wi-Fi line that is validated.\<close>

definition activeDefault :: "bytes list \<Rightarrow> bytes \<Rightarrow> bytes" where
  "activeDefault ls i = foldl (\<lambda>i line. case CutPrefix (TrimSpace line) ''Active default network: '' of
     Some v \<Rightarrow> TrimSpace v | None \<Rightarrow> i) i ls"

definition validatedWifi :: "bytes \<Rightarrow> bool" where
  "validatedWifi line \<longleftrightarrow> (\<exists>ts. transports line = Some ts \<and> ''WIFI'' \<in> set ts) \<and> Contains line ''VALIDATED''"

definition cellularNetwork :: "bytes \<Rightarrow> bytes \<Rightarrow> bool" where
  "cellularNetwork i line \<longleftrightarrow> i \<noteq> [] \<and> Contains line (''network{'' @ i @ ''}'') \<and>
     (\<exists>ts. transports line = Some ts \<and> ''CELLULAR'' \<in> set ts)"

definition saysValidated :: "adb_run \<Rightarrow> bool" where
  "saysValidated x \<longleftrightarrow> runs ''dumpsys connectivity'' x \<and> ar_err x = None \<and>
     (let ls = linesOf (ar_output x) in list_ex validatedWifi ls \<and>
        list_all (\<lambda>line. \<not> cellularNetwork (activeDefault ls []) line) ls)"

lemma scanNetworks_found: "scanNetworks i w ls = Some (i', w') \<Longrightarrow> i' = activeDefault ls i \<and>
    (w' = w \<or> w' \<in> set ls \<and> (\<exists>ts. transports w' = Some ts \<and> ''WIFI'' \<in> set ts))"
proof (induction ls arbitrary: i w)
  case Nil
  then show ?case by (simp add: activeDefault_def)
next
  case (Cons line ls)
  let ?i = "activeDefault [line] i"
  have i: "activeDefault (line # ls) i = activeDefault ls ?i" by (simp add: activeDefault_def)
  show ?case
  proof (cases "w = []")
    case False
    with Cons.prems have "scanNetworks ?i w ls = Some (i', w')" by (simp add: activeDefault_def)
    with Cons.IH [of ?i w] show ?thesis by (auto simp: i)
  next
    case True
    with Cons.prems obtain ts where ts: "transports line = Some ts"
        "scanNetworks ?i (if ''WIFI'' \<in> set ts then line else w) ls = Some (i', w')"
      by (auto simp: activeDefault_def split: option.splits)
    with Cons.IH [OF ts(2)] show ?thesis by (auto simp: i split: if_splits)
  qed
qed

lemma cellularDefault_False: "cellularDefault i ls = Some False \<Longrightarrow> list_all (\<lambda>line. \<not> cellularNetwork i line) ls"
  by (induction i ls rule: cellularDefault.induct) (auto simp: cellularNetwork_def split: if_splits option.splits)

lemma validated_None:
  assumes "wifiValidatedNotCellularDefault out = None"
  shows "list_ex validatedWifi (linesOf out) \<and>
    list_all (\<lambda>line. \<not> cellularNetwork (activeDefault (linesOf out) []) line) (linesOf out)"
proof -
  from assms obtain i w where w: "scanNetworks [] [] (linesOf out) = Some (i, w)" "w \<noteq> []" "Contains w ''VALIDATED''"
      "cellularDefault i (linesOf out) = Some False"
    by (auto simp: wifiValidatedNotCellularDefault_def split: option.splits if_splits bool.splits)
  with scanNetworks_found [OF w(1)] cellularDefault_False [OF w(4)] show ?thesis
    by (auto simp: list_ex_iff validatedWifi_def)
qed

definition pings :: "bench \<Rightarrow> bool \<Rightarrow> adb_run \<Rightarrow> bool" where
  "pings b ok x \<longleftrightarrow> runs (pingCommand b) x \<and> (ar_err x = None) = ok"

definition onlineAtEnd :: "bench \<Rightarrow> bytes \<Rightarrow> adb_run list \<Rightarrow> bool" where
  "onlineAtEnd b band rs \<longleftrightarrow> (case rev rs of
     p # d # st # _ \<Rightarrow> saysStatus (onBench b band) st \<and> saysValidated d \<and> pings b True p
   | _ \<Rightarrow> False)"

definition offlineAtEnd :: "bench \<Rightarrow> bool \<Rightarrow> adb_run list \<Rightarrow> bool" where
  "offlineAtEnd b radioOn rs \<longleftrightarrow> (case rev rs of
     p # st # _ \<Rightarrow> saysStatus (offBench b radioOn) st \<and> pings b False p
   | _ \<Rightarrow> False)"

text \<open>A dump of the connectivity that the source cannot take.\<close>

definition fatalDump :: "adb_run \<Rightarrow> bool" where
  "fatalDump x \<longleftrightarrow> runs ''dumpsys connectivity'' x \<and> ar_err x = None \<and>
     wifiValidatedNotCellularDefault (ar_output x) = Some Panic"

definition panicPost :: "goerr option \<Rightarrow> adb_run list \<Rightarrow> bool" where
  "panicPost r rs \<longleftrightarrow> (if list_ex fatalDump rs
     then r = Some Panic \<and> list_all (\<lambda>x. \<not> fatalDump x) (butlast rs) \<and> fatalDump (last rs) else True)"

lemma onlineAtEnd_append: "onlineAtEnd b band rs \<Longrightarrow> onlineAtEnd b band (xs @ rs)"
  by (auto simp: onlineAtEnd_def split: list.splits)

lemma offlineAtEnd_append: "offlineAtEnd b radioOn rs \<Longrightarrow> offlineAtEnd b radioOn (xs @ rs)"
  by (auto simp: offlineAtEnd_def split: list.splits)

lemma offlineAtEnd_Cons: "offlineAtEnd b radioOn rs \<Longrightarrow> offlineAtEnd b radioOn (x # rs)"
  using offlineAtEnd_append [of b radioOn rs "[x]"] by simp

lemma pings_run [simp]: "pings b ok (AdbRun a (script (pingCommand b)) out err) \<longleftrightarrow> (err = None) = ok"
  by (simp add: pings_def)

lemma fatalDump_run [simp]:
  "fatalDump (AdbRun a (script c) out err) \<longleftrightarrow> c = ''dumpsys connectivity'' \<and> err = None \<and>
     wifiValidatedNotCellularDefault out = Some Panic"
  by (auto simp: fatalDump_def)

lemma ping_not_dump [simp]: "pingCommand b \<noteq> ''dumpsys connectivity''"
  by (simp add: pingCommand_def)

lemma emits_wifiStatus:
  "emits (wifiStatus b serial) (\<lambda>r rs. \<exists>x. rs = [x] \<and> \<not> fatalDump x \<and>
     (case r of Inr w \<Rightarrow> saysStatus (\<lambda>v. v = w) x | Inl er \<Rightarrow> er \<noteq> Panic))"
  unfolding wifiStatus_def by (intro emits) (auto simp: saysStatus_def split: option.splits)

lemma notAssociated_no_panic [simp]: "notAssociated b band w \<noteq> Some Panic" "Some Panic \<noteq> notAssociated b band w"
  by (simp_all add: notAssociated_def)

lemma emits_checkOnline:
  "emits (checkOnline b serial band) (\<lambda>r rs. panicPost r rs \<and> (r = None \<longrightarrow> onlineAtEnd b band rs) \<and>
     (r \<noteq> Some Panic \<longrightarrow> list_all (\<lambda>x. \<not> fatalDump x) rs))"
  unfolding checkOnline_def
  by (intro emits emits_mono [OF emits_wifiStatus])
    (auto simp: panicPost_def onlineAtEnd_def saysStatus_def saysValidated_def Let_def notAssociated_None validated_None
      split: option.splits sum.splits if_splits)

lemma panicPost_after: "list_all (\<lambda>x. \<not> fatalDump x) xs \<Longrightarrow> panicPost r rs \<Longrightarrow> panicPost r (xs @ rs)"
  by (cases "rs = []") (auto simp: panicPost_def list_ex_iff list_all_iff butlast_append split: if_splits)

lemma panicPost_none: "list_all (\<lambda>x. \<not> fatalDump x) rs \<Longrightarrow> panicPost r rs"
  by (auto simp: panicPost_def list_ex_iff list_all_iff)

definition onlinePost :: "bench \<Rightarrow> bytes \<Rightarrow> goerr option \<Rightarrow> adb_run list \<Rightarrow> bool" where
  "onlinePost b band r rs \<longleftrightarrow> panicPost r rs \<and> (r = None \<longrightarrow> onlineAtEnd b band rs)"

lemma onlinePost_after:
  "list_all (\<lambda>x. \<not> fatalDump x) xs \<Longrightarrow> onlinePost b band r rs \<Longrightarrow> onlinePost b band r (xs @ rs)"
  by (simp add: onlinePost_def panicPost_after onlineAtEnd_append)

lemma emits_waitOnline:
  "emits (waitValue b timeout what (asCheck (checkOnline b serial band)))
    (\<lambda>w rs. onlinePost b band (case w of Reached _ \<Rightarrow> None | GaveUp er _ \<Rightarrow> Some er) rs)"
  unfolding asCheck_def
  by (intro emits_waitValue [where I = "list_all (\<lambda>x. \<not> fatalDump x)"] emits emits_mono [OF emits_checkOnline])
    (auto simp: onlinePost_def panicPost_none panicPost_after onlineAtEnd_append split: option.splits)

lemma emits_recordJoin [emits]: "Q () [] \<Longrightarrow> emits (recordJoin b serial took outcome) Q"
  unfolding recordJoin_def by (intro emits) simp_all

lemma emits_ctxErr [emits]: "(\<And>r. Q r []) \<Longrightarrow> emits (ctxErr b) Q"
  unfolding ctxErr_def by (intro emits) simp

lemma emits_waited [emits]:
  "(\<And>v. w = Reached v \<Longrightarrow> emits (f v) Q) \<Longrightarrow> (\<And>er why. w = GaveUp er why \<Longrightarrow> emits (g er why) Q) \<Longrightarrow>
    emits (case w of Reached v \<Rightarrow> f v | GaveUp er why \<Rightarrow> g er why) Q"
  by (cases w) simp_all

lemma emits_awaitOnline: "emits (awaitOnline b serial band) (onlinePost b band)"
  unfolding awaitOnline_def by (intro emits emits_mono [OF emits_waitOnline]) auto

lemma emits_quiet_foreachM:
  "(\<And>x. emits (f x) (\<lambda>_ rs. list_all P rs)) \<Longrightarrow> emits (firstM xs f) (\<lambda>_ rs. list_all P rs)"
proof (induction xs)
  case Nil
  then show ?case by (simp add: emits_return)
next
  case (Cons x xs)
  then show ?case
    by (auto intro!: emits emits_mono [OF Cons.prems] elim!: emits_mono split: option.split)
qed

abbreviation harmless :: "adb_run list \<Rightarrow> bool" where
  "harmless rs \<equiv> list_all (\<lambda>x. \<not> fatalDump x) rs"

lemma emits_wifiForget: "emits (wifiForget b serial) (\<lambda>_ rs. harmless rs)"
proof -
  have forget: "emits (firstM ids (\<lambda>i. do {
      (_, err) \<leftarrow> shell b serial (''cmd wifi forget-network '' @ i);
      returnM (map_option (\<lambda>er. Wrapf er (''forget network '' @ i @ '': '' @ errorText er)) err) }))
    (\<lambda>_ rs. harmless rs)" for ids
    by (rule emits_quiet_foreachM) (intro emits, simp)
  show ?thesis
    unfolding wifiForget_def removeSuggestions_def
    by (intro emits emits_mono [OF forget]) simp_all
qed

lemma emits_startScan: "emits (startScan b serial) (\<lambda>_ rs. harmless rs)"
  unfolding startScan_def by (intro emits) simp_all

lemma emits_checkScan: "emits (checkScan b serial band) (\<lambda>_ rs. harmless rs)"
  unfolding checkScan_def by (intro emits) simp_all

lemma emits_waitScan:
  "emits (waitValue b timeout what (checkScan b serial band)) (\<lambda>_ rs. harmless rs)"
  by (intro emits_waitValue [where I = harmless] emits_mono [OF emits_checkScan]) (auto split: sum.splits)

lemma emits_wifiPickBSSID: "emits (wifiPickBSSID b serial band) (\<lambda>_ rs. harmless rs)"
  unfolding wifiPickBSSID_def
  by (intro emits emits_mono [OF emits_startScan] emits_mono [OF emits_waitScan]) simp_all

lemma emits_pinBand: "emits (pinBand b serial band) (\<lambda>_ rs. harmless rs)"
  unfolding pinBand_def
  by (intro emits emits_mono [OF emits_wifiPickBSSID] emits_mono [OF emits_wifiForget]) simp_all

lemma addSuggestion_not_dump [simp]: "addSuggestion b @ w \<noteq> ''dumpsys connectivity''"
  by (simp add: addSuggestion_def)

lemma onlinePost_error: "harmless rs \<Longrightarrow> onlinePost b band (Some er) rs"
  by (simp add: onlinePost_def panicPost_none)

lemma emits_wifiConnect: "emits (wifiConnect b serial band) (onlinePost b band)"
  unfolding wifiConnect_def
  by (intro emits emits_mono [OF emits_pinBand] emits_mono [OF emits_startScan] emits_mono [OF emits_awaitOnline])
    (auto intro!: onlinePost_error onlinePost_after onlinePost_after [of "x # y" for x y, simplified])

lemma emits_checkOffline:
  "emits (checkOffline b serial radioOn) (\<lambda>r rs. harmless rs \<and> (r = None \<longrightarrow> offlineAtEnd b radioOn rs))"
  unfolding checkOffline_def
  by (intro emits emits_mono [OF emits_wifiStatus])
    (auto simp: offlineAtEnd_def saysStatus_def stillOnWifi_None split: option.splits sum.splits if_splits)

lemma emits_waitOffline:
  "emits (waitForPhone b timeout what (checkOffline b serial radioOn))
    (\<lambda>r rs. harmless rs \<and> (r = None \<longrightarrow> offlineAtEnd b radioOn rs))"
  by (intro emits_waitForPhone [where I = harmless] emits_mono [OF emits_checkOffline]) (auto simp: offlineAtEnd_append)

lemma emits_andThen [emits]:
  "emits m (\<lambda>r rs. if r = None then emits n (\<lambda>r' rs'. Q r' (rs @ rs')) else Q r rs) \<Longrightarrow> emits (andThen m n) Q"
  unfolding andThen_def
  by (rule emits_bind, erule emits_mono) (auto intro: emits_return)

lemma emits_wifiReset:
  "emits (wifiReset_src b serial) (\<lambda>r rs. harmless rs \<and> (r = None \<longrightarrow> offlineAtEnd b True rs))"
  unfolding wifiReset_src_def
  by (intro emits_andThen emits_mono [OF emits_wifiForget])
    (auto intro!: emits_andThen emits_svc emits_mono [OF emits_waitOffline] offlineAtEnd_append offlineAtEnd_Cons)

text \<open>
  C18. What a Wi-Fi state is worth when \<open>SetWifi\<close> returns without an error. ON: the last three answers are a
  status on the bench network (in the asked band, if there is one), a dump of the connectivity with Wi-Fi
  validated and not cellular as the default, and a ping that went through. OFF and RESET: the last two are
  a status that is not on the bench network, with the radio on for RESET, and a ping that failed.
\<close>

theorem SetWifi_contract:
  "wp (SetWifi_src b serial st band) (\<lambda>r s'. \<exists>rs. ds_runs s' = ds_runs s @ rs \<and>
     (if r \<noteq> None then True
      else if st = wifiON then onlineAtEnd b band rs
      else if st = wifiOFF then offlineAtEnd b False rs
      else st = wifiRESET \<and> offlineAtEnd b True rs)) s"
proof -
  have off: "emits (wifiOff b serial) (\<lambda>r rs. harmless rs \<and> (r = None \<longrightarrow> offlineAtEnd b False rs))"
    unfolding wifiOff_def
    by (intro emits emits_mono [OF emits_wifiForget]) (auto intro!: emits_mono [OF emits_waitOffline] offlineAtEnd_append)
  show ?thesis
    unfolding SetWifi_src_def
    by (rule emits_wp, intro emits emits_mono [OF off] emits_mono [OF emits_wifiReset] emits_mono [OF emits_wifiConnect])
      (auto simp: onlinePost_def wifiON_def wifiOFF_def wifiRESET_def)
qed

section \<open>A dump cut short\<close>

lemma panicPost_map: "panicPost r rs \<Longrightarrow> panicPost (map_option (wifiError serial st) r) rs"
  by (simp add: panicPost_def wifiError_def split: if_splits)

lemma emits_SetWifi_panic: "emits (SetWifi_src b serial st band) panicPost"
proof -
  have connect: "emits (wifiConnect b serial band) panicPost"
    by (rule emits_mono [OF emits_wifiConnect]) (simp add: onlinePost_def)
  have reset: "emits (wifiReset_src b serial) (\<lambda>_ rs. harmless rs)"
    by (rule emits_mono [OF emits_wifiReset]) simp
  have off: "emits (wifiOff b serial) (\<lambda>_ rs. harmless rs)"
    unfolding wifiOff_def
    by (intro emits emits_mono [OF emits_wifiForget]) (auto intro!: emits_mono [OF emits_waitOffline])
  show ?thesis
    unfolding SetWifi_src_def
    by (intro emits emits_mono [OF off] emits_mono [OF reset] emits_mono [OF connect])
      (auto intro: panicPost_map panicPost_none)
qed

text \<open>
  A connectivity dump that adb cuts right after \<open>Transports:\<close> ends the device source: \<open>transports\<close>
  takes the first field of nothing. No dump that does so is survived: it is the last thing \<open>SetWifi\<close> runs,
  no error is returned and no phone of the machine is served any more.
\<close>

theorem cut_dump_panics:
  "wifiValidatedNotCellularDefault (''Active default network: 100'' @ newline # ''  NetworkAgentInfo{network{100} nc{[ Transports: '')
     = Some Panic \<and>
   wp (SetWifi_src b serial st band) (\<lambda>r s'. \<exists>rs. ds_runs s' = ds_runs s @ rs \<and>
     (if list_ex fatalDump rs then r = Some Panic \<and> fatalDump (last rs) else True)) s"
proof
  show "wifiValidatedNotCellularDefault (''Active default network: 100'' @ newline # ''  NetworkAgentInfo{network{100} nc{[ Transports: '')
     = Some Panic"
    by code_simp
  show "wp (SetWifi_src b serial st band) (\<lambda>r s'. \<exists>rs. ds_runs s' = ds_runs s @ rs \<and>
     (if list_ex fatalDump rs then r = Some Panic \<and> fatalDump (last rs) else True)) s"
    by (rule emits_wp, rule emits_mono [OF emits_SetWifi_panic]) (auto simp: panicPost_def split: if_splits)
qed

section \<open>The statistics are a log of outcomes\<close>

text \<open>An outcome: how long the join took, and the error and last reason if it failed, and when.\<close>

type_synonym join_outcome = "int \<times> (goerr \<times> goerr) option \<times> int"

definition succeeded :: "join_outcome list \<Rightarrow> int list" where
  "succeeded os = map fst (filter (\<lambda>(_, r, _). r = None) os)"

definition failedFor :: "bytes \<Rightarrow> join_outcome list \<Rightarrow> nat" where
  "failedFor k os = length (filter (\<lambda>(_, r, _). case r of Some (_, why) \<Rightarrow> joinFailureReason why = k | None \<Rightarrow> False) os)"

definition statsAfter :: "join_outcome list \<Rightarrow> wifi_stats" where
  "statsAfter os = foldl (\<lambda>st (took, r, at). countJoin took r at st) noStats os"

lemma reasonCount_countReason:
  "reasonCount (countReason m k) j = reasonCount m j + (if j = k then 1 else 0)"
  by (induction m) (auto simp: reasonCount_def)

lemma statsAfter_snoc: "statsAfter (os @ [(took, r, at)]) = countJoin took r at (statsAfter os)"
  by (simp add: statsAfter_def)

lemma recent_lastn:
  "(let recent = lastn 100 xs @ [x] in if 100 < length recent then tl recent else recent) = lastn 100 (xs @ [x])"
proof (cases "100 \<le> length xs")
  case True
  then have "length (lastn 100 xs) = 100" by simp
  then show ?thesis
    using lastn_snoc_full [of "lastn 100 xs" 100 xs x] by (cases "lastn 100 xs") auto
next
  case False
  then show ?thesis by simp
qed

text \<open>
  C39. The Wi-Fi statistics of a phone are what its joins were: after any sequence of outcomes the counters
  are the numbers of joins, of failures and of failures for each reason (modulo 2^32), the recent times are those
  of the last 100 successes, the slowest is their maximum over all, and the last failure is the last one's message.
\<close>

theorem statistics_refine_outcomes:
  "let st = statsAfter os in
     ws_joins st = of_nat (length os) \<and>
     ws_failures st = of_nat (length os - length (succeeded os)) \<and>
     (\<forall>k. reasonCount (ws_byReason st) k = of_nat (failedFor k os)) \<and>
     ws_recent st = lastn 100 (succeeded os) \<and>
     ws_slowest st = foldl max 0 (succeeded os) \<and>
     ws_lastFailure st = (case filter (\<lambda>(_, r, _). r \<noteq> None) (rev os) of
       (_, Some (er, _), _) # _ \<Rightarrow> convertMessage er | _ \<Rightarrow> [])"
proof (induction os rule: rev_induct)
  case Nil
  show ?case by (simp add: statsAfter_def noStats_def reasonCount_def failedFor_def succeeded_def lastn_def)
next
  case (snoc x os)
  obtain took r at where x: "x = (took, r, at)" by (cases x)
  have le: "length (succeeded os) \<le> length os" by (simp add: succeeded_def)
  show ?case
  proof (cases r)
    case None
    then show ?thesis
      using snoc le recent_lastn [of "succeeded os" took] unfolding x statsAfter_snoc
      by (auto simp: countJoin_def joined_def succeeded_def failedFor_def Let_def split: if_splits)
  next
    case (Some f)
    then show ?thesis
      using snoc le unfolding x statsAfter_snoc
      by (cases f) (simp add: countJoin_def joinFailed_def succeeded_def failedFor_def Let_def
        reasonCount_countReason Suc_diff_le)
  qed
qed

end
