(* ===== verification/DeviceSource.thy ===== *)
theory DeviceSource
  imports PhonePackages PhoneReboot PhoneBluetooth PhoneWifi Logging
begin

text \<open>
  \<open>devicesource/server.go\<close> with \<open>accounts.go\<close> and \<open>updates.go\<close>: the configuration, the list of
  phones, holding updates during a lease, and the requests of \<open>devicesource.proto\<close> about one phone.
\<close>

section \<open>Configuration\<close>

text \<open>
  A product of durations in \<open>int64\<close>. \<open>hours\<close> is what \<open>ParseFloat\<close> makes of a text, in nanoseconds,
  if that is a number and not negative.
\<close>

definition wrap64 :: "int \<Rightarrow> int" where
  "wrap64 x = sint (word_of_int x :: 64 word)"

definition secondsOr :: "int \<Rightarrow> bytes \<Rightarrow> int" where
  "secondsOr dflt v = (case Atoi v of POk n \<Rightarrow> if 0 < n then wrap64 (n * secondT) else dflt | _ \<Rightarrow> dflt)"

definition NewServer :: "(bytes \<Rightarrow> int option) \<Rightarrow> (bytes \<Rightarrow> bytes option) \<Rightarrow> config" where
  "NewServer hours env = (let get = (\<lambda>k. case env k of Some v \<Rightarrow> v | None \<Rightarrow> []);
       deny = packageList (get ''EXCLUDE_SERIALS'')
     in \<lparr>cf_adbPort = (case Atoi (get ''ADB_PORT'') of POk p \<Rightarrow> p | _ \<Rightarrow> 5038),
         cf_wifiSSID = get ''WIFI_SSID'',
         cf_wifiPassphrase = get ''WIFI_PASSPHRASE'',
         cf_wifiPingHost = orElse (get ''WIFI_PING_HOST'') ''dns.google'',
         cf_wifiTimeout = secondsOr (60 * secondT) (get ''WIFI_CONNECT_TIMEOUT_SECONDS''),
         cf_wifiOffTimeout = secondsOr (20 * secondT) (get ''WIFI_DISCONNECT_TIMEOUT_SECONDS''),
         cf_wakeTimeout = 5 * secondT,
         cf_bluetoothTimeout = 30 * secondT,
         cf_radioTimeout = 0,
         cf_rebootAfter = (case hours (get ''REBOOT_UPTIME_HOURS'') of Some d \<Rightarrow> d | None \<Rightarrow> 24 * 60 * minute),
         cf_rebootTimeout = 5 * minute,
         cf_baselineOverride = map_option packageList (env ''BASELINE_PACKAGES''),
         cf_stopPackages = packageList (case env ''RESET_FORCE_STOP'' of Some v \<Rightarrow> v
           | None \<Rightarrow> ''com.android.chrome,com.google.android.gm''),
         cf_clearPackages = packageList (get ''RESET_CLEAR_PACKAGES''),
         cf_allow = map_option packageList (env ''DEVICE_SERIALS''),
         cf_deny = (if deny = [] then None else Some deny)\<rparr>)"

section \<open>Build properties\<close>

definition propsCommand :: bytes where
  "propsCommand = ''getprop ro.product.model; getprop ro.product.manufacturer; '' @
     ''getprop ro.build.version.release; getprop ro.build.version.sdk''"

definition noProps :: build_props where
  "noProps = \<lparr>bp_model = [], bp_manufacturer = [], bp_release = [], bp_sdk = []\<rparr>"

definition parseProps :: "bytes \<Rightarrow> build_props option" where
  "parseProps out = (case map TrimSpace (linesOf (TrimSpace out)) of
     [m, f, r, k] \<Rightarrow> Some \<lparr>bp_model = m, bp_manufacturer = f, bp_release = r, bp_sdk = k\<rparr>
   | _ \<Rightarrow> None)"

definition buildProps :: "bench \<Rightarrow> bytes \<Rightarrow> build_props op" where
  "buildProps b serial = do {
     s \<leftarrow> getM;
     (case ds_props s serial of
        Some p \<Rightarrow> returnM p
      | None \<Rightarrow> do {
          (out, err) \<leftarrow> shell b serial propsCommand;
          (case (if err \<noteq> None then None else parseProps out) of
             None \<Rightarrow> returnM noProps
           | Some p \<Rightarrow> do {
               modify (\<lambda>s. s\<lparr>ds_props := (ds_props s)(serial := Some p)\<rparr>);
               returnM p }) }) }"

definition forgetProps :: "bytes list \<Rightarrow> unit op" where
  "forgetProps attached = modify (\<lambda>s. s\<lparr>ds_props := (\<lambda>x. if x \<in> set attached then ds_props s x else None)\<rparr>)"

section \<open>Accounts\<close>

text \<open>
  \<open>accountTypeRe\<close> on one line. The captured type contains no comma, so it comes after the line's last one;
  the regular expression's white space is without the vertical tab.
\<close>

definition isReSpace :: "char \<Rightarrow> bool" where
  "isReSpace c \<longleftrightarrow> c \<in> {CHR 0x20, CHR 0x09, CHR 0x0A, CHR 0x0C, CHR 0x0D}"

definition accountPrefix :: bytes where
  "accountPrefix = ''Account {name=''"

definition accountType :: "bytes \<Rightarrow> bytes list" where
  "accountType line = (let t = rev (dropWhile isReSpace (rev (dropWhile isReSpace line))) in
     if \<not> HasPrefix t accountPrefix \<or> \<not> HasSuffix t ''}'' then []
     else let v = butlast (drop (length accountPrefix) t) in
       (case LastIndexByte v CHR '','' of
          None \<Rightarrow> []
        | Some i \<Rightarrow> (case CutPrefix (drop i v) '', type='' of
            None \<Rightarrow> []
          | Some ty \<Rightarrow> if ty = [] \<or> CHR ''}'' \<in> set ty \<or> list_ex isReSpace ty then [] else [ty])))"

definition parseAccountTypes :: "bytes \<Rightarrow> bytes list" where
  "parseAccountTypes out = sortedKeys (concat (map accountType (linesOf out)))"

definition accountRefresh :: int where
  "accountRefresh = minute"

definition readAccounts :: "bench \<Rightarrow> bytes \<Rightarrow> bytes list \<Rightarrow> bytes list op" where
  "readAccounts b serial known = do {
     (out, err) \<leftarrow> shell b serial ''dumpsys account'';
     (if err \<noteq> None then returnM known
      else do {
        t \<leftarrow> clock b;
        modify (\<lambda>s. s\<lparr>ds_accounts := (ds_accounts s)(serial := Some (parseAccountTypes out, t))\<rparr>);
        returnM (parseAccountTypes out) }) }"

definition accountTypes :: "bench \<Rightarrow> bytes \<Rightarrow> bytes list op" where
  "accountTypes b serial = do {
     s \<leftarrow> getM;
     (case ds_accounts s serial of
        None \<Rightarrow> readAccounts b serial []
      | Some (types, at) \<Rightarrow> do {
          t \<leftarrow> clock b;
          (if t - at < accountRefresh then returnM types else readAccounts b serial types) }) }"

section \<open>The list of phones\<close>

record phone_device =
  pd_serial :: bytes
  pd_manufacturer :: bytes
  pd_model :: bytes
  pd_release :: "32 word"
  pd_sdk :: "32 word"
  pd_accountTypes :: "bytes list"
  pd_lastRebootMs :: int
  pd_warning :: bytes
  pd_wifi :: "wifi_report option"

definition getDeviceInfo :: "bench \<Rightarrow> bytes \<Rightarrow> (goerr + phone_device) op" where
  "getDeviceInfo b serial = (case validateSerial serial of
     Some er \<Rightarrow> returnM (Inl er)
   | None \<Rightarrow> do {
       p \<leftarrow> buildProps b serial;
       recordBaseline b serial;
       s \<leftarrow> getM;
       let lastReboot = (case ds_reboots s serial of Some t \<Rightarrow> UnixMilli t | None \<Rightarrow> 0);
       types \<leftarrow> accountTypes b serial;
       s \<leftarrow> getM;
       returnM (Inr \<lparr>pd_serial = serial, pd_manufacturer = bp_manufacturer p, pd_model = bp_model p,
         pd_release = word_of_int (parseValue 64 (Atoi (bp_release p))),
         pd_sdk = word_of_int (parseValue 64 (Atoi (bp_sdk p))), pd_accountTypes = types,
         pd_lastRebootMs = lastReboot, pd_warning = warning s serial,
         pd_wifi = wifiStatsReport b s serial\<rparr>) })"

definition parseAdbDevices :: "bytes \<Rightarrow> bytes list" where
  "parseAdbDevices out = concat (map (\<lambda>line0. let line = TrimSpace line0; f = Fields line in
     if line = [] \<or> HasPrefix line ''List of'' then []
     else if 2 \<le> length f \<and> f ! 1 = ''device'' then [f ! 0] else []) (linesOf out))"

text \<open>\<open>fmt.Sprint\<close> of two lists of strings.\<close>

definition sprintLists :: "bytes list \<Rightarrow> bytes list \<Rightarrow> bytes" where
  "sprintLists xs ys = ''['' @ Join xs '' '' @ ''] ['' @ Join ys '' '' @ '']''"

definition filterSerials :: "bench \<Rightarrow> bytes list \<Rightarrow> bytes list op" where
  "filterSerials b attached = (if cf_allow b = None \<and> cf_deny b = None then returnM attached
     else do {
       let filtered = filter (\<lambda>x. \<not> managed b x) attached;
       let missing = (case cf_allow b of None \<Rightarrow> [] | Some al \<Rightarrow> sortedKeys (filter (\<lambda>x. x \<notin> set attached) al));
       modify (\<lambda>s. s\<lparr>ds_filterLogged := sprintLists filtered missing\<rparr>);
       returnM (filter (managed b) attached) })"

definition devicesArgs :: "bench \<Rightarrow> bytes list" where
  "devicesArgs b = [''-P'', fmtInt (cf_adbPort b), ''devices'']"

definition getSerialNumbers :: "bench \<Rightarrow> (goerr + bytes list) op" where
  "getSerialNumbers b = do {
     n \<leftarrow> ask b;
     (case bn_adb b n (devicesArgs b) [] of (out, err) \<Rightarrow> do {
        modify (\<lambda>s. s\<lparr>ds_runs := ds_runs s @ [AdbRun (devicesArgs b) [] out err]\<rparr>);
        (case err of
           Some er \<Rightarrow> returnM (Inl (Wrapf er (''adb devices: '' @ errorText er)))
         | None \<Rightarrow> do { kept \<leftarrow> filterSerials b (parseAdbDevices out); returnM (Inr kept) }) }) }"

fun deviceInfos :: "bench \<Rightarrow> bytes list \<Rightarrow> phone_device list op" where
  "deviceInfos b [] = returnM []"
| "deviceInfos b (serial # ss) = do {
     d \<leftarrow> getDeviceInfo b serial;
     ds \<leftarrow> deviceInfos b ss;
     returnM (case d of Inr d \<Rightarrow> d # ds | Inl _ \<Rightarrow> ds) }"

definition GetDevices_src :: "bench \<Rightarrow> (goerr + phone_device list) op" where
  "GetDevices_src b = do {
     r \<leftarrow> getSerialNumbers b;
     (case r of
        Inl er \<Rightarrow> returnM (Inl (Status Internal (''failed to list devices: '' @ errorText er)))
      | Inr serials \<Rightarrow> do {
          forgetProps serials;
          ds \<leftarrow> deviceInfos b serials;
          returnM (Inr ds) }) }"

section \<open>Holding updates\<close>

definition playStore :: bytes where
  "playStore = ''com.android.vending''"

definition disableError :: "bytes \<Rightarrow> goerr option \<Rightarrow> bytes" where
  "disableError out err = (let msg = (case find (\<lambda>l. Contains l ''Exception:'') (linesOf out) of
       Some l \<Rightarrow> TrimSpace l | None \<Rightarrow> TrimSpace out)
     in if msg = [] then (case err of Some er \<Rightarrow> errorText er | None \<Rightarrow> []) else msg)"

definition HoldUpdates_src :: "bench \<Rightarrow> bytes \<Rightarrow> bool \<Rightarrow> goerr option op" where
  "HoldUpdates_src b serial hold = (case checkSerial b serial of
     Some er \<Rightarrow> returnM (Some er)
   | None \<Rightarrow> do {
       p \<leftarrow> buildProps b serial;
       let sdk = parseValue 64 (Atoi (bp_sdk p));
       (if sdk < 21 then returnM (Some (Status Unimplemented
          (serial @ '': Android SDK '' @ fmtInt sdk @ '', pm cannot disable packages'')))
        else do {
          (out, err) \<leftarrow> shell b serial (''pm path '' @ playStore);
          (if err \<noteq> None \<or> \<not> Contains out ''package:''
           then returnM (Some (Status Unimplemented (serial @ '': no Play Store'')))
           else do {
             let cmd = (if hold then ''pm disable-user '' else ''pm enable '') @ playStore;
             (out, err) \<leftarrow> shell b serial cmd;
             returnM (if Contains out ''new state:'' then None
               else Some (Status FailedPrecondition (serial @ '': '' @ cmd @ '': '' @ disableError out err))) }) }) })"

section \<open>Requests\<close>

text \<open>
  The requests about one phone, by serial, and their answers. \<open>ring\<close> is the process's ring of recent
  log lines (\<open>RecentLog\<close>).
\<close>

datatype phone_request =
    AskWake | AskReset "bytes list option" | AskList | AskWifi int bytes | AskBluetooth | AskUpdates bool
  | AskRebootIfStale | AskRebootIfWedged bytes | AskClearUiAutomation | AskRecentLog

datatype phone_answer =
    Done | Packages "bytes list" | Removed "bytes list \<times> bytes list" | Uptime "int \<times> bool" | Rebooted bool
  | Cleared bytes | LogLines "bytes list"

definition RecentLog_src :: "bench \<Rightarrow> ring \<Rightarrow> bytes \<Rightarrow> goerr + bytes list" where
  "RecentLog_src b ring serial = (case checkSerial b serial of
     Some er \<Rightarrow> Inl er | None \<Rightarrow> Inr (Ring_Lines ring [serial]))"

definition answering :: "('a \<Rightarrow> phone_answer) \<Rightarrow> (goerr + 'a) op \<Rightarrow> (goerr + phone_answer) op" where
  "answering f m = do { r \<leftarrow> m; returnM (case r of Inl er \<Rightarrow> Inl er | Inr x \<Rightarrow> Inr (f x)) }"

definition orDone :: "goerr option op \<Rightarrow> (goerr + phone_answer) op" where
  "orDone m = do { err \<leftarrow> m; returnM (case err of Some er \<Rightarrow> Inl er | None \<Rightarrow> Inr Done) }"

fun servePhone :: "bench \<Rightarrow> ring \<Rightarrow> bytes \<Rightarrow> phone_request \<Rightarrow> (goerr + phone_answer) op" where
  "servePhone b ring serial AskWake = orDone (Wake_src b serial)"
| "servePhone b ring serial (AskReset since) = answering Removed (ResetPackages_src b serial since)"
| "servePhone b ring serial AskList = answering Packages (ListPackages_src b serial)"
| "servePhone b ring serial (AskWifi st band) = orDone (SetWifi_src b serial st band)"
| "servePhone b ring serial AskBluetooth = orDone (ResetBluetooth_src b serial)"
| "servePhone b ring serial (AskUpdates hold) = orDone (HoldUpdates_src b serial hold)"
| "servePhone b ring serial AskRebootIfStale = answering Uptime (RebootIfStale_src b serial)"
| "servePhone b ring serial (AskRebootIfWedged radio) = answering Rebooted (RebootIfWedged_src b serial radio)"
| "servePhone b ring serial AskClearUiAutomation = answering Cleared (ClearUiAutomation_src b serial)"
| "servePhone b ring serial AskRecentLog = answering LogLines (returnM (RecentLog_src b ring serial))"

section \<open>Every operation stays with its phone\<close>

lemma keeps_waited [keeps]:
  "(\<And>v. w = Reached v \<Longrightarrow> keeps P (f v)) \<Longrightarrow> (\<And>er why. w = GaveUp er why \<Longrightarrow> keeps P (g er why)) \<Longrightarrow>
    keeps P (case w of Reached v \<Rightarrow> f v | GaveUp er why \<Rightarrow> g er why)"
  by (cases w) simp_all

lemma keeps_andThen [keeps]: "keeps P m \<Longrightarrow> keeps P n \<Longrightarrow> keeps P (andThen m n)"
  unfolding andThen_def by (intro keeps)

lemma keeps_answering [keeps]: "keeps P m \<Longrightarrow> keeps P (answering f m)"
  unfolding answering_def by (intro keeps)

lemma keeps_orDone [keeps]: "keeps P m \<Longrightarrow> keeps P (orDone m)"
  unfolding orDone_def by (intro keeps)

lemma keeps_bothCases [keeps]: "(x = [] \<Longrightarrow> keeps P m) \<Longrightarrow> (\<And>y ys. x = y # ys \<Longrightarrow> keeps P (f y ys)) \<Longrightarrow>
    keeps P (case x of [] \<Rightarrow> m | y # ys \<Rightarrow> f y ys)"
  by (cases x) simp_all

text \<open>
  An invariant that allows every command but an uninstall is kept by every operation but the reset of
  packages; one that allows any command is kept by all.
\<close>

locale tame_command = phone_invariant +
  assumes tame: "\<not> HasPrefix c ''pm uninstall '' \<Longrightarrow> allowed c"
begin

lemma keeps_tame [keeps]:
  "\<not> HasPrefix c ''pm uninstall '' \<Longrightarrow> keeps inv (shell b serial c)"
  "\<not> HasPrefix c ''pm uninstall '' \<Longrightarrow> keeps inv (radioShell b serial c)"
  "keeps inv (svc b serial c)"
  by (intro keeps_shell keeps_radioShell keeps_svc tame; simp add: go_string)+

lemmas tame_commands = go_string listCommand_def fullListCommand_def bootIdCommand_def bootCommand_def uiaProbe_def
  killCommand_def btDump_def radiosPut_def radiosRestore_def airplaneMode_def scanPut_def propsCommand_def playStore_def
  addSuggestion_def pingCommand_def

lemma keeps_updates:
  "keeps inv (modify (\<lambda>s. s\<lparr>ds_warnings := (ds_warnings s)(serial := w)\<rparr>))"
  "keeps inv (modify (\<lambda>s. s\<lparr>ds_btWarnings := (ds_btWarnings s)(serial := w)\<rparr>))"
  "keeps inv (modify (\<lambda>s. s\<lparr>ds_reboots := (ds_reboots s)(serial := t)\<rparr>))"
  "keeps inv (modify (\<lambda>s. s\<lparr>ds_wifi := (ds_wifi s)(serial := g s)\<rparr>))"
  "keeps inv (modify (\<lambda>s. s\<lparr>ds_props := (ds_props s)(serial := p)\<rparr>))"
  "keeps inv (modify (\<lambda>s. s\<lparr>ds_unknownKeyguard := insert serial (ds_unknownKeyguard s)\<rparr>))"
  by (intro keeps_modify; (rule inv_warnings inv_btWarnings inv_reboots inv_wifi inv_props inv_unknownKeyguard); assumption)+


lemma keeps_completeListing [keeps]: "keeps inv (completeListing b serial flag)"
  unfolding completeListing_def Let_def by (intro keeps keeps_updates; simp add: tame_commands)

lemma keeps_ListPackages [keeps]: "keeps inv (ListPackages_src b serial)"
  unfolding ListPackages_src_def by (intro keeps keeps_updates; simp add: tame_commands)

lemma keeps_reboot [keeps]: "keeps inv (reboot b serial)"
  unfolding reboot_def secureLock_def checkBooted_def Let_def by (intro keeps keeps_updates; simp add: tame_commands)

lemma keeps_RebootIfStale [keeps]: "keeps inv (RebootIfStale_src b serial)"
  unfolding RebootIfStale_src_def Let_def by (intro keeps keeps_updates; simp add: tame_commands)

lemma keeps_RebootIfWedged [keeps]: "keeps inv (RebootIfWedged_src b serial radio)"
  unfolding RebootIfWedged_src_def by (intro keeps keeps_updates; simp add: tame_commands)

lemma keeps_checkAwake [keeps]: "keeps inv (checkAwake b serial)"
  unfolding checkAwake_def Let_def by (intro keeps keeps_updates; simp add: tame_commands)

lemma keeps_wakeAttempts [keeps]: "keeps inv (wakeAttempts b serial n)"
  by (induction n) (auto intro!: keeps keeps_updates simp: tame_commands)

lemma keeps_Wake [keeps]: "keeps inv (Wake_src b serial)"
  unfolding Wake_src_def wake_def by (intro keeps keeps_updates; simp add: tame_commands)

lemma keeps_uiaLeaked [keeps]: "keeps inv (uiaLeaked b serial)"
  unfolding uiaLeaked_def by (intro keeps keeps_updates; simp add: tame_commands)

lemma keeps_killAll [keeps]: "keeps inv (killAll b serial hs)"
  by (induction hs) (auto intro!: keeps keeps_updates simp: tame_commands)

lemma keeps_ClearUiAutomation [keeps]: "keeps inv (ClearUiAutomation_src b serial)"
  unfolding ClearUiAutomation_src_def killHolders_def listProcesses_def checkCleared_def rebootToClear_def
  by (intro keeps keeps_updates; simp add: tame_commands)

lemma keeps_checkBluetooth [keeps]: "keeps inv (checkBluetooth b serial sts)"
  unfolding checkBluetooth_def bluetoothState_def by (intro keeps; simp add: tame_commands)

lemma keeps_dropHolders [keeps]: "keeps inv (dropHolders b serial)"
  unfolding dropHolders_def airplaneCycle_def airplaneToggle_def waitBluetooth_def Let_def by (intro keeps; simp add: tame_commands)

lemma keeps_bluetoothOff [keeps]: "keeps inv (bluetoothOff b serial)"
  unfolding bluetoothOff_def withoutScanning_def waitBluetooth_def by (intro keeps; simp add: tame_commands)

lemma keeps_ResetBluetooth [keeps]: "keeps inv (ResetBluetooth_src b serial)"
  unfolding ResetBluetooth_src_def cycleBluetooth_src_def bothHalves_def offHalf_def onHalf_def bluetoothState_def Let_def
  by (intro keeps keeps_updates; simp add: tame_commands)

lemma keeps_wifiForget [keeps]: "keeps inv (wifiForget b serial)"
  unfolding wifiForget_def removeSuggestions_def by (intro keeps; simp add: tame_commands)

lemma keeps_startScan [keeps]: "keeps inv (startScan b serial)"
  unfolding startScan_def by (intro keeps; simp add: tame_commands)

lemma keeps_checkOnline [keeps]: "keeps inv (checkOnline b serial band)"
  unfolding checkOnline_def wifiStatus_def by (intro keeps; simp add: tame_commands)

lemma keeps_checkOffline [keeps]: "keeps inv (checkOffline b serial radioOn)"
  unfolding checkOffline_def wifiStatus_def by (intro keeps; simp add: tame_commands)

lemma keeps_wifiConnect [keeps]: "keeps inv (wifiConnect b serial band)"
  unfolding wifiConnect_def pinBand_def wifiPickBSSID_def checkScan_def awaitOnline_def recordJoin_def asCheck_def
  by (intro keeps keeps_updates; simp add: tame_commands)

lemma keeps_SetWifi [keeps]: "keeps inv (SetWifi_src b serial st band)"
  unfolding SetWifi_src_def wifiReset_src_def wifiOff_def by (intro keeps; simp add: tame_commands)

lemma keeps_buildProps [keeps]: "keeps inv (buildProps b serial)"
  unfolding buildProps_def by (intro keeps keeps_updates; simp add: tame_commands)

lemma keeps_HoldUpdates [keeps]: "keeps inv (HoldUpdates_src b serial hold)"
  unfolding HoldUpdates_src_def Let_def by (intro keeps; simp add: tame_commands)

lemma keeps_servePhone_tame: "(\<And>since. req \<noteq> AskReset since) \<Longrightarrow> keeps inv (servePhone b ring serial req)"
  by (cases req) (auto intro!: keeps)

lemma keeps_recordBaseline [keeps]: "keeps inv (recordBaseline b serial)"
  unfolding recordBaseline_def Let_def
  by (intro keeps keeps_modify inv_baseline inv_baselineWarned; simp add: tame_commands)

lemma keeps_accountTypes [keeps]: "keeps inv (accountTypes b serial)"
  unfolding accountTypes_def readAccounts_def by (intro keeps keeps_modify inv_accounts; simp add: tame_commands)

lemma keeps_getDeviceInfo [keeps]: "keeps inv (getDeviceInfo b serial)"
  unfolding getDeviceInfo_def Let_def by (intro keeps; simp add: tame_commands)

end

sublocale any_command \<subseteq> tame_command b serial inv "\<lambda>_. True"
  by unfold_locales simp

context any_command
begin

lemma keeps_uninstallAll [keeps]: "keeps inv (uninstallAll b serial c ps)"
  by (induction ps) (auto intro!: keeps)

lemma keeps_ResetPackages [keeps]: "keeps inv (ResetPackages_src b serial since)"
  unfolding ResetPackages_src_def resetKeeping_def listForReset_def by (intro keeps; simp add: tame_commands)

lemma keeps_servePhone [keeps]: "keeps inv (servePhone b ring serial req)"
  by (cases req) (auto intro!: keeps)

end

text \<open>From \<open>s\<close> to \<open>s'\<close> adb has only run for this phone, and what is kept of any other is as it was.\<close>

definition sameFor :: "bytes \<Rightarrow> source \<Rightarrow> source \<Rightarrow> bool" where
  "sameFor x s s' \<longleftrightarrow> ds_warnings s' x = ds_warnings s x \<and> ds_btWarnings s' x = ds_btWarnings s x \<and>
     ds_reboots s' x = ds_reboots s x \<and> ds_wifi s' x = ds_wifi s x \<and> ds_props s' x = ds_props s x \<and>
     ds_accounts s' x = ds_accounts s x \<and> ds_baseline s' x = ds_baseline s x \<and>
     (x \<in> ds_baselineWarned s') = (x \<in> ds_baselineWarned s) \<and>
     (x \<in> ds_unknownKeyguard s') = (x \<in> ds_unknownKeyguard s)"

definition onlyPhone :: "bench \<Rightarrow> bytes \<Rightarrow> source \<Rightarrow> source \<Rightarrow> bool" where
  "onlyPhone b serial s s' \<longleftrightarrow>
     (\<exists>rs. ds_runs s' = ds_runs s @ rs \<and> list_all (\<lambda>x. ar_args x = shellArgs b serial) rs) \<and>
     (\<forall>x. x = serial \<or> sameFor x s s')"

lemma onlyPhone_refl: "onlyPhone b serial s s"
  by (simp add: onlyPhone_def sameFor_def)

interpretation only: any_command b serial "onlyPhone b serial s0" for b serial s0
  by unfold_locales (auto simp: onlyPhone_def sameFor_def)

lemma refused_unchanged:
  "checkSerial b serial = Some er \<Longrightarrow> wp (servePhone b ring serial req) (\<lambda>r s'. r = Inl er \<and> s' = s) s"
  by (cases req) (simp_all add: Wake_src_def ResetPackages_src_def ListPackages_src_def SetWifi_src_def
    ResetBluetooth_src_def HoldUpdates_src_def RebootIfStale_src_def RebootIfWedged_src_def
    ClearUiAutomation_src_def RecentLog_src_def orDone_def answering_def)

text \<open>
  C12. A request about a phone stays with that phone. A serial that is not well formed or that the bench does
  not manage is refused, and nothing has happened. Otherwise adb is only ever run as \<open>-s <serial> shell sh\<close>,
  so no command and no passphrase is among its arguments, and nothing the source keeps about another phone changes.
\<close>

theorem request_stays_with_phone:
  "wp (servePhone b ring serial req) (\<lambda>r s'. case checkSerial b serial of
     Some er \<Rightarrow> r = Inl er \<and> s' = s
   | None \<Rightarrow> managed b serial \<and>
       (\<exists>rs. ds_runs s' = ds_runs s @ rs \<and>
         list_all (\<lambda>x. ar_args x = [''-P'', fmtInt (cf_adbPort b), ''-s'', serial, ''shell'', ''sh'']) rs) \<and>
       (\<forall>x. x = serial \<or> sameFor x s s')) s"
proof (cases "checkSerial b serial")
  case None
  then have "managed b serial"
    by (simp add: checkSerial_def split: option.splits if_splits)
  moreover have "wp (servePhone b ring serial req) (\<lambda>_. onlyPhone b serial s) s"
    by (rule keeps_wp [OF only.keeps_servePhone onlyPhone_refl])
  ultimately show ?thesis
    using None by (auto simp: onlyPhone_def shellArgs_def elim!: wp_mono)
qed (simp add: refused_unchanged)

section \<open>Waits end\<close>

text \<open>The turns the loop of \<open>waitFor\<close> is given are enough.\<close>

definition waitsEnough :: "bench \<Rightarrow> int \<Rightarrow> bytes \<Rightarrow> (goerr + 'v) op \<Rightarrow> source \<Rightarrow> bool" where
  "waitsEnough b timeout what check s \<longleftrightarrow> wp (do {
     t \<leftarrow> clock b;
     waitPolls b timeout what (t + timeout) check (pollTurns timeout) }) (\<lambda>r _. r \<noteq> None) s"

context tame_command
begin

lemma keeps_checkBooted [keeps]: "keeps inv (checkBooted b serial bootId)"
  unfolding checkBooted_def by (intro keeps; simp add: tame_commands)

lemma keeps_checkCleared [keeps]: "keeps inv (checkCleared b serial)"
  unfolding checkCleared_def by (intro keeps; simp add: tame_commands)

lemma keeps_checkScan [keeps]: "keeps inv (checkScan b serial band)"
  unfolding checkScan_def Let_def by (intro keeps; simp add: tame_commands)

end

lemma waitsEnough_check:
  "(\<And>t. keeps (\<lambda>s. t \<le> ds_time s) check) \<Longrightarrow> waitsEnough b timeout what (asCheck check) s"
  unfolding waitsEnough_def by (rule waitFor_turns_enough) (auto simp: asCheck_def intro!: keeps)

lemma waitsEnough_checkScan: "waitsEnough b timeout what (checkScan b serial band) s"
  unfolding waitsEnough_def by (rule waitFor_turns_enough, rule forward.keeps_checkScan)

text \<open>
  C38. Every wait for a phone ends. Whatever the phone answers and however long it takes, the loop of
  \<open>waitFor\<close> returns within its turns, one for every two seconds of the timeout and two more, for each of
  the checks that the operations wait for.
\<close>

theorem waits_end:
  "waitsEnough b timeout what (asCheck (checkAwake b serial)) s \<and>
   waitsEnough b timeout what (asCheck (checkBooted b serial bootId)) s \<and>
   waitsEnough b timeout what (asCheck (checkCleared b serial)) s \<and>
   waitsEnough b timeout what (asCheck (checkBluetooth b serial states)) s \<and>
   waitsEnough b timeout what (asCheck (checkOnline b serial band)) s \<and>
   waitsEnough b timeout what (asCheck (checkOffline b serial radioOn)) s \<and>
   waitsEnough b timeout what (checkScan b serial band) s"
  by (intro conjI waitsEnough_check)
    (rule forward.keeps_checkAwake forward.keeps_checkBooted forward.keeps_checkCleared forward.keeps_checkBluetooth
      forward.keeps_checkOnline forward.keeps_checkOffline waitsEnough_checkScan)+

section \<open>The list of phones\<close>

definition deviceRuns :: "bench \<Rightarrow> bytes \<Rightarrow> adb_run list \<Rightarrow> bool" where
  "deviceRuns b serial rs \<longleftrightarrow> list_all (\<lambda>x. ar_args x = shellArgs b serial) rs"

lemma deviceRuns_simps [simp]: "deviceRuns b serial []"
  "deviceRuns b serial (r # rs) \<longleftrightarrow> ar_args r = shellArgs b serial \<and> deviceRuns b serial rs"
  "deviceRuns b serial (rs @ rs') \<longleftrightarrow> deviceRuns b serial rs \<and> deviceRuns b serial rs'"
  by (simp_all add: deviceRuns_def)

lemma emits_getDeviceInfo: "emits (getDeviceInfo b serial) (\<lambda>r rs. deviceRuns b serial rs \<and>
    (if validateSerial serial = None then \<exists>d. r = Inr d \<and> pd_serial d = serial else isl r))"
  unfolding getDeviceInfo_def buildProps_def recordBaseline_def accountTypes_def readAccounts_def Let_def
  by (intro emits) simp_all

lemma emits_deviceInfos: "emits (deviceInfos b serials) (\<lambda>ds rs.
    map pd_serial ds = filter (\<lambda>x. validateSerial x = None) serials \<and>
    list_all (\<lambda>x. \<exists>serial \<in> set serials. ar_args x = shellArgs b serial) rs)"
proof (induction serials)
  case Nil
  then show ?case by (simp add: emits_return)
next
  case (Cons serial serials)
  show ?case unfolding deviceInfos.simps
    by (intro emits_bind emits_mono [OF emits_getDeviceInfo] emits_mono [OF Cons.IH] emits_return)
      (auto simp: deviceRuns_def list_all_iff split: if_splits sum.splits)
qed

lemma emits_getSerialNumbers: "emits (getSerialNumbers b) (\<lambda>r rs. \<exists>out err. rs = [AdbRun (devicesArgs b) [] out err] \<and>
    (case r of Inl _ \<Rightarrow> err \<noteq> None | Inr ss \<Rightarrow> err = None \<and> ss = filter (managed b) (parseAdbDevices out)))"
proof -
  have all: "cf_allow b = None \<Longrightarrow> cf_deny b = None \<Longrightarrow> filter (managed b) ss = ss" for ss
    by (simp add: managed_def)
  show ?thesis
    by (auto simp: emits_def getSerialNumbers_def filterSerials_def Let_def all split: prod.split option.split)
qed

lemma checkSerial_None: "checkSerial b x = None \<longleftrightarrow> validateSerial x = None \<and> managed b x"
  by (simp add: checkSerial_def split: option.split)

definition devicesPost :: "bench \<Rightarrow> goerr + phone_device list \<Rightarrow> adb_run list \<Rightarrow> bool" where
  "devicesPost b r rs \<longleftrightarrow> (\<exists>out err rs'. rs = AdbRun (devicesArgs b) [] out err # rs' \<and> (case r of
      Inl _ \<Rightarrow> err \<noteq> None \<and> rs' = []
    | Inr ds \<Rightarrow> err = None \<and>
        map pd_serial ds = filter (\<lambda>x. checkSerial b x = None) (parseAdbDevices out) \<and>
        list_all (\<lambda>x. list_ex (\<lambda>serial. managed b serial \<and> ar_args x = shellArgs b serial)
          (parseAdbDevices out)) rs'))"

lemma emits_GetDevices: "emits (GetDevices_src b) (devicesPost b)"
  unfolding GetDevices_src_def forgetProps_def devicesPost_def
  by (intro emits_bind emits_mono [OF emits_getSerialNumbers] emits_sum emits_return emits_modify
      emits_mono [OF emits_deviceInfos])
    (auto simp: list_all_iff list_ex_iff checkSerial_None Bex_def, metis+)

text \<open>
  The device list is the attached phones the bench manages, and looking at one never touches another.
  \<open>GetDevices\<close> runs \<open>adb devices\<close> once; if that fails it answers with an error and does nothing more. If not
  it reports, in adb's order, exactly the serials that requests are accepted for, and every other adb it
  runs is a shell on a phone that the filter lets through.
\<close>

theorem GetDevices_lists_managed:
  "wp (GetDevices_src b) (\<lambda>r s'. \<exists>out err rs.
     ds_runs s' = ds_runs s @ AdbRun [''-P'', fmtInt (cf_adbPort b), ''devices''] [] out err # rs \<and>
     (case r of
        Inl _ \<Rightarrow> err \<noteq> None \<and> rs = []
      | Inr ds \<Rightarrow> err = None \<and>
          map pd_serial ds = filter (\<lambda>x. checkSerial b x = None) (parseAdbDevices out) \<and>
          list_all (\<lambda>x. list_ex (\<lambda>serial. managed b serial \<and> ar_args x = shellArgs b serial)
            (parseAdbDevices out)) rs)) s"
  unfolding devicesArgs_def [symmetric]
  by (rule wp_mono [OF emits_wp [OF emits_GetDevices]]) (auto simp: devicesPost_def)

end
