(* ===== verification/PhoneForward.thy ===== *)
theory PhoneForward
  imports DeviceSource AdbProtocol Pump
begin

text \<open>
  \<open>ForwardToDevice\<close> of \<open>devicesource/server.go\<close> and its watchdog \<open>forward_watch.go\<close>: the device source's
  end of a connection that the proxy forwards, between the stream of messages and the adb server.
\<close>

section \<open>The watchdog\<close>

definition isInstallWrite :: "bytes \<Rightarrow> bool" where
  "isInstallWrite service \<longleftrightarrow> HasPrefix service ''exec:cmd package install-write'' \<or>
     HasPrefix service ''exec:pm install-write'' \<or>
     HasPrefix service (''abb_exec:package'' @ CHR 0x00 # ''install-write'')"

text \<open>Instants are nanoseconds; a \<open>writingSince\<close> of 0 means that no write is pending.\<close>

definition stallReason :: "bytes \<Rightarrow> int \<Rightarrow> int \<Rightarrow> int \<Rightarrow> int \<Rightarrow> bytes" where
  "stallReason service now lastIO writingSince timeout =
     (if writingSince \<noteq> 0 \<and> timeout \<le> now - writingSince
      then ''adb server accepted no data for '' @ DurationString timeout @ '' ('' @ service @ '')''
      else if isInstallWrite service \<and> timeout \<le> now - lastIO
      then ''install stream moved no data for '' @ DurationString timeout @ '' ('' @ service @ '')''
      else [])"

record forward_watch =
  fw_service :: bytes
  fw_lastIO :: int
  fw_writingSince :: int
  fw_reason :: bytes
  fw_warned :: int

definition newForwardWatch :: "bytes \<Rightarrow> int \<Rightarrow> forward_watch" where
  "newForwardWatch service t = \<lparr>fw_service = RedactSecrets service, fw_lastIO = t, fw_writingSince = 0,
     fw_reason = [], fw_warned = t\<rparr>"

definition writing :: "int \<Rightarrow> forward_watch \<Rightarrow> forward_watch" where
  "writing t w = w\<lparr>fw_writingSince := t\<rparr>"

definition touch :: "int \<Rightarrow> forward_watch \<Rightarrow> forward_watch" where
  "touch t w = w\<lparr>fw_writingSince := 0, fw_lastIO := t\<rparr>"

definition defaultStallTimeout :: int where
  "defaultStallTimeout = 2 * minute"

definition defaultIdleWarnInterval :: int where
  "defaultIdleWarnInterval = 5 * minute"

definition orDefault :: "int \<Rightarrow> int \<Rightarrow> int" where
  "orDefault d dflt = (if d \<le> 0 then dflt else d)"

text \<open>The period of the ticker, and one turn of \<open>run\<close>: a reason set closes the connection and ends it.\<close>

definition tickPeriod :: "int \<Rightarrow> int \<Rightarrow> int" where
  "tickPeriod stallTimeout warnInterval = min (orDefault stallTimeout defaultStallTimeout)
     (orDefault warnInterval defaultIdleWarnInterval) div 4"

definition watchTick :: "int \<Rightarrow> int \<Rightarrow> int \<Rightarrow> forward_watch \<Rightarrow> forward_watch" where
  "watchTick stallTimeout warnInterval now w =
     (if fw_reason w \<noteq> [] then w
      else let r = stallReason (fw_service w) now (fw_lastIO w) (fw_writingSince w)
                 (orDefault stallTimeout defaultStallTimeout);
               interval = orDefault warnInterval defaultIdleWarnInterval
        in if r \<noteq> [] then w\<lparr>fw_reason := r\<rparr>
           else if interval \<le> now - fw_lastIO w \<and> interval \<le> now - fw_warned w then w\<lparr>fw_warned := now\<rparr>
           else w)"

text \<open>What the forward's goroutines do to the watch, with its instant.\<close>

datatype watch_event = WriteBegins int | Moved int | Tick int

fun watchStep :: "int \<Rightarrow> int \<Rightarrow> forward_watch \<Rightarrow> watch_event \<Rightarrow> forward_watch" where
  "watchStep st wi w (WriteBegins t) = writing t w"
| "watchStep st wi w (Moved t) = touch t w"
| "watchStep st wi w (Tick t) = watchTick st wi t w"

definition watchRun :: "int \<Rightarrow> int \<Rightarrow> forward_watch \<Rightarrow> watch_event list \<Rightarrow> forward_watch" where
  "watchRun st wi w es = foldl (watchStep st wi) w es"

section \<open>The two directions\<close>

fun adbToGrpc :: "(goerr + bytes) list \<Rightarrow> goerr option list \<Rightarrow> direction" where
  "adbToGrpc [] outs = \<lparr>dr_sent = [], dr_closed = False, dr_result = Blocked\<rparr>"
| "adbToGrpc (Inl err # rs) outs = \<lparr>dr_sent = [], dr_closed = True, dr_result = Finished (Some err)\<rparr>"
| "adbToGrpc (Inr p # rs) outs = (case outs of
       [] \<Rightarrow> \<lparr>dr_sent = [], dr_closed = False, dr_result = Blocked\<rparr>
     | Some err # _ \<Rightarrow> \<lparr>dr_sent = [], dr_closed = False, dr_result = Finished (Some err)\<rparr>
     | None # outs' \<Rightarrow> sending p (adbToGrpc rs outs'))"

text \<open>
  The request direction: end of file is passed on as a half-close (\<open>dr_closed\<close>); any other error, its own or
  of a write, closes the connection (\<open>dr_result\<close> is that error).
\<close>

fun grpcToAdb :: "(goerr + bytes option) list \<Rightarrow> goerr option list \<Rightarrow> direction" where
  "grpcToAdb [] outs = \<lparr>dr_sent = [], dr_closed = False, dr_result = Blocked\<rparr>"
| "grpcToAdb (Inl err # rs) outs = \<lparr>dr_sent = [], dr_closed = (err = EOF),
     dr_result = Finished (if err = EOF then None else Some err)\<rparr>"
| "grpcToAdb (Inr None # rs) outs = grpcToAdb rs outs"
| "grpcToAdb (Inr (Some p) # rs) outs = (case outs of
       [] \<Rightarrow> \<lparr>dr_sent = [], dr_closed = False, dr_result = Blocked\<rparr>
     | Some err # _ \<Rightarrow> \<lparr>dr_sent = [], dr_closed = False, dr_result = Finished (Some err)\<rparr>
     | None # outs' \<Rightarrow> sending p (grpcToAdb rs outs'))"

section \<open>The call\<close>

definition firstRealError :: "goerr option list \<Rightarrow> goerr option" where
  "firstRealError errs = (case find (\<lambda>err. err \<noteq> None \<and> err \<noteq> Some EOF \<and>
       map_option fst (Option.bind err fromError) \<noteq> Some Canceled) errs of
     Some err \<Rightarrow> err | None \<Rightarrow> None)"

text \<open>
  What the call gets: the first message (its setup, if it is one: serial and initial command), the results of
  dialling and of the two writes, the reply of the adb server, then what both directions receive and what
  their sends return, and the reason of the watchdog.
\<close>

record source_forward =
  sf_first :: "goerr + (bytes \<times> bytes) option"
  sf_dial :: "goerr option"
  sf_write1 :: "goerr option"
  sf_reply :: bytes
  sf_write2 :: "goerr option"
  sf_reads :: "(goerr + bytes) list"
  sf_sends :: "goerr option list"
  sf_recvs :: "(goerr + bytes option) list"
  sf_writes :: "goerr option list"
  sf_stalled :: bytes

datatype forward_end = Running | Crashed | Returned "goerr option"

text \<open>How the call ends, what it has written to the adb server, and the messages it has sent.\<close>

definition forwardData :: "source_forward \<Rightarrow> bytes \<Rightarrow> forward_end \<times> bytes \<times> bytes list" where
  "forwardData f written = (let response = adbToGrpc (sf_reads f) (sf_sends f);
       request = grpcToAdb (sf_recvs f) (sf_writes f)
     in ((case dr_result response of
            Blocked \<Rightarrow> Running
          | Finished err \<Rightarrow> Returned (if sf_stalled f \<noteq> [] then Some (Status DeadlineExceeded (sf_stalled f))
              else firstRealError [err])),
         written @ concat (dr_sent request), dr_sent response))"

definition transportFrame :: "bytes \<Rightarrow> bytes" where
  "transportFrame serial = sendAdbLtv (''host:transport:'' @ serial)"

definition forwardOpen :: "source_forward \<Rightarrow> bytes \<Rightarrow> bytes \<Rightarrow> forward_end \<times> bytes \<times> bytes list" where
  "forwardOpen f serial command = (let transport = transportFrame serial
     in case sf_dial f of
       Some er \<Rightarrow> (Returned (Some (Status Internal (''failed to connect to ADB server: '' @ errorText er))), [], [])
     | None \<Rightarrow> (case sf_write1 f of
         Some er \<Rightarrow> (Returned (Some (Status Internal (''failed to send transport: '' @ errorText er))), [], [])
       | None \<Rightarrow> (case readAdbOkay (sf_reply f) of
           OkayPanic \<Rightarrow> (Crashed, transport, [])
         | OkayErr er \<Rightarrow> (Returned (Some er), transport, [])
         | OkayNil \<Rightarrow>
             if command = [] then forwardData f transport
             else (case sf_write2 f of
               Some er \<Rightarrow> (Returned (Some (Status Internal (''failed to send initial command: '' @ errorText er))), transport, [])
             | None \<Rightarrow> forwardData f (transport @ sendAdbLtv command)))))"

definition ForwardToDevice_src :: "bench \<Rightarrow> source_forward \<Rightarrow> forward_end \<times> bytes \<times> bytes list" where
  "ForwardToDevice_src b f = (case sf_first f of
     Inl er \<Rightarrow> (Returned (Some er), [], [])
   | Inr None \<Rightarrow> (Returned (Some (Status InvalidArgument ''first message must be setup'')), [], [])
   | Inr (Some (serial, command)) \<Rightarrow> (case checkSerial b serial of
       Some er \<Rightarrow> (Returned (Some er), [], [])
     | None \<Rightarrow> forwardOpen f serial command))"

section \<open>What the watchdog sees\<close>

text \<open>The history: the write that is pending, and when a byte last moved.\<close>

fun pendingSince :: "int option \<Rightarrow> watch_event list \<Rightarrow> int option" where
  "pendingSince p [] = p"
| "pendingSince p (WriteBegins t # es) = pendingSince (Some t) es"
| "pendingSince p (Moved t # es) = pendingSince None es"
| "pendingSince p (Tick t # es) = pendingSince p es"

fun lastMoved :: "int \<Rightarrow> watch_event list \<Rightarrow> int" where
  "lastMoved m [] = m"
| "lastMoved m (Moved t # es) = lastMoved t es"
| "lastMoved m (_ # es) = lastMoved m es"

fun instant :: "watch_event \<Rightarrow> int" where
  "instant (WriteBegins t) = t" | "instant (Moved t) = t" | "instant (Tick t) = t"

text \<open>The history calls for an end at \<open>now\<close>.\<close>

definition stalledAt :: "int \<Rightarrow> bytes \<Rightarrow> int \<Rightarrow> watch_event list \<Rightarrow> int \<Rightarrow> bool" where
  "stalledAt timeout service t0 es now \<longleftrightarrow>
     (case pendingSince None es of Some t \<Rightarrow> timeout \<le> now - t | None \<Rightarrow> False) \<or>
     isInstallWrite service \<and> timeout \<le> now - lastMoved t0 es"

definition watchOf :: "int option \<Rightarrow> int \<Rightarrow> forward_watch \<Rightarrow> bool" where
  "watchOf p m w \<longleftrightarrow> fw_writingSince w = (case p of Some t \<Rightarrow> t | None \<Rightarrow> 0) \<and> fw_lastIO w = m"

lemma watchTick_frame [simp]:
  "fw_service (watchTick st wi t w) = fw_service w" "fw_lastIO (watchTick st wi t w) = fw_lastIO w"
  "fw_writingSince (watchTick st wi t w) = fw_writingSince w"
  by (simp_all add: watchTick_def Let_def)

lemma watchRun_history:
  "watchOf p m w \<Longrightarrow> watchOf (pendingSince p es) (lastMoved m es) (watchRun st wi w es) \<and>
    fw_service (watchRun st wi w es) = fw_service w"
proof (induction es arbitrary: p m w)
  case Nil
  then show ?case by (simp add: watchRun_def)
next
  case (Cons e es)
  have "watchOf (pendingSince p [e]) (lastMoved m [e]) (watchStep st wi w e)"
      "fw_service (watchStep st wi w e) = fw_service w"
    using Cons.prems by (cases e; simp add: watchOf_def writing_def touch_def)+
  with Cons.IH [of "pendingSince p [e]" "lastMoved m [e]" "watchStep st wi w e"] show ?case
    by (cases e) (simp_all add: watchRun_def)
qed

lemma pendingSince_instant:
  "list_all (\<lambda>e. instant e \<noteq> 0) es \<Longrightarrow> pendingSince p es = Some t \<Longrightarrow> p = Some t \<or> t \<noteq> 0"
  by (induction p es rule: pendingSince.induct) auto

text \<open>
  The watchdog ends a forward exactly when it is stalled. Whatever the forward's goroutines did before,
  a tick at \<open>now\<close> leaves it torn down if and only if it was torn down already, or a write to the adb server
  has been pending for the stall timeout, or the service is an install-write and no byte has moved for that
  long; a quiet forward of any other service is never ended.
\<close>

theorem watch_ends_stalled_only:
  assumes "list_all (\<lambda>e. instant e \<noteq> 0) es"
  shows "fw_reason (watchRun st wi (newForwardWatch service t0) (es @ [Tick now])) \<noteq> [] \<longleftrightarrow>
    fw_reason (watchRun st wi (newForwardWatch service t0) es) \<noteq> [] \<or>
    stalledAt (orDefault st defaultStallTimeout) (RedactSecrets service) t0 es now"
proof -
  let ?w = "watchRun st wi (newForwardWatch service t0) es"
  have "watchOf (pendingSince None es) (lastMoved t0 es) ?w \<and> fw_service ?w = RedactSecrets service"
    using watchRun_history [of None t0 "newForwardWatch service t0" es st wi]
    by (simp add: watchOf_def newForwardWatch_def)
  then show ?thesis
    using pendingSince_instant [OF assms, of None]
    by (auto simp: watchRun_def watchTick_def stallReason_def stalledAt_def watchOf_def Let_def
        split: option.splits if_splits)
qed

theorem watch_ends_stalled_only_witness:
  "fw_reason (watchRun (2 * minute) (5 * minute) (newForwardWatch ''shell:am instrument'' 1) [WriteBegins 5, Tick (60 * minute)]) \<noteq> [] \<and>
   fw_reason (watchRun (2 * minute) (5 * minute) (newForwardWatch ''shell:am instrument'' 1) [WriteBegins 5, Moved 9, Tick (60 * minute)]) = []"
proof -
  let ?s = "''shell:am instrument''" and ?m = "minute"
  have "\<not> isInstallWrite (RedactSecrets ?s)" by code_simp
  then show ?thesis
    using watch_ends_stalled_only [of "[WriteBegins 5]" "2 * ?m" "5 * ?m" ?s 1 "60 * ?m"]
      watch_ends_stalled_only [of "[WriteBegins 5, Moved 9]" "2 * ?m" "5 * ?m" ?s 1 "60 * ?m"]
    by (simp add: stalledAt_def orDefault_def minute_def secondT_def watchRun_def newForwardWatch_def writing_def touch_def)
qed

section \<open>What a forward carries\<close>

interpretation response: closing_loop recvBytes isl adbToGrpc
proof
  fix rs outs and r :: "goerr + bytes"
  show "dr_sent (adbToGrpc [] outs) = [] \<and> \<not> dr_closed (adbToGrpc [] outs)" by simp
  show "dr_sent (adbToGrpc (r # rs) outs) = []" if "isl r" using that by (cases r) simp_all
  show "dr_sent (adbToGrpc (r # rs) outs) = [] \<and> \<not> dr_closed (adbToGrpc (r # rs) outs) \<or>
      (\<exists>outs'. concat (dr_sent (adbToGrpc (r # rs) outs)) = recvBytes r @ concat (dr_sent (adbToGrpc rs outs')) \<and>
         dr_closed (adbToGrpc (r # rs) outs) = dr_closed (adbToGrpc rs outs'))" if "\<not> isl r"
    using that by (cases r) (auto simp: sending_def split: list.split option.split)
  show "\<exists>outs'. willing (length rs) outs' \<and>
      concat (dr_sent (adbToGrpc (r # rs) outs)) = recvBytes r @ concat (dr_sent (adbToGrpc rs outs')) \<and>
      dr_closed (adbToGrpc (r # rs) outs) = dr_closed (adbToGrpc rs outs')"
    if "\<not> isl r" "willing (Suc (length rs)) outs"
    using that(2) by (rule willing_Cons) (use that(1) in \<open>cases r, auto simp: sending_def\<close>)
  show "dr_closed (adbToGrpc (r # rs) outs)" if "isl r" using that by (cases r) simp_all
qed

interpretation request: live_loop recvData isl grpcToAdb
proof
  fix rs outs and r :: "goerr + bytes option"
  show "dr_sent (grpcToAdb [] outs) = [] \<and> \<not> dr_closed (grpcToAdb [] outs)" by simp
  show "dr_sent (grpcToAdb (r # rs) outs) = []" if "isl r" using that by (cases r) simp_all
  show "dr_sent (grpcToAdb (r # rs) outs) = [] \<and> \<not> dr_closed (grpcToAdb (r # rs) outs) \<or>
      (\<exists>outs'. concat (dr_sent (grpcToAdb (r # rs) outs)) = recvData r @ concat (dr_sent (grpcToAdb rs outs')) \<and>
         dr_closed (grpcToAdb (r # rs) outs) = dr_closed (grpcToAdb rs outs'))" if "\<not> isl r"
  proof (cases r)
    case (Inr d)
    then show ?thesis
      by (cases d) (auto simp: sending_def split: list.split option.split)
  qed (use that in simp)
  show "\<exists>outs'. willing (length rs) outs' \<and>
      concat (dr_sent (grpcToAdb (r # rs) outs)) = recvData r @ concat (dr_sent (grpcToAdb rs outs')) \<and>
      dr_closed (grpcToAdb (r # rs) outs) = dr_closed (grpcToAdb rs outs')"
    if "\<not> isl r" "willing (Suc (length rs)) outs"
    using that(2)
  proof (rule willing_Cons)
    fix outs'
    assume "outs = None # outs'" "willing (length rs) outs'" "willing (length rs) outs"
    with that(1) show ?thesis by (cases r; cases "projr r") (auto simp: sending_def)
  qed
qed

lemma adbToGrpc_eof:
  "dr_result (adbToGrpc rs outs) = Finished (Some EOF) \<Longrightarrow> Some EOF \<notin> set outs \<Longrightarrow> dr_closed (adbToGrpc rs outs)"
  by (induction rs outs rule: adbToGrpc.induct) (auto simp: sending_def split: list.splits option.splits)

lemma forwardData_prefix:
  "forwardData f w = (e, written, sent) \<Longrightarrow>
    (\<exists>p. written = w @ p \<and> prefix p (request.carried (sf_recvs f))) \<and>
    prefix (concat sent) (response.carried (sf_reads f))"
  using request.sent_prefix [of "sf_recvs f" "sf_writes f"] response.sent_prefix [of "sf_reads f" "sf_sends f"]
  by (auto simp: forwardData_def Let_def)

definition setupFrames :: "bytes \<Rightarrow> bytes \<Rightarrow> bytes" where
  "setupFrames serial command = transportFrame serial @
     (if command = [] then [] else sendAdbLtv command)"

lemma adbToGrpc_complete:
  "list_all (\<lambda>out. out = None) outs \<Longrightarrow> dr_result (adbToGrpc rs outs) = Finished r \<Longrightarrow> dr_closed (adbToGrpc rs outs)"
  by (induction rs outs rule: adbToGrpc.induct) (auto simp: sending_def split: list.splits option.splits)

lemma forwardData_ended: "forwardData f w = (e, written, sent) \<Longrightarrow> e = Running \<or> (\<exists>r. e = Returned r)"
  by (auto simp: forwardData_def Let_def split: dir_result.splits)

lemma forwardData_complete:
  assumes "forwardData f w = (Returned r, written, sent)" "list_all (\<lambda>out. out = None) (sf_sends f)"
  shows "concat sent = response.carried (sf_reads f)"
proof -
  from assms(1) obtain er where "dr_result (adbToGrpc (sf_reads f) (sf_sends f)) = Finished er"
      "sent = dr_sent (adbToGrpc (sf_reads f) (sf_sends f))"
    by (auto simp: forwardData_def Let_def split: dir_result.splits)
  with response.closed_complete [OF adbToGrpc_complete [OF assms(2)]] show ?thesis by auto
qed

text \<open>How far a call got: nothing was written, or the transport was refused, or both directions ran.\<close>

text \<open>The connection to the adb server got as far as relaying.\<close>

definition opened :: "source_forward \<Rightarrow> bytes \<Rightarrow> bool" where
  "opened f command \<longleftrightarrow> sf_dial f = None \<and> sf_write1 f = None \<and> readAdbOkay (sf_reply f) = OkayNil \<and>
     (command = [] \<or> sf_write2 f = None)"

lemma forwardOpen_opened:
  "opened f command \<Longrightarrow> forwardOpen f serial command = forwardData f (setupFrames serial command)"
  by (auto simp: opened_def forwardOpen_def setupFrames_def Let_def)

lemma forwardOpen_refused:
  "\<not> opened f command \<Longrightarrow> forwardOpen f serial command = (e, written, sent) \<Longrightarrow>
    (written = [] \<or> written = transportFrame serial) \<and> sent = [] \<and> e \<noteq> Returned None \<and> e \<noteq> Running"
  unfolding forwardOpen_def Let_def opened_def
  by (cases "sf_dial f"; cases "sf_write1 f"; cases "readAdbOkay (sf_reply f)"; cases "command = []"; cases "sf_write2 f")
    auto

lemma forwardData_stalled:
  "forwardData f w = (Returned r, written, sent) \<Longrightarrow> sf_stalled f \<noteq> [] \<Longrightarrow>
    r = Some (Status DeadlineExceeded (sf_stalled f))"
  by (auto simp: forwardData_def Let_def split: dir_result.splits)

text \<open>
  The device source relays for managed phones only, and relays exact bytes. A call whose first message
  is no setup, or names a phone outside the server's list, writes nothing. Any other call writes the
  transport frame of its phone and, if the phone's OKAY comes and there is one, the command's frame; without
  them it fails and relays nothing. Then the adb server gets a prefix of the stream's data and the stream a
  prefix of the adb server's, all of it once the call has returned and no send has failed; a forward the
  watchdog tore down fails with its reason.
\<close>

theorem source_forward_integrity:
  "case ForwardToDevice_src b f of (e, written, sent) \<Rightarrow>
    (case sf_first f of
       Inr (Some (serial, command)) \<Rightarrow>
         if checkSerial b serial \<noteq> None then e = Returned (checkSerial b serial) \<and> written = [] \<and> sent = []
         else if opened f command
         then (\<exists>p. written = setupFrames serial command @ p \<and> prefix p (request.carried (sf_recvs f))) \<and>
           prefix (concat sent) (response.carried (sf_reads f)) \<and>
           (if e \<noteq> Running \<and> list_all (\<lambda>out. out = None) (sf_sends f)
            then concat sent = response.carried (sf_reads f) else True) \<and>
           (if e \<noteq> Running \<and> sf_stalled f \<noteq> []
            then e = Returned (Some (Status DeadlineExceeded (sf_stalled f))) else True)
         else (written = [] \<or> written = transportFrame serial) \<and> sent = [] \<and> e \<noteq> Returned None \<and> e \<noteq> Running
     | _ \<Rightarrow> e \<noteq> Returned None \<and> written = [] \<and> sent = [])"
proof -
  obtain e written sent where r: "ForwardToDevice_src b f = (e, written, sent)" by (metis prod_cases3)
  show ?thesis
  proof (cases "\<exists>serial command. sf_first f = Inr (Some (serial, command)) \<and> checkSerial b serial = None")
    case False
    then show ?thesis
      using r by (auto simp: ForwardToDevice_src_def split: sum.splits option.splits prod.splits)
  next
    case True
    then obtain serial command where s: "sf_first f = Inr (Some (serial, command))" "checkSerial b serial = None"
      by blast
    with r have o: "forwardOpen f serial command = (e, written, sent)" by (simp add: ForwardToDevice_src_def)
    show ?thesis
    proof (cases "opened f command")
      case False
      with forwardOpen_refused [OF False o] show ?thesis by (simp add: r s)
    next
      case True
      with o have d: "forwardData f (setupFrames serial command) = (e, written, sent)"
        by (simp add: forwardOpen_opened)
      show ?thesis
        using forwardData_prefix [OF d] forwardData_ended [OF d] forwardData_complete [of f _ _ written sent]
          forwardData_stalled [of f _ _ written sent] d
        by (cases e) (auto simp: r s True)
    qed
  qed
qed

section \<open>Both ends of a forward\<close>

lemma ForwardToDevice_src_cases:
  assumes "sf_first f = Inr (Some (serial, command))" "ForwardToDevice_src b f = (e, written, sent)"
  obtains (relayed) "forwardData f (setupFrames serial command) = (e, written, sent)"
  | (refused) "written = [] \<or> written = transportFrame serial" "sent = []" "e \<noteq> Returned None"
proof (cases "checkSerial b serial")
  case None
  with assms have o: "forwardOpen f serial command = (e, written, sent)" by (simp add: ForwardToDevice_src_def)
  show ?thesis
  proof (cases "opened f command")
    case True
    with o show ?thesis using relayed by (simp add: forwardOpen_opened)
  next
    case False
    from forwardOpen_refused [OF False o] show ?thesis using refused by blast
  qed
next
  case (Some er)
  with assms show ?thesis by (intro refused) (auto simp: ForwardToDevice_src_def)
qed

lemma carried_messages:
  "request.carried (map (Inr \<circ> Some) ps @ map Inl errs) = concat ps"
  "forward_down.carried (map (Inr \<circ> Some) ps @ map Inl errs) = concat ps"
proof -
  have "takeWhile (\<lambda>r. \<not> isl r) (map (Inr \<circ> Some) ps @ map Inl errs) = (map (Inr \<circ> Some) ps :: (goerr + bytes option) list)"
    by (induction ps; cases errs) simp_all
  moreover have "concat (map recvData (map (Inr \<circ> Some) ps)) = concat ps"
    by (induction ps) simp_all
  ultimately show "request.carried (map (Inr \<circ> Some) ps @ map Inl errs) = concat ps"
      "forward_down.carried (map (Inr \<circ> Some) ps @ map Inl errs) = concat ps"
    by (simp_all only: request.carried_def forward_down.carried_def)
qed

lemma take_concat_prefix: "prefix (concat (take n ps)) (concat ps)"
  by (metis append_take_drop_id concat_append prefixI)

text \<open>A gRPC stream in one direction: the first \<open>n\<close> messages have arrived, then nothing or an error.\<close>

definition delivered :: "nat \<Rightarrow> bytes list \<Rightarrow> goerr list \<Rightarrow> (goerr + bytes option) list" where
  "delivered n ps errs = map (Inr \<circ> Some) (take n ps) @ map Inl errs"

lemma ForwardToDevice_live:
  assumes "fc_client c = None" "fc_open c = None" "fc_setup c = None" "ForwardToDevice c = (res, toDevice, toClient)"
  shows "willing (length (fc_reads c)) (fc_sends c) \<Longrightarrow> concat toDevice = forward_up.carried (fc_reads c)"
    and "willing (length (fc_recvs c)) (fc_writes c) \<Longrightarrow> concat toClient = forward_down.carried (fc_recvs c)"
  using forward_up.all_sent [of "fc_reads c" "fc_sends c"] forward_down.all_sent [of "fc_recvs c" "fc_writes c"] assms
  by (auto simp: ForwardToDevice_def Let_def direction.truncate_def)

lemma ForwardToDevice_src_live:
  assumes "sf_first f = Inr (Some (serial, command))" "checkSerial b serial = None" "opened f command"
    and "ForwardToDevice_src b f = (e, written, sent)"
  shows "willing (length (sf_recvs f)) (sf_writes f) \<Longrightarrow> written = setupFrames serial command @ request.carried (sf_recvs f)"
    and "willing (length (sf_reads f)) (sf_sends f) \<Longrightarrow> concat sent = response.carried (sf_reads f)"
  using request.all_sent [of "sf_recvs f" "sf_writes f"] response.all_sent [of "sf_reads f" "sf_sends f"] assms
  by (auto simp: ForwardToDevice_src_def forwardOpen_opened forwardData_def Let_def)

text \<open>Both calls of a forward got as far as relaying.\<close>

definition joined_up :: "forward_call \<Rightarrow> bench \<Rightarrow> source_forward \<Rightarrow> bytes \<Rightarrow> bytes \<Rightarrow> bool" where
  "joined_up c b f serial command \<longleftrightarrow> fc_client c = None \<and> fc_open c = None \<and> fc_setup c = None \<and>
     checkSerial b serial = None \<and> opened f command"

text \<open>
  C24. A forward is a connection. The proxy's call and the device source's, joined by a stream that delivers
  the first messages of each side in order, give the adb server the setup frames and a prefix of what the
  client wrote, and the client a prefix of what the adb server sent; when both calls have ended without an
  error of a send and the stream delivered everything, the client has all of it. And nothing is kept back, whether or
  not a call has ended: once both calls are relaying, the adb server has all the client wrote if the stream delivered
  it and no send or write of that direction failed, and the client all that the adb server sent, likewise.
\<close>

theorem forward_end_to_end:
  assumes "sf_recvs f = delivered n toDevice errs" "fc_recvs c = delivered k sent errs'"
    and "ForwardToDevice c = (res, toDevice, toClient)" "ForwardToDevice_src b f = (e, written, sent)"
    and "sf_first f = Inr (Some (serial, command))" "Some EOF \<notin> set (fc_writes c)"
  shows "prefix written (setupFrames serial command @ forward_up.carried (fc_reads c)) \<and>
    prefix (concat toClient) (response.carried (sf_reads f)) \<and>
    (res = Finished None \<and> e = Returned None \<and> length sent \<le> k \<and> list_all (\<lambda>out. out = None) (sf_sends f) \<longrightarrow>
      concat toClient = response.carried (sf_reads f)) \<and>
    (joined_up c b f serial command \<and> length toDevice \<le> n \<and>
        willing (length (fc_reads c)) (fc_sends c) \<and> willing (length (sf_recvs f)) (sf_writes f) \<longrightarrow>
      written = setupFrames serial command @ forward_up.carried (fc_reads c)) \<and>
    (joined_up c b f serial command \<and> length sent \<le> k \<and>
        willing (length (sf_reads f)) (sf_sends f) \<and> willing (length (fc_recvs c)) (fc_writes c) \<longrightarrow>
      concat toClient = response.carried (sf_reads f))"
proof -
  have call: "prefix (concat toDevice) (forward_up.carried (fc_reads c))"
      "prefix (concat toClient) (forward_down.carried (fc_recvs c))"
      "res = Finished None \<longrightarrow> concat toClient = forward_down.carried (fc_recvs c)"
    using ForwardToDevice_exact [OF assms(6)] assms(3) by simp_all
  have c: "forward_down.carried (fc_recvs c) = concat (take k sent)"
    by (simp only: assms(2) delivered_def carried_messages)
  have f: "request.carried (sf_recvs f) = concat (take n toDevice)"
    by (simp only: assms(1) delivered_def carried_messages)
  have up: "prefix (concat (take n toDevice)) (forward_up.carried (fc_reads c))"
    using prefix_order.trans [OF take_concat_prefix call(1)] .
  note down = call(2) [unfolded c] call(3) [unfolded c]
  have src: "(\<exists>p. written = setupFrames serial command @ p \<and> prefix p (concat (take n toDevice))) \<and>
      prefix (concat sent) (response.carried (sf_reads f)) \<and>
      (e \<noteq> Running \<and> list_all (\<lambda>out. out = None) (sf_sends f) \<longrightarrow> concat sent = response.carried (sf_reads f)) \<or>
    (written = [] \<or> written = transportFrame serial) \<and> sent = [] \<and> e \<noteq> Returned None"
    using assms(5,4)
  proof (cases rule: ForwardToDevice_src_cases)
    case relayed
    then show ?thesis
      using forwardData_prefix [OF relayed] forwardData_ended [OF relayed] forwardData_complete [of f _ _ written sent]
        relayed f by metis
  qed simp
  have "prefix written (setupFrames serial command @ forward_up.carried (fc_reads c))"
    using src up by (auto simp: setupFrames_def intro: prefix_order.trans)
  moreover have "prefix (concat toClient) (response.carried (sf_reads f))"
    using src down(1) take_concat_prefix [of k sent] by (auto intro: prefix_order.trans)
  moreover have "concat toClient = response.carried (sf_reads f)"
    if "res = Finished None" "e = Returned None" "length sent \<le> k" "list_all (\<lambda>out. out = None) (sf_sends f)"
    using src down(2) that by auto
  moreover note live = ForwardToDevice_live [OF _ _ _ assms(3)] ForwardToDevice_src_live [OF assms(5) _ _ assms(4)]
  have "written = setupFrames serial command @ forward_up.carried (fc_reads c)"
    if "joined_up c b f serial command" "length toDevice \<le> n"
      "willing (length (fc_reads c)) (fc_sends c)" "willing (length (sf_recvs f)) (sf_writes f)"
    using that live(1,3) f by (simp add: joined_up_def)
  moreover have "concat toClient = response.carried (sf_reads f)"
    if "joined_up c b f serial command" "length sent \<le> k"
      "willing (length (sf_reads f)) (sf_sends f)" "willing (length (fc_recvs c)) (fc_writes c)"
    using that live(2,4) c by (simp add: joined_up_def)
  ultimately show ?thesis by blast
qed

text \<open>The device source with no environment at all, and an adb that says nothing.\<close>

definition quietBench :: bench where
  "quietBench = config.extend (NewServer (\<lambda>_. None) (\<lambda>_. None))
     (bench.fields (\<lambda>_. 0) (\<lambda>_ _ _. ([], None)) (\<lambda>_. True) (\<lambda>_. None) (\<lambda>_ _. Inl EOF) (\<lambda>_. True))"

theorem forward_end_to_end_witness:
  "let c = \<lparr>fc_client = None, fc_open = None, fc_setup = None, fc_reads = [(''ls'', None), ([], Some EOF)],
           fc_sends = [None, None], fc_recvs = delivered 1 [''out''] [EOF], fc_writes = [None, None]\<rparr>;
       f = \<lparr>sf_first = Inr (Some (''E1'', ''shell:'')), sf_dial = None, sf_write1 = None, sf_reply = ''OKAY'',
           sf_write2 = None, sf_reads = [Inr ''out'', Inl EOF], sf_sends = [None, None],
           sf_recvs = delivered 1 [''ls''] [EOF], sf_writes = [None, None], sf_stalled = []\<rparr>
   in ForwardToDevice c = (Finished None, [''ls''], [''out'']) \<and>
      ForwardToDevice_src quietBench f = (Returned None, setupFrames ''E1'' ''shell:'' @ ''ls'', [''out'']) \<and>
      concat [''out''] = response.carried (sf_reads f)"
proof -
  let ?c = "\<lparr>fc_client = None, fc_open = None, fc_setup = None, fc_reads = [(''ls'', None), ([], Some EOF)],
           fc_sends = [None, None], fc_recvs = delivered 1 [''out''] [EOF], fc_writes = [None, None]\<rparr>"
  let ?f = "\<lparr>sf_first = Inr (Some (''E1'', ''shell:'')), sf_dial = None, sf_write1 = None, sf_reply = ''OKAY'',
           sf_write2 = None, sf_reads = [Inr ''out'', Inl EOF], sf_sends = [None, None],
           sf_recvs = delivered 1 [''ls''] [EOF], sf_writes = [None, None], sf_stalled = []\<rparr>"
  have c: "ForwardToDevice ?c = (Finished None, [''ls''], [''out''])"
    by (simp add: ForwardToDevice_def delivered_def sending_def)
  have f: "ForwardToDevice_src quietBench ?f = (Returned None, setupFrames ''E1'' ''shell:'' @ ''ls'', [''out''])"
    by code_simp
  show ?thesis
    using forward_end_to_end [of ?f 1 "[''ls'']" "[EOF]" ?c 1 "[''out'']" "[EOF]" "Finished None" "[''out'']"
        quietBench "Returned None" "setupFrames ''E1'' ''shell:'' @ ''ls''" "''E1''" "''shell:''"] c f
    by (simp add: Let_def)
qed

end
