(* ===== verification/PhoneExec.thy ===== *)
theory PhoneExec
  imports DeviceSource "HOL-Library.Sublist"
begin

text \<open>
  Commands whose output is streamed: \<open>ExecOnDevice\<close>, \<open>EnqueueCommand\<close> and \<open>streamProcess\<close> of
  \<open>devicesource/server.go\<close>. Two goroutines read the pipes of the process line by line, while a third waits for the
  process and then closes the pipes; what the process writes, how much of it each reader has got when its pipe is closed
  under it, which of their sends fail and the order of the others is the environment's, like how the process ends.
  The two readers send on one stream without a lock; a send is taken to be atomic here.
\<close>

section \<open>Lines\<close>

text \<open>\<open>bufio.ScanLines\<close> with a buffer of one mebibyte: a longer line ends the scan.\<close>

definition maxLine :: nat where
  "maxLine = 1048576"

definition dropCR :: "bytes \<Rightarrow> bytes" where
  "dropCR l = (if l \<noteq> [] \<and> last l = CHR 0x0D then butlast l else l)"

definition scanLines :: "bytes \<Rightarrow> bytes list" where
  "scanLines out = (let ls = linesOf out; ls = (if last ls = [] then butlast ls else ls)
     in map dropCR (takeWhile (\<lambda>l. length l < maxLine) ls))"

section \<open>\<open>streamProcess\<close>\<close>

record command_result =
  cr_stdout :: bytes
  cr_stderr :: bytes
  cr_exitCode :: "32 word"

text \<open>What \<open>Wait\<close> returns: \<open>nil\<close>, an \<open>ExitError\<close> with its code, or another error.\<close>

datatype wait_result = WaitNil | WaitExit int | WaitError

datatype select_case = TimedOut | CtxDone | ProcessExited wait_result

text \<open>
  \<open>xr_stdout\<close> and \<open>xr_stderr\<close> are what the process writes. \<open>xr_outCut\<close> and \<open>xr_errCut\<close> are the bytes a reader
  has got when \<open>Wait\<close> closes its pipe; without one it reads to the end. \<open>xr_order\<close> says whose send comes next; a
  send of a reader that fails ends it, \<open>xr_outSends\<close> and \<open>xr_errSends\<close> are the numbers of sends that succeed
  before that.
\<close>

record exec_run =
  xr_stdoutPipe :: "goerr option"
  xr_stderrPipe :: "goerr option"
  xr_start :: "goerr option"
  xr_stdout :: bytes
  xr_stderr :: bytes
  xr_outCut :: "nat option"
  xr_errCut :: "nat option"
  xr_outSends :: "nat option"
  xr_errSends :: "nat option"
  xr_order :: "bool list"
  xr_select :: select_case

text \<open>What a reader gets; a closed pipe ends the scan like the end of the output, with the line it is in.\<close>

definition gotten :: "nat option \<Rightarrow> bytes \<Rightarrow> bytes" where
  "gotten lim out = (case lim of None \<Rightarrow> out | Some n \<Rightarrow> take n out)"

abbreviation gotOut :: "exec_run \<Rightarrow> bytes" where
  "gotOut x \<equiv> gotten (xr_outCut x) (xr_stdout x)"

abbreviation gotErr :: "exec_run \<Rightarrow> bytes" where
  "gotErr x \<equiv> gotten (xr_errCut x) (xr_stderr x)"

definition streamReader :: "(bytes \<Rightarrow> command_result) \<Rightarrow> bytes \<Rightarrow> nat option \<Rightarrow> command_result list" where
  "streamReader result out fails = (let rs = map (\<lambda>l. result (l @ [newline])) (scanLines out)
     in case fails of None \<Rightarrow> rs | Some n \<Rightarrow> take n rs)"

definition stdoutResult :: "bytes \<Rightarrow> command_result" where
  "stdoutResult l = \<lparr>cr_stdout = l, cr_stderr = [], cr_exitCode = 0\<rparr>"

definition stderrResult :: "bytes \<Rightarrow> command_result" where
  "stderrResult l = \<lparr>cr_stdout = [], cr_stderr = l, cr_exitCode = 0\<rparr>"

fun interleave :: "bool list \<Rightarrow> 'a list \<Rightarrow> 'a list \<Rightarrow> 'a list" where
  "interleave _ [] ys = ys"
| "interleave _ xs [] = xs"
| "interleave [] xs ys = xs @ ys"
| "interleave (True # bs) (x # xs) ys = x # interleave bs xs ys"
| "interleave (False # bs) xs (y # ys) = y # interleave bs xs ys"

definition exitCode :: "wait_result \<Rightarrow> int" where
  "exitCode w = (case w of WaitExit code \<Rightarrow> code | _ \<Rightarrow> 0)"

definition timedOut :: "int \<Rightarrow> command_result" where
  "timedOut timeoutSeconds = \<lparr>cr_stdout = [],
     cr_stderr = ''Command timed out after '' @ fmtInt timeoutSeconds @ ''s'', cr_exitCode = - 1\<rparr>"

definition streamProcess :: "int \<Rightarrow> exec_run \<Rightarrow> goerr option \<times> command_result list" where
  "streamProcess timeoutSeconds x = (case (xr_stdoutPipe x, xr_stderrPipe x, xr_start x) of
       (Some er, _, _) \<Rightarrow> (Some (Status Internal (''stdout pipe: '' @ errorText er)), [])
     | (None, Some er, _) \<Rightarrow> (Some (Status Internal (''stderr pipe: '' @ errorText er)), [])
     | (None, None, Some er) \<Rightarrow> (Some (Status Internal (''start: '' @ errorText er)), [])
     | (None, None, None) \<Rightarrow>
         (None, interleave (xr_order x) (streamReader stdoutResult (gotOut x) (xr_outSends x))
             (streamReader stderrResult (gotErr x) (xr_errSends x)) @
           (case xr_select x of
              TimedOut \<Rightarrow> [timedOut timeoutSeconds]
            | CtxDone \<Rightarrow> []
            | ProcessExited w \<Rightarrow> [\<lparr>cr_stdout = [], cr_stderr = [], cr_exitCode = word_of_int (exitCode w)\<rparr>])))"

section \<open>The calls\<close>

text \<open>A process: the program, its arguments and the seconds it is given.\<close>

type_synonym process = "bytes list \<times> int"

definition EnqueueCommand :: "bytes \<Rightarrow> process" where
  "EnqueueCommand cmd = ([''bash'', ''-c'', cmd], 1800)"

definition ExecOnDevice :: "bench \<Rightarrow> bytes \<Rightarrow> bytes \<Rightarrow> 32 word \<Rightarrow> goerr + process" where
  "ExecOnDevice b serial command timeoutSeconds = (case checkSerial b serial of
     Some er \<Rightarrow> Inl er
   | None \<Rightarrow> Inr ([''adb'', ''-P'', fmtInt (cf_adbPort b), ''-s'', serial, ''shell''] @ Fields command,
       if sint timeoutSeconds \<le> 0 then 1800 else sint timeoutSeconds))"

section \<open>What a caller can rely on\<close>

text \<open>The output as it arrives: every line ends with a newline, also the last.\<close>

definition terminated :: "bytes \<Rightarrow> bytes" where
  "terminated out = (if out = [] \<or> last out = newline then out else out @ [newline])"

definition plainLines :: "bytes \<Rightarrow> bool" where
  "plainLines out \<longleftrightarrow> list_all (\<lambda>l. length l < maxLine \<and> (l \<noteq> [] \<longrightarrow> last l \<noteq> CHR 0x0D)) (linesOf out)"

definition joinLines :: "bytes list \<Rightarrow> bytes" where
  "joinLines ls = concat (map (\<lambda>l. l @ [newline]) ls)"

lemma joinLines_simps [simp]: "joinLines [] = []" "joinLines (l # ls) = l @ newline # joinLines ls"
  by (simp_all add: joinLines_def)

lemma joinLines_linesOf:
  "joinLines (if last (linesOf out) = [] then butlast (linesOf out) else linesOf out) = terminated out"
proof (induction out)
  case Nil
  then show ?case by (simp add: linesOf_def terminated_def)
next
  case (Cons c out)
  obtain p ps where p: "Split out newline = p # ps" by (cases "Split out newline") auto
  show ?case
    using Cons.IH p by (cases ps rule: rev_cases) (auto simp: linesOf_def terminated_def split: if_splits)
qed

lemma plain_scanLines: "plainLines out \<Longrightarrow> joinLines (scanLines out) = terminated out"
proof -
  assume plain: "plainLines out"
  let ?ls = "if last (linesOf out) = [] then butlast (linesOf out) else linesOf out"
  have "list_all (\<lambda>l. length l < maxLine \<and> dropCR l = l) ?ls"
    using plain by (auto simp: plainLines_def list_all_iff dropCR_def dest: in_set_butlastD)
  then have "map dropCR (takeWhile (\<lambda>l. length l < maxLine) ?ls) = ?ls"
    by (simp add: list_all_iff takeWhile_eq_all_conv [THEN iffD2] map_idI)
  then show ?thesis
    using joinLines_linesOf [of out] by (simp add: scanLines_def Let_def)
qed

lemma interleave_stdout:
  "list_all (\<lambda>r. cr_stdout r = []) es \<Longrightarrow> concat (map cr_stdout (interleave order os es)) = concat (map cr_stdout os)"
  by (induction order os es rule: interleave.induct) (auto simp: list_all_iff)

lemma interleave_stderr:
  "list_all (\<lambda>r. cr_stderr r = []) os \<Longrightarrow> concat (map cr_stderr (interleave order os es)) = concat (map cr_stderr es)"
  by (induction order os es rule: interleave.induct) (auto simp: list_all_iff)

lemma interleave_set: "set (interleave order os es) = set os \<union> set es"
  by (induction order os es rule: interleave.induct) auto

lemma streamReader_all:
  "list_all (\<lambda>r. \<exists>l. r = result l) (streamReader result out fails)"
  by (auto simp: streamReader_def Let_def list_all_iff split: option.split dest!: in_set_takeD)

lemma streamReader_out:
  "concat (map cr_stdout (streamReader stdoutResult out None)) = joinLines (scanLines out)"
  "concat (map cr_stderr (streamReader stderrResult out None)) = joinLines (scanLines out)"
  by (simp_all add: streamReader_def joinLines_def stdoutResult_def stderrResult_def comp_def)

lemma streamReader_prefix:
  "prefix (concat (map cr_stdout (streamReader stdoutResult out fails))) (joinLines (scanLines out))"
  "prefix (concat (map cr_stderr (streamReader stderrResult out fails))) (joinLines (scanLines out))"
proof -
  have p: "prefix (concat (take n ps)) (concat ps)" for n and ps :: "bytes list"
    by (metis append_take_drop_id concat_append prefixI)
  show "prefix (concat (map cr_stdout (streamReader stdoutResult out fails))) (joinLines (scanLines out))"
      "prefix (concat (map cr_stderr (streamReader stderrResult out fails))) (joinLines (scanLines out))"
    using p [of _ "map (\<lambda>l. l @ [newline]) (scanLines out)"]
    by (simp_all add: streamReader_def Let_def joinLines_def stdoutResult_def stderrResult_def comp_def take_map
        split: option.split)
qed

text \<open>The results of the readers, and what follows them.\<close>

definition streamed :: "exec_run \<Rightarrow> command_result list" where
  "streamed x = interleave (xr_order x) (streamReader stdoutResult (gotOut x) (xr_outSends x))
     (streamReader stderrResult (gotErr x) (xr_errSends x))"

definition closing :: "int \<Rightarrow> select_case \<Rightarrow> command_result list" where
  "closing timeoutSeconds sel = (case sel of
     TimedOut \<Rightarrow> [timedOut timeoutSeconds]
   | CtxDone \<Rightarrow> []
   | ProcessExited w \<Rightarrow> [\<lparr>cr_stdout = [], cr_stderr = [], cr_exitCode = word_of_int (exitCode w)\<rparr>])"

lemma streamed_texts:
  "concat (map cr_stdout (streamed x)) = concat (map cr_stdout (streamReader stdoutResult (gotOut x) (xr_outSends x)))"
  "concat (map cr_stderr (streamed x)) = concat (map cr_stderr (streamReader stderrResult (gotErr x) (xr_errSends x)))"
  unfolding streamed_def
  by (rule interleave_stdout interleave_stderr, use streamReader_all in \<open>force simp: list_all_iff stdoutResult_def stderrResult_def\<close>)+

lemma streamed_exitCode: "list_all (\<lambda>r. cr_exitCode r = 0) (streamed x)"
  using streamReader_all [of stdoutResult "gotOut x" "xr_outSends x"]
    streamReader_all [of stderrResult "gotErr x" "xr_errSends x"]
  by (auto simp: streamed_def list_all_iff interleave_set stdoutResult_def stderrResult_def)

lemma streamProcess_streamed:
  "streamProcess t x = (case (xr_stdoutPipe x, xr_stderrPipe x, xr_start x) of
     (None, None, None) \<Rightarrow> (None, streamed x @ closing t (xr_select x))
   | _ \<Rightarrow> (fst (streamProcess t x), []))"
  by (simp add: streamProcess_def streamed_def closing_def split: option.split)

text \<open>
  Output can be lost although the exit code says success: \<open>Wait\<close> closes the pipes as soon as the process has
  exited, whether or not the readers have got everything.
\<close>

lemma output_lost_with_success:
  "streamProcess t \<lparr>xr_stdoutPipe = None, xr_stderrPipe = None, xr_start = None, xr_stdout = ''PASS'' @ [newline],
     xr_stderr = [], xr_outCut = Some 0, xr_errCut = None, xr_outSends = None, xr_errSends = None, xr_order = [],
     xr_select = ProcessExited WaitNil\<rparr> = (None, [\<lparr>cr_stdout = [], cr_stderr = [], cr_exitCode = 0\<rparr>])"
  by (simp add: streamProcess_def gotten_def streamReader_def scanLines_def linesOf_def exitCode_def)


text \<open>
  A command runs on a managed phone, as one adb command line. \<open>ExecOnDevice\<close> starts nothing for a
  serial the server does not manage; otherwise it starts adb on that serial, with the words of the command,
  none of them empty, as the arguments of its shell, for a positive number of seconds.
\<close>

theorem exec_stays_with_phone:
  "case ExecOnDevice b serial command timeoutSeconds of
     Inl er \<Rightarrow> checkSerial b serial = Some er
   | Inr (args, seconds) \<Rightarrow> managed b serial \<and> list_all isSerialChar serial \<and> serial \<noteq> [] \<and> 0 < seconds \<and>
       (\<exists>words. args = [''adb'', ''-P'', fmtInt (cf_adbPort b), ''-s'', serial, ''shell''] @ words \<and>
          list_all (\<lambda>w. w \<noteq> [] \<and> list_all (\<lambda>c. \<not> isSpace c) w) words)"
proof -
  have "list_all (\<lambda>w. w \<noteq> [] \<and> list_all (\<lambda>c. \<not> isSpace c) w) (Fields command)"
    using splitWhere_pieces by (auto simp: Fields_def list_all_iff)
  then show ?thesis
    by (auto simp: ExecOnDevice_def checkSerial_def validateSerial_def split: option.splits if_splits)
qed

end
