(* ===== verification/Commands.thy ===== *)
theory Commands
  imports AdbConnection HttpApi DeviceSource
begin

text \<open>
  The two programs: what \<open>cmd/sair-proxy/main.go\<close> and \<open>cmd/sair-device-source/main.go\<close> take from the
  environment, \<open>proxy/identity.go\<close>, the bare port (\<open>proxy/proxy.go\<close>), and the device source's report, which is where its state reaches
  the proxy's.
\<close>

section \<open>Environment variables\<close>

text \<open>\<open>env\<close> is \<open>os.LookupEnv\<close>.\<close>

definition Getenv :: "(bytes \<Rightarrow> bytes option) \<Rightarrow> bytes \<Rightarrow> bytes" where
  "Getenv env key = (case env key of Some v \<Rightarrow> v | None \<Rightarrow> [])"

definition envStr :: "(bytes \<Rightarrow> bytes option) \<Rightarrow> bytes \<Rightarrow> bytes \<Rightarrow> bytes" where
  "envStr env key dflt = (if Getenv env key \<noteq> [] then Getenv env key else dflt)"

definition envList :: "(bytes \<Rightarrow> bytes option) \<Rightarrow> bytes \<Rightarrow> bytes list" where
  "envList env key = filter (\<lambda>v. v \<noteq> []) (map Trim (Split (Getenv env key) CHR '',''))"

definition envInt :: "(bytes \<Rightarrow> bytes option) \<Rightarrow> bytes \<Rightarrow> int \<Rightarrow> int" where
  "envInt env key dflt = (if Getenv env key \<noteq> []
     then (case Atoi (Getenv env key) of POk i \<Rightarrow> i | _ \<Rightarrow> dflt) else dflt)"

definition envInt64 :: "(bytes \<Rightarrow> bytes option) \<Rightarrow> bytes \<Rightarrow> int \<Rightarrow> int" where
  "envInt64 env key dflt = (if Getenv env key \<noteq> []
     then (case ParseInt 10 64 (Getenv env key) of POk i \<Rightarrow> i | _ \<Rightarrow> dflt) else dflt)"

definition envBool :: "(bytes \<Rightarrow> bytes option) \<Rightarrow> bytes \<Rightarrow> bool" where
  "envBool env key \<longleftrightarrow> map toLower (Getenv env key) \<in> {''true'', ''1'', ''yes''}"

section \<open>The proxy\<close>

text \<open>\<open>hostname\<close> is the answer of \<open>os.Hostname\<close>, if it is not an error.\<close>

definition ProxyID :: "(bytes \<Rightarrow> bytes option) \<Rightarrow> bytes option \<Rightarrow> bytes" where
  "ProxyID env hostname = (if Trim (Getenv env ''PROXY_ID'') \<noteq> [] then Trim (Getenv env ''PROXY_ID'')
     else (case hostname of Some h \<Rightarrow> if h \<noteq> [] then h else ''unknown'' | None \<Rightarrow> ''unknown''))"

record proxy_conf =
  px_port :: int
  px_orchestratorAddr :: bytes
  px_apiKey :: bytes
  px_guestKeys :: "bytes list"
  px_httpPort :: int
  px_httpHost :: bytes
  px_heartbeat :: int
  px_tls :: bool
  px_idleTimeout :: int

definition hosted :: bytes where
  "hosted = ''orchestrator.sair.run:9090''"

definition proxyConf :: "(bytes \<Rightarrow> bytes option) \<Rightarrow> proxy_conf" where
  "proxyConf env = (let addr = envStr env ''ORCHESTRATOR_ADDR'' hosted
     in \<lparr>px_port = envInt env ''ADB_PROXY_PORT'' 5037,
         px_orchestratorAddr = addr,
         px_apiKey = envStr env ''SAIR_API_KEY'' ''dev-key-123'',
         px_guestKeys = envList env ''SAIR_GUEST_API_KEYS'',
         px_httpPort = envInt env ''PROXY_HTTP_PORT'' 8550,
         px_httpHost = envStr env ''PROXY_HTTP_HOST'' ''0.0.0.0'',
         px_heartbeat = envInt64 env ''HEARTBEAT_INTERVAL_SECONDS'' 60,
         px_tls = (if env ''ORCHESTRATOR_TLS'' = None \<and> addr = hosted then True else envBool env ''ORCHESTRATOR_TLS''),
         px_idleTimeout = wrap64 (envInt64 env ''LOCK_IDLE_TIMEOUT_MINUTES'' 20 * minute)\<rparr>)"

text \<open>
  The bare port. \<open>Listen\<close> binds, with the answer \<open>bindErr\<close> of \<open>net.Listen\<close>; \<open>Start\<close> binds if nobody has,
  then accepts: a turn of its loop is whether \<open>running\<close> still held and what \<open>Accept\<close> returned. Every
  connection has an empty set of devices, no relayed ones and no lock log.
\<close>

record adb_proxy =
  xp_listening :: bool
  xp_running :: bool

definition Listen :: "goerr option \<Rightarrow> adb_proxy \<Rightarrow> goerr option \<times> adb_proxy" where
  "Listen bindErr p = (case bindErr of Some er \<Rightarrow> (Some er, p) | None \<Rightarrow> (None, p\<lparr>xp_listening := True\<rparr>))"

definition bareConnection :: "tracker \<Rightarrow> bytes list \<Rightarrow> nat \<Rightarrow> adb_conf" where
  "bareConnection t idOrder conn = \<lparr>ac_tracker = t, ac_idOrder = idOrder, ac_allowed = Some [], ac_remote = [],
     ac_scoped = False, ac_conn = conn\<rparr>"

type_synonym accepted = "goerr + tracker \<times> bytes list \<times> nat \<times> adb_state"

fun acceptLoop :: "adb_env \<Rightarrow> (bool \<times> accepted) list \<Rightarrow> adb_state list" where
  "acceptLoop e [] = []"
| "acceptLoop e ((running, r) # rs) = (if \<not> running then []
     else (case r of
       Inl _ \<Rightarrow> acceptLoop e rs
     | Inr (t, idOrder, conn, s) \<Rightarrow> Handle e (bareConnection t idOrder conn) s # acceptLoop e rs))"

definition StartProxy :: "adb_env \<Rightarrow> goerr option \<Rightarrow> (bool \<times> accepted) list \<Rightarrow> adb_proxy \<Rightarrow> goerr option \<times> adb_state list" where
  "StartProxy e bindErr rs p = (case (if xp_listening p then (None, p) else Listen bindErr p) of
       (Some er, _) \<Rightarrow> (Some er, [])
     | (None, _) \<Rightarrow> (None, acceptLoop e rs))"

lemma bare_port_reaches_nothing:
  "list_all (\<lambda>(_, r). case r of Inl _ \<Rightarrow> True | Inr (_, _, _, s) \<Rightarrow> as_calls s = []) rs \<Longrightarrow>
    list_all (\<lambda>s. as_calls s = []) (acceptLoop e rs)"
proof (induction e rs rule: acceptLoop.induct)
  case (2 e running r rs)
  have "as_calls (Handle e (bareConnection t idOrder conn) s) = []" if "as_calls s = []" for t idOrder conn s
    using Handle_allowed [of "bareConnection t idOrder conn" s e] that
    by (cases "as_calls (Handle e (bareConnection t idOrder conn) s)")
      (simp_all add: bareConnection_def remote_keyed_def calls_allowed_def isSerialAllowed_def)
  with 2 show ?case by (cases r) auto
qed simp

section \<open>The device source\<close>

record source_conf =
  sc_port :: int
  sc_proxyAddr :: bytes
  sc_sourceAddr :: bytes
  sc_apiKey :: bytes

text \<open>\<open>None\<close>: the two serial lists exclude each other, and the process exits.\<close>

definition sourceConf :: "(bytes \<Rightarrow> bytes option) \<Rightarrow> source_conf option" where
  "sourceConf env = (if env ''DEVICE_SERIALS'' \<noteq> None \<and> Getenv env ''EXCLUDE_SERIALS'' \<noteq> [] then None
     else (let port = envInt env ''DEVICE_SOURCE_PORT'' 8552
       in Some \<lparr>sc_port = port,
           sc_proxyAddr = envStr env ''PROXY_ADDR'' ''http://localhost:8550'',
           sc_sourceAddr = envStr env ''DEVICE_SOURCE_ADDR'' (''localhost:'' @ fmtInt port),
           sc_apiKey = envStr env ''SAIR_API_KEY'' ''dev-key-123''\<rparr>))"

text \<open>A report of \<open>reportDevices\<close>: the request, if there is one.\<close>

definition reportInfo :: "phone_device \<Rightarrow> device_info" where
  "reportInfo d = \<lparr>device_info.Serial = pd_serial d, Manufacturer = pd_manufacturer d, Model = pd_model d,
     Sdk = sint (pd_sdk d), Release = sint (pd_release d), AccountTypes = pd_accountTypes d,
     LastRebootMs = pd_lastRebootMs d, Warning = pd_warning d, DeviceSource = []\<rparr>"

definition deviceReport :: "source_conf \<Rightarrow> bytes \<Rightarrow> phone_device list \<Rightarrow> device_report" where
  "deviceReport sc version ds = \<lparr>dr_sourceAddr = sc_sourceAddr sc, dr_version = version,
     dr_devices = map reportInfo ds\<rparr>"

text \<open>
  A report on its way. \<open>wr_encode\<close> is \<open>json.Marshal\<close>, \<open>wr_size\<close> the bytes of its result and \<open>wr_decode\<close> what the
  proxy's decoder makes of it; the proxy reads at most 1 MiB of a report.
\<close>

record 'j wire =
  wr_encode :: "device_report \<Rightarrow> 'j"
  wr_size :: "'j \<Rightarrow> nat"
  wr_decode :: "'j \<Rightarrow> device_report option"

definition bodyLimit :: nat where
  "bodyLimit = 2 ^ 20"

definition limitedBody :: "'j wire \<Rightarrow> 'j \<Rightarrow> device_report option" where
  "limitedBody wr body = (if bodyLimit < wr_size wr body then None else wr_decode wr body)"

definition reportRequest :: "'j wire \<Rightarrow> bytes \<Rightarrow> source_conf \<Rightarrow> bytes \<Rightarrow> phone_device list \<Rightarrow> request" where
  "reportRequest wr remoteAddr sc version ds = \<lparr>rq_apiKey = sc_apiKey sc, rq_deviceToken = [], rq_query = [],
     rq_remoteAddr = remoteAddr, rq_body = limitedBody wr (wr_encode wr (deviceReport sc version ds))\<rparr>"

definition report :: "bench \<Rightarrow> 'j wire \<Rightarrow> bytes \<Rightarrow> source_conf \<Rightarrow> bytes \<Rightarrow> request option op" where
  "report b wr remoteAddr sc version = do {
     r \<leftarrow> GetDevices_src b;
     returnM (case r of Inl _ \<Rightarrow> None | Inr ds \<Rightarrow> Some (reportRequest wr remoteAddr sc version ds)) }"

text \<open>
  What becomes of the request: it could not be made (\<open>http.NewRequest\<close>) or not be sent, so the proxy does not see it;
  the proxy handles it, but \<open>client.Do\<close> fails, as after its ten seconds; or the proxy's answer comes back.
\<close>

datatype delivery = NotSent | Unheard | Heard

text \<open>The report and the answer the device source has to it.\<close>

definition reportTo :: "env \<Rightarrow> api \<Rightarrow> bench \<Rightarrow> 'j wire \<Rightarrow> delivery \<Rightarrow> bytes \<Rightarrow> source_conf \<Rightarrow> bytes \<Rightarrow>
    source \<times> http \<Rightarrow> (source \<times> http) \<times> response" where
  "reportTo e a b wr dl remoteAddr sc version st = (case run_state (report b wr remoteAddr sc version) (fst st) of
     (None, s) \<Rightarrow> ((s, snd st), None)
   | (Some rq, s) \<Rightarrow> (case dl of
       NotSent \<Rightarrow> ((s, snd st), None)
     | Unheard \<Rightarrow> ((s, snd (run_state (serve e a DevicesRoute rq) (snd st))), None)
     | Heard \<Rightarrow> (case run_state (serve e a DevicesRoute rq) (snd st) of (resp, h) \<Rightarrow> ((s, h), resp))))"

section \<open>What a report does\<close>

text \<open>Every source's entry is stamped with its own address; the stamp tells whose a listed device is.\<close>

definition stamped :: "tracker \<Rightarrow> bool" where
  "stamped t \<longleftrightarrow> (\<forall>a e. t_sources t a = Some e \<longrightarrow> list_all (\<lambda>d. DeviceSource d = a) (se_devices e))"

definition devicesOf :: "bytes \<Rightarrow> tracker \<Rightarrow> device_info list" where
  "devicesOf a t = filter (\<lambda>d. DeviceSource d = a) (GetDevices t)"

lemma snapshot_of_source:
  assumes "stamped t" "distinct order" "a \<in> set order" "t_sources t a = Some e"
  shows "filter (\<lambda>d. DeviceSource d = a) (fst (snapshot t order)) = se_devices e"
proof -
  let ?devs = "\<lambda>x. se_devices (the (t_sources t x))"
  have own: "t_sources t x \<noteq> None \<Longrightarrow> filter (\<lambda>d. DeviceSource d = a) (?devs x) = (if x = a then se_devices e else [])" for x
    using assms(1,4) unfolding stamped_def list_all_iff
    by (cases "x = a") (force simp: filter_empty_conv intro!: filter_True)+
  have "filter (\<lambda>d. DeviceSource d = a) (concat (map ?devs (filter (\<lambda>x. t_sources t x \<noteq> None) xs))) =
      (if a \<in> set xs then se_devices e else [])" if "distinct xs" for xs
    using that own [of a] by (induction xs) (auto simp: own assms(4))
  from this [OF assms(2)] show ?thesis
    using assms(3) by (simp add: snapshot_def Let_def comp_def)
qed

text \<open>A move that neither records nor reaps the source \<open>a\<close>, as seen from its entry.\<close>

fun sparesSource :: "bytes \<Rightarrow> tracker_move \<Rightarrow> bool" where
  "sparesSource a (MoveRecord _ sourceAddr _ _) \<longleftrightarrow> sourceAddr \<noteq> a"
| "sparesSource a (MovePublish _) \<longleftrightarrow> True"
| "sparesSource a (MoveReap _ order) \<longleftrightarrow> a \<notin> set order"

lemma stamped_recordSource: "stamped t \<Longrightarrow> stamped (recordSource t t0 a version ds)"
  by (auto simp: recordSource_def Let_def stamped_def list_all_iff)

lemma reapStale_spares: "a \<notin> set order \<Longrightarrow> t_sources (reapStale t t0 order) a = t_sources t a"
  unfolding reapStale_def by (induction order arbitrary: t) (auto split: option.split)

lemma stamped_reapStale: "stamped t \<Longrightarrow> stamped (reapStale t t0 order)"
proof (induction order arbitrary: t)
  case (Cons a order)
  have "stamped (reapStale t t0 [a])" using Cons.prems by (auto simp: reapStale_def stamped_def split: option.splits)
  moreover have "reapStale t t0 (a # order) = reapStale (reapStale t t0 [a]) t0 order" by (simp add: reapStale_def)
  ultimately show ?case using Cons.IH by metis
qed (simp add: reapStale_def)

lemma stamped_publish [simp]: "stamped (publish t snap) = stamped t"
  using publish_plain [of t snap] by (simp add: stamped_def)

lemma stamped_moves: "stamped t \<Longrightarrow> stamped (foldl trackerMove t ms)"
proof (induction ms arbitrary: t)
  case (Cons m ms)
  then show ?case by (cases m) (simp_all add: stamped_recordSource stamped_reapStale)
qed simp

lemma moves_spare: "list_all (sparesSource a) ms \<Longrightarrow> t_sources (foldl trackerMove t ms) a = t_sources t a"
proof (induction ms arbitrary: t)
  case (Cons m ms)
  have "t_sources (trackerMove t m) a = t_sources t a"
    using Cons.prems publish_plain by (cases m) (auto simp: recordSource_def Let_def reapStale_spares)
  then show ?case using Cons by simp
qed simp

lemma updateAmid_of_source:
  assumes "stamped t" "distinct order" "a \<in> set order" "list_all (sparesSource a) (fst ms)"
  shows "devicesOf a (updateAmid ms t order t0 a version ds) = map (\<lambda>d. d\<lparr>DeviceSource := a\<rparr>) ds \<and>
    stamped (updateAmid ms t order t0 a version ds)"
proof -
  let ?r = "recordSource t t0 a version ds"
  let ?t = "foldl trackerMove ?r (fst ms)"
  have st: "stamped ?t" using assms(1) by (intro stamped_moves stamped_recordSource)
  have "t_sources ?t a = Some \<lparr>se_devices = map (\<lambda>d. d\<lparr>DeviceSource := a\<rparr>) ds, se_lastSeen = t0\<rparr>"
    using moves_spare [OF assms(4), of ?r] by (simp add: recordSource_def Let_def)
  from snapshot_of_source [OF st assms(2,3) this]
  have "filter (\<lambda>d. DeviceSource d = a) (fst (snapshot ?t order)) = map (\<lambda>d. d\<lparr>DeviceSource := a\<rparr>) ds" by simp
  then show ?thesis
    using stamped_moves [OF st] publish_plain [of "foldl trackerMove ?t (snd ms)" "snapshot ?t order"]
    by (simp add: devicesOf_def GetDevices_def updateAmid_def Let_def)
qed

lemma stamped_new: "stamped NewDeviceListTracker"
  by (simp add: stamped_def NewDeviceListTracker_def)

lemma requireAuth_tracker: "wp (requireAuth e a rq) (\<lambda>ok h'. ht_tracker h' = ht_tracker h \<and> (ownKey a (rq_apiKey rq) \<longrightarrow> ok)) h"
  by (auto simp: requireAuth_def Let_def CheckKey_def split: option.split)

definition quietFor :: "bytes \<Rightarrow> api \<Rightarrow> bool" where
  "quietFor addr a \<longleftrightarrow> (\<forall>k. distinct (ap_order a k) \<and> addr \<in> set (ap_order a k) \<and>
     list_all (sparesSource addr) (fst (ap_meanwhile a k)))"

lemma registered:
  assumes "stamped (ht_tracker h)" "quietFor (dr_sourceAddr rep) a"
    and "dr_sourceAddr rep \<noteq> []" "rq_body rq = None \<or> rq_body rq = Some rep"
  shows "wp (serve e a DevicesRoute rq) (\<lambda>resp h'.
    if resp = Some (200, StatusBody ''ok'')
    then rq_body rq = Some rep \<and> stamped (ht_tracker h') \<and> devicesOf (dr_sourceAddr rep) (ht_tracker h') =
      map (\<lambda>d. d\<lparr>DeviceSource := dr_sourceAddr rep\<rparr>) (dr_devices rep)
    else ht_tracker h' = ht_tracker h \<and> (ownKey a (rq_apiKey rq) \<longrightarrow> rq_body rq = None)) h"
proof -
  have "devicesOf (dr_sourceAddr rep) (updateAmid (ap_meanwhile a k) (ht_tracker h) (ap_order a k) t0 (dr_sourceAddr rep) v ds) =
      map (\<lambda>d. d\<lparr>DeviceSource := dr_sourceAddr rep\<rparr>) ds \<and>
    stamped (updateAmid (ap_meanwhile a k) (ht_tracker h) (ap_order a k) t0 (dr_sourceAddr rep) v ds)" for k t0 v ds
    using assms(2) by (intro updateAmid_of_source [OF assms(1)]) (auto simp: quietFor_def)
  then show ?thesis
    unfolding serve.simps handleRegisterDevices_def wp_bind
    by (intro wp_mono [OF requireAuth_tracker])
      (use assms(3,4) in \<open>auto simp: writeJSON_def unauthorized_def fail_def\<close>)
qed

lemma sourceConf_addr: "sourceConf env = Some sc \<Longrightarrow> sc_sourceAddr sc \<noteq> []"
  by (auto simp: sourceConf_def envStr_def Let_def split: if_splits)

lemma Serial_reportInfo [simp]: "device_info.Serial (reportInfo d) = pd_serial d"
  by (simp add: reportInfo_def)

lemma run_report:
  obtains (failed) s' out er where "run_state (report b wr remoteAddr sc version) s = (None, s')"
      "ds_runs s' = ds_runs s @ [AdbRun (devicesArgs b) [] out (Some er)]"
  | (made) s' out rs ds where
      "run_state (report b wr remoteAddr sc version) s = (Some (reportRequest wr remoteAddr sc version ds), s')"
      "ds_runs s' = ds_runs s @ AdbRun (devicesArgs b) [] out None # rs"
      "map pd_serial ds = filter (\<lambda>x. checkSerial b x = None) (parseAdbDevices out)"
proof -
  obtain r s' where r: "run_state (GetDevices_src b) s = (r, s')" by fastforce
  with emits_wp [OF emits_GetDevices, of b s] have "\<exists>rs. ds_runs s' = ds_runs s @ rs \<and> devicesPost b r rs"
    by (simp add: wp_def)
  then show ?thesis
    using failed made r by (cases r) (auto simp: devicesPost_def report_def)
qed

text \<open>The proxy lists for the source exactly the managed phones of an \<open>adb devices\<close> that the report ran.\<close>

definition listsManaged :: "bench \<Rightarrow> source_conf \<Rightarrow> source \<Rightarrow> source \<Rightarrow> tracker \<Rightarrow> bool" where
  "listsManaged b sc s s' t \<longleftrightarrow> (\<exists>out rs. ds_runs s' = ds_runs s @ AdbRun (devicesArgs b) [] out None # rs \<and>
     map device_info.Serial (devicesOf (sc_sourceAddr sc) t) = filter (\<lambda>x. checkSerial b x = None) (parseAdbDevices out))"

text \<open>Nothing the proxy could take was made: adb failed, or the report is longer than it reads.\<close>

definition unreportable :: "bench \<Rightarrow> 'j wire \<Rightarrow> source_conf \<Rightarrow> bytes \<Rightarrow> source \<Rightarrow> source \<Rightarrow> bool" where
  "unreportable b wr sc version s s' \<longleftrightarrow>
     (\<exists>out er. ds_runs s' = ds_runs s @ [AdbRun (devicesArgs b) [] out (Some er)]) \<or>
     (\<exists>out rs ds. ds_runs s' = ds_runs s @ AdbRun (devicesArgs b) [] out None # rs \<and>
        map pd_serial ds = filter (\<lambda>x. checkSerial b x = None) (parseAdbDevices out) \<and>
        bodyLimit < wr_size wr (wr_encode wr (deviceReport sc version ds)))"



end
