(* ===== verification/AgentApi.thy ===== *)
theory AgentApi
  imports GoStatus
begin

text \<open>
  \<open>internal/agentapi/client.go\<close>: the client of the orchestrator's agent API. A call is one HTTP request,
  built from its arguments, and its result is what becomes of the answer. The HTTP transport, the local
  files and \<open>encoding/json\<close> are parameters.
\<close>

section \<open>Package net/url\<close>

definition byteOf :: "char \<Rightarrow> nat" where
  "byteOf c = of_char c"

definition unreserved :: "char \<Rightarrow> bool" where
  "unreserved c \<longleftrightarrow> (let n = byteOf c in 48 \<le> n \<and> n \<le> 57 \<or> 65 \<le> n \<and> n \<le> 90 \<or> 97 \<le> n \<and> n \<le> 122)
     \<or> c \<in> set ''-_.~''"

definition percent :: "char \<Rightarrow> bytes" where
  "percent c = [CHR ''%'', digitChar (byteOf c div 16), digitChar (byteOf c mod 16)]"

definition PathEscape :: "bytes \<Rightarrow> bytes" where
  "PathEscape s = concat (map (\<lambda>c. if unreserved c \<or> c \<in> set ''$&+:=@'' then [c] else percent c) s)"

definition QueryEscape :: "bytes \<Rightarrow> bytes" where
  "QueryEscape s = concat (map (\<lambda>c. if c = CHR '' '' then ''+'' else if unreserved c then [c] else percent c) s)"

text \<open>\<open>url.Values\<close> with one value for each key, in any order, and its \<open>Encode\<close>.\<close>

type_synonym fields = "(bytes \<times> bytes) list"

definition Encode :: "fields \<Rightarrow> bytes" where
  "Encode fs = Join (map (\<lambda>(k, v). QueryEscape k @ ''='' @ QueryEscape v) (sort_key fst fs)) ''&''"

definition setIf :: "bytes \<Rightarrow> bytes \<Rightarrow> fields" where
  "setIf k s = (if s = [] then [] else [(k, s)])"

text \<open>An integer field that is left out unless positive.\<close>

definition setPos :: "bytes \<Rightarrow> int \<Rightarrow> fields" where
  "setPos k n = (if 0 < n then [(k, fmtInt n)] else [])"

section \<open>Calls\<close>

text \<open>A file part is its name and the local path; the server sees the last element of the path.\<close>

datatype http_body = NoBody | FormBody bytes | Multipart fields "(bytes \<times> bytes) list"

record http_call =
  hc_method :: bytes
  hc_path :: bytes
  hc_body :: http_body

datatype agent_call =
    SubmitRun (appAPK: bytes) (testAPK: bytes) (instrumentation: bytes) (onSerial: bytes) (timeoutS: int)
  | RunState bytes
  | ListDevices
  | TakeLease bytes int
  | LeaseState bytes
  | ReleaseLease bytes
  | Heartbeat bytes
  | Install bytes bytes
  | Shell bytes bytes int
  | Screenshot bytes
  | Logcat bytes int

definition leasePath :: "bytes \<Rightarrow> bytes \<Rightarrow> bytes" where
  "leasePath i rest = ''/api/v1/leases/'' @ PathEscape i @ rest"

definition plainCall :: "bytes \<Rightarrow> bytes \<Rightarrow> http_call" where
  "plainCall method path = \<lparr>hc_method = method, hc_path = path, hc_body = NoBody\<rparr>"

definition formCall :: "bytes \<Rightarrow> fields \<Rightarrow> http_call" where
  "formCall path fs = \<lparr>hc_method = ''POST'', hc_path = path, hc_body = FormBody (Encode fs)\<rparr>"

definition uploadCall :: "bytes \<Rightarrow> (bytes \<times> bytes) list \<Rightarrow> fields \<Rightarrow> http_call" where
  "uploadCall path files fs = \<lparr>hc_method = ''POST'', hc_path = path, hc_body = Multipart fs files\<rparr>"

fun agentCall :: "agent_call \<Rightarrow> http_call" where
  "agentCall (SubmitRun app test runner serial t) = uploadCall ''/api/v1/runs'' [(''app'', app), (''test'', test)]
     (setIf ''instrumentation'' runner @ setIf ''serial'' serial @ setPos ''timeout_s'' t)"
| "agentCall (RunState i) = plainCall ''GET'' (''/api/v1/runs/'' @ PathEscape i)"
| "agentCall ListDevices = plainCall ''GET'' ''/api/v1/devices''"
| "agentCall (TakeLease serial w) = formCall ''/api/v1/leases'' (setIf ''serial'' serial @ setPos ''wait_s'' w)"
| "agentCall (LeaseState i) = plainCall ''GET'' (leasePath i [])"
| "agentCall (ReleaseLease i) = plainCall ''DELETE'' (leasePath i [])"
| "agentCall (Heartbeat i) = plainCall ''POST'' (leasePath i ''/heartbeat'')"
| "agentCall (Install i apk) = uploadCall (leasePath i ''/install'') [(''apk'', apk)] []"
| "agentCall (Shell i command t) = formCall (leasePath i ''/shell'') ((''command'', command) # setPos ''timeout_s'' t)"
| "agentCall (Screenshot i) = plainCall ''GET'' (leasePath i ''/screenshot'')"
| "agentCall (Logcat i n) = plainCall ''GET'' (leasePath i ''/logcat'' @ (if 0 < n then ''?lines='' @ fmtInt n else []))"

section \<open>Results\<close>

datatype agent_error = LocalError goerr | ApiError int bytes

text \<open>
  The answer to a request: an error of the transport, or a status with a body or the error of reading it.
  \<open>errorField\<close> is the \<open>error\<close> of a JSON object, if the text is one (empty when it has none).
\<close>

type_synonym http_answer = "goerr + int \<times> (goerr + bytes)"

definition apiMessage :: "(bytes \<Rightarrow> bytes option) \<Rightarrow> bytes \<Rightarrow> bytes" where
  "apiMessage errorField data = (case errorField data of
     Some m \<Rightarrow> if m \<noteq> [] then m else TrimSpace data
   | None \<Rightarrow> TrimSpace data)"

definition do_call :: "(bytes \<Rightarrow> bytes option) \<Rightarrow> http_answer \<Rightarrow> agent_error + bytes" where
  "do_call errorField answer = (case answer of
     Inl er \<Rightarrow> Inl (LocalError er)
   | Inr (status, Inl er) \<Rightarrow> Inl (LocalError er)
   | Inr (status, Inr data) \<Rightarrow> if status div 100 \<noteq> 2 then Inl (ApiError status (apiMessage errorField data)) else Inr data)"

record agent_client =
  cl_baseURL :: bytes
  cl_apiKey :: bytes

record http_request = http_call +
  hr_base :: bytes
  hr_authorization :: bytes

text \<open>\<open>strings.TrimRight(s, "/")\<close>.\<close>

definition TrimRightSlash :: "bytes \<Rightarrow> bytes" where
  "TrimRightSlash s = rev (dropWhile (\<lambda>c. c = CHR ''/'') (rev s))"

definition newRequest :: "agent_client \<Rightarrow> http_call \<Rightarrow> http_request" where
  "newRequest c call = http_call.extend call
     (http_request.fields (TrimRightSlash (cl_baseURL c)) (''Bearer '' @ cl_apiKey c))"

text \<open>
  An agent call against the outside: \<open>stat\<close> is the error of looking at a local file, \<open>answer\<close> the answer
  to a request. A missing file ends an upload before anything is sent.
\<close>

definition missingFile :: "(bytes \<Rightarrow> goerr option) \<Rightarrow> http_body \<Rightarrow> goerr option" where
  "missingFile stat body = (case body of
     Multipart _ files \<Rightarrow> (case find (\<lambda>er. er \<noteq> None) (map (stat \<circ> snd) files) of Some er \<Rightarrow> er | None \<Rightarrow> None)
   | _ \<Rightarrow> None)"

definition perform :: "agent_client \<Rightarrow> (bytes \<Rightarrow> goerr option) \<Rightarrow> (http_request \<Rightarrow> http_answer) \<Rightarrow> (bytes \<Rightarrow> bytes option) \<Rightarrow>
    agent_call \<Rightarrow> http_request list \<times> (agent_error + bytes)" where
  "perform c stat answer errorField call = (let rq = newRequest c (agentCall call)
     in case missingFile stat (hc_body rq) of
       Some er \<Rightarrow> ([], Inl (LocalError er))
     | None \<Rightarrow> ([rq], do_call errorField (answer rq)))"

section \<open>What a server reads\<close>

text \<open>Percent decoding, in a query with \<open>+\<close> for a blank; a path split at its slashes; a form.\<close>

fun unescape :: "bool \<Rightarrow> bytes \<Rightarrow> bytes option" where
  "unescape q (CHR ''%'' # a # b # s) = (case (digitVal a, digitVal b) of
     (Some x, Some y) \<Rightarrow> if x < 16 \<and> y < 16 then map_option ((#) (char_of (16 * x + y))) (unescape q s) else None
   | _ \<Rightarrow> None)"
| "unescape q (c # s) = (if c = CHR ''%'' then None
     else map_option ((#) (if q \<and> c = CHR ''+'' then CHR '' '' else c)) (unescape q s))"
| "unescape q [] = Some []"

fun sequence :: "'a option list \<Rightarrow> 'a list option" where
  "sequence [] = Some []"
| "sequence (x # xs) = (case (x, sequence xs) of (Some y, Some ys) \<Rightarrow> Some (y # ys) | _ \<Rightarrow> None)"

definition parsePair :: "bytes \<Rightarrow> (bytes \<times> bytes) option" where
  "parsePair p = (case Cut p ''='' of
     None \<Rightarrow> None
   | Some (k, v) \<Rightarrow> (case (unescape True k, unescape True v) of (Some k, Some v) \<Rightarrow> Some (k, v) | _ \<Rightarrow> None))"

definition parseForm :: "bytes \<Rightarrow> fields option" where
  "parseForm s = (if s = [] then Some [] else sequence (map parsePair (Split s CHR ''&'')))"

definition parsePath :: "bytes \<Rightarrow> (bytes list \<times> fields) option" where
  "parsePath url = (let parts = Split url CHR ''?'';
       segments = sequence (map (unescape False) (tl (Split (hd parts) CHR ''/'')));
       fs = (case tl parts of [] \<Rightarrow> Some [] | [q] \<Rightarrow> parseForm q | _ \<Rightarrow> None)
     in case (segments, fs) of (Some segments, Some fs) \<Rightarrow> Some (segments, fs) | _ \<Rightarrow> None)"

lemma char_of_byteOf [simp]: "char_of (byteOf c) = c"
  by (simp add: byteOf_def)

lemma byteOf_hex:
  "byteOf c div 16 < 16" "digitVal (digitChar (byteOf c div 16)) = Some (byteOf c div 16)"
  "digitVal (digitChar (byteOf c mod 16)) = Some (byteOf c mod 16)" "char_of (16 * (byteOf c div 16) + byteOf c mod 16) = c"
proof -
  have "byteOf c < 256" unfolding byteOf_def by (metis of_char_mod_256 mod_less_divisor zero_less_numeral)
  then show d: "byteOf c div 16 < 16" by (simp add: div_less_iff_less_mult)
  then show "digitVal (digitChar (byteOf c div 16)) = Some (byteOf c div 16)" by (intro digitVal_digitChar) simp
  show "digitVal (digitChar (byteOf c mod 16)) = Some (byteOf c mod 16)"
    by (intro digitVal_digitChar) (simp add: order_less_trans [of _ 16])
  show "char_of (16 * (byteOf c div 16) + byteOf c mod 16) = c" by (simp add: byteOf_def)
qed

lemma unescape_percent [simp]: "unescape q (percent c @ s) = map_option ((#) c) (unescape q s)"
  by (simp add: percent_def byteOf_hex)

lemma unescape_plain: "c \<noteq> CHR ''%'' \<Longrightarrow>
    unescape q (c # s) = map_option ((#) (if q \<and> c = CHR ''+'' then CHR '' '' else c)) (unescape q s)"
  by (cases "(q, c # s)" rule: unescape.cases) auto

lemma unreserved_plain: "unreserved c \<Longrightarrow> c \<notin> set ''%+/?&= ''"
  by (auto simp: unreserved_def byteOf_def Let_def)

lemma unescape_PathEscape: "unescape False (PathEscape s) = Some s"
proof (induction s)
  case (Cons c s)
  then show ?case
    using unreserved_plain [of c] by (auto simp: PathEscape_def unescape_plain)
qed (simp add: PathEscape_def)

lemma unescape_QueryEscape: "unescape True (QueryEscape s) = Some s"
proof (induction s)
  case (Cons c s)
  then show ?case
    using unreserved_plain [of c] by (auto simp: QueryEscape_def unescape_plain)
qed (simp add: QueryEscape_def)

lemma digitChar_unreserved: "d < 16 \<Longrightarrow> unreserved (digitChar d)"
  by (auto simp: unreserved_def digitChar_def byteOf_def Let_def)

lemma percent_chars: "x \<in> set (percent c) \<Longrightarrow> unreserved x \<or> x = CHR ''%''"
  using digitChar_unreserved [OF byteOf_hex(1)] digitChar_unreserved [of "byteOf c mod 16"] by (auto simp: percent_def)

lemma QueryEscape_chars: "x \<in> set (QueryEscape s) \<Longrightarrow> unreserved x \<or> x \<in> set ''%+''"
  by (auto simp: QueryEscape_def dest!: percent_chars split: if_splits)

lemma PathEscape_chars: "x \<in> set (PathEscape s) \<Longrightarrow> unreserved x \<or> x \<in> set ''%$&+:=@''"
  by (auto simp: PathEscape_def dest!: percent_chars split: if_splits)

lemma PathEscape_separators: "CHR ''/'' \<notin> set (PathEscape s)" "CHR ''?'' \<notin> set (PathEscape s)"
  using PathEscape_chars [of "CHR ''/''" s] PathEscape_chars [of "CHR ''?''" s] unreserved_plain by auto

lemma QueryEscape_separators: "CHR ''&'' \<notin> set (QueryEscape s)" "CHR ''='' \<notin> set (QueryEscape s)" "CHR ''?'' \<notin> set (QueryEscape s)"
  using QueryEscape_chars [of "CHR ''&''" s] QueryEscape_chars [of "CHR ''=''" s] QueryEscape_chars [of "CHR ''?''" s]
    unreserved_plain by auto

lemma Cut_equals: "CHR ''='' \<notin> set a \<Longrightarrow> Cut (a @ CHR ''='' # b) ''='' = Some (a, b)"
proof -
  assume "CHR ''='' \<notin> set a"
  then have "Index (a @ CHR ''='' # b) ''='' = Some (length a)"
    by (induction a) (auto simp: HasPrefix_def)
  then show ?thesis by (simp add: Cut_def)
qed

lemma parsePair_escaped: "parsePair (QueryEscape k @ ''='' @ QueryEscape v) = Some (k, v)"
  by (simp add: parsePair_def Cut_equals QueryEscape_separators unescape_QueryEscape)

lemma sequence_map_Some: "(\<And>x. x \<in> set xs \<Longrightarrow> f (g x) = Some x) \<Longrightarrow> sequence (map f (map g xs)) = Some xs"
  by (induction xs) simp_all

lemma parseForm_Encode: "parseForm (Encode fs) = Some (sort_key fst fs)"
proof (cases "fs = []")
  case True
  then show ?thesis by (simp add: parseForm_def Encode_def)
next
  case False
  let ?g = "\<lambda>(k, v). QueryEscape k @ ''='' @ QueryEscape v"
  let ?fs = "sort_key fst fs"
  have ne: "?fs \<noteq> []" using False by (metis length_0_conv length_sort)
  have "Split (Join (map ?g ?fs) ''&'') CHR ''&'' = map ?g ?fs"
    using ne by (intro Split_Join) (auto simp: QueryEscape_separators)
  moreover have "sequence (map parsePair (map ?g ?fs)) = Some ?fs"
    by (intro sequence_map_Some) (auto simp: parsePair_escaped [simplified])
  moreover have "Join (map ?g ?fs) ''&'' \<noteq> []"
    using ne by (cases ?fs; cases "tl ?fs") auto
  ultimately show ?thesis by (simp add: parseForm_def Encode_def)
qed

lemma fmtInt_pos_chars: "0 < n \<Longrightarrow> x \<in> set (fmtInt n) \<Longrightarrow> unreserved x"
proof -
  have "x \<in> set (digitsIn 10 m) \<Longrightarrow> unreserved x" for m
  proof (induction m rule: less_induct)
    case (less m)
    have "digitsIn 10 m = (if m < 10 then [digitChar m] else digitsIn 10 (m div 10) @ [digitChar (m mod 10)])"
      by (subst digitsIn.simps) simp
    with less(2) less(1) [of "m div 10"] show ?case by (auto intro: digitChar_unreserved split: if_splits)
  qed
  then show "0 < n \<Longrightarrow> x \<in> set (fmtInt n) \<Longrightarrow> ?thesis" by (auto simp: fmtInt_def fmtNat_def)
qed

lemma QueryEscape_plain: "(\<And>x. x \<in> set s \<Longrightarrow> unreserved x) \<Longrightarrow> QueryEscape s = s"
  by (induction s) (use unreserved_plain in \<open>auto simp: QueryEscape_def\<close>)

section \<open>Calls arrive as they were made\<close>

text \<open>What a server reads of a request: method, path segments, query, form, files.\<close>

type_synonym reading = "bytes \<times> bytes list \<times> fields \<times> fields \<times> (bytes \<times> bytes) list"

definition readCall :: "http_call \<Rightarrow> reading option" where
  "readCall rq = (case (parsePath (hc_path rq), case hc_body rq of
       NoBody \<Rightarrow> Some ([], []) | FormBody s \<Rightarrow> map_option (\<lambda>fs. (fs, [])) (parseForm s)
     | Multipart fs files \<Rightarrow> Some (fs, files)) of
     (Some (segments, query), Some (fs, files)) \<Rightarrow> Some (hc_method rq, segments, query, fs, files)
   | _ \<Rightarrow> None)"

fun meaning :: "agent_call \<Rightarrow> reading" where
  "meaning (SubmitRun app test runner serial t) = (''POST'', [''api'', ''v1'', ''runs''], [],
     setIf ''instrumentation'' runner @ setIf ''serial'' serial @ setPos ''timeout_s'' t, [(''app'', app), (''test'', test)])"
| "meaning (RunState i) = (''GET'', [''api'', ''v1'', ''runs'', i], [], [], [])"
| "meaning ListDevices = (''GET'', [''api'', ''v1'', ''devices''], [], [], [])"
| "meaning (TakeLease serial w) = (''POST'', [''api'', ''v1'', ''leases''], [], setIf ''serial'' serial @ setPos ''wait_s'' w, [])"
| "meaning (LeaseState i) = (''GET'', [''api'', ''v1'', ''leases'', i], [], [], [])"
| "meaning (ReleaseLease i) = (''DELETE'', [''api'', ''v1'', ''leases'', i], [], [], [])"
| "meaning (Heartbeat i) = (''POST'', [''api'', ''v1'', ''leases'', i, ''heartbeat''], [], [], [])"
| "meaning (Install i apk) = (''POST'', [''api'', ''v1'', ''leases'', i, ''install''], [], [], [(''apk'', apk)])"
| "meaning (Shell i command t) = (''POST'', [''api'', ''v1'', ''leases'', i, ''shell''], [],
     (''command'', command) # setPos ''timeout_s'' t, [])"
| "meaning (Screenshot i) = (''GET'', [''api'', ''v1'', ''leases'', i, ''screenshot''], [], [], [])"
| "meaning (Logcat i n) = (''GET'', [''api'', ''v1'', ''leases'', i, ''logcat''], setPos ''lines'' n, [], [])"

definition pathOf :: "bytes list \<Rightarrow> bytes" where
  "pathOf es = CHR ''/'' # Join es ''/''"

definition escapes :: "bytes list \<Rightarrow> bytes list \<Rightarrow> bool" where
  "escapes es ss \<longleftrightarrow> es \<noteq> [] \<and> map (unescape False) es = map Some ss \<and>
     list_all (\<lambda>e. CHR ''/'' \<notin> set e \<and> CHR ''?'' \<notin> set e) es"

lemma sequence_Some: "sequence (map Some ss) = Some ss"
  by (induction ss) simp_all

lemma set_Join: "x \<in> set (Join es c) \<Longrightarrow> x \<in> set c \<or> (\<exists>e \<in> set es. x \<in> set e)"
  by (induction es c rule: Join.induct) auto

lemma parsePath_pathOf:
  assumes "escapes es ss"
  shows "parsePath (pathOf es) = Some (ss, [])"
    and "CHR ''?'' \<notin> set q \<Longrightarrow> parsePath (pathOf es @ CHR ''?'' # q) = map_option (Pair ss) (parseForm q)"
proof -
  have q: "CHR ''?'' \<notin> set (pathOf es)"
    using assms set_Join [of "CHR ''?''" es "''/''"] by (auto simp: pathOf_def escapes_def list_all_iff)
  have "Split (Join es ''/'') CHR ''/'' = es"
    using assms by (intro Split_Join) (auto simp: escapes_def list_all_iff)
  then have segments: "sequence (map (unescape False) (tl (Split (pathOf es) CHR ''/''))) = Some ss"
    using assms by (simp add: pathOf_def escapes_def sequence_Some)
  show "parsePath (pathOf es) = Some (ss, [])"
    by (simp add: parsePath_def Let_def Split_no_sep_single [OF q] segments)
  show "parsePath (pathOf es @ CHR ''?'' # q) = map_option (Pair ss) (parseForm q)" if "CHR ''?'' \<notin> set q"
    using Split_append_sep [of "pathOf es" "CHR ''?''" q] that
    by (simp add: parsePath_def Let_def Split_no_sep_single q segments split: option.split)
qed

lemma escapes_api:
  "escapes [''api'', ''v1'', ''runs''] [''api'', ''v1'', ''runs'']"
  "escapes [''api'', ''v1'', ''devices''] [''api'', ''v1'', ''devices'']"
  "escapes [''api'', ''v1'', ''leases''] [''api'', ''v1'', ''leases'']"
  "escapes [''api'', ''v1'', ''runs'', PathEscape i] [''api'', ''v1'', ''runs'', i]"
  "escapes [''api'', ''v1'', ''leases'', PathEscape i] [''api'', ''v1'', ''leases'', i]"
  "verb \<in> {''heartbeat'', ''install'', ''shell'', ''screenshot'', ''logcat''} \<Longrightarrow>
    escapes [''api'', ''v1'', ''leases'', PathEscape i, verb] [''api'', ''v1'', ''leases'', i, verb]"
  by (auto simp: escapes_def unescape_PathEscape PathEscape_separators)

lemma call_paths:
  "''/api/v1/runs'' = pathOf [''api'', ''v1'', ''runs'']" "''/api/v1/devices'' = pathOf [''api'', ''v1'', ''devices'']"
  "''/api/v1/leases'' = pathOf [''api'', ''v1'', ''leases'']"
  "''/api/v1/runs/'' @ PathEscape i = pathOf [''api'', ''v1'', ''runs'', PathEscape i]"
  "leasePath i [] = pathOf [''api'', ''v1'', ''leases'', PathEscape i]"
  "leasePath i (CHR ''/'' # verb) = pathOf [''api'', ''v1'', ''leases'', PathEscape i, verb]"
  by (simp_all add: pathOf_def leasePath_def)

lemma form_lines: "0 < n \<Longrightarrow> parseForm (''lines='' @ fmtInt n) = Some [(''lines'', fmtInt n)] \<and> CHR ''?'' \<notin> set (fmtInt n)"
proof -
  assume n: "0 < n"
  have "Encode [(''lines'', fmtInt n)] = ''lines='' @ fmtInt n"
    using QueryEscape_plain [OF fmtInt_pos_chars [OF n]] by (simp add: Encode_def QueryEscape_def unreserved_def byteOf_def)
  with parseForm_Encode [of "[(''lines'', fmtInt n)]"] show ?thesis
    using fmtInt_pos_chars [OF n] unreserved_plain [of "CHR ''?''"] by auto
qed

definition sortedForm :: "reading \<Rightarrow> reading" where
  "sortedForm r = (case r of (m, segments, query, fs, files) \<Rightarrow> (m, segments, query, sort_key fst fs, files))"

lemma sort_key_twice: "sort_key fst (sort_key fst fs) = sort_key fst (fs :: fields)"
  by (rule sort_key_id_if_sorted) simp

text \<open>
  A call of the agent client arrives as it was made. What a server reads of the request, its path split
  at slashes and percent-decoded, its query and its form, is the call: an id, a serial or a command is never
  more than that one segment or field, whatever characters it has, and the fields of a form come by name.
\<close>

theorem agent_calls_arrive:
  "map_option sortedForm (readCall (agentCall call)) = Some (sortedForm (meaning call))"
proof (cases call)
  case (RunState i)
  have "parsePath (hc_path (agentCall (RunState i))) = Some ([''api'', ''v1'', ''runs'', i], [])"
    using parsePath_pathOf(1) [OF escapes_api(4) [of i]] by (simp only: agentCall.simps plainCall_def call_paths http_call.simps)
  then show ?thesis by (simp add: RunState readCall_def plainCall_def)
next
  case (Logcat i n)
  show ?thesis
  proof (cases "0 < n")
    case True
    have "parsePath (leasePath i ''/logcat'' @ ''?lines='' @ fmtInt n) =
        Some ([''api'', ''v1'', ''leases'', i, ''logcat''], [(''lines'', fmtInt n)])"
      using parsePath_pathOf(2) [OF escapes_api(6) [of "''logcat''" i], of "''lines='' @ fmtInt n"] form_lines [OF True]
      by (simp add: call_paths(6))
    then show ?thesis by (simp add: Logcat readCall_def plainCall_def True setPos_def)
  next
    case False
    then show ?thesis
      using parsePath_pathOf(1) [OF escapes_api(6) [of "''logcat''" i]]
      by (simp add: Logcat readCall_def plainCall_def setPos_def call_paths)
  qed
qed (simp_all add: readCall_def plainCall_def formCall_def uploadCall_def call_paths parsePath_pathOf(1) [OF escapes_api(1)]
    parsePath_pathOf(1) [OF escapes_api(2)] parsePath_pathOf(1) [OF escapes_api(3)] parsePath_pathOf(1) [OF escapes_api(5)]
    parsePath_pathOf(1) [OF escapes_api(6)] parseForm_Encode sortedForm_def sort_key_twice
    sort_key_twice [of "x # fs" for x fs, simplified])

end
