(* ===== verification/AgentTools.thy ===== *)
theory AgentTools
  imports AgentApi
begin

text \<open>
  \<open>internal/agentmcp/server.go\<close>: the tools an agent calls, each a call or two of \<open>AgentApi\<close>, and the
  keeper, which heartbeats the leases taken through them. A lease has a goroutine of its own; the keeper is
  the machine whose steps are what those goroutines and the tools do, in any order.
\<close>

section \<open>The keeper\<close>

text \<open>
  Goroutine \<open>g\<close> keeps the lease \<open>kp_ids k ! g\<close>. \<open>kp_stop\<close> is the map of cancel functions, each
  given by its goroutine; \<open>kp_beats\<close> are the heartbeats begun so far, by lease.
\<close>

record keeper =
  kp_stop :: "bytes \<Rightarrow> nat option"
  kp_ids :: "bytes list"
  kp_cancelled :: "nat list"
  kp_busy :: "nat list"
  kp_ended :: "nat list"
  kp_beats :: "bytes list"

definition newKeeper :: keeper where
  "newKeeper = \<lparr>kp_stop = (\<lambda>_. None), kp_ids = [], kp_cancelled = [], kp_busy = [], kp_ended = [], kp_beats = []\<rparr>"

definition keep :: "bytes \<Rightarrow> keeper \<Rightarrow> keeper" where
  "keep i k = k\<lparr>kp_stop := (kp_stop k)(i := Some (length (kp_ids k))), kp_ids := kp_ids k @ [i]\<rparr>"

definition drop_lease :: "bytes \<Rightarrow> keeper \<Rightarrow> keeper" where
  "drop_lease i k = (case kp_stop k i of
     None \<Rightarrow> k
   | Some g \<Rightarrow> k\<lparr>kp_stop := (kp_stop k)(i := None), kp_cancelled := g # kp_cancelled k\<rparr>)"

text \<open>
  A goroutine whose interval is over begins a heartbeat; a cancelled context sends none. It ends on an answer
  that the lease is over or gone, or when it is cancelled, and then drops its lease.
\<close>

datatype keeper_event = KeepLease bytes | DropLease bytes | BeatBegin nat | BeatEnd nat bool | Quit nat

definition running :: "keeper \<Rightarrow> nat \<Rightarrow> bool" where
  "running k g \<longleftrightarrow> g < length (kp_ids k) \<and> g \<notin> set (kp_ended k)"

definition finishKeeping :: "nat \<Rightarrow> keeper \<Rightarrow> keeper" where
  "finishKeeping g k = drop_lease (kp_ids k ! g) (k\<lparr>kp_ended := g # kp_ended k\<rparr>)"

fun keeperStep :: "keeper \<Rightarrow> keeper_event \<Rightarrow> keeper option" where
  "keeperStep k (KeepLease i) = Some (keep i k)"
| "keeperStep k (DropLease i) = Some (drop_lease i k)"
| "keeperStep k (BeatBegin g) = (if running k g \<and> g \<notin> set (kp_busy k) \<and> g \<notin> set (kp_cancelled k)
     then Some (k\<lparr>kp_busy := g # kp_busy k, kp_beats := kp_beats k @ [kp_ids k ! g]\<rparr>) else None)"
| "keeperStep k (BeatEnd g gone) = (if running k g \<and> g \<in> set (kp_busy k)
     then let k = k\<lparr>kp_busy := removeAll g (kp_busy k)\<rparr> in Some (if gone then finishKeeping g k else k) else None)"
| "keeperStep k (Quit g) = (if running k g \<and> g \<notin> set (kp_busy k) \<and> g \<in> set (kp_cancelled k)
     then Some (finishKeeping g k) else None)"

fun keeperRun :: "keeper \<Rightarrow> keeper_event list \<Rightarrow> keeper option" where
  "keeperRun k [] = Some k"
| "keeperRun k (ev # evs) = (case keeperStep k ev of None \<Rightarrow> None | Some k' \<Rightarrow> keeperRun k' evs)"

section \<open>The tools\<close>

datatype tool_result = ToolText bytes | ToolImage bytes | ToolError agent_error | NoRunId bytes | ToolCtx goerr

definition reply :: "agent_error + bytes \<Rightarrow> tool_result" where
  "reply r = (case r of Inl er \<Rightarrow> ToolError er | Inr b \<Rightarrow> ToolText b)"

datatype tool_call = ToolDevices | LeaseDevice bytes int | ReleaseDevice bytes | InstallApk bytes bytes
  | ToolShell bytes bytes int | ToolScreenshot bytes | ToolLogcat bytes int

text \<open>\<open>idField\<close> is the \<open>id\<close> of a JSON object, if the text is one; \<open>api\<close> is what the agent API answers.\<close>

fun callTool :: "(bytes \<Rightarrow> bytes option) \<Rightarrow> (agent_call \<Rightarrow> agent_error + bytes) \<Rightarrow> tool_call \<Rightarrow> keeper \<Rightarrow> tool_result \<times> keeper" where
  "callTool idField api ToolDevices k = (reply (api ListDevices), k)"
| "callTool idField api (LeaseDevice serial w) k = (case api (TakeLease serial w) of
     Inl er \<Rightarrow> (ToolError er, k)
   | Inr body \<Rightarrow> (ToolText body, case idField body of Some i \<Rightarrow> if i \<noteq> [] then keep i k else k | None \<Rightarrow> k))"
| "callTool idField api (ReleaseDevice i) k = (reply (api (ReleaseLease i)), drop_lease i k)"
| "callTool idField api (InstallApk i apk) k = (reply (api (Install i apk)), k)"
| "callTool idField api (ToolShell i command t) k = (reply (api (Shell i command t)), k)"
| "callTool idField api (ToolScreenshot i) k = (case api (Screenshot i) of
     Inl er \<Rightarrow> (ToolError er, k) | Inr png \<Rightarrow> (ToolImage png, k))"
| "callTool idField api (ToolLogcat i n) k = (reply (api (Logcat i n)), k)"

text \<open>
  \<open>run_tests\<close>: the answer to the submission, then for each poll its answer and, if the context ended in the
  wait after it, that error. \<open>None\<close>: still polling. \<open>statusField\<close> is the \<open>status\<close> of a JSON object.
\<close>

fun pollRun :: "(bytes \<Rightarrow> bytes) \<Rightarrow> ((agent_error + bytes) \<times> goerr option) list \<Rightarrow> tool_result option" where
  "pollRun statusField [] = None"
| "pollRun statusField ((Inl er, _) # ps) = Some (ToolError er)"
| "pollRun statusField ((Inr run, ctx) # ps) =
     (if statusField run \<notin> {''queued'', ''running''} then Some (ToolText run)
      else (case ctx of Some er \<Rightarrow> Some (ToolCtx er) | None \<Rightarrow> pollRun statusField ps))"

definition runTests :: "(bytes \<Rightarrow> bytes option) \<Rightarrow> (bytes \<Rightarrow> bytes) \<Rightarrow> agent_error + bytes \<Rightarrow>
    (bytes \<Rightarrow> ((agent_error + bytes) \<times> goerr option) list) \<Rightarrow> tool_result option" where
  "runTests idField statusField submitted polls = (case submitted of
     Inl er \<Rightarrow> Some (ToolError er)
   | Inr body \<Rightarrow> (case idField body of
       None \<Rightarrow> Some (NoRunId body)
     | Some i \<Rightarrow> if i = [] then Some (NoRunId body) else pollRun statusField (polls i)))"

section \<open>Leases are kept alive\<close>

text \<open>The leases to keep alive, from what happened: taken, not released, and not answered as over or gone.\<close>

fun heldFrom :: "bytes list \<Rightarrow> bytes set \<Rightarrow> keeper_event list \<Rightarrow> bytes set" where
  "heldFrom ids H [] = H"
| "heldFrom ids H (KeepLease i # evs) = heldFrom (ids @ [i]) (insert i H) evs"
| "heldFrom ids H (DropLease i # evs) = heldFrom ids (H - {i}) evs"
| "heldFrom ids H (BeatEnd g True # evs) = heldFrom ids (H - {ids ! g}) evs"
| "heldFrom ids H (_ # evs) = heldFrom ids H evs"

definition taken :: "keeper_event list \<Rightarrow> bytes list" where
  "taken evs = concat (map (\<lambda>ev. case ev of KeepLease i \<Rightarrow> [i] | _ \<Rightarrow> []) evs)"

text \<open>Ids are new, and the map of cancel functions is exactly the goroutines nobody has cancelled or ended.\<close>

definition keeper_ok :: "keeper \<Rightarrow> bool" where
  "keeper_ok k \<longleftrightarrow> distinct (kp_ids k) \<and>
     set (kp_cancelled k) \<union> set (kp_ended k) \<subseteq> {..<length (kp_ids k)} \<and>
     (\<forall>i g. kp_stop k i = Some g \<longleftrightarrow> running k g \<and> g \<notin> set (kp_cancelled k) \<and> kp_ids k ! g = i)"

lemma keeper_ok_new: "keeper_ok newKeeper"
  by (simp add: keeper_ok_def newKeeper_def running_def)

lemma drop_lease_frame [simp]: "kp_ids (drop_lease i k) = kp_ids k"
  by (simp add: drop_lease_def split: option.split)

lemma keeper_ok_nth:
  "keeper_ok k \<Longrightarrow> g < length (kp_ids k) \<Longrightarrow> h < length (kp_ids k) \<Longrightarrow> kp_ids k ! g = kp_ids k ! h \<Longrightarrow> g = h"
  by (simp add: keeper_ok_def nth_eq_iff_index_eq)

lemma keeper_ok_drop: "keeper_ok k \<Longrightarrow> keeper_ok (drop_lease i k) \<and> dom (kp_stop (drop_lease i k)) = dom (kp_stop k) - {i}"
  using keeper_ok_nth [of k] by (auto simp: keeper_ok_def drop_lease_def running_def split: option.split)

lemma keeper_ok_keep: "keeper_ok k \<Longrightarrow> i \<notin> set (kp_ids k) \<Longrightarrow> keeper_ok (keep i k)"
  by (auto simp: keeper_ok_def keep_def running_def nth_append less_Suc_eq)

lemma keeper_ok_stop:
  assumes "keeper_ok k" "running k g"
  shows "kp_stop k (kp_ids k ! g) = (if g \<in> set (kp_cancelled k) then None else Some g)"
proof -
  have "kp_stop k (kp_ids k ! g) = Some h \<longleftrightarrow> h = g \<and> g \<notin> set (kp_cancelled k)" for h
  proof -
    have "kp_stop k (kp_ids k ! g) = Some h \<longleftrightarrow> running k h \<and> h \<notin> set (kp_cancelled k) \<and> kp_ids k ! h = kp_ids k ! g"
      using assms(1) by (simp add: keeper_ok_def)
    moreover have "running k h \<and> kp_ids k ! h = kp_ids k ! g \<longleftrightarrow> h = g"
      using assms(2) keeper_ok_nth [OF assms(1), of h g] by (auto simp: running_def)
    ultimately show ?thesis by blast
  qed
  then show ?thesis by (cases "kp_stop k (kp_ids k ! g)") auto
qed

lemma keeper_ok_finish:
  assumes "keeper_ok k" "running k g"
  shows "keeper_ok (finishKeeping g k) \<and> dom (kp_stop (finishKeeping g k)) = dom (kp_stop k) - {kp_ids k ! g} \<and>
    kp_ids (finishKeeping g k) = kp_ids k"
proof -
  note stop = keeper_ok_stop [OF assms]
  have inj: "h = g" if "h < length (kp_ids k)" "kp_ids k ! h = kp_ids k ! g" for h
    using that assms(2) keeper_ok_nth [OF assms(1), of h g] by (simp add: running_def)
  show ?thesis
    using assms
    by (auto simp: finishKeeping_def drop_lease_def stop keeper_ok_def running_def dom_def split: if_splits dest: inj)
qed

lemma keeperRun_held:
  assumes "keeperRun k evs = Some k'" "keeper_ok k" "distinct (kp_ids k @ taken evs)"
  shows "keeper_ok k' \<and> dom (kp_stop k') = heldFrom (kp_ids k) (dom (kp_stop k)) evs"
  using assms
proof (induction evs arbitrary: k)
  case Nil
  then show ?case by simp
next
  case (Cons ev evs)
  from Cons.prems(1) obtain k1 where k1: "keeperStep k ev = Some k1" "keeperRun k1 evs = Some k'"
    by (auto split: option.splits)
  have step: "keeper_ok k1 \<and> kp_ids k1 @ taken evs = kp_ids k @ taken (ev # evs) \<and>
      heldFrom (kp_ids k1) (dom (kp_stop k1)) evs = heldFrom (kp_ids k) (dom (kp_stop k)) (ev # evs)"
  proof (cases ev)
    case (KeepLease i)
    then show ?thesis
      using k1(1) Cons.prems(2,3) keeper_ok_keep [of k i] by (auto simp: taken_def keep_def)
  next
    case (DropLease i)
    then show ?thesis
      using k1(1) keeper_ok_drop [OF Cons.prems(2), of i] by (auto simp: taken_def)
  next
    case (BeatEnd g gone)
    let ?k = "k\<lparr>kp_busy := removeAll g (kp_busy k)\<rparr>"
    have ok: "keeper_ok ?k" "running ?k g = running k g"
      using Cons.prems(2) by (simp_all add: keeper_ok_def running_def)
    show ?thesis
      using k1(1) BeatEnd ok keeper_ok_finish [OF ok(1), of g]
      by (cases gone) (auto simp: taken_def Let_def split: if_splits)
  next
    case (Quit g)
    have "kp_ids k ! g \<notin> dom (kp_stop k)" if "running k g" "g \<in> set (kp_cancelled k)"
      using keeper_ok_stop [OF Cons.prems(2) that(1)] that(2) by (simp add: domIff)
    then show ?thesis
      using k1(1) Quit keeper_ok_finish [OF Cons.prems(2), of g] by (auto simp: taken_def split: if_splits)
  qed (use k1(1) Cons.prems(2) in \<open>auto simp: taken_def keeper_ok_def running_def split: if_splits\<close>)
  with Cons.IH [OF k1(2)] Cons.prems(3) show ?case by simp
qed

text \<open>
  C40. Every lease is kept alive until it is over, and no longer. After any interleaving of the tools and the
  keeper's goroutines, a lease that was taken, was not released and was never answered as ended or gone has
  a goroutine that is in a heartbeat or can begin one; and a heartbeat can only begin for such a lease.
  (The API gives every lease an id of its own.)
\<close>

theorem leases_kept_alive:
  assumes "keeperRun newKeeper evs = Some k" and "distinct (taken evs)"
  shows "(i \<in> heldFrom [] {} evs \<longrightarrow> (\<exists>g. kp_ids k ! g = i \<and>
      (keeperStep k (BeatBegin g) \<noteq> None \<or> keeperStep k (BeatEnd g gone) \<noteq> None))) \<and>
    (keeperStep k (BeatBegin g) \<noteq> None \<longrightarrow> kp_ids k ! g \<in> heldFrom [] {} evs)"
proof -
  have k: "keeper_ok k" "dom (kp_stop k) = heldFrom [] {} evs"
    using keeperRun_held [OF assms(1) keeper_ok_new] assms(2) by (simp_all add: newKeeper_def)
  have starts: "kp_ids k ! g \<in> dom (kp_stop k)" if "keeperStep k (BeatBegin g) \<noteq> None"
    using keeper_ok_stop [OF k(1), of g] that by (simp add: domIff split: if_splits)
  have "\<exists>g. kp_ids k ! g = i \<and> (keeperStep k (BeatBegin g) \<noteq> None \<or> keeperStep k (BeatEnd g gone) \<noteq> None)"
    if "i \<in> dom (kp_stop k)"
  proof -
    from that obtain g where "kp_stop k i = Some g" by blast
    then have "running k g" "g \<notin> set (kp_cancelled k)" "kp_ids k ! g = i"
      using k(1) by (simp_all add: keeper_ok_def)
    then show ?thesis by (intro exI [of _ g]) (simp add: Let_def)
  qed
  with starts show ?thesis unfolding k(2) by blast
qed

theorem leases_kept_alive_witness:
  "\<exists>k. keeperRun newKeeper [KeepLease ''a'', KeepLease ''b'', BeatBegin 0, DropLease ''a'', BeatEnd 0 False] = Some k \<and>
     keeperStep k (BeatBegin 0) = None \<and> keeperStep k (BeatBegin 1) \<noteq> None"
proof -
  let ?evs = "[KeepLease ''a'', KeepLease ''b'', BeatBegin 0, DropLease ''a'', BeatEnd 0 False]"
  obtain k where k: "keeperRun newKeeper ?evs = Some k" "kp_ids k = [''a'', ''b'']" "keeperStep k (BeatBegin 1) \<noteq> None"
    by (simp add: newKeeper_def keep_def drop_lease_def running_def)
  have "keeperStep k (BeatBegin 0) = None"
    using leases_kept_alive [OF k(1), of "''b''" True 0] k(2) by (auto simp: taken_def)
  with k show ?thesis by blast
qed

end
