(* ===== verification/LogLevel.thy ===== *)
theory LogLevel
  imports Logging GoTime GoStatus
begin

text \<open>
  \<open>internal/logging/level.go\<close> and \<open>KeepRecent\<close> of \<open>recent.go\<close>: the level the environment sets, by
  \<open>slog.Level.UnmarshalText\<close>, and the default logger's writer once it is teed into the ring.
\<close>

section \<open>The level\<close>

definition LevelDebug :: int where "LevelDebug = - 4"
definition LevelInfo :: int where "LevelInfo = 0"
definition LevelWarn :: int where "LevelWarn = 4"
definition LevelError :: int where "LevelError = 8"

text \<open>
  \<open>strings.ToUpper\<close> as far as the names of the levels can tell: of the letters past ASCII only the dotless i
  (\<open>C4 B1\<close>) becomes a letter of one, and what else there is stays different from all of them.
\<close>

fun upperName :: "bytes \<Rightarrow> bytes" where
  "upperName [] = []"
| "upperName [c] = [if 97 \<le> byte c \<and> byte c \<le> 122 then char_of (byte c - 32) else c]"
| "upperName (c # d # s) = (if c = CHR 0xC4 \<and> d = CHR 0xB1 then CHR ''I'' # upperName s
     else (if 97 \<le> byte c \<and> byte c \<le> 122 then char_of (byte c - 32) else c) # upperName (d # s))"

definition levelOf :: "bytes \<Rightarrow> int option" where
  "levelOf name = map_of [(''DEBUG'', LevelDebug), (''INFO'', LevelInfo), (''WARN'', LevelWarn), (''ERROR'', LevelError)]
     (upperName name)"

text \<open>
  \<open>UnmarshalText\<close>: a name, with an offset from the first sign on. A level is a 64-bit \<open>int\<close>, so the sum wraps.
\<close>

definition isSign :: "char \<Rightarrow> bool" where
  "isSign c \<longleftrightarrow> c = CHR ''+'' \<or> c = CHR ''-''"

definition UnmarshalText :: "bytes \<Rightarrow> int option" where
  "UnmarshalText s = (let name = takeWhile (\<lambda>c. \<not> isSign c) s; sign = dropWhile (\<lambda>c. \<not> isSign c) s in
     case (if sign = [] then POk 0 else Atoi sign) of
       POk offset \<Rightarrow> map_option (\<lambda>l. sint (word_of_int (l + offset) :: 64 word)) (levelOf name)
     | _ \<Rightarrow> None)"

definition parseLevel :: "(bytes \<Rightarrow> bool) \<Rightarrow> bytes \<Rightarrow> int \<times> bytes option" where
  "parseLevel isPrint v = (if v = [] then (LevelInfo, None)
     else (case UnmarshalText v of
         None \<Rightarrow> (LevelInfo, Some (Quote isPrint v @ '' is not debug, info, warn or error''))
       | Some l \<Rightarrow> (l, None)))"

text \<open>The level of the default logger afterwards, and the text of the warning.\<close>

definition SetLevelFromEnv :: "(bytes \<Rightarrow> bool) \<Rightarrow> bytes \<Rightarrow> int \<Rightarrow> int \<times> bytes option" where
  "SetLevelFromEnv isPrint v now = (case parseLevel isPrint v of
       (_, Some warning) \<Rightarrow> (now, Some warning)
     | (l, None) \<Rightarrow> (l, None))"

lemma levelOf_names:
  "levelOf ''debug'' = Some LevelDebug" "levelOf ''DEBUG'' = Some LevelDebug" "levelOf ''info'' = Some LevelInfo"
  "levelOf ''Info'' = Some LevelInfo" "levelOf ''warn'' = Some LevelWarn" "levelOf ''error'' = Some LevelError"
  "levelOf ''verbose'' = None"
  by code_simp+

text \<open>
  What the usage text lists is what is set: each of the four names, in small or capital letters, and the default for
  an empty value.
\<close>

lemma SetLevelFromEnv_documented:
  "SetLevelFromEnv isPrint ''debug'' now = (LevelDebug, None)" "SetLevelFromEnv isPrint ''DEBUG'' now = (LevelDebug, None)"
  "SetLevelFromEnv isPrint ''info'' now = (LevelInfo, None)" "SetLevelFromEnv isPrint [] now = (LevelInfo, None)"
  "SetLevelFromEnv isPrint ''warn'' now = (LevelWarn, None)" "SetLevelFromEnv isPrint ''error'' now = (LevelError, None)"
  "fst (SetLevelFromEnv isPrint ''verbose'' now) = now"
  by (simp_all add: SetLevelFromEnv_def parseLevel_def UnmarshalText_def levelOf_names isSign_def
      LevelDebug_def LevelInfo_def LevelWarn_def LevelError_def)

text \<open>
  A value that is none of them but sets a level without a warning: an offset, which can put the level above every
  message the program logs.
\<close>

theorem parseLevel_takes_offsets:
  "parseLevel isPrint ''error+1'' = (9, None) \<and> parseLevel isPrint ''Info-4'' = (LevelDebug, None)"
  by (simp add: parseLevel_def UnmarshalText_def levelOf_names isSign_def Atoi_def ParseInt_def signOf_def digitVal_def
      LevelDebug_def LevelInfo_def LevelWarn_def LevelError_def)

section \<open>The writer of the default logger\<close>

text \<open>
  \<open>KeepRecent\<close> makes it \<open>io.MultiWriter(os.Stderr, Recent)\<close>: what was written to standard error, all of it and
  without an error, is written to the ring too. An entry comes with what the first write returned.
\<close>

definition KeepRecent :: "ring \<Rightarrow> bytes \<times> (goerr option \<times> nat) \<Rightarrow> ring" where
  "KeepRecent r entry = (case entry of (p, err, n) \<Rightarrow> if err \<noteq> None \<or> n \<noteq> length p then r else fst (Ring_Write r p))"

text \<open>The excerpt of a failure is of the last 500 lines that standard error took, whole and in order.\<close>

theorem KeepRecent_exact:
  "Ring_Lines (foldl KeepRecent Recent entries) match =
     map RedactSecrets (filter (\<lambda>line. match = [] \<or> containsAny line match)
       (lastn 500 (written_lines [p. (p, err, n) \<leftarrow> entries, err = None \<and> n = length p])))"
proof -
  have "foldl KeepRecent r entries =
      foldl (\<lambda>r p. fst (Ring_Write r p)) r [p. (p, err, n) \<leftarrow> entries, err = None \<and> n = length p]" for r
    by (induction entries arbitrary: r) (auto simp: KeepRecent_def)
  then show ?thesis by (simp add: Recent_Lines_exact)
qed

end
