(* ===== verification/UpdateClient.thy ===== *)
theory UpdateClient
  imports Updater
begin

text \<open>
  The rest of \<open>internal/updater/updater.go\<close>: the HTTP client with its redirect policy, the token, the two
  requests and the probe of the directory; and \<open>CheckAndUpdate\<close> with all its effects, which refines the decision
  of \<open>Updater\<close>. What GitHub and the network answer is a function of a step number; a request takes at
  least a nanosecond.
\<close>

section \<open>The client\<close>

record http_req =
  hr_url :: bytes
  hr_host :: bytes
  hr_headers :: "bytes \<rightharpoonup> bytes"

datatype get_answer = Answered nat bytes | Redirected (redirect_url: bytes) (redirect_host: bytes) | Unanswered goerr

text \<open>
  \<open>nt_copies\<close> is whether \<open>net/http\<close> copies the sensitive headers of the first request to the next hop of a
  redirect, which it decides by its own rules before it asks \<open>CheckRedirect\<close>; the other headers it always copies.
\<close>

record net =
  nt_answer :: "nat \<Rightarrow> http_req \<Rightarrow> get_answer"
  nt_took :: "nat \<Rightarrow> nat"
  nt_copies :: "nat \<Rightarrow> bool"
  nt_timeout :: goerr

definition Authorization :: bytes where
  "Authorization = ''Authorization''"

text \<open>\<open>CheckRedirect\<close> of \<open>newClient\<close>: \<open>via\<close> begins with the request first made. It never refuses.\<close>

definition CheckRedirect :: "http_req \<Rightarrow> http_req list \<Rightarrow> http_req" where
  "CheckRedirect req via = (if via \<noteq> [] \<and> hr_host req \<noteq> hr_host (hd via)
     then req\<lparr>hr_headers := (hr_headers req)(Authorization := None)\<rparr> else req)"

text \<open>The next request of a redirect: the headers of the first one, as far as \<open>net/http\<close> copies them.\<close>

definition nextHop :: "net \<Rightarrow> http_req list \<Rightarrow> http_req \<Rightarrow> bytes \<Rightarrow> bytes \<Rightarrow> http_req" where
  "nextHop nt via req url host = (let headers = hr_headers (hd (via @ [req])) in
     CheckRedirect \<lparr>hr_url = url, hr_host = host,
       hr_headers = (if nt_copies nt (length via) then headers else headers(Authorization := None))\<rparr> (via @ [req]))"

text \<open>
  \<open>newClient(timeout).Do(req)\<close>: redirects are followed until there is another answer or the time is over. The result
  is every request that was sent, and the answer.
\<close>

function Do :: "net \<Rightarrow> nat \<Rightarrow> http_req list \<Rightarrow> http_req \<Rightarrow> http_req list \<times> (goerr + nat \<times> bytes)" where
  "Do nt left via req = (let n = length via; took = max 1 (nt_took nt n) in
     if left \<le> took then ([req], Inl (nt_timeout nt))
     else (case nt_answer nt n req of
         Unanswered er \<Rightarrow> ([req], Inl er)
       | Answered st body \<Rightarrow> ([req], Inr (st, body))
       | Redirected url host \<Rightarrow>
           let (sent, r) = Do nt (left - took) (via @ [req]) (nextHop nt via req url host)
           in (req # sent, r)))"
  by pat_completeness auto
termination
  by (relation "measure (\<lambda>(nt, left, via, req). left)") auto

declare Do.simps [simp del]

definition addAuth :: "bytes \<Rightarrow> http_req \<Rightarrow> http_req" where
  "addAuth token req = (if token = [] then req
     else req\<lparr>hr_headers := (hr_headers req)(Authorization \<mapsto> ''Bearer '' @ token)\<rparr>)"

section \<open>The two requests\<close>

text \<open>
  \<open>ce_parse\<close> is what \<open>http.NewRequest\<close> says of a URL, \<open>ce_decode\<close> the \<open>tag_name\<close> that \<open>encoding/json\<close> reads,
  \<open>ce_open\<close> what gzip and tar read from a body.
\<close>

record client_env =
  ce_token :: bytes
  ce_latest :: net
  ce_archive :: net
  ce_platform :: bytes
  ce_parse :: "bytes \<Rightarrow> goerr option"
  ce_decode :: "bytes \<Rightarrow> goerr + bytes"
  ce_open :: "bytes \<Rightarrow> download_env"
  ce_probe :: "goerr + bytes"
  ce_unremoved :: "goerr option"

definition repo :: bytes where
  "repo = ''compscidr/sair''"

definition latestRequest :: "bytes \<Rightarrow> http_req" where
  "latestRequest token = addAuth token \<lparr>hr_url = ''https://api.github.com/repos/'' @ repo @ ''/releases/latest'',
     hr_host = ''api.github.com'', hr_headers = [''Accept'' \<mapsto> ''application/vnd.github+json'']\<rparr>"

definition fetchLatestVersion :: "client_env \<Rightarrow> http_req list \<times> (goerr + bytes)" where
  "fetchLatestVersion c = (case Do (ce_latest c) (10 * 10 ^ 9) [] (latestRequest (ce_token c)) of
       (sent, Inl er) \<Rightarrow> (sent, Inl er)
     | (sent, Inr (st, body)) \<Rightarrow> (sent,
         if st \<noteq> 200 then Inl (Plain (''GitHub API returned '' @ fmtNat st))
         else (case ce_decode c body of
             Inl er \<Rightarrow> Inl er
           | Inr tag \<Rightarrow> if tag = [] then Inl (Plain ''GitHub API returned empty tag_name'') else Inr tag)))"

definition archiveURL :: "bytes \<Rightarrow> bytes \<Rightarrow> bytes" where
  "archiveURL platform tag = ''https://github.com/'' @ repo @ ''/releases/download/'' @ tag @ ''/sair-'' @ platform @ ''.tar.gz''"

definition downloadFrom :: "client_env \<Rightarrow> fs \<Rightarrow> bytes \<Rightarrow> bytes \<Rightarrow> bytes \<Rightarrow> http_req list \<times> fs \<times> goerr option" where
  "downloadFrom c f tag binaryName execPath = (let url = archiveURL (ce_platform c) tag in
     case ce_parse c url of
       Some er \<Rightarrow> ([], f, Some er)
     | None \<Rightarrow> (case Do (ce_archive c) (120 * 10 ^ 9) []
           (addAuth (ce_token c) \<lparr>hr_url = url, hr_host = ''github.com'', hr_headers = Map.empty\<rparr>) of
         (sent, Inl er) \<Rightarrow> (sent, f, Some er)
       | (sent, Inr (st, body)) \<Rightarrow>
           (sent, downloadAndReplace ((ce_open c body)\<lparr>de_status := Inr st\<rparr>) f binaryName execPath)))"

text \<open>A file that cannot be removed again stays, and is no obstacle.\<close>

definition isWritable :: "client_env \<Rightarrow> fs \<Rightarrow> fs \<times> bool" where
  "isWritable c f = (case ce_probe c of
       Inl _ \<Rightarrow> (f, False)
     | Inr name \<Rightarrow> (if ce_unremoved c = None then f(name := None) else f(name \<mapsto> ([], 384)), True))"

text \<open>
  \<open>CheckAndUpdate\<close> with its requests and the files it leaves. Of the update's environment it reads the version, the
  variables, the path of the executable and what \<open>syscall.Exec\<close> answers when it returns at all.
\<close>

definition SelfUpdate :: "client_env \<Rightarrow> update_env \<Rightarrow> fs \<Rightarrow> bytes \<Rightarrow> update_outcome \<times> http_req list \<times> fs" where
  "SelfUpdate c e f binaryName = (let go_on = Continue False (ue_just_updated e) in
     if ue_version e = ''dev'' then (go_on, [], f)
     else if foldCase (ue_auto_update e) = ''false'' then (go_on, [], f)
     else if ue_just_updated e = ''1'' then (Continue True [], [], f)
     else (case fetchLatestVersion c of
         (sent, Inl _) \<Rightarrow> (go_on, sent, f)
       | (sent, Inr latest) \<Rightarrow>
           if \<not> isNewer latest (ue_version e) then (go_on, sent, f)
           else (case ue_executable e of
               Inl _ \<Rightarrow> (go_on, sent, f)
             | Inr p \<Rightarrow> (case ue_symlinks e p of
                 Inl _ \<Rightarrow> (go_on, sent, f)
               | Inr execPath \<Rightarrow> (case isWritable c f of
                   (f, False) \<Rightarrow> (go_on, sent, f)
                 | (f, True) \<Rightarrow> (case downloadFrom c f latest binaryName execPath of
                     (sent', f, Some _) \<Rightarrow> (go_on, sent @ sent', f)
                   | (sent', f, None) \<Rightarrow> (case ue_exec e of
                       Some _ \<Rightarrow> (Continue False ''1'', sent @ sent', f)
                     | None \<Rightarrow> (Exec execPath latest ''1'', sent @ sent', f))))))))"

section \<open>Where the token goes\<close>

text \<open>A request carries no authorization, or the token and is to the given host.\<close>

definition tokenConfined :: "bytes \<Rightarrow> bytes \<Rightarrow> http_req \<Rightarrow> bool" where
  "tokenConfined token host r = (case hr_headers r Authorization of
       None \<Rightarrow> True
     | Some v \<Rightarrow> token \<noteq> [] \<and> v = ''Bearer '' @ token \<and> hr_host r = host)"

lemma nextHop_confined:
  "tokenConfined t h (hd (via @ [req])) \<Longrightarrow> hr_host (hd (via @ [req])) = h \<Longrightarrow>
    tokenConfined t h (nextHop nt via req url host)"
  by (auto simp: nextHop_def CheckRedirect_def tokenConfined_def Let_def split: option.split)

lemma Do_confined:
  "tokenConfined t h (hd (via @ [req])) \<Longrightarrow> hr_host (hd (via @ [req])) = h \<Longrightarrow> tokenConfined t h req \<Longrightarrow>
    list_all (tokenConfined t h) (fst (Do nt left via req))"
proof (induction nt left via req rule: Do.induct)
  case (1 nt left via req)
  show ?case
  proof (cases "\<not> left \<le> max 1 (nt_took nt (length via)) \<and> (\<exists>url host. nt_answer nt (length via) req = Redirected url host)")
    case True
    then obtain url host where hop: "nt_answer nt (length via) req = Redirected url host"
      "\<not> left \<le> max 1 (nt_took nt (length via))" by blast
    have "hd ((via @ [req]) @ [nextHop nt via req url host]) = hd (via @ [req])" by (cases via) simp_all
    then show ?thesis
      using 1(1) [OF refl refl hop(2,1)] nextHop_confined [OF 1(2,3), of nt url host] 1(2-4) hop
      by (subst Do.simps) (simp add: Let_def split_beta)
  qed (use 1(4) in \<open>auto simp: Do.simps [of nt left] Let_def split: get_answer.split\<close>)
qed

lemma addAuth_confined:
  "hr_headers req Authorization = None \<Longrightarrow> tokenConfined token (hr_host req) (addAuth token req)"
  by (simp add: addAuth_def tokenConfined_def)

lemma addAuth_host [simp]: "hr_host (addAuth token req) = hr_host req"
  by (simp add: addAuth_def)

lemma first_confined:
  assumes "hr_headers req Authorization = None"
  shows "list_all (tokenConfined token (hr_host req)) (fst (Do nt left [] (addAuth token req)))"
  using Do_confined [of token "hr_host req" "[]" "addAuth token req"] addAuth_confined [OF assms] by simp

lemma fetch_confined: "list_all (tokenConfined (ce_token c) ''api.github.com'') (fst (fetchLatestVersion c))"
proof -
  have "fst (fetchLatestVersion c) = fst (Do (ce_latest c) (10 * 10 ^ 9) [] (latestRequest (ce_token c)))"
    unfolding fetchLatestVersion_def by (auto split: prod.split sum.split)
  also have "list_all (tokenConfined (ce_token c) ''api.github.com'') \<dots>"
    using first_confined [where req = "\<lparr>hr_url = ''https://api.github.com/repos/'' @ repo @ ''/releases/latest'',
       hr_host = ''api.github.com'', hr_headers = [''Accept'' \<mapsto> ''application/vnd.github+json'']\<rparr>"]
    unfolding latestRequest_def by (simp add: Authorization_def)
  finally show ?thesis .
qed

lemma download_confined: "list_all (tokenConfined (ce_token c) ''github.com'') (fst (downloadFrom c f tag name path))"
  using first_confined [where req = "\<lparr>hr_url = archiveURL (ce_platform c) tag, hr_host = ''github.com'', hr_headers = Map.empty\<rparr>"
      and nt = "ce_archive c" and left = "120 * 10 ^ 9" and token = "ce_token c"]
  unfolding downloadFrom_def Let_def by (auto split: prod.split sum.split option.split)

section \<open>The update as a whole\<close>

text \<open>The decision of \<open>CheckAndUpdate\<close> is that of \<open>SelfUpdate\<close>, with what the requests and the files answered.\<close>

definition updateEnv :: "client_env \<Rightarrow> update_env \<Rightarrow> fs \<Rightarrow> update_env" where
  "updateEnv c e f = e\<lparr>ue_latest := snd (fetchLatestVersion c), ue_writable := (\<lambda>_. snd (isWritable c f)),
     ue_download := (\<lambda>tag name path. snd (snd (downloadFrom c (fst (isWritable c f)) tag name path)))\<rparr>"

lemma SelfUpdate_decision: "fst (SelfUpdate c e f name) = CheckAndUpdate (updateEnv c e f) name"
  unfolding SelfUpdate_def CheckAndUpdate_def updateEnv_def Let_def
  by (auto split: prod.split sum.split option.split bool.split)

text \<open>A probe of the directory leaves nothing, or the empty file that it could not remove.\<close>

definition probeLeft :: "client_env \<Rightarrow> fs \<Rightarrow> fs \<Rightarrow> bool" where
  "probeLeft c f f' \<longleftrightarrow> f' = f \<or> (\<exists>n. ce_probe c = Inr n \<and> ce_unremoved c \<noteq> None \<and> f' = f(n \<mapsto> ([], 384)))"

lemma isWritable_leaves:
  assumes "\<And>n. ce_probe c = Inr n \<Longrightarrow> f n = None"
  shows "probeLeft c f (fst (isWritable c f))"
  using assms by (auto simp: isWritable_def probeLeft_def fun_upd_idem split: sum.split)

text \<open>
  \<open>published\<close>: asked for the latest release of the repository, GitHub answered 200 with that tag.
  \<open>installed\<close>: the request for the archive of that release for this platform was answered 200, and in place of the
  binary is the first regular file of that name in the archive of the answer, cut at \<open>maxBinarySize\<close>. In both, \<open>sent\<close> is
  all that was sent for it.
\<close>

definition published :: "client_env \<Rightarrow> bytes \<Rightarrow> http_req list \<Rightarrow> bool" where
  "published c tag sent \<longleftrightarrow> (\<exists>req body.
     hr_url req = ''https://api.github.com/repos/compscidr/sair/releases/latest'' \<and> hr_host req = ''api.github.com'' \<and>
     Do (ce_latest c) (10 * 10 ^ 9) [] req = (sent, Inr (200, body)) \<and> ce_decode c body = Inr tag)"

definition installed :: "client_env \<Rightarrow> bytes \<Rightarrow> bytes \<Rightarrow> bytes \<Rightarrow> http_req list \<Rightarrow> fs \<Rightarrow> fs \<Rightarrow> bool" where
  "installed c tag name path sent f f' \<longleftrightarrow> (\<exists>req body mode d er.
     hr_url req = ''https://github.com/compscidr/sair/releases/download/'' @ tag @ ''/sair-'' @ ce_platform c @ ''.tar.gz'' \<and>
     hr_host req = ''github.com'' \<and> Do (ce_archive c) (120 * 10 ^ 9) [] req = (sent, Inr (200, body)) \<and>
     de_gzip (ce_open c body) = None \<and> firstOf (ce_open c body) name mode (d, er) \<and>
     f' = f(path := Some (take maxBinarySize d, mode)) \<and> (length d < maxBinarySize \<longrightarrow> er = None))"

text \<open>What a download that failed leaves: nothing, or its temporary file that could not be removed.\<close>

definition downloadLeft :: "client_env \<Rightarrow> fs \<Rightarrow> fs \<Rightarrow> bool" where
  "downloadLeft c f f' \<longleftrightarrow> f' = f \<or> (\<exists>body. tempLeft (de_replace (ce_open c body)) f f')"

lemma fetch_published:
  assumes "snd (fetchLatestVersion c) = Inr tag"
  shows "published c tag (fst (fetchLatestVersion c))"
proof -
  obtain sent r where D: "Do (ce_latest c) (10 * 10 ^ 9) [] (latestRequest (ce_token c)) = (sent, r)" by fastforce
  have "hr_url (latestRequest (ce_token c)) = ''https://api.github.com/repos/compscidr/sair/releases/latest''"
    "hr_host (latestRequest (ce_token c)) = ''api.github.com''"
    by (simp_all add: latestRequest_def addAuth_def repo_def)
  then show ?thesis
    using assms D unfolding published_def fetchLatestVersion_def
    by (auto split: sum.splits prod.splits if_splits)
qed

lemma downloadFrom_atomic:
  assumes "\<And>body tmp. re_temp (de_replace (ce_open c body)) = Inr tmp \<Longrightarrow> f tmp = None \<and> tmp \<noteq> path"
  shows "case downloadFrom c f tag name path of
     (_, f', Some _) \<Rightarrow> downloadLeft c f f'
   | (sent, f', None) \<Rightarrow> installed c tag name path sent f f'"
proof -
  let ?req = "addAuth (ce_token c) \<lparr>hr_url = archiveURL (ce_platform c) tag, hr_host = ''github.com'', hr_headers = Map.empty\<rparr>"
  have req: "hr_url ?req = ''https://github.com/compscidr/sair/releases/download/'' @ tag @ ''/sair-'' @ ce_platform c @ ''.tar.gz''"
    by (simp add: addAuth_def archiveURL_def repo_def)
  obtain sent r where D: "Do (ce_archive c) (120 * 10 ^ 9) [] ?req = (sent, r)" by fastforce
  consider (unmade) er where "downloadFrom c f tag name path = ([], f, Some er)"
    | (unanswered) er where "downloadFrom c f tag name path = (sent, f, Some er)"
    | (answered) st body where "r = Inr (st, body)"
      "downloadFrom c f tag name path = (sent, downloadAndReplace ((ce_open c body)\<lparr>de_status := Inr st\<rparr>) f name path)"
    using D unfolding downloadFrom_def Let_def by (cases "ce_parse c (archiveURL (ce_platform c) tag)"; cases r) auto
  then show ?thesis
  proof cases
    case answered
    let ?e = "(ce_open c body)\<lparr>de_status := Inr st\<rparr>"
    have first: "firstOf ?e name mode d = firstOf (ce_open c body) name mode d" for mode d
      by (simp add: firstOf_def)
    obtain f' er where R: "downloadAndReplace ?e f name path = (f', er)" by fastforce
    have at: "case er of Some _ \<Rightarrow> f' = f \<or> tempLeft (de_replace (ce_open c body)) f f'
      | None \<Rightarrow> \<exists>mode d er. st = 200 \<and> de_gzip (ce_open c body) = None \<and> firstOf (ce_open c body) name mode (d, er) \<and>
          f' = f(path := Some (take maxBinarySize d, mode)) \<and> (length d < maxBinarySize \<longrightarrow> er = None)"
      using downloadAndReplace_atomic [of ?e f path name] assms [of body] R by (simp add: first split: option.splits)
    show ?thesis
    proof (cases er)
      case None
      then have "installed c tag name path sent f f'"
        using at req D answered(1) unfolding installed_def by (intro exI [of _ ?req] exI [of _ body]) auto
      then show ?thesis using answered R None by simp
    next
      case (Some x)
      then show ?thesis using at answered R by (auto simp: downloadLeft_def)
    qed
  qed (auto simp: downloadLeft_def)
qed

lemma SelfUpdate_cases:
  obtains (kept) b v where "SelfUpdate c e f name = (Continue b v, [], f)"
  | (asked) b v where "SelfUpdate c e f name = (Continue b v, fst (fetchLatestVersion c), f)"
  | (probed) b v where "SelfUpdate c e f name = (Continue b v, fst (fetchLatestVersion c), fst (isWritable c f))"
  | (loaded) tag p path out where "snd (fetchLatestVersion c) = Inr tag" "isNewer tag (ue_version e)"
      "ue_executable e = Inr p" "ue_symlinks e p = Inr path" "foldCase (ue_auto_update e) \<noteq> ''false''"
      "ue_just_updated e \<noteq> ''1''" "SelfUpdate c e f name = (out,
        fst (fetchLatestVersion c) @ fst (downloadFrom c (fst (isWritable c f)) tag name path),
        fst (snd (downloadFrom c (fst (isWritable c f)) tag name path)))"
      "out = (case (snd (snd (downloadFrom c (fst (isWritable c f)) tag name path)), ue_exec e) of
        (None, None) \<Rightarrow> Exec path tag ''1'' | (None, Some _) \<Rightarrow> Continue False ''1''
      | (Some _, _) \<Rightarrow> Continue False (ue_just_updated e))"
proof (cases "ue_version e = ''dev'' \<or> foldCase (ue_auto_update e) = ''false'' \<or> ue_just_updated e = ''1''")
  case True
  then have "\<exists>b v. SelfUpdate c e f name = (Continue b v, [], f)" by (auto simp: SelfUpdate_def Let_def)
  then show ?thesis using kept by blast
next
  case False
  note S = SelfUpdate_def Let_def
  obtain sent r where fetch: "fetchLatestVersion c = (sent, r)" by fastforce
  show ?thesis
  proof (cases "\<exists>tag p path. r = Inr tag \<and> isNewer tag (ue_version e) \<and> ue_executable e = Inr p \<and> ue_symlinks e p = Inr path")
    case False
    then have "SelfUpdate c e f name = (Continue False (ue_just_updated e), sent, f)"
      using \<open>\<not> (_ \<or> _)\<close> fetch by (auto simp: S split: sum.split)
    then show ?thesis using asked fetch by (metis fst_conv)
  next
    case True
    then obtain tag p path where go: "r = Inr tag" "isNewer tag (ue_version e)" "ue_executable e = Inr p"
      "ue_symlinks e p = Inr path" by blast
    obtain f1 w where W: "isWritable c f = (f1, w)" by fastforce
    obtain sent' f2 er where D: "downloadFrom c f1 tag name path = (sent', f2, er)" using prod_cases3 by blast
    have "SelfUpdate c e f name = (case w of
        False \<Rightarrow> (Continue False (ue_just_updated e), sent, f1)
      | True \<Rightarrow> (case (er, ue_exec e) of (None, None) \<Rightarrow> Exec path tag ''1'' | (None, Some _) \<Rightarrow> Continue False ''1''
        | (Some _, _) \<Rightarrow> Continue False (ue_just_updated e), sent @ sent', f2))"
      using go fetch W D \<open>\<not> (_ \<or> _)\<close> by (simp add: S split: bool.split option.split)
    then show ?thesis using probed loaded [of tag p path] go fetch W D \<open>\<not> (_ \<or> _)\<close> by (cases w) simp_all
  qed
qed

text \<open>
  The update that was decided: the release is newer than the running one and updates are not switched off; it was
  published, and is installed in the place of the running binary.
\<close>

definition replaced :: "client_env \<Rightarrow> update_env \<Rightarrow> bytes \<Rightarrow> bytes \<Rightarrow> bytes \<Rightarrow> http_req list \<Rightarrow> fs \<Rightarrow> fs \<Rightarrow> bool" where
  "replaced c e name path tag sent f f' \<longleftrightarrow>
     (\<exists>l v. parseVersion tag = Some l \<and> parseVersion (ue_version e) = Some v \<and> v < l) \<and>
     foldCase (ue_auto_update e) \<noteq> ''false'' \<and> ue_just_updated e \<noteq> ''1'' \<and>
     (\<exists>p. ue_executable e = Inr p \<and> ue_symlinks e p = Inr path) \<and>
     (\<exists>asked got f1. sent = asked @ got \<and> published c tag asked \<and> probeLeft c f f1 \<and> installed c tag name path got f1 f')"

text \<open>
  C0. Updating itself, the program sends the GitHub token to no other host than the two it asks, wherever it is
  redirected. A restart is into a release that is newer than the running one, while updates are not switched off: GitHub
  named it when it was asked for the latest release of the repository, the request for exactly that release's archive for
  this platform was answered 200, and the first regular file of the given name in that archive is now in the place of the
  running binary. A check that ends without a restart leaves every file as it was, but for the probe and the temporary
  file of the download where they could not be removed; or else the update was made just like that and then the exec
  failed: the binary is replaced, and the old process goes on with \<open>SAIR_JUST_UPDATED=1\<close> in its environment. Nothing
  else is written. (Assumed: the operating system gives the probe and the temporary file fresh names, as
  \<open>os.CreateTemp\<close> promises, and the path of the executable names a file.)
\<close>

theorem self_update_safe:
  assumes probe: "\<And>n. ce_probe c = Inr n \<Longrightarrow> f n = None"
    and temp: "\<And>body tmp. re_temp (de_replace (ce_open c body)) = Inr tmp \<Longrightarrow> f tmp = None \<and> ce_probe c \<noteq> Inr tmp"
    and binary: "\<And>p path. ue_symlinks e p = Inr path \<Longrightarrow> f path \<noteq> None"
  shows "case SelfUpdate c e f name of (out, sent, f') \<Rightarrow>
    list_all (\<lambda>r. tokenConfined (ce_token c) ''api.github.com'' r \<or> tokenConfined (ce_token c) ''github.com'' r) sent \<and>
    (case out of
       Continue u j \<Rightarrow> (\<exists>f1. probeLeft c f f1 \<and> downloadLeft c f1 f') \<or>
         ue_exec e \<noteq> None \<and> \<not> u \<and> j = ''1'' \<and> (\<exists>path tag. replaced c e name path tag sent f f')
     | Exec path tag j \<Rightarrow> ue_exec e = None \<and> j = ''1'' \<and> replaced c e name path tag sent f f')"
proof -
  note leaves = isWritable_leaves [of c f, OF probe]
  have same: "probeLeft c f f" and none: "downloadLeft c f1 f1" for f1 by (simp_all add: probeLeft_def downloadLeft_def)
  show ?thesis
  proof (cases rule: SelfUpdate_cases [of c e f name])
    case (loaded tag p path out)
    let ?f = "fst (isWritable c f)"
    obtain sent f' er where D: "downloadFrom c ?f tag name path = (sent, f', er)" using prod_cases3 by blast
    have "?f tmp = None \<and> tmp \<noteq> path" if "re_temp (de_replace (ce_open c body)) = Inr tmp" for body tmp
      using temp [OF that] binary [OF loaded(4)] leaves by (auto simp: probeLeft_def)
    then have got: "case er of Some _ \<Rightarrow> downloadLeft c ?f f' | None \<Rightarrow> installed c tag name path sent ?f f'"
      using downloadFrom_atomic [where c = c and f = ?f and path = path and tag = tag and name = name] D by (simp split: option.splits)
    have "replaced c e name path tag (fst (fetchLatestVersion c) @ sent) f f'" if "er = None"
      using loaded that got fetch_published [OF loaded(1)] leaves unfolding replaced_def isNewer_less by auto
    then show ?thesis
      using loaded D got leaves fetch_confined [of c] download_confined [of c ?f tag name path]
      by (cases er; cases "ue_exec e") (auto simp: list_all_iff)
  qed (use fetch_confined [of c] leaves same none in \<open>auto simp: list_all_iff\<close>)
qed

definition exampleClient :: client_env where
  "exampleClient = \<lparr>ce_token = ''t'',
     ce_latest = \<lparr>nt_answer = (\<lambda>_ _. Answered 200 ''body''), nt_took = (\<lambda>_. 5), nt_copies = (\<lambda>_. True),
       nt_timeout = Plain ''timeout''\<rparr>,
     ce_archive = \<lparr>nt_answer = (\<lambda>n _. if n = 0 then Redirected ''https://s3/x'' ''s3'' else Answered 200 ''gz''),
       nt_took = (\<lambda>_. 5), nt_copies = (\<lambda>_. True), nt_timeout = Plain ''timeout''\<rparr>,
     ce_platform = ''linux-amd64'', ce_parse = (\<lambda>_. None), ce_decode = (\<lambda>_. Inr ''v1.2.10''),
     ce_open = (\<lambda>_. \<lparr>de_status = Inr 0, de_gzip = None, de_items = [TarFile ''sair-proxy'' True 493 (''new'', None)],
       de_base = (\<lambda>n. n), de_replace = \<lparr>re_temp = Inr ''/opt/tmp'', re_write = None, re_written = 0, re_chmod = None,
         re_sync = None, re_close = None, re_rename = None, re_remove = None\<rparr>\<rparr>),
     ce_probe = Inr ''/opt/probe'', ce_unremoved = None\<rparr>"

definition exampleUpdate :: update_env where
  "exampleUpdate = \<lparr>ue_version = ''v1.2.9'', ue_auto_update = [], ue_just_updated = [], ue_latest = Inr [],
     ue_executable = Inr ''/opt/link'', ue_symlinks = (\<lambda>_. Inr ''/opt/sair-proxy''), ue_writable = (\<lambda>_. True),
     ue_download = (\<lambda>_ _ _. None), ue_exec = None\<rparr>"

text \<open>The token is sent twice, and left out where the archive's host redirects to another one.\<close>

theorem self_update_safe_witness:
  "case SelfUpdate exampleClient exampleUpdate [''/opt/sair-proxy'' \<mapsto> (''old'', 493)] ''sair-proxy'' of (out, sent, f') \<Rightarrow>
    out = Exec ''/opt/sair-proxy'' ''v1.2.10'' ''1'' \<and>
    map (\<lambda>r. (hr_host r, hr_headers r Authorization)) sent =
      [(''api.github.com'', Some ''Bearer t''), (''github.com'', Some ''Bearer t''), (''s3'', None)] \<and>
    (\<exists>l v. parseVersion ''v1.2.10'' = Some l \<and> parseVersion ''v1.2.9'' = Some v \<and> v < l)"
proof -
  let ?f = "[''/opt/sair-proxy'' \<mapsto> (''old'', 493)] :: fs"
  have fetch: "fetchLatestVersion exampleClient = ([latestRequest ''t''], Inr ''v1.2.10'')"
    unfolding fetchLatestVersion_def exampleClient_def by (simp add: Do.simps)
  obtain sent f' er where load: "downloadFrom exampleClient ?f ''v1.2.10'' ''sair-proxy'' ''/opt/sair-proxy'' = (sent, f', er)"
    using prod_cases3 by blast
  have er: "snd (snd (downloadFrom exampleClient ?f ''v1.2.10'' ''sair-proxy'' ''/opt/sair-proxy'')) = None"
    unfolding downloadFrom_def exampleClient_def Let_def
    by (simp add: Do.simps downloadAndReplace_def atomicReplace_def maxBinarySize_def)
  have sent: "map (\<lambda>r. (hr_host r, hr_headers r Authorization))
      (fst (downloadFrom exampleClient ?f ''v1.2.10'' ''sair-proxy'' ''/opt/sair-proxy'')) =
      [(''github.com'', Some ''Bearer t''), (''s3'', None)]"
    unfolding downloadFrom_def exampleClient_def Let_def
    by (simp add: Do.simps nextHop_def CheckRedirect_def addAuth_def)
  have newer: "isNewer ''v1.2.10'' ''v1.2.9''" and old: "foldCase [] \<noteq> ''false''"
    by (simp_all add: isNewer_def parseVersion_def SplitN3_def TrimPrefix_def HasPrefix_def Atoi_def ParseInt_def
        signOf_def digitVal_def)
  have W: "isWritable exampleClient ?f = (?f, True)"
    by (simp add: isWritable_def exampleClient_def fun_upd_idem)
  have S: "SelfUpdate exampleClient exampleUpdate ?f ''sair-proxy'' =
      (Exec ''/opt/sair-proxy'' ''v1.2.10'' ''1'', latestRequest ''t'' # sent, f')"
    using fetch load er newer old W by (simp add: SelfUpdate_def exampleUpdate_def)
  have "\<exists>l v. parseVersion ''v1.2.10'' = Some l \<and> parseVersion ''v1.2.9'' = Some v \<and> v < l"
    using self_update_safe [of exampleClient ?f exampleUpdate "''sair-proxy''"]
    unfolding S replaced_def by (simp add: exampleClient_def exampleUpdate_def)
  then show ?thesis
    using sent load unfolding S by (simp add: latestRequest_def addAuth_def)
qed

end
