(* ===== verification/EndToEnd.thy ===== *)
theory EndToEnd
  imports LockLife DeviceSource
begin

text \<open>
  The proxy joined with its device sources: every call the proxy makes of a phone is served by the
  device source at the address it went to, and what adb runs there because of it is the log. What the
  proxy's operations promise about calls becomes what they do to phones.
\<close>

section \<open>What a source answers\<close>

fun wifiNumber :: "wifi_state \<Rightarrow> int" where
  "wifiNumber WifiRESET = wifiRESET"
| "wifiNumber WifiOFF = wifiOFF"
| "wifiNumber WifiON = wifiON"

text \<open>
  The request of \<open>devicesource.proto\<close> a call makes. The others open a stream to the phone's adbd
  (\<open>PhoneForward\<close>), which runs no adb of the source's own.
\<close>

fun phoneRequest :: "dev_request \<Rightarrow> phone_request option" where
  "phoneRequest (SetWifiRequest st band) = Some (AskWifi (wifiNumber st) band)"
| "phoneRequest (ResetPackagesRequest since) = Some (AskReset since)"
| "phoneRequest ListPackagesRequest = Some AskList"
| "phoneRequest WakeRequest = Some AskWake"
| "phoneRequest ResetBluetoothRequest = Some AskBluetooth"
| "phoneRequest (HoldUpdatesRequest hold) = Some (AskUpdates hold)"
| "phoneRequest RecentLogRequest = Some AskRecentLog"
| "phoneRequest RebootIfStaleRequest = Some AskRebootIfStale"
| "phoneRequest (RebootIfWedgedRequest radio) = Some (AskRebootIfWedged radio)"
| "phoneRequest ClearUiAutomationRequest = Some AskClearUiAutomation"
| "phoneRequest _ = None"

text \<open>An error keeps its code and message on the wire.\<close>

definition wireError :: "goerr \<Rightarrow> goerr" where
  "wireError er = Status (statusCode (Some er)) (convertMessage er)"

fun answerReply :: "goerr + phone_answer \<Rightarrow> dev_reply" where
  "answerReply (Inl er) = reply0\<lparr>rp_err := Some (wireError er)\<rparr>"
| "answerReply (Inr Done) = reply0"
| "answerReply (Inr (Packages ps)) = reply0\<lparr>rp_list := ps\<rparr>"
| "answerReply (Inr (Removed (removed, suggestions))) = reply0\<lparr>rp_list := removed, rp_list2 := suggestions\<rparr>"
| "answerReply (Inr (Uptime (secs, rebooted))) = reply0\<lparr>rp_uptimeS := secs, rp_flag := rebooted\<rparr>"
| "answerReply (Inr (Rebooted rebooted)) = reply0\<lparr>rp_flag := rebooted\<rparr>"
| "answerReply (Inr (Cleared cleared)) = reply0\<lparr>rp_text := cleared\<rparr>"
| "answerReply (Inr (LogLines ls)) = reply0\<lparr>rp_list := ls\<rparr>"

text \<open>
  A call with its reply at a source with configuration and phones \<open>b\<close>, and what it made adb run. A call can
  be lost before it arrives, and its answer after it was served. The source is in whatever state its own
  reports, other proxies and restarts have left it.
\<close>

inductive served :: "bench \<Rightarrow> dev_call \<Rightarrow> dev_reply \<Rightarrow> adb_run list \<Rightarrow> bool" where
  stream: "phoneRequest (dc_request c) = None \<Longrightarrow> served b c rep []"
| lost: "rp_err rep \<noteq> None \<Longrightarrow> served b c rep []"
| answered: "phoneRequest (dc_request c) = Some req \<Longrightarrow>
    run_state (servePhone b ring (dc_serial c) req) s = (r, s') \<Longrightarrow> ds_runs s' = ds_runs s @ rs \<Longrightarrow>
    rep = answerReply r \<or> rp_err rep \<noteq> None \<Longrightarrow> served b c rep rs"

text \<open>The calls in their order, with the address of the source at each run.\<close>

inductive servedAll :: "(bytes \<Rightarrow> bench) \<Rightarrow> (dev_call \<times> dev_reply) list \<Rightarrow> (bytes \<times> adb_run) list \<Rightarrow> bool"
  for B where
  joined_Nil: "servedAll B [] []"
| joined_Cons: "served (B (dc_addr c)) c rep rs \<Longrightarrow> servedAll B answers log \<Longrightarrow>
    servedAll B ((c, rep) # answers) (map (Pair (dc_addr c)) rs @ log)"

inductive_cases joined_ConsE: "servedAll B (x # answers) log"

section \<open>What a served call runs\<close>

definition isUserUninstall :: "adb_run \<Rightarrow> bool" where
  "isUserUninstall x \<longleftrightarrow> HasPrefix (ar_stdin x) ''pm uninstall --user 0 ''"

lemma user_isUninstall: "isUserUninstall x \<Longrightarrow> isUninstall x"
  by (auto simp: isUserUninstall_def isUninstall_def go_string dest: arg_cong [where f = "take 13"])

text \<open>Every new run has the property.\<close>

definition newRuns :: "source \<Rightarrow> (adb_run \<Rightarrow> bool) \<Rightarrow> source \<Rightarrow> bool" where
  "newRuns s0 P s \<longleftrightarrow> (\<exists>rs. ds_runs s = ds_runs s0 @ rs \<and> list_all P rs)"

definition tameRun :: "bench \<Rightarrow> bytes \<Rightarrow> adb_run \<Rightarrow> bool" where
  "tameRun b serial x \<longleftrightarrow> ar_args x = shellArgs b serial \<and> \<not> isUninstall x"

lemma HasPrefix_script:
  assumes "newline \<notin> set p" and "HasPrefix (script c) p"
  shows "HasPrefix c p"
proof (cases "length p \<le> length c")
  case True
  then show ?thesis using assms(2) by (simp add: HasPrefix_def script_def)
next
  case False
  then obtain k where "length p - length c = Suc k" by (metis Suc_diff_Suc not_le)
  then have "newline \<in> set (take (length p) (script c))"
    by (simp add: script_def)
  then show ?thesis using assms by (simp add: HasPrefix_def)
qed

lemma uninstall_script: "HasPrefix (script c) ''pm uninstall '' \<Longrightarrow> HasPrefix c ''pm uninstall ''"
  by (rule HasPrefix_script) (simp_all add: newline_def)

interpretation tame_runs: tame_command b serial "newRuns s0 (tameRun b serial)" "\<lambda>c. \<not> HasPrefix c ''pm uninstall ''"
  for b serial s0
  by unfold_locales
    (auto simp: newRuns_def tameRun_def isUninstall_def dest: uninstall_script)

lemma served_args:
  assumes "served b c rep rs"
  shows "list_all (\<lambda>x. ar_args x = shellArgs b (dc_serial c)) rs"
  using assms
proof cases
  case (answered req ring s r s')
  have "wp (servePhone b ring (dc_serial c) req) (\<lambda>_. onlyPhone b (dc_serial c) s) s"
    by (rule keeps_wp [OF only.keeps_servePhone onlyPhone_refl])
  from wp_run [OF this answered(2)] show ?thesis
    using answered(3) by (auto simp: onlyPhone_def)
qed simp_all

lemma served_tame:
  assumes "served b c rep rs" and "\<And>since. dc_request c \<noteq> ResetPackagesRequest since"
  shows "list_all (\<lambda>x. \<not> isUninstall x) rs"
  using assms(1)
proof cases
  case (answered req ring s r s')
  have "req \<noteq> AskReset since" for since
    using answered(1) assms(2) by (cases "dc_request c") auto
  then have "wp (servePhone b ring (dc_serial c) req) (\<lambda>_. newRuns s (tameRun b (dc_serial c))) s"
    by (intro keeps_wp tame_runs.keeps_servePhone_tame) (simp_all add: newRuns_def)
  from wp_run [OF this answered(2)] show ?thesis
    using answered(3) by (auto simp: newRuns_def tameRun_def list_all_iff)
qed simp_all

text \<open>A reset with a snapshot uninstalls for the primary user, and nothing of the snapshot; one without does not.\<close>

lemma served_reset:
  assumes "served b (DevCall addr serial (ResetPackagesRequest since)) rep rs" and "x \<in> set rs" and "isUserUninstall x"
  shows "\<exists>ps p. since = Some ps \<and> p \<notin> set ps \<and> ar_stdin x = script (uninstallCommand since @ shellQuote p)"
  using assms(1)
proof cases
  case (answered req ring s r s')
  then have "req = AskReset since" by simp
  with answered(2) have run: "run_state (answering Removed (ResetPackages_src b serial since)) s = (r, s')" by simp
  define names where "names r = (\<lambda>rs. \<forall>x \<in> set rs. isUninstall x \<longrightarrow>
      (\<exists>p. ar_stdin x = script (uninstallCommand since @ shellQuote p) \<and>
        (case since of Some ps \<Rightarrow> p \<notin> set ps | None \<Rightarrow> True)))" for r :: "goerr + phone_answer"
  have keeping: "emits (resetKeeping b serial since keep) (\<lambda>r rs. names (Inr Done) rs)"
    if "case since of Some ps \<Rightarrow> keep = ps | None \<Rightarrow> True" for keep
  proof (rule emits_mono [OF emits_resetKeeping], unfold names_def, intro ballI impI)
    fix r rs x
    assume r: "reported since keep r rs" and x: "x \<in> set rs" "isUninstall x"
    then have "ar_stdin x \<in> set (map ar_stdin (filter isUninstall rs))" by simp
    with r obtain p where "p \<notin> set keep" "ar_stdin x = script (uninstallCommand since @ shellQuote p)"
      by (auto simp: reported_def Let_def simp del: set_map split: sum.splits prod.splits) (auto simp: filter_empty_conv)
    with that show "\<exists>p. ar_stdin x = script (uninstallCommand since @ shellQuote p) \<and>
        (case since of Some ps \<Rightarrow> p \<notin> set ps | None \<Rightarrow> True)"
      by (auto split: option.split)
  qed
  have "emits (ResetPackages_src b serial since) (\<lambda>r rs. names (Inr Done) rs)"
    unfolding ResetPackages_src_def
    by (intro emits emits_mono [OF keeping]) (auto simp: names_def split: option.splits)
  then have "emits (answering Removed (ResetPackages_src b serial since)) (\<lambda>r rs. names (Inr Done) rs)"
    unfolding answering_def by (intro emits) (auto elim!: emits_mono intro!: emits)
  from wp_run [OF emits_wp [OF this] run] obtain p where
    "ar_stdin x = script (uninstallCommand since @ shellQuote p)" "case since of Some ps \<Rightarrow> p \<notin> set ps | None \<Rightarrow> True"
    using answered(3) assms(2) user_isUninstall [OF assms(3)] by (auto simp: names_def)
  moreover from this(1) have "since \<noteq> None"
    using assms(3) by (cases since) (auto simp: isUserUninstall_def uninstallCommand_def script_def shellQuote_def quote_def HasPrefix_def)
  ultimately show ?thesis by (auto split: option.splits)
qed (use assms(2) in simp_all)

text \<open>A run that read the whole list of the phone's third-party packages.\<close>

definition wholeListing :: "bytes list \<Rightarrow> adb_run \<Rightarrow> bool" where
  "wholeListing ps x \<longleftrightarrow> runs (fullListCommand ''-3'') x \<and> ar_err x = None \<and>
     (case parseListing (ar_output x) of Inr names \<Rightarrow> set names = set ps | Inl _ \<Rightarrow> False)"

lemma emits_completeListing:
  "emits (completeListing b serial flag) (\<lambda>r rs. \<exists>x. rs = [x] \<and> runs (fullListCommand flag) x \<and>
     (case r of Inr names \<Rightarrow> ar_err x = None \<and> parseListing (ar_output x) = Inr names | Inl _ \<Rightarrow> True))"
  unfolding completeListing_def Let_def by (intro emits) (auto split: option.split sum.split)

lemma emits_list [emits]:
  "(xs = [] \<Longrightarrow> emits m Q) \<Longrightarrow> (\<And>y ys. xs = y # ys \<Longrightarrow> emits (f y ys) Q) \<Longrightarrow>
    emits (case xs of [] \<Rightarrow> m | y # ys \<Rightarrow> f y ys) Q"
  by (cases xs) simp_all

lemma emits_ListPackages:
  "emits (ListPackages_src b serial) (\<lambda>r rs. case r of Inr ps \<Rightarrow> list_ex (wholeListing ps) rs | Inl _ \<Rightarrow> True)"
  unfolding ListPackages_src_def
  by (intro emits emits_mono [OF emits_completeListing])
    (auto simp: wholeListing_def sortedKeys_def set_insort_key split: sum.splits list.splits)

lemma served_list:
  assumes "served b (DevCall addr serial ListPackagesRequest) rep rs" and "rp_err rep = None"
  shows "list_ex (wholeListing (rp_list rep)) rs"
  using assms(1)
proof cases
  case (answered req ring s r s')
  then have "req = AskList" by simp
  with answered(2,4) have run: "run_state (answering Packages (ListPackages_src b serial)) s = (r, s')"
    and rep: "rep = answerReply r"
    using assms(2) by simp_all
  have "emits (answering Packages (ListPackages_src b serial)) (\<lambda>r rs. case r of
      Inr a \<Rightarrow> (\<exists>ps. a = Packages ps \<and> list_ex (wholeListing ps) rs) | Inl _ \<Rightarrow> True)"
    unfolding answering_def by (intro emits emits_mono [OF emits_ListPackages]) (auto split: sum.splits)
  from wp_run [OF emits_wp [OF this] run] show ?thesis
    using answered(3) rep assms(2) by (auto split: sum.splits)
qed (use assms(2) in simp_all)

section \<open>What the log of a run says\<close>

text \<open>\<open>user_uninstalls B pre log\<close>: \<open>pre\<close> ran before. Every uninstall for the primary user comes after a
  whole listing of the same phone that did not name the package.\<close>

definition unlisted :: "(bytes \<Rightarrow> bench) \<Rightarrow> (bytes \<times> adb_run) list \<Rightarrow> bytes \<Rightarrow> bytes \<Rightarrow> bool" where
  "unlisted B pre serial p \<longleftrightarrow> list_ex (\<lambda>(a, y). ar_args y = shellArgs (B a) serial \<and>
     runs (fullListCommand ''-3'') y \<and> ar_err y = None \<and>
     (case parseListing (ar_output y) of Inr names \<Rightarrow> p \<notin> set names | Inl _ \<Rightarrow> False)) pre"

fun user_uninstalls :: "(bytes \<Rightarrow> bench) \<Rightarrow> (bytes \<times> adb_run) list \<Rightarrow> (bytes \<times> adb_run) list \<Rightarrow> bool" where
  "user_uninstalls B pre [] = True"
| "user_uninstalls B pre ((a, x) # log) =
     ((if isUserUninstall x
       then \<exists>serial p. ar_args x = shellArgs (B a) serial \<and>
         ar_stdin x = script (''pm uninstall --user 0 '' @ shellQuote p) \<and> unlisted B pre serial p
       else True) \<and>
      user_uninstalls B (pre @ [(a, x)]) log)"

lemma user_uninstalls_append:
  "user_uninstalls B pre (xs @ ys) \<longleftrightarrow> user_uninstalls B pre xs \<and> user_uninstalls B (pre @ xs) ys"
  by (induction xs arbitrary: pre) auto

lemma unlisted_mono: "unlisted B pre serial p \<Longrightarrow> unlisted B (pre @ xs) serial p"
  by (simp add: unlisted_def)

lemma user_uninstalls_all:
  "(\<And>a x. (a, x) \<in> set log \<Longrightarrow> isUserUninstall x \<Longrightarrow> \<exists>serial p. ar_args x = shellArgs (B a) serial \<and>
     ar_stdin x = script (''pm uninstall --user 0 '' @ shellQuote p) \<and> unlisted B pre serial p) \<Longrightarrow>
   user_uninstalls B pre log"
proof (induction log arbitrary: pre)
  case (Cons y log)
  obtain a x where y: "y = (a, x)" by fastforce
  have "user_uninstalls B (pre @ [y]) log"
    by (rule Cons.IH) (use Cons.prems unlisted_mono in \<open>meson list.set_intros(2)\<close>)
  then show ?case using Cons.prems [of a x] by (simp add: y)
qed simp

section \<open>Where a snapshot comes from\<close>

text \<open>A phone's list of packages was answered to the proxy, and every reset to a snapshot repeats such an answer.\<close>

definition listedBefore :: "(dev_call \<times> dev_reply) list \<Rightarrow> bytes \<Rightarrow> bytes list \<Rightarrow> bool" where
  "listedBefore answers serial ps \<longleftrightarrow>
     (\<exists>addr rep. (DevCall addr serial ListPackagesRequest, rep) \<in> set answers \<and> rp_err rep = None \<and> rp_list rep = ps)"

definition vouchedCall :: "(dev_call \<times> dev_reply) list \<Rightarrow> dev_call \<Rightarrow> bool" where
  "vouchedCall answers c \<longleftrightarrow> (case dc_request c of
     ResetPackagesRequest (Some ps) \<Rightarrow> listedBefore answers (dc_serial c) ps | _ \<Rightarrow> True)"

fun vouched :: "(dev_call \<times> dev_reply) list \<Rightarrow> (dev_call \<times> dev_reply) list \<Rightarrow> bool" where
  "vouched pre [] = True"
| "vouched pre (x # xs) \<longleftrightarrow> vouchedCall pre (fst x) \<and> vouched (pre @ [x]) xs"

lemma vouched_append: "vouched pre (xs @ ys) \<longleftrightarrow> vouched pre xs \<and> vouched (pre @ xs) ys"
  by (induction xs arbitrary: pre) auto

lemma listedBefore_mono: "listedBefore xs serial ps \<Longrightarrow> listedBefore (xs @ ys) serial ps"
  by (auto simp: listedBefore_def)

text \<open>What the proxy was told is in the log: \<open>pre\<close> are the answers so far and \<open>past\<close> the runs.\<close>

definition heard :: "(bytes \<Rightarrow> bench) \<Rightarrow> (dev_call \<times> dev_reply) list \<Rightarrow> (bytes \<times> adb_run) list \<Rightarrow> bool" where
  "heard B pre past \<longleftrightarrow> (\<forall>serial ps. listedBefore pre serial ps \<longrightarrow>
     (\<forall>p. p \<notin> set ps \<longrightarrow> unlisted B past serial p))"

lemma heard_served:
  assumes "heard B pre past" and "served (B (dc_addr c)) c rep rs"
  shows "heard B (pre @ [(c, rep)]) (past @ map (Pair (dc_addr c)) rs)"
  unfolding heard_def
proof (intro allI impI)
  fix serial ps p
  assume l: "listedBefore (pre @ [(c, rep)]) serial ps" and p: "p \<notin> set ps"
  show "unlisted B (past @ map (Pair (dc_addr c)) rs) serial p"
  proof (cases "listedBefore pre serial ps")
    case True
    then show ?thesis using assms(1) p unlisted_mono by (auto simp: heard_def)
  next
    case False
    with l obtain addr where c: "c = DevCall addr serial ListPackagesRequest" "rp_err rep = None" "rp_list rep = ps"
      by (fastforce simp: listedBefore_def)
    have "list_ex (wholeListing ps) rs" "list_all (\<lambda>x. ar_args x = shellArgs (B addr) serial) rs"
      using served_list [of "B addr" addr serial rep rs] served_args [OF assms(2)] assms(2) c by simp_all
    then show ?thesis
      using p by (fastforce simp: unlisted_def list_ex_iff list_all_iff wholeListing_def c split: sum.splits)
  qed
qed

lemma joined_uninstalls:
  "servedAll B answers log \<Longrightarrow> heard B pre past \<Longrightarrow> vouched pre answers \<Longrightarrow> user_uninstalls B past log"
proof (induction arbitrary: pre past rule: servedAll.induct)
  case (joined_Cons c rep rs answers log)
  have "user_uninstalls B past (map (Pair (dc_addr c)) rs)"
  proof (rule user_uninstalls_all)
    fix a x
    assume "(a, x) \<in> set (map (Pair (dc_addr c)) rs)" and u: "isUserUninstall x"
    then have x: "x \<in> set rs" "a = dc_addr c" by auto
    obtain addr serial req where c: "c = DevCall addr serial req" by (cases c)
    have "\<exists>since. req = ResetPackagesRequest since"
      using served_tame [OF joined_Cons.hyps(1)] x(1) user_isUninstall [OF u] by (auto simp: c list_all_iff)
    then obtain since where since: "req = ResetPackagesRequest since" by blast
    then obtain ps p where p: "since = Some ps" "p \<notin> set ps" "ar_stdin x = script (uninstallCommand since @ shellQuote p)"
      using served_reset [OF _ x(1) u, of "B addr" addr serial since rep] joined_Cons.hyps(1) c by auto
    then have "unlisted B past serial p"
      using joined_Cons.prems by (auto simp: vouchedCall_def c since heard_def)
    moreover have "ar_args x = shellArgs (B a) serial"
      using served_args [OF joined_Cons.hyps(1)] x by (simp add: c list_all_iff)
    ultimately show "\<exists>serial p. ar_args x = shellArgs (B a) serial \<and>
        ar_stdin x = script (''pm uninstall --user 0 '' @ shellQuote p) \<and> unlisted B past serial p"
      using p by (auto simp: uninstallCommand_def)
  qed
  moreover have "user_uninstalls B (past @ map (Pair (dc_addr c)) rs) log"
    using joined_Cons.prems(2) by (intro joined_Cons.IH [OF heard_served [OF joined_Cons.prems(1) joined_Cons.hyps(1)]]) simp_all
  ultimately show ?case by (simp add: user_uninstalls_append)
qed simp

section \<open>The proxy only goes back to snapshots it was told\<close>

text \<open>
  Since the answers \<open>as0\<close> every reset to a snapshot repeated a listing, and every record in the relay
  table holds, if anything, a listing of its own phone (\<open>owner\<close>). \<open>K\<close> are listings that have been
  answered, \<open>R\<close> records that are in the table.
\<close>

definition recordTold :: "(nat \<Rightarrow> bytes) \<Rightarrow> (dev_call \<times> dev_reply) list \<Rightarrow> world \<Rightarrow> bytes \<times> nat \<Rightarrow> bool" where
  "recordTold owner answers w e \<longleftrightarrow> owner (snd e) = fst e \<and> snd e < w_nextRec w \<and>
     (case rr_snapshot (w_recs w (snd e)) of None \<Rightarrow> True | Some ps \<Rightarrow> listedBefore answers (fst e) ps)"

definition told :: "(dev_call \<times> dev_reply) list \<Rightarrow> (bytes \<times> bytes list) set \<Rightarrow> (bytes \<times> nat) set \<Rightarrow> world \<Rightarrow> bool" where
  "told as0 K R w \<longleftrightarrow> (\<exists>answers owner. w_answers w = as0 @ answers \<and> vouched [] answers \<and>
     (\<forall>(x, ps) \<in> K. listedBefore answers x ps) \<and> R \<subseteq> set (w_relayLocks w) \<and>
     (\<forall>e \<in> set (w_relayLocks w). recordTold owner answers w e))"

definition toldAllowed :: "(bytes \<times> bytes list) set \<Rightarrow> dev_call \<Rightarrow> bool" where
  "toldAllowed K c \<longleftrightarrow> (case dc_request c of ResetPackagesRequest (Some ps) \<Rightarrow> (dc_serial c, ps) \<in> K | _ \<Rightarrow> True)"

lemma recordTold_mono: "recordTold owner answers w e \<Longrightarrow> recordTold owner (answers @ xs) w e"
  by (auto simp: recordTold_def listedBefore_mono split: option.splits)

lemma recordTold_cong: "w_recs w' = w_recs w \<Longrightarrow> w_nextRec w \<le> w_nextRec w' \<Longrightarrow>
    recordTold owner answers w e \<Longrightarrow> recordTold owner answers w' e"
  by (auto simp: recordTold_def split: option.splits)

lemma told_cong:
  "told as0 K R w \<Longrightarrow> w_answers w' = w_answers w \<Longrightarrow> w_relayLocks w' = w_relayLocks w \<Longrightarrow>
    w_recs w' = w_recs w \<Longrightarrow> w_nextRec w' = w_nextRec w \<Longrightarrow> told as0 K R w'"
  by (simp add: told_def recordTold_def)

lemma told_call:
  assumes "told as0 K R w" and "toldAllowed K c"
  shows "told as0 K R (w\<lparr>w_devCalls := calls, w_answers := w_answers w @ [(c, rep)]\<rparr>)"
proof -
  from assms(1) obtain answers owner where a: "w_answers w = as0 @ answers" "vouched [] answers"
      "\<forall>(x, ps) \<in> K. listedBefore answers x ps" "R \<subseteq> set (w_relayLocks w)"
      "\<forall>e \<in> set (w_relayLocks w). recordTold owner answers w e"
    by (auto simp: told_def)
  have "vouchedCall answers c"
    using assms(2) a(3) by (auto simp: vouchedCall_def toldAllowed_def split: dev_request.splits option.splits)
  then have "vouched [] (answers @ [(c, rep)])" using a(2) by (simp add: vouched_append)
  moreover have "\<forall>e \<in> set (w_relayLocks w). recordTold owner (answers @ [(c, rep)])
      (w\<lparr>w_devCalls := calls, w_answers := w_answers w @ [(c, rep)]\<rparr>) e"
    using a(5) recordTold_mono [of owner answers w] recordTold_cong [of "w\<lparr>w_devCalls := calls, w_answers := w_answers w @ [(c, rep)]\<rparr>" w]
    by simp
  ultimately show ?thesis
    using a(1,3,4) listedBefore_mono unfolding told_def
    by (intro exI [of _ "answers @ [(c, rep)]"] exI [of _ owner]) auto
qed

interpretation told: port_invariant "told as0 K R" "toldAllowed K" for as0 K R
  by unfold_locales (auto elim: told_cong intro: told_call)

lemma told_phone: "told.phone_allowed K serial"
  unfolding told.phone_allowed_def
proof (intro allI impI)
  fix addr req
  assume "\<not> special req"
  then show "toldAllowed K (DevCall addr serial req)" by (cases req) (simp_all add: toldAllowed_def)
qed

lemma told_other [simp]:
  "toldAllowed K (DevCall addr serial (ResetPackagesRequest None))" "toldAllowed K (DevCall addr serial WakeRequest)"
  "toldAllowed K (DevCall addr serial (SetWifiRequest st band))" "toldAllowed K (DevCall addr serial ResetBluetoothRequest)"
  "toldAllowed K (DevCall addr serial (ForwardRequest cmd))" "toldAllowed K (DevCall addr serial ListPackagesRequest)"
  by (simp_all add: toldAllowed_def)

lemma told_forget: "told as0 K R w \<Longrightarrow> told as0 {} {} w"
  by (auto simp: told_def)

subsection \<open>Resets\<close>

lemma told_body:
  assumes "told as0 K {} w" and "since = None \<or> (\<exists>ps. since = Some ps \<and> (serial, ps) \<in> K)"
  shows "wp (resetBody e sp serial since) (\<lambda>_. told as0 {} {}) w"
proof -
  have "keeps (told as0 K {}) (resetBody e sp serial since)"
    using assms(2) by (intro told.keeps_resetBody told_phone) (auto simp: toldAllowed_def)
  then have "wp (resetBody e sp serial since) (\<lambda>_. told as0 K {}) w" using assms(1) by (rule keeps_wp)
  then show ?thesis by (rule wp_mono) (rule told_forget)
qed

lemma told_take:
  assumes "told as0 {} {} w" and "map_of (w_relayLocks w) serial = Some r"
  shows "told as0 (case rr_snapshot (w_recs w r) of None \<Rightarrow> {} | Some ps \<Rightarrow> {(serial, ps)}) {}
    (w\<lparr>w_relayLocks := del serial (w_relayLocks w)\<rparr>)"
proof -
  have e: "(serial, r) \<in> set (w_relayLocks w)" using assms(2) by (rule map_of_SomeD)
  from assms(1) obtain answers owner where a: "w_answers w = as0 @ answers" "vouched [] answers"
      "\<forall>e \<in> set (w_relayLocks w). recordTold owner answers w e"
    by (auto simp: told_def)
  then have "recordTold owner answers w (serial, r)" using e by blast
  then show ?thesis
    using a unfolding told_def
    by (intro exI [of _ answers] exI [of _ owner]) (auto simp: recordTold_def split: option.splits)
qed

lemma recordTold_flags [simp]:
  "recordTold owner answers (w\<lparr>w_recs := (w_recs w)(r := (w_recs w r)\<lparr>rr_settled := b\<rparr>)\<rparr>) e = recordTold owner answers w e"
  "recordTold owner answers (w\<lparr>w_recs := (w_recs w)(r := (w_recs w r)\<lparr>rr_prev := p\<rparr>)\<rparr>) e = recordTold owner answers w e"
  by (auto simp: recordTold_def)

lemma told_settle: "told as0 K R w \<Longrightarrow> told as0 K R (w\<lparr>w_recs := (w_recs w)(r := (w_recs w r)\<lparr>rr_settled := b\<rparr>)\<rparr>)"
  and told_prev: "told as0 K R w \<Longrightarrow> told as0 K R (w\<lparr>w_recs := (w_recs w)(r := (w_recs w r)\<lparr>rr_prev := p\<rparr>)\<rparr>)"
  by (simp_all add: told_def)

lemma keeps_resetDevice_told: "keeps (told as0 {} {}) (resetDevice e sp serial)"
proof (rule keepsI_wp)
  fix w
  assume w: "told as0 {} {} w"
  show "wp (resetDevice e sp serial) (\<lambda>_. told as0 {} {}) w"
  proof (cases "map_of (w_relayLocks w) serial")
    case None
    then show ?thesis
      using told_body [OF w, of None] w by (simp add: resetDevice_def wp_takeRelayRecord)
  next
    case (Some r)
    let ?since = "rr_snapshot (w_recs w r)"
    note taken = told_take [OF w Some]
    note settled = told_settle [OF taken, of r True, simplified]
    have since: "?since = None \<or> (\<exists>ps. ?since = Some ps \<and>
        (serial, ps) \<in> (case ?since of None \<Rightarrow> {} | Some ps \<Rightarrow> {(serial, ps)}))"
      by (simp split: option.split)
    show ?thesis
      using told_body [OF w, of None] told_body [OF taken, of None] told_body [OF settled since]
        w told_forget [OF taken] told_forget [OF settled]
      by (simp add: resetDevice_def wp_takeRelayRecord wp_settledSnapshot Some)
  qed
qed

subsection \<open>Relayed connections\<close>

lemma told_snapshot:
  assumes "told as0 K R w" and "(serial, r) \<in> R" and "listedBefore answers serial ps"
    and "w_answers w = as0 @ answers"
  shows "told as0 K R (w\<lparr>w_recs := (w_recs w)(r := (w_recs w r)\<lparr>rr_snapshot := Some ps\<rparr>)\<rparr>)"
proof -
  from assms(1,4) obtain owner where a: "vouched [] answers" "\<forall>(x, ps) \<in> K. listedBefore answers x ps"
      "R \<subseteq> set (w_relayLocks w)" "\<forall>e \<in> set (w_relayLocks w). recordTold owner answers w e"
    by (auto simp: told_def)
  then have "owner r = serial" using assms(2) by (fastforce simp: recordTold_def)
  with a assms(3,4) show ?thesis
    unfolding told_def by (intro exI [of _ answers] exI [of _ owner]) (auto simp: recordTold_def)
qed

lemma keeps_flags_told [keeps]:
  "keeps (told as0 K R) (setRec r (\<lambda>rec. rec\<lparr>rr_settled := b\<rparr>))"
  "keeps (told as0 K R) (setRec r (\<lambda>rec. rec\<lparr>rr_prev := p\<rparr>))"
  unfolding setRec_def by (intro keeps_modify told_settle told_prev; assumption)+

text \<open>The answered listing becomes the record's snapshot; \<open>k\<close> is what follows.\<close>

lemma keeps_listing_told:
  assumes "(serial, r) \<in> R" and "\<And>rep. keeps (told as0 K R) (f rep)" and "keeps (told as0 K R) k"
  shows "keeps (told as0 K R) (do {
     rep \<leftarrow> callDevice e (DevCall addr serial ListPackagesRequest);
     (case rp_err rep of Some _ \<Rightarrow> f rep
      | None \<Rightarrow> do { setRec r (\<lambda>rec. rec\<lparr>rr_snapshot := Some (rp_list rep)\<rparr>); k }) })"
proof (rule keepsI_wp)
  fix w
  assume w: "told as0 K R w"
  obtain answers where answers: "w_answers w = as0 @ answers" using w by (auto simp: told_def)
  let ?c = "DevCall addr serial ListPackagesRequest" and ?rep = "en_device e (w_step w) (DevCall addr serial ListPackagesRequest)"
  let ?u = "w\<lparr>w_step := Suc (w_step w), w_devCalls := w_devCalls w @ [?c], w_answers := w_answers w @ [(?c, ?rep)]\<rparr>"
  have u: "told as0 K R ?u"
    using told_call [OF told.inv_step [OF w], of ?c] by simp
  have "listedBefore (answers @ [(?c, ?rep)]) serial (rp_list ?rep)" if "rp_err ?rep = None"
    using that unfolding listedBefore_def by (intro exI [of _ addr] exI [of _ ?rep]) simp
  then have "told as0 K R (?u\<lparr>w_recs := (w_recs ?u)(r := (w_recs ?u r)\<lparr>rr_snapshot := Some (rp_list ?rep)\<rparr>)\<rparr>)"
    if "rp_err ?rep = None"
    by (intro told_snapshot [OF u assms(1)]) (simp_all add: that answers)
  with u show "wp (do {
     rep \<leftarrow> callDevice e ?c;
     (case rp_err rep of Some _ \<Rightarrow> f rep
      | None \<Rightarrow> do { setRec r (\<lambda>rec. rec\<lparr>rr_snapshot := Some (rp_list rep)\<rparr>); k }) }) (\<lambda>_. told as0 K R) w"
    using keeps_wp [OF assms(2)] keeps_wp [OF assms(3)] by (simp add: setRec_def split: option.split)
qed

lemma keeps_takeSnapshot_told:
  "(serial, r) \<in> R \<Longrightarrow> keeps (told as0 K R) (takeSnapshot e r addr serial)"
  unfolding takeSnapshot_def settledSnapshot_def Let_def by (intro keeps keeps_listing_told)

lemma relayRecordFor_told:
  assumes "told as0 {} {} w"
  shows "wp (relayRecordFor serial lockID) (\<lambda>r. told as0 {} {(serial, r)}) w"
proof -
  from assms obtain answers owner where a: "w_answers w = as0 @ answers" "vouched [] answers"
      "\<forall>e \<in> set (w_relayLocks w). recordTold owner answers w e"
    by (auto simp: told_def)
  let ?n = "w_nextRec w"
  have fresh: "told as0 {} {(serial, ?n)} (w\<lparr>w_recs := (w_recs w)(?n := \<lparr>rr_lockID = lockID, rr_settled = False,
      rr_snapshot = None, rr_prev = prev\<rparr>), w_nextRec := Suc ?n, w_relayLocks := put serial ?n (w_relayLocks w)\<rparr>)" for prev
    unfolding told_def using a
    by (intro exI [of _ answers] exI [of _ "owner(?n := serial)"])
      (auto simp: recordTold_def put_def split: option.splits)
  have "told as0 {} {(serial, r)} w" if "map_of (w_relayLocks w) serial = Some r" for r
    using assms map_of_SomeD [OF that] by (auto simp: told_def)
  then show ?thesis
    using fresh by (auto simp: relayRecordFor_def newRecord_def split: option.split)
qed

lemma keeps_ServeRelay_told: "keeps (told as0 {} {}) (ServeRelay e ro ow)"
proof (rule keepsI_wp)
  fix w
  assume w: "told as0 {} {} w"
  have device: "wp (serveDevice e ro ow addr r) (\<lambda>_. told as0 {} {}) w1"
    if "told as0 {} {(ro_serial ro, r)} w1" for addr r w1
  proof -
    have "keeps (told as0 {} {(ro_serial ro, r)}) (serveDevice e ro ow addr r)"
      unfolding serveDevice_def tunnelDead_def openDevice_def sendRelayFailedW_def Let_def
      by (intro keeps keeps_takeSnapshot_told told.keeps_callDevice told.keeps_getOrCreateDSClient told.keeps_sessSend)
        simp_all
    from keeps_wp [OF this that] show ?thesis by (rule wp_mono) (rule told_forget)
  qed
  have join: "wp (joinTunnel e ro ow addr r)
      (\<lambda>j u. told as0 {} {(ro_serial ro, r)} u \<and> (isl j \<or> j = Inr (addr, r))) w1"
    if "told as0 {} {(ro_serial ro, r)} w1" for addr r w1
  proof -
    have "keeps (told as0 {} {(ro_serial ro, r)}) (joinTunnel e ro ow addr r)"
      unfolding joinTunnel_def failJoin_def sendRelayFailedW_def by (intro keeps told.keeps_sessSend)
    from wp_conj [THEN iffD2, OF conjI [OF keeps_wp [OF this that] joinTunnel_post]] show ?thesis
      by (rule wp_mono) blast
  qed
  have forRecord: "wp (relayRecordFor (ro_serial ro) (ro_lockId ro)) (\<lambda>r. wp (joinTunnel e ro ow addr r)
      (\<lambda>j u. told as0 {} {} u \<and> (\<forall>a r. j = Inr (a, r) \<longrightarrow> told as0 {} {(ro_serial ro, r)} u))) w1"
    if "told as0 {} {} w1" for addr w1
    by (rule wp_mono [OF relayRecordFor_told [OF that]], rule wp_mono [OF join]) (auto intro: told_forget)
  have refuse: "keeps (told as0 {} {}) (failJoin e ro msg)" for msg
    unfolding failJoin_def sendRelayFailedW_def by (intro keeps told.keeps_sessSend)
  have refuse_isl: "wp (failJoin e ro msg) (\<lambda>j u. told as0 {} {} u \<and> (\<forall>a r. j = Inr (a, r) \<longrightarrow> told as0 {} {(ro_serial ro, r)} u)) w1"
    if "told as0 {} {} w1" for msg w1
    by (rule wp_mono [OF wp_conj [THEN iffD2, OF conjI [OF keeps_wp [OF refuse that] failJoin_post]]]) auto
  have "wp (serveJoin e ro ow) (\<lambda>j u. told as0 {} {} u \<and> (\<forall>a r. j = Inr (a, r) \<longrightarrow> told as0 {} {(ro_serial ro, r)} u)) w"
    unfolding serveJoin_def wp_bind
    by (rule wp_mono [OF keeps_wp [OF told.keeps_resolveSource w]]) (simp add: forRecord refuse_isl)
  then show "wp (ServeRelay e ro ow) (\<lambda>_. told as0 {} {}) w"
    unfolding ServeRelay_def wp_bind
    by (rule wp_mono) (auto split: sum.split intro: device)
qed

subsection \<open>Every operation\<close>

lemma keeps_tables_told [keeps]:
  "keeps (told as0 K R) (modify (\<lambda>w. w\<lparr>w_scoped := f w\<rparr>))"
  "keeps (told as0 K R) (modify (\<lambda>w. w\<lparr>w_nextPort := n w\<rparr>))"
  "keeps (told as0 K R) (modify (\<lambda>w. w\<lparr>w_nextPort := n w, w_scoped := f w\<rparr>))"
  by (intro keeps_modify; erule told_cong; simp)+

lemma keeps_CloseScopedPort_told [keeps]: "keeps (told as0 {} {}) (CloseScopedPort e lockID)"
  unfolding CloseScopedPort_def resetDevices_def by (intro keeps told.keeps_setState keeps_resetDevice_told)

lemma keeps_Release_told [keeps]: "keeps (told as0 {} {}) (Release e lockID status)"
  unfolding Release_def by (intro keeps told.keeps_drainWith told.keeps_ReleaseLock)

lemma keeps_Acquire_told: "keeps (told as0 {} {}) (Acquire e req n job prio wifi band same key ip)"
  unfolding Acquire_def takeGrant_def handOver_def acquireFailed_def CreateScopedPort_def Let_def
  by (intro keeps told.keeps_now told.keeps_tick told.keeps_AcquireLock told.keeps_ReleaseLock told.keeps_prepareDevice
      told.keeps_acquireEvents told.keeps_logExcerpt told.keeps_SetLockWifi told.keeps_setState told.keeps_setupDeviceAPI
      told_phone) simp_all

lemma keeps_lockStep_told: "keeps (told as0 {} {}) (lockStep e op)"
proof (cases op)
  case (DoExpire lockID)
  then show ?thesis
    by (auto simp: OnLockExpired_def resetRelayed_def Let_def intro!: keeps told.keeps_setState keeps_resetDevice_told)
next
  case (DoBluetooth lockID serials)
  then show ?thesis by (auto simp: RestartBluetooth_def intro!: keeps told.keeps_midJobCycle)
next
  case DoShutdown
  then show ?thesis by (auto simp: ShutdownAll_def intro!: keeps told.keeps_drainWith told.keeps_ReleaseLock)
next
  case (DoFlush lockID flushed)
  then show ?thesis by (auto simp: keepaliveOf_def intro!: keeps told.keeps_flushTick)
next
  case (DoBeat lockID flushed)
  then show ?thesis by (auto simp: keepaliveOf_def intro!: keeps told.keeps_beatTick)
next
  case (DoWifi lockID serials on band)
  then show ?thesis by (auto intro!: keeps told.keeps_SetLockWifi)
next
  case (DoLabels lockID labels)
  then show ?thesis by (auto simp: AddLabels_def intro!: keeps told.keeps_AddLockLabels)
qed (auto intro!: keeps keeps_Acquire_told keeps_ServeRelay_told)

section \<open>An owner's packages\<close>


section \<open>The end of a lock\<close>

lemma joined_calls:
  "servedAll B answers log \<Longrightarrow> list_all (\<lambda>(a, x). list_ex (\<lambda>(c, _). a = dc_addr c \<and>
     ar_args x = shellArgs (B a) (dc_serial c)) answers) log"
proof (induction rule: servedAll.induct)
  case (joined_Cons c rep rs answers log)
  then show ?case
    using served_args [OF joined_Cons.hyps(1)] by (auto simp: list_all_iff)
qed simp

definition answersTied :: "dev_call list \<Rightarrow> (dev_call \<times> dev_reply) list \<Rightarrow> world \<Rightarrow> bool" where
  "answersTied calls0 as0 w \<longleftrightarrow>
     (\<exists>answers. w_answers w = as0 @ answers \<and> w_devCalls w = calls0 @ map fst answers)"

interpretation tied: table_invariant "answersTied calls0 as0" "\<lambda>_. True" for calls0 as0
  by unfold_locales (auto simp: answersTied_def)

text \<open>
  C3. The end of a lock on the phones themselves. Every adb that runs because a lock ends runs as a shell on a
  phone of that lock, attached here or, when it expires, relayed under it, and on no phone that a port of
  another lock holds by then.
\<close>

theorem lock_end_on_phones:
  assumes "servedAll B answers log"
  shows "wp (Release e lockID status) (\<lambda>_ w'. if w_answers w' = w_answers w @ answers
       then list_all (\<lambda>(a, x). \<exists>serial. endedPhone w lockID False serial \<and>
         ar_args x = [''-P'', fmtInt (cf_adbPort (B a)), ''-s'', serial, ''shell'', ''sh'']) log
       else True) w \<and>
    wp (OnLockExpired e lockID) (\<lambda>_ w'. if w_answers w' = w_answers w @ answers
       then list_all (\<lambda>(a, x). \<exists>serial. endedPhone w lockID True serial \<and>
         ar_args x = [''-P'', fmtInt (cf_adbPort (B a)), ''-s'', serial, ''shell'', ''sh'']) log
       else True) w"
proof -
  let ?on = "\<lambda>b log. list_all (\<lambda>(a, x). \<exists>serial. endedPhone w lockID b serial \<and>
         ar_args x = [''-P'', fmtInt (cf_adbPort (B a)), ''-s'', serial, ''shell'', ''sh'']) log"
  have on: "?on b log" if "only_calls (w_devCalls w) (\<lambda>c. endedPhone w lockID b (dc_serial c)) w'"
      "answersTied (w_devCalls w) (w_answers w) w'" "w_answers w' = w_answers w @ answers" for b w'
  proof -
    have "list_all (\<lambda>c. endedPhone w lockID b (dc_serial c)) (map fst answers)"
      using that by (auto simp: only_calls_def answersTied_def)
    then show ?thesis
      using joined_calls [OF assms]
      by (fastforce simp: list_all_iff list_ex_iff shellArgs_def)
  qed
  have start: "answersTied (w_devCalls w) (w_answers w) w" by (simp add: answersTied_def)
  have release: "wp (Release e lockID status) (\<lambda>_. answersTied (w_devCalls w) (w_answers w)) w"
    by (rule keeps_wp [OF tied.keeps_Release start]) simp
  have "keeps (answersTied (w_devCalls w) (w_answers w)) (OnLockExpired e lockID)"
    unfolding OnLockExpired_def resetRelayed_def Let_def
    by (intro keeps tied.keeps_CloseScopedPort tied.keeps_setState tied.keeps_resetDevice keeps_modify tied.inv_nextPort)
      (simp_all add: tied.phone_allowed_def)
  from keeps_wp [OF this start] release lock_end_isolated [of e lockID status w]
  show ?thesis by (auto simp: wp_def on split: prod.splits)
qed

section \<open>A phone that is handed over is awake\<close>

text \<open>
  Since the answers \<open>as0\<close> the wake of every phone of \<open>D\<close> did not fail, or the phone was not attached.
\<close>

definition wakeAnswered :: "(dev_call \<times> dev_reply) list \<Rightarrow> bytes \<Rightarrow> bool" where
  "wakeAnswered answers serial \<longleftrightarrow> list_ex (\<lambda>(c, rep). dc_serial c = serial \<and> dc_request c = WakeRequest \<and>
     \<not> wakeFailed (rp_err rep)) answers"

definition woken :: "env \<Rightarrow> (dev_call \<times> dev_reply) list \<Rightarrow> bytes set \<Rightarrow> world \<Rightarrow> bool" where
  "woken e as0 D w \<longleftrightarrow> (\<exists>answers. w_answers w = as0 @ answers \<and>
     (\<forall>serial \<in> D. (\<exists>n. en_resolve e n serial = []) \<or> wakeAnswered answers serial))"

interpretation woken: table_invariant "woken e as0 D" "\<lambda>_. True" for e as0 D
  by unfold_locales (auto simp: woken_def wakeAnswered_def)

lemma woken_more: "woken e as0 D w \<Longrightarrow> D' \<subseteq> D \<Longrightarrow> woken e as0 D' w"
  by (fastforce simp: woken_def)

lemma woken_gone: "woken e as0 D w \<Longrightarrow> en_resolve e n serial = [] \<Longrightarrow> woken e as0 (insert serial D) w"
  by (auto simp: woken_def)

lemma woken_called:
  assumes "woken e as0 D w" and "\<not> wakeFailed (rp_err rep)"
  shows "woken e as0 (insert serial D) (w\<lparr>w_step := k, w_devCalls := calls,
    w_answers := w_answers w @ [(DevCall addr serial WakeRequest, rep)]\<rparr>)"
  using assms by (auto simp: woken_def wakeAnswered_def)

lemma Wake_woken:
  assumes "woken e as0 D w" and "en_hasResolve e"
  shows "wp (Wake e serial) (\<lambda>err. woken e as0 (if wakeFailed err then D else insert serial D)) w"
proof -
  have client: "wp (getOrCreateDSClient e addr) (\<lambda>r. wp (case r of Inl err \<Rightarrow> returnM (Some err)
      | Inr addr \<Rightarrow> do { rep \<leftarrow> callDevice e (DevCall addr serial WakeRequest); returnM (rp_err rep) })
      (\<lambda>err. woken e as0 (if wakeFailed err then D else insert serial D))) w1" if w1: "woken e as0 D w1" for addr w1
  proof -
    have failed: "woken e as0 D (u\<lparr>w_step := k, w_devCalls := calls, w_answers := w_answers u @ [x]\<rparr>)"
      if "woken e as0 D u" for u k calls x
      using that by (fastforce simp: woken_def wakeAnswered_def)
    have "wp (getOrCreateDSClient e addr) (\<lambda>r u. woken e as0 D u \<and> (\<forall>err. r = Inl err \<longrightarrow> wakeFailed (Some err))) w1"
      by (rule wp_conj [THEN iffD2, OF conjI [OF keeps_wp [OF woken.keeps_getOrCreateDSClient w1]]])
        (simp add: getOrCreateDSClient_def wakeFailed_def split: option.split)
    then show ?thesis
      by (rule wp_mono) (auto simp: failed woken_called split: sum.split)
  qed
  have absent: "\<not> wakeFailed (Some (notAttached serial))"
    by (simp add: notAttached_def wakeFailed_def)
  have "wp (resolveSource e serial) (\<lambda>addr. woken e as0 (if addr = [] then insert serial D else D)) w"
    using assms by (auto simp: resolveSource_def intro: woken.inv_step woken_gone)
  then show ?thesis
    unfolding Wake_def deviceClient_def wp_bind
  proof (rule wp_mono)
    fix addr :: bytes and u
    assume u: "woken e as0 (if addr = [] then insert serial D else D) u"
    show "wp (if addr = [] then returnM (Inl (notAttached serial)) else getOrCreateDSClient e addr)
        (\<lambda>r. wp (case r of Inl err \<Rightarrow> returnM (Some err)
          | Inr addr \<Rightarrow> do { rep \<leftarrow> callDevice e (DevCall addr serial WakeRequest); returnM (rp_err rep) })
          (\<lambda>err. woken e as0 (if wakeFailed err then D else insert serial D))) u"
    proof (cases "addr = []")
      case True
      then show ?thesis using u absent by simp
    next
      case False
      then show ?thesis using u by (simp only: if_False client)
    qed
  qed
qed

lemma prepareDevice_woken:
  assumes "woken e as0 D w" and "en_hasResolve e"
  shows "wp (prepareDevice e sp serial) (\<lambda>err. woken e as0 (if wakeFailed err then D else insert serial D)) w"
proof -
  have wake: "wp (wakeDevice e lockID serial) (\<lambda>err. woken e as0 (if wakeFailed err then D else insert serial D)) w1"
    if "woken e as0 D w1" for w1 lockID
    unfolding wakeDevice_def wp_bind
    by (rule wp_mono [OF Wake_woken [OF that assms(2)]])
      (simp add: keeps_wp [OF woken.keeps_Event] split: if_split_asm)
  have "keeps (woken e as0 D) (do {
      _ \<leftarrow> cleanDevice e sp serial '' (left by an earlier job)'' None;
      w \<leftarrow> getM;
      modify (\<lambda>w. w\<lparr>w_btFresh := w_btFresh w - {serial}\<rparr>);
      whenM (serial \<notin> w_btFresh w) (do {
        _ \<leftarrow> cycleBluetooth e sp serial '' (no release reset since the last job)'' True;
        returnM () });
      setUpdates e sp serial True })"
    by (intro keeps woken.keeps_cleanDevice woken.keeps_cycleBluetooth woken.keeps_setUpdates keeps_modify woken.inv_btFresh)
      (simp_all add: woken.phone_allowed_def)
  from keeps_wp [OF this assms(1)]
  have "wp (do {
      _ \<leftarrow> do {
        _ \<leftarrow> cleanDevice e sp serial '' (left by an earlier job)'' None;
        w \<leftarrow> getM;
        modify (\<lambda>w. w\<lparr>w_btFresh := w_btFresh w - {serial}\<rparr>);
        whenM (serial \<notin> w_btFresh w) (do {
          _ \<leftarrow> cycleBluetooth e sp serial '' (no release reset since the last job)'' True;
          returnM () });
        setUpdates e sp serial True };
      wakeDevice e (sp_lockID sp) serial })
      (\<lambda>err. woken e as0 (if wakeFailed err then D else insert serial D)) w"
    by (subst wp_bind, rule wp_mono) (rule wake)
  then show ?thesis
    by (simp add: prepareDevice_def)
qed

lemma wp_firstM:
  assumes "\<And>x D w. x \<in> set xs \<Longrightarrow> I D w \<Longrightarrow> wp (f x) (\<lambda>r u. r = None \<longrightarrow> I (insert x D) u) w" and "I D w"
  shows "wp (firstM xs f) (\<lambda>r u. r = None \<longrightarrow> I (D \<union> set xs) u) w"
  using assms
proof (induction xs arbitrary: D w)
  case (Cons x xs)
  have rest: "wp (firstM xs f) (\<lambda>r u. r = None \<longrightarrow> I (D \<union> set (x # xs)) u) u" if "I (insert x D) u" for u
    using Cons.IH [of "insert x D" u] Cons.prems(1) that by simp
  have "wp (f x) (\<lambda>r u. r = None \<longrightarrow> I (insert x D) u) w"
    using Cons.prems by simp
  then show ?case
    unfolding firstM.simps wp_bind
    by (rule wp_mono) (auto simp del: set_simps intro: rest split: option.split)
qed simp

lemma handOver_woken:
  assumes "woken e as0 {} w" and "en_hasResolve e"
  shows "wp (handOver e sp wifi band askedAt granted)
    (\<lambda>r u. case r of Inl _ \<Rightarrow> True | Inr sp' \<Rightarrow> woken e as0 (set (localSerials sp')) u) w" (is "wp _ ?Q w")
proof -
  let ?local = "filter (\<lambda>s. s \<notin> fst ` set (sp_remote sp)) (sp_serials sp)"
  let ?prepare = "\<lambda>serial. do { err \<leftarrow> prepareDevice e sp serial; returnM (if wakeFailed err then err else None) }"
  let ?I = "woken e as0"
  have failed: "wakeFailed err \<Longrightarrow> err \<noteq> None" for err
    by (auto simp: wakeFailed_def)
  have "wp (?prepare serial) (\<lambda>r u. r = None \<longrightarrow> ?I (insert serial D) u) w1" if "?I D w1" for D serial w1
    by (subst wp_bind, rule wp_mono [OF prepareDevice_woken [OF that assms(2)]]) (auto simp: failed)
  then have all: "wp (firstM ?local ?prepare) (\<lambda>r u. r = None \<longrightarrow> ?I ({} \<union> set ?local) u) w"
    by (intro wp_firstM [where I = ?I] assms)
  have giveUp: "wp (do { acquireFailed e sp outcome err askedAt granted; returnM (Inl er) }) ?Q w1" for outcome err er w1
    by (simp add: wp_def split: prod.split)
  have keep: "wp (do { acquireEvents e sp ''granted'' None askedAt granted; returnM (Inr sp) }) ?Q w1"
    if "?I (set (localSerials sp)) w1" for w1
    by simp (rule keeps_wp [OF woken.keeps_acquireEvents that])
  have wifi: "wp (SetLockWifi e (sp_lockID sp) [] wifi band) (\<lambda>_. ?I D) w1" if "?I D w1" for D w1
    by (rule keeps_wp [OF woken.keeps_SetLockWifi that]) simp
  have device: "wp (setupDeviceAPI e sp) (\<lambda>_. ?I D) w1" if "?I D w1" for D w1
    by (rule keeps_wp [OF woken.keeps_setupDeviceAPI that]) (simp add: woken.phone_allowed_def)
  have online: "wp (do { setupDeviceAPI e sp;
      err \<leftarrow> SetLockWifi e (sp_lockID sp) [] wifi band;
      (if err \<noteq> None \<and> \<not> wifiUnmanaged err then do {
         acquireFailed e sp ''wifi_failed'' err askedAt granted; returnM (Inl (the err)) }
       else do { acquireEvents e sp ''granted'' None askedAt granted; returnM (Inr sp) }) }) ?Q w1"
    if "?I (set (localSerials sp)) w1" for w1
    by (subst wp_bind, rule wp_mono [OF device [OF that]], subst wp_bind,
        rule wp_mono [OF wifi], assumption, subst wp_if, auto intro!: giveUp keep simp del: wp_bind)
  show ?thesis
    unfolding handOver_def
  proof (subst wp_bind, rule wp_mono [OF all])
    fix bad :: "goerr option" and w1
    assume w1: "bad = None \<longrightarrow> ?I ({} \<union> set ?local) w1"
    show "wp (case bad of Some err \<Rightarrow> do { acquireFailed e sp ''wake_failed'' (Some err) askedAt granted; returnM (Inl err) }
       | None \<Rightarrow> do { setupDeviceAPI e sp;
          err \<leftarrow> SetLockWifi e (sp_lockID sp) [] wifi band;
          (if err \<noteq> None \<and> \<not> wifiUnmanaged err then do {
             acquireFailed e sp ''wifi_failed'' err askedAt granted; returnM (Inl (the err)) }
           else do { acquireEvents e sp ''granted'' None askedAt granted; returnM (Inr sp) }) }) ?Q w1"
    proof (cases bad)
      case None
      then show ?thesis using online [of w1] w1 by (simp only: option.case simp_thms localSerials_def set_sort Un_empty_left)
    next
      case (Some err)
      then show ?thesis using giveUp by (simp only: option.case)
    qed
  qed
qed

lemma Acquire_woken:
  assumes "en_hasResolve e"
  shows "wp (Acquire e requested cnt job prio wifi band same key ip)
    (\<lambda>r u. case r of Inl _ \<Rightarrow> True | Inr sp \<Rightarrow> woken e (w_answers w) (set (localSerials sp)) u) w" (is "wp _ ?Q w")
proof -
  let ?I = "woken e (w_answers w) {}"
  have start: "?I w" by (simp add: woken_def)
  have create: "wp (CreateScopedPort e lockID serials remote) (\<lambda>_. ?I) w1" if "?I w1" for lockID serials remote w1
    by (rule keeps_wp [OF woken.keeps_CreateScopedPort that])
  have grant: "wp (takeGrant e lock wifi band askedAt) ?Q w1" if "?I w1" for lock askedAt w1
  proof -
    have now: "wp (now e) (\<lambda>_. ?I) w1" by (rule keeps_wp [OF woken.keeps_now that])
    have refused: "wp (do { _ \<leftarrow> ReleaseLock e lockID ''error'' []; returnM (Inl err) }) ?Q u" for lockID err u
      by (simp add: wp_def split: prod.split)
    have over: "wp (case c of Inl err \<Rightarrow> do { _ \<leftarrow> ReleaseLock e (lr_lockID lock) ''error'' []; returnM (Inl err) }
        | Inr sp \<Rightarrow> handOver e sp wifi band askedAt granted) ?Q u" if "?I u" for c granted u
      using refused handOver_woken [OF that assms] by (cases c) (simp_all only: sum.case)
    show ?thesis
      unfolding takeGrant_def
      by (subst wp_bind, rule wp_mono [OF now], subst wp_bind, rule wp_mono [OF create], assumption, rule over)
  qed
  have now: "wp (now e) (\<lambda>_. ?I) w" by (rule keeps_wp [OF woken.keeps_now start])
  have lock: "wp (AcquireLock e requested cnt 30 job prio same key ip) (\<lambda>_. ?I) w1" if "?I w1" for w1
    by (rule keeps_wp [OF woken.keeps_AcquireLock that])
  have granted: "wp (case r of Inl err \<Rightarrow> returnM (Inl err) | Inr lock \<Rightarrow> takeGrant e lock wifi band askedAt) ?Q u"
    if "?I u" for r askedAt u
    using grant [OF that] by (cases r) (simp_all only: sum.case wp_return)
  show ?thesis
    unfolding Acquire_def
    by (subst wp_bind, rule wp_mono [OF now], subst wp_bind, rule wp_mono [OF lock], assumption, rule granted)
qed

lemma woken_phone:
  assumes "servedAll B answers log" and "wakeAnswered answers serial"
  shows "list_ex (\<lambda>(c, rep). dc_serial c = serial \<and> dc_request c = WakeRequest \<and>
      rp_err rep \<noteq> None \<and> \<not> wakeFailed (rp_err rep)) answers \<or>
    (\<exists>a xs rs ys. log = xs @ map (Pair a) rs @ ys \<and> list_all (\<lambda>x. ar_args x = shellArgs (B a) serial) rs \<and>
      awakeAtEnd (butlast rs))"
  using assms
proof (induction rule: servedAll.induct)
  case (joined_Cons c rep rs answers log)
  show ?case
  proof (cases "dc_serial c = serial \<and> dc_request c = WakeRequest \<and> rp_err rep = None")
    case True
    from joined_Cons.hyps(1) have "awakeAtEnd (butlast rs)"
    proof cases
      case (answered req ring s r s')
      then have r: "rep = answerReply r" "req = AskWake" using True by auto
      then have run: "run_state (orDone (Wake_src (B (dc_addr c)) (dc_serial c))) s = (r, s')" using answered(2) by simp
      have "wp (orDone (Wake_src b sr)) (\<lambda>r s'. \<forall>rs. isl r \<or> r = Inr Done \<and> (ds_runs s' = ds_runs s @ rs \<longrightarrow> awakeAtEnd (butlast rs))) s" for b sr
        unfolding orDone_def wp_bind
        by (rule wp_mono [OF Wake_contract]) (auto split: option.splits)
      from wp_run [OF this run] show ?thesis using r answered(3) True
        by (cases r; cases "projr r") auto
    qed (use True in simp_all)
    with served_args [OF joined_Cons.hyps(1)] True show ?thesis
      by (intro disjI2 exI [of _ "dc_addr c"] exI [of _ "[]"] exI [of _ rs] exI [of _ log]) simp
  next
    case False
    show ?thesis
    proof (cases "dc_serial c = serial \<and> dc_request c = WakeRequest \<and> \<not> wakeFailed (rp_err rep)")
      case True
      with False show ?thesis by simp
    next
      case here: False
      with joined_Cons.prems have "wakeAnswered answers serial" by (auto simp: wakeAnswered_def)
      from joined_Cons.IH [OF this] show ?thesis
      proof (elim disjE exE conjE)
        fix a xs rs' ys
        assume "log = xs @ map (Pair a) rs' @ ys" "list_all (\<lambda>x. ar_args x = shellArgs (B a) serial) rs'"
          "awakeAtEnd (butlast rs')"
        then show ?thesis
          by (intro disjI2 exI [of _ a] exI [of _ "map (Pair (dc_addr c)) rs @ xs"] exI [of _ rs'] exI [of _ ys]) simp
      qed simp
    qed
  qed
qed (simp add: wakeAnswered_def)


end
