(* ===== verification/BenchRuns.thy ===== *)
theory BenchRuns
  imports EndToEnd LockGrant
begin

text \<open>
  Two whole runs of the proxy with a device source, in which the theorems of \<open>EndToEnd\<close> are applied: a relayed
  lock that leaves an app behind and expires, and an acquire that wakes its phone. The sources know only some of
  the calls and answer the others with \<open>Unimplemented\<close>.
\<close>

section \<open>Benches\<close>

definition unknownMethod :: dev_reply where
  "unknownMethod = reply0\<lparr>rp_err := Some (Status Unimplemented ''unknown method'')\<rparr>"

definition failedCall :: "dev_call \<times> dev_reply \<Rightarrow> bool" where
  "failedCall a \<longleftrightarrow> rp_err (snd a) \<noteq> None"

lemma joined_lost: "list_all failedCall answers \<Longrightarrow> servedAll B answers []"
proof (induction answers)
  case (Cons x answers)
  obtain c rep where x: "x = (c, rep)" by fastforce
  then have "served (B (dc_addr c)) c rep []" using Cons.prems by (auto simp: failedCall_def intro: lost)
  then show ?case using joined_Cons [of B c rep "[]" answers "[]"] Cons by (simp add: x)
qed (simp add: joined_Nil)

lemma failed_unknown [simp]: "failedCall (c, unknownMethod)" "rp_err unknownMethod = Some (Status Unimplemented ''unknown method'')"
  by (simp_all add: failedCall_def unknownMethod_def)

lemma joined_append: "servedAll B xs l1 \<Longrightarrow> servedAll B ys l2 \<Longrightarrow> servedAll B (xs @ ys) (l1 @ l2)"
  by (induction rule: servedAll.induct) (auto dest: joined_Cons)

text \<open>A bench whose sources answer every request of a kind alike.\<close>

definition benchOf :: "(dev_request \<Rightarrow> dev_reply) \<Rightarrow> env" where
  "benchOf reply = env0\<lparr>en_device := \<lambda>_ c. reply (dc_request c)\<rparr>"

fun lendReply :: "dev_request \<Rightarrow> dev_reply" where
  "lendReply ListPackagesRequest = answerReply (Inr (Packages [''com.owner'']))"
| "lendReply (ResetPackagesRequest since) = answerReply (Inr (Removed ([''com.job''], [])))"
| "lendReply _ = unknownMethod"

section \<open>A relayed lock\<close>

text \<open>The phone of an owner who has \<open>com.owner\<close> on it; the job installs \<open>com.job\<close>.\<close>

definition relay0 :: relay_open where
  "relay0 = \<lparr>ro_tunnelId = ''T1'', ro_serial = ''P1'', ro_initialCommand = ''shell:'', ro_lockId = ''L1''\<rparr>"

definition owner0 :: owner_end where
  "owner0 = \<lparr>ow_open = None, ow_setup = None, ow_setupRecv = Inl Panic, ow_dead1 = None, ow_dead2 = None, ow_forward = None,
     ow_recvs = [], ow_sends = [], ow_devRecvs = [], ow_devSends = [], ow_tunnelFirst = True\<rparr>"

lemma lend_relay: "wp (ServeRelay (benchOf lendReply) relay0 owner0) (\<lambda>_ w. w_answers w =
   map (\<lambda>req. (DevCall ''src:1'' ''P1'' req, lendReply req)) [ListPackagesRequest, ForwardRequest ''shell:''] \<and>
  w_relayLocks w = [(''P1'', 0)] \<and> w_recs w 0 = \<lparr>rr_lockID = ''L1'', rr_settled = True, rr_snapshot = Some [''com.owner''], rr_prev = None\<rparr> \<and>
  w_scoped w = [] \<and> w_clients w = [''src:1'']) world0"
  by (simp add: ServeRelay_def serveJoin_def resolveSource_def joinTunnel_def serveDevice_def getOrCreateDSClient_def relayRecordFor_def newRecord_def takeSnapshot_def openDevice_def
   setRec_def benchOf_def relay0_def owner0_def env0_def world0_def unknownMethod_def reply0_def Let_def put_def del_def)

text \<open>Every answer since \<open>pre\<close> has the property.\<close>

definition answersFrom :: "(dev_call \<times> dev_reply \<Rightarrow> bool) \<Rightarrow> (dev_call \<times> dev_reply) list \<Rightarrow> world \<Rightarrow> bool" where
  "answersFrom P pre w \<longleftrightarrow> (\<exists>rest. w_answers w = pre @ rest \<and> list_all P rest)"

lemma keeps_answersFrom: "(\<And>w. w_answers (f w) = w_answers w) \<Longrightarrow> keeps (answersFrom P pre) (modify f)"
  by (rule keeps_modify) (simp add: answersFrom_def)

lemma keeps_answersFrom_tables [keeps]:
  "keeps (answersFrom P pre) tick" "keeps (answersFrom P pre) (now e)" "keeps (answersFrom P pre) (resolve e s)"
  "keeps (answersFrom P pre) (recordLog sp entry)" "keeps (answersFrom P pre) (callOrch e oc)"
  "keeps (answersFrom P pre) (setState sp fs)"
  "keeps (answersFrom P pre) (modify (\<lambda>w. w\<lparr>w_clients := fc w\<rparr>))"
  "keeps (answersFrom P pre) (modify (\<lambda>w. w\<lparr>w_btFresh := fb w\<rparr>))"
  "keeps (answersFrom P pre) (modify (\<lambda>w. w\<lparr>w_events := fe w\<rparr>))"
  "keeps (answersFrom P pre) (modify (\<lambda>w. w\<lparr>w_nextPort := fn w, w_scoped := ft w\<rparr>))"
  unfolding tick_def now_def resolve_def recordLog_def callOrch_def setState_def
  by (intro keeps keeps_answersFrom; simp)+

lemma keeps_answersFrom_call [keeps]:
  "P (c, reply (dc_request c)) \<Longrightarrow> keeps (answersFrom P pre) (callDevice (benchOf reply) c)"
  unfolding callDevice_def by (intro keeps keeps_modify) (auto simp: answersFrom_def benchOf_def)

lemma keeps_answersFrom_noop [keeps]: "keeps (answersFrom P pre) (modify (\<lambda>w. w))"
  by (rule keeps_answersFrom) simp

lemma keeps_answersFrom_wait [keeps]: "keeps (answersFrom P pre) (waitLoop e serial deadline n)"
  by (induction n) (auto intro!: keeps)

lemmas reset_calls = deviceClient_def resolveSource_def getOrCreateDSClient_def Event_def noteService_def excerpt_def logExcerpt_def
  waitForSource_def Wake_def HoldUpdates_def ResetBluetooth_def SetWifi_def ClearUiAutomation_def RebootIfStale_def RebootIfWedged_def
  RecentDeviceSourceLog_def wakeDevice_def wifiDevice_def unwedge_def

lemma keeps_answersFrom_reset:
  assumes "\<And>addr req. (case req of ListPackagesRequest \<Rightarrow> False | ResetPackagesRequest _ \<Rightarrow> False | _ \<Rightarrow> True) \<Longrightarrow>
    P (DevCall addr serial req, reply req)"
  shows "keeps (answersFrom P pre) (wakeDevice (benchOf reply) lockID serial)"
    and "keeps (answersFrom P pre) (wifiDevice (benchOf reply) lockID serial st band)"
    and "keeps (answersFrom P pre) (setUpdates (benchOf reply) sp serial b)"
    and "keeps (answersFrom P pre) (cleanUiAutomation (benchOf reply) sp serial trailer)"
    and "keeps (answersFrom P pre) (rebootStale (benchOf reply) sp serial)"
    and "keeps (answersFrom P pre) (cycleBluetooth (benchOf reply) sp serial trailer may)"
    and "keeps (answersFrom P pre) (wifiReset (benchOf reply) sp serial)"
    and "keeps (answersFrom P pre) (logExcerpt (benchOf reply) sp [serial])"
  unfolding reset_calls setUpdates_def cleanUiAutomation_def rebootStale_def cycleBluetooth_def wifiReset_def
  by (intro keeps; simp add: assms)+

lemma lend_lost: "(case req of ListPackagesRequest \<Rightarrow> False | ResetPackagesRequest _ \<Rightarrow> False | _ \<Rightarrow> True) \<Longrightarrow>
    failedCall (DevCall addr serial req, lendReply req)"
  by (cases req) (simp_all add: failedCall_def unknownMethod_def)

lemmas keeps_lend [keeps] = keeps_answersFrom_reset [where P = failedCall and reply = lendReply, OF lend_lost]

definition resetPre :: "world \<Rightarrow> bytes list \<Rightarrow> (dev_call \<times> dev_reply) list" where
  "resetPre w ps = w_answers w @ map (\<lambda>req. (DevCall ''src:1'' ''P1'' req, lendReply req))
     [RemoveReverseRequest, ResetPackagesRequest (Some ps)]"

lemma clean_lend: "wp (cleanDevice (benchOf lendReply) sp ''P1'' [] (Some ps)) (\<lambda>_. answersFrom failedCall (resetPre w ps)) w"
proof -
  let ?removed = "\<lambda>v. w_answers v = w_answers w @ [(DevCall ''src:1'' ''P1'' RemoveReverseRequest, lendReply RemoveReverseRequest)]"
  have reverse: "wp (RemoveReverseForwards (benchOf lendReply) ''P1'') (\<lambda>_. ?removed) w"
    by (simp add: RemoveReverseForwards_def resolveSource_def reverseReply_def getOrCreateDSClient_def benchOf_def env0_def unknownMethod_def reply0_def)
  have packages: "wp (ResetPackages (benchOf lendReply) ''P1'' (Some ps)) (\<lambda>_. answersFrom failedCall (resetPre w ps)) v" if "?removed v" for v
    using that by (simp add: ResetPackages_def deviceClient_def resolveSource_def getOrCreateDSClient_def benchOf_def
        env0_def unknownMethod_def reply0_def answersFrom_def resetPre_def)
  have clean: "wp (cleanPackages (benchOf lendReply) sp ''P1'' [] (Some ps)) (\<lambda>_. answersFrom failedCall (resetPre w ps)) v" if "?removed v" for v
    unfolding cleanPackages_def
    by (subst wp_bind, rule wp_mono [OF packages [OF that]], erule keeps_wp [rotated]) (unfold reset_calls, intro keeps)
  show ?thesis
    unfolding cleanDevice_def
    by (subst wp_bind, rule wp_mono [OF reverse], subst wp_bind, simp only: option.distinct simp_thms if_False,
        rule wp_mono [OF clean], assumption, erule keeps_wp [rotated]) (intro keeps)
qed

lemma reset_lend: "wp (resetBody (benchOf lendReply) sp ''P1'' (Some ps)) (\<lambda>_. answersFrom failedCall (resetPre w ps)) w"
  unfolding resetBody_def
  by (subst wp_bind, rule wp_mono [OF clean_lend], erule keeps_wp [rotated]) (intro keeps)

lemma expire_lend:
  assumes "w_relayLocks w = [(''P1'', 0)]"
    and "w_recs w 0 = \<lparr>rr_lockID = ''L1'', rr_settled = True, rr_snapshot = Some ps, rr_prev = None\<rparr>"
    and "w_scoped w = []"
  shows "wp (OnLockExpired (benchOf lendReply) ''L1'') (\<lambda>_. answersFrom failedCall (resetPre w ps)) w"
proof -
  have reset: "wp (resetBody (benchOf lendReply) sp ''P1'' (Some ps)) (\<lambda>_. answersFrom failedCall (resetPre w ps)) u" if "w_answers u = w_answers w" for sp u
    using reset_lend [of sp ps u] that by (simp add: resetPre_def)
  show ?thesis
    using assms by (simp add: OnLockExpired_def CloseScopedPort_def resetRelayed_def resetDevice_def takeRelayRecord_def
        settledSnapshot_def setRec_def setState_def standIn_def heldByAnyPort_def Let_def reset)
qed

lemma lend_run: "wp (foreach [DoRelay relay0 owner0, DoExpire ''L1''] (lockStep (benchOf lendReply)))
   (\<lambda>_ w. \<exists>rest. w_answers w = map (\<lambda>req. (DevCall ''src:1'' ''P1'' req, lendReply req)) [ListPackagesRequest, ForwardRequest ''shell:'', RemoveReverseRequest, ResetPackagesRequest (Some [''com.owner''])] @ rest \<and>
     list_all failedCall rest) (world0\<lparr>w_relayLocks := []\<rparr>)"
proof -
  have w: "world0\<lparr>w_relayLocks := []\<rparr> = world0" by (simp add: world0_def)
  show ?thesis
    by (simp only: w foreach.simps lockStep.simps forget_def wp_bind wp_return)
      (rule wp_mono [OF lend_relay], rule wp_mono [OF expire_lend], auto simp: answersFrom_def resetPre_def)
qed

definition lendBench :: bench where
  "lendBench = \<lparr>cf_adbPort = 5037, cf_wifiSSID = [], cf_wifiPassphrase = [], cf_wifiPingHost = [], cf_wifiTimeout = 0,
     cf_wifiOffTimeout = 0, cf_wakeTimeout = 0, cf_bluetoothTimeout = 0, cf_radioTimeout = 0, cf_rebootAfter = 0,
     cf_rebootTimeout = 0, cf_baselineOverride = None, cf_stopPackages = [], cf_clearPackages = [], cf_allow = None,
     cf_deny = None, bn_lapse = (\<lambda>_. 0), bn_adb = (\<lambda>n args stdin.
        if stdin = script (fullListCommand ''-3'')
        then (listing (if n = 0 then [''com.owner''] else [''com.job'', ''com.owner'']), None)
        else if HasPrefix stdin ''pm uninstall'' then (''Success'', None) else ([], None)),
     bn_expired = (\<lambda>_. False), bn_ctxErr = (\<lambda>_. None), bn_float = (\<lambda>_ _. Inr 0), bn_isPrint = (\<lambda>_. True)\<rparr>"

definition source0 :: source where
  "source0 = \<lparr>ds_step = 0, ds_time = 0, ds_runs = [], ds_warnings = (\<lambda>_. None), ds_btWarnings = (\<lambda>_. None),
     ds_reboots = (\<lambda>_. None), ds_wifi = (\<lambda>_. None), ds_props = (\<lambda>_. None), ds_accounts = (\<lambda>_. None),
     ds_baseline = (\<lambda>_. None), ds_baselineWarned = {}, ds_filterLogged = [], ds_unknownKeyguard = {}\<rparr>"

definition lendListing :: "bytes list \<Rightarrow> adb_run" where
  "lendListing ps = AdbRun (shellArgs lendBench ''P1'') (script (fullListCommand ''-3'')) (listing ps) None"

definition lendLog :: "adb_run list" where
  "lendLog = [lendListing [''com.owner''],
     AdbRun (shellArgs lendBench ''P1'') (script ''cmd wifi list-all-suggestions'') [] None,
     lendListing [''com.job'', ''com.owner''],
     AdbRun (shellArgs lendBench ''P1'') (script (''pm uninstall --user 0 '' @ shellQuote ''com.job'')) ''Success'' None]"

lemma parse_lend: "parseListing (listing [''com.owner'']) = Inr [''com.owner'']"
  "parseListing (listing [''com.job'', ''com.owner'']) = Inr [''com.job'', ''com.owner'']"
  by (code_simp)+

lemma lend_adb: "bn_adb lendBench n args stdin = (if stdin = script (fullListCommand ''-3'')
     then (listing (if n = 0 then [''com.owner''] else [''com.job'', ''com.owner'']), None)
     else if HasPrefix stdin ''pm uninstall'' then (''Success'', None) else ([], None))"
  by (simp add: lendBench_def)

lemma lend_check: "checkSerial lendBench ''P1'' = None"
  by (simp add: checkSerial_def validateSerial_def managed_def lendBench_def isSerialChar_def isAlnum_def byte_def)

lemma script_inj [simp]: "script a = script b \<longleftrightarrow> a = b"
  by (simp add: script_def)

lemma lend_list: "wp (servePhone lendBench ring ''P1'' AskList)
   (\<lambda>r s. r = Inr (Packages [''com.owner'']) \<and> ds_runs s = take 1 lendLog) source0"
  by (simp add: answering_def ListPackages_src_def lend_check completeListing_def Let_def answer_def ran_def lend_adb source0_def parse_lend sortedKeys_def lendLog_def lendListing_def)

lemma lend_steps:
  "bn_adb lendBench n args (script (''pm uninstall --user 0 '' @ shellQuote ''com.job'')) = (''Success'', None)"
  "bn_adb lendBench n args (script ''cmd wifi list-all-suggestions'') = ([], None)"
  by (simp_all add: lend_adb fullListCommand_def listCommand_def script_def HasPrefix_def)

lemma lend_reset: "wp (servePhone lendBench ring ''P1'' (AskReset (Some [''com.owner''])))
   (\<lambda>r s. r = Inr (Removed ([''com.job''], [])) \<and> ds_runs s = drop 1 lendLog) (source0\<lparr>ds_step := 1\<rparr>)"
proof -
  have "sortedKeys [''com.job'', ''com.owner''] = [''com.job'', ''com.owner'']" "HasPrefix (TrimSpace ''Success'') ''Success''"
    by code_simp+
  moreover have "cf_stopPackages lendBench = []" "cf_clearPackages lendBench = []"
    by (simp_all add: lendBench_def)
  ultimately show ?thesis
    by (simp add: answering_def ResetPackages_src_def lend_check resetKeeping_def listForReset_def completeListing_def Let_def
        answer_def ran_def lend_adb [where stdin = "script (fullListCommand ''-3'')"] lend_steps [simplified] source0_def parse_lend uninstallCommand_def lendLog_def lendListing_def)
qed

lemma served_run: "phoneRequest (dc_request c) = Some req \<Longrightarrow>
    wp (servePhone b ring (dc_serial c) req) (\<lambda>r s'. r = x \<and> ds_runs s' = rs) s \<Longrightarrow> ds_runs s = [] \<Longrightarrow>
    served b c (answerReply x) rs"
  by (cases "run_state (servePhone b ring (dc_serial c) req) s") (auto simp: wp_def intro!: answered)

lemma lend_joined:
  assumes "list_all failedCall rest"
  shows "servedAll (\<lambda>_. lendBench) (map (\<lambda>req. (DevCall ''src:1'' ''P1'' req, lendReply req))
      [RemoveReverseRequest, ResetPackagesRequest (Some [''com.owner''])] @ rest) (map (Pair ''src:1'') (drop 1 lendLog))"
    and "servedAll (\<lambda>_. lendBench) (map (\<lambda>req. (DevCall ''src:1'' ''P1'' req, lendReply req))
      [ListPackagesRequest, ForwardRequest ''shell:'']) (map (Pair ''src:1'') (take 1 lendLog))"
proof -
  let ?call = "DevCall ''src:1'' ''P1''"
  have "served lendBench (?call ListPackagesRequest) (lendReply ListPackagesRequest) (take 1 lendLog)"
    using served_run [of "?call ListPackagesRequest" AskList lendBench undefined "Inr (Packages [''com.owner''])"
        "take 1 lendLog" source0] lend_list by (simp add: source0_def del: servePhone.simps)
  then show "servedAll (\<lambda>_. lendBench) (map (\<lambda>req. (?call req, lendReply req)) [ListPackagesRequest, ForwardRequest ''shell:''])
      (map (Pair ''src:1'') (take 1 lendLog))"
    using joined_Cons [of "\<lambda>_. lendBench" "?call ListPackagesRequest" _ "take 1 lendLog"
        "[(?call (ForwardRequest ''shell:''), lendReply (ForwardRequest ''shell:''))]" "[]"] joined_lost [of "[(?call (ForwardRequest ''shell:''), lendReply (ForwardRequest ''shell:''))]"]
    by simp
  have "served lendBench (?call (ResetPackagesRequest (Some [''com.owner'']))) (lendReply (ResetPackagesRequest (Some [''com.owner'']))) (drop 1 lendLog)"
    using served_run [of "?call (ResetPackagesRequest (Some [''com.owner'']))" "AskReset (Some [''com.owner''])" lendBench undefined
        "Inr (Removed ([''com.job''], []))" "drop 1 lendLog" "source0\<lparr>ds_step := 1\<rparr>"] lend_reset
    by (simp add: source0_def del: servePhone.simps)
  from joined_Cons [of "\<lambda>_. lendBench" "?call (ResetPackagesRequest (Some [''com.owner'']))", simplified, OF this joined_lost [OF assms]]
  have "servedAll (\<lambda>_. lendBench) ((?call (ResetPackagesRequest (Some [''com.owner''])), lendReply (ResetPackagesRequest (Some [''com.owner'']))) # rest) (map (Pair ''src:1'') (drop 1 lendLog))"
    by simp
  from joined_append [OF joined_lost this, of "[(?call RemoveReverseRequest, lendReply RemoveReverseRequest)]"]
  show "servedAll (\<lambda>_. lendBench) (map (\<lambda>req. (?call req, lendReply req))
      [RemoveReverseRequest, ResetPackagesRequest (Some [''com.owner''])] @ rest) (map (Pair ''src:1'') (drop 1 lendLog))"
    by (simp del: lendReply.simps(2) add: lendReply.simps(3))
qed


definition lendWorld :: world where
  "lendWorld = snd (run_state (ServeRelay (benchOf lendReply) relay0 owner0) world0)"

theorem lock_end_on_phones_witness:
  "\<exists>answers log. servedAll (\<lambda>_. lendBench) answers log \<and> log \<noteq> [] \<and>
     wp (OnLockExpired (benchOf lendReply) ''L1'') (\<lambda>_ w'. w_answers w' = w_answers lendWorld @ answers) lendWorld \<and>
     list_all (\<lambda>(a, x). \<exists>serial. endedPhone lendWorld ''L1'' True serial \<and>
         ar_args x = [''-P'', fmtInt 5037, ''-s'', serial, ''shell'', ''sh'']) log"
proof -
  have "wp (OnLockExpired (benchOf lendReply) ''L1'') (\<lambda>_. answersFrom failedCall (resetPre lendWorld [''com.owner''])) lendWorld"
    using lend_relay by (intro expire_lend) (auto simp: lendWorld_def wp_def split: prod.splits)
  then obtain rest where answers: "wp (OnLockExpired (benchOf lendReply) ''L1'') (\<lambda>_ w'. w_answers w' = w_answers lendWorld @ map (\<lambda>req. (DevCall ''src:1'' ''P1'' req, lendReply req))
      [RemoveReverseRequest, ResetPackagesRequest (Some [''com.owner''])] @ rest) lendWorld"
    and rest: "list_all failedCall rest"
    by (auto simp: wp_def answersFrom_def resetPre_def split: prod.splits)
  from lock_end_on_phones [OF lend_joined(1) [OF rest], of "benchOf lendReply" "''L1''" "[]" lendWorld] answers lend_joined(1) [OF rest]
  show ?thesis
    by (intro exI [of _ "map (\<lambda>req. (DevCall ''src:1'' ''P1'' req, lendReply req))
      [RemoveReverseRequest, ResetPackagesRequest (Some [''com.owner''])] @ rest"] exI [of _ "map (Pair ''src:1'') (drop 1 lendLog)"])
     (auto simp: wp_def lendBench_def lendLog_def simp del: lendReply.simps)
qed

section \<open>A phone that wakes\<close>

definition job0 :: acquire_req where
  "job0 = \<lparr>aq_serials = [], aq_repo = ''sair'', aq_runUrl = [], aq_job = ''e2e'', aq_runAttempt = 1, aq_sha = [], aq_branch = [], aq_workflow = [],
    aq_stage = [], aq_labels = [], aq_count = 0, aq_proxyId = [], aq_priority = 0, aq_sameProxy = False, aq_tenantKey = []\<rparr>"

fun wakeReply :: "dev_request \<Rightarrow> dev_reply" where
  "wakeReply WakeRequest = reply0"
| "wakeReply _ = unknownMethod"

definition wokenOnly :: "dev_call \<times> dev_reply \<Rightarrow> bool" where
  "wokenOnly a \<longleftrightarrow> dc_serial (fst a) = ''P1'' \<and> snd a = wakeReply (dc_request (fst a))"

definition awakeBench :: bench where
  "awakeBench = lendBench\<lparr>bn_adb := \<lambda>n args stdin.
     (if stdin = script ''dumpsys power'' then ''mWakefulness=Awake''
      else if stdin = script ''dumpsys window policy'' then ''mShowingLockscreen=false'' else [], None)\<rparr>"

lemma keeps_woken_acquire:
  "keeps (answersFrom wokenOnly pre) (prepareDevice (benchOf wakeReply) sp ''P1'')"
  unfolding prepareDevice_def cleanDevice_def cleanPackages_def RemoveReverseForwards_def reverseReply_def ResetPackages_def Event_def noteService_def
    deviceClient_def resolveSource_def getOrCreateDSClient_def
  by (intro keeps keeps_answersFrom_reset) (simp_all add: wokenOnly_def)

lemma awake_wakes: "wp (servePhone awakeBench ring ''P1'' AskWake) (\<lambda>r _. r = Inr Done) source0"
proof -
  have adb: "answer awakeBench n ''P1'' c = (if c = ''dumpsys power'' then ''mWakefulness=Awake''
      else if c = ''dumpsys window policy'' then ''mShowingLockscreen=false'' else [], None)" for n c
    by (simp add: answer_def awakeBench_def)
  have "dumpsysField ''mWakefulness=Awake'' ''mWakefulness='' = ''Awake''"
    "orElse (dumpsysField ''mShowingLockscreen=false'' ''showing='') (dumpsysField ''mShowingLockscreen=false'' ''mShowingLockscreen='') = ''false''"
    by code_simp+
  moreover have "checkSerial awakeBench ''P1'' = None"
    by (simp add: checkSerial_def validateSerial_def managed_def awakeBench_def lendBench_def isSerialChar_def isAlnum_def byte_def)
  ultimately show ?thesis
    by (simp add: orDone_def Wake_src_def wake_def numeral_eq_Suc adb checkAwake_def waitForPhone_def waitValue_def asCheck_def pollTurns_def Let_def)
qed

lemma awake_joined: "list_all wokenOnly answers \<Longrightarrow> \<exists>log. servedAll (\<lambda>_. awakeBench) answers log"
proof (induction answers)
  case Nil
  then show ?case by (blast intro: joined_Nil)
next
  case (Cons x answers)
  obtain a req rep where x: "x = (DevCall a ''P1'' req, rep)" "rep = wakeReply req"
    using Cons.prems by (cases x; cases "fst x") (simp add: wokenOnly_def)
  have "\<exists>rs. served awakeBench (DevCall a ''P1'' req) rep rs"
  proof (cases "req = WakeRequest")
    case True
    have wp: "wp (servePhone awakeBench undefined ''P1'' AskWake) (\<lambda>r s. r = Inr Done \<and> ds_runs s = ds_runs s) source0"
      using awake_wakes by simp
    obtain s' where "run_state (servePhone awakeBench undefined ''P1'' AskWake) source0 = (Inr Done, s')"
      using awake_wakes [of undefined] by (auto simp: wp_def split: prod.splits)
    then show ?thesis
      using answered [of "DevCall a ''P1'' WakeRequest" AskWake awakeBench undefined source0 "Inr Done" s' "ds_runs s'" reply0]
      by (auto simp: True x(2) source0_def simp del: servePhone.simps)
  next
    case False
    then have "rp_err rep \<noteq> None" by (cases req) (simp_all add: x(2))
    then show ?thesis by (blast intro: lost)
  qed
  then show ?case
    using joined_Cons [of "\<lambda>_. awakeBench" "DevCall a ''P1'' req" rep _ answers] Cons by (fastforce simp: x)
qed

lemma woken_create: "wp (do {
    askedAt \<leftarrow> now (benchOf wakeReply);
    r \<leftarrow> AcquireLock (benchOf wakeReply) [''P1''] 0 30 job prio same key ip;
    case r of Inl err \<Rightarrow> returnM (Inl err) | Inr lock \<Rightarrow> do { t \<leftarrow> now (benchOf wakeReply); CreateScopedPort (benchOf wakeReply) (lr_lockID lock) (lr_serials lock) (lr_remote lock) } })
  (\<lambda>r w. (\<exists>sp. r = Inr sp \<and> sp_lockID sp = ''L1'' \<and> sp_serials sp = [''P1''] \<and> sp_remote sp = [] \<and> w_scoped w = [(''L1'', sp)]) \<and> w_answers w = []) world0"
  by (simp add: AcquireLock_def acquireRetries_def numeral_eq_Suc benchOf_def env0_def orch0_def CreateScopedPort_def world0_def setState_def remoteMap_def put_def del_def Let_def)

abbreviation wakeEnv :: env where "wakeEnv \<equiv> benchOf wakeReply"

lemma lock_granted: "wp (AcquireLock wakeEnv [''P1''] 0 30 job prio same key ip)
  (\<lambda>r w. r = Inr \<lparr>lr_lockID = ''L1'', lr_serials = [''P1''], lr_remote = []\<rparr> \<and> w_answers w = [] \<and> w_scoped w = [] \<and> w_clients w = [])
   (world0\<lparr>w_step := 1\<rparr>)"
  by (simp add: AcquireLock_def acquireRetries_def numeral_eq_Suc benchOf_def env0_def orch0_def remoteMap_def world0_def)

definition handed :: "scoped_port \<Rightarrow> world \<Rightarrow> bool" where
  "handed sp w \<longleftrightarrow> sp_lockID sp = ''L1'' \<and> sp_serials sp = [''P1''] \<and> sp_remote sp = [] \<and>
     (\<exists>oc. preparing False [(''L1'', sp)] oc [] w) \<and> answersFrom wokenOnly [] w"

lemma port_made: "w_answers w = [] \<Longrightarrow> w_scoped w = [] \<Longrightarrow> wp (CreateScopedPort wakeEnv ''L1'' [''P1''] [])
  (\<lambda>r w. case r of Inl _ \<Rightarrow> False | Inr sp \<Rightarrow> handed sp w) w"
  by (simp add: benchOf_def env0_def CreateScopedPort_def setState_def put_def del_def Let_def handed_def preparing_def answersFrom_def)

lemma wp_last: "(\<And>a u. wp (f a) Q u) \<Longrightarrow> wp (m \<bind> f) Q u"
  by (simp add: wp_def split: prod.split)

lemma handed_prepare:
  assumes "handed sp w"
  shows "wp (prepareDevice wakeEnv sp ''P1'') (\<lambda>r u. r = None \<and> handed sp u) w"
proof -
  from assms obtain oc where w: "preparing False [(''L1'', sp)] oc [] w" "answersFrom wokenOnly [] w"
      "sp_lockID sp = ''L1''" "sp_serials sp = [''P1'']" "sp_remote sp = []"
    by (auto simp: handed_def)
  have answer: "wp (Wake wakeEnv ''P1'') (\<lambda>r _. r = None) u" for u
    by (simp add: Wake_def deviceClient_def resolveSource_def getOrCreateDSClient_def benchOf_def env0_def reply0_def)
  have wake: "wp (wakeDevice wakeEnv lockID ''P1'') (\<lambda>r _. r = None) u" for lockID u
    unfolding wakeDevice_def by (subst wp_bind, rule wp_mono [OF answer]) (simp add: wakeFailed_def)
  have result: "wp (prepareDevice wakeEnv sp ''P1'') (\<lambda>r _. r = None) w"
    unfolding prepareDevice_def by (intro wp_last wake)
  have "keeps (preparing False [(''L1'', sp)] oc []) (prepareDevice wakeEnv sp ''P1'')"
    by (rule preparing.keeps_prepareDevice) simp_all
  from wp_conj [THEN iffD2, OF conjI [OF result wp_conj [THEN iffD2, OF conjI [OF keeps_wp [OF this w(1)]
        keeps_wp [OF keeps_woken_acquire w(2)]]]]]
  show ?thesis by (rule wp_mono) (auto simp: handed_def w)
qed

lemma handed_online:
  assumes "handed sp w"
  shows "wp (SetLockWifi wakeEnv ''L1'' [] True []) (\<lambda>r u. wifiUnmanaged r \<and> handed sp u) w"
proof -
  from assms obtain oc where w: "preparing False [(''L1'', sp)] oc [] w" "answersFrom wokenOnly [] w"
      "sp_lockID sp = ''L1''" "sp_serials sp = [''P1'']" "sp_remote sp = []"
    by (auto simp: handed_def)
  have result: "wp (wifiDevice wakeEnv ''L1'' ''P1'' WifiON []) (\<lambda>r _. r = Some (Status Unimplemented ''unknown method'')) u" for u
    by (simp add: wifiDevice_def SetWifi_def deviceClient_def resolveSource_def getOrCreateDSClient_def benchOf_def env0_def wifiUnmanaged_def)
  have k: "keeps (preparing False [(''L1'', sp)] oc []) (wifiDevice wakeEnv ''L1'' ''P1'' WifiON [])"
    by (rule preparing.keeps_wifiDevice) simp
  have a: "keeps (answersFrom wokenOnly []) (wifiDevice wakeEnv ''L1'' ''P1'' WifiON [])"
    by (rule keeps_answersFrom_reset) (auto simp: wokenOnly_def)
  from wp_conj [THEN iffD2, OF conjI [OF result wp_conj [THEN iffD2, OF conjI [OF keeps_wp [OF k w(1)]
        keeps_wp [OF a w(2)]]]]]
  have "wp (wifiDevice wakeEnv ''L1'' ''P1'' WifiON []) (\<lambda>r u. r = Some (Status Unimplemented ''unknown method'') \<and> handed sp u) w"
    by (rule wp_mono) (auto simp: handed_def w)
  then show ?thesis
    using w by (simp add: SetLockWifi_def preparing_def lockDevices_def Let_def firstError_def) (erule wp_mono, simp add: wifiUnmanaged_def)
qed

lemma handed_answered:
  assumes "handed sp w"
  shows "wp (acquireEvents wakeEnv sp outcome err askedAt granted) (\<lambda>_. handed sp) w"
proof -
  have "keeps (handed sp) (acquireEvents wakeEnv sp outcome err askedAt granted)"
    unfolding acquireEvents_def Event_def now_def tick_def
    by (intro keeps keeps_modify) (simp_all add: handed_def preparing_def answersFrom_def)
  from keeps_wp [OF this assms] show ?thesis .
qed

lemma handOver_handed:
  assumes "handed sp w"
  shows "wp (handOver wakeEnv sp True [] askedAt granted) (\<lambda>r u. r = Inr sp \<and> handed sp u) w"
proof -
  have sp: "sp_lockID sp = ''L1''" "filter (\<lambda>s. s \<notin> fst ` set (sp_remote sp)) (sp_serials sp) = [''P1'']"
    using assms by (simp_all add: handed_def)
  have api: "setupDeviceAPI wakeEnv sp = returnM ()"
    by (simp add: setupDeviceAPI_def benchOf_def env0_def whenM_def)
  have prepared: "wp (firstM [''P1''] (\<lambda>serial. do { err \<leftarrow> prepareDevice wakeEnv sp serial; returnM (if wakeFailed err then err else None) }))
      (\<lambda>r u. r = None \<and> handed sp u) w"
    by (simp, rule wp_mono [OF handed_prepare [OF assms]]) (simp add: wakeFailed_def)
  have events: "wp (do { acquireEvents wakeEnv sp ''granted'' None askedAt granted; returnM (Inr sp) }) (\<lambda>r u. r = Inr sp \<and> handed sp u) u"
    if "handed sp u" for u
    using handed_answered [OF that] by simp
  have "wp (do { err \<leftarrow> SetLockWifi wakeEnv ''L1'' [] True [];
      (if err \<noteq> None \<and> \<not> wifiUnmanaged err then do { acquireFailed wakeEnv sp ''wifi_failed'' err askedAt granted; returnM (Inl (the err)) }
       else do { acquireEvents wakeEnv sp ''granted'' None askedAt granted; returnM (Inr sp) }) }) (\<lambda>r u. r = Inr sp \<and> handed sp u) u"
    if "handed sp u" for u
    by (subst wp_bind, rule wp_mono [OF handed_online [OF that]]) (simp only: simp_thms if_False events)
  then show ?thesis
    unfolding handOver_def sp api
    by (subst wp_bind, intro wp_mono [OF prepared]) (auto simp del: wp_bind)
qed

lemma acquire_handed: "wp (Acquire wakeEnv [''P1''] 0 job prio True [] same key ip)
   (\<lambda>r w. \<exists>sp. r = Inr sp \<and> handed sp w) world0"
proof -
  have grant: "wp (takeGrant wakeEnv \<lparr>lr_lockID = ''L1'', lr_serials = [''P1''], lr_remote = []\<rparr> True [] askedAt) (\<lambda>r w. \<exists>sp. r = Inr sp \<and> handed sp w) w"
    if "w_answers w = []" "w_scoped w = []" for askedAt w
  proof -
    have over: "wp (case c of Inl err \<Rightarrow> do { _ \<leftarrow> ReleaseLock wakeEnv ''L1'' ''error'' []; returnM (Inl err) }
        | Inr sp \<Rightarrow> handOver wakeEnv sp True [] askedAt granted) (\<lambda>r w. \<exists>sp. r = Inr sp \<and> handed sp w) u"
      if "case c of Inl _ \<Rightarrow> False | Inr sp \<Rightarrow> handed sp u" for c granted u
      using that by (cases c) (auto intro: wp_mono [OF handOver_handed])
    show ?thesis
      unfolding takeGrant_def lock_result.simps
      by (subst wp_bind, subst wp_now, subst wp_bind, rule wp_mono [OF port_made over]) (simp_all add: that)
  qed
  have w: "world0\<lparr>w_step := Suc (w_step world0)\<rparr> = world0\<lparr>w_step := 1\<rparr>" by (simp add: world0_def)
  show ?thesis
    unfolding Acquire_def
    by (subst wp_bind, subst wp_now, subst wp_bind, unfold w, rule wp_mono [OF lock_granted]) (auto intro: grant)
qed

end
