(* ===== verification/PhoneTurns.thy ===== *)
theory PhoneTurns
  imports Prelude
begin

text \<open>
  The goroutines of \<open>internal/proxy/scoped_port.go\<close> and of \<open>ServeRelay\<close> at each other's side. The other
  theories run an operation to its end as one step; here its steps come between those of all others, and only
  the manager's table (\<open>m.mu\<close>), the relay records and a mutex for each phone (\<open>wifiMu\<close>) order them.
  What an operation does to a phone while it holds the phone's mutex is one \<open>job\<close> with a beginning and an end.
\<close>

section \<open>Goroutines\<close>

text \<open>
  What a goroutine does under a phone's mutex: an acquire's preparation, a Wi-Fi change, a Bluetooth restart,
  the reset of a lock's port and that of a lock relayed from here, or nothing (\<open>waitReset\<close>).
\<close>

datatype job = Prepare | WifiTo bool | BluetoothCycle | ResetLocal | ResetRelayed | WaitOnly

datatype instr =
    Turn bytes bytes job
  | OpenPort bytes "bytes list" "bytes list"
  | ClosePort bytes
  | FanOut bytes "bytes list" job "instr list"
  | FanRelayed bytes
  | Await "nat list"
  | NoteRelay bytes bytes
  | OrElse "instr list"
  | Serve bytes bytes
  | HandOver bytes

text \<open>Where a goroutine is in the \<open>Turn\<close> it is at.\<close>

datatype turn_phase = Ready | Locked | Recorded | Cleared | Acting | Left

type_synonym goroutine = "turn_phase \<times> instr list"

datatype event =
    Opened bytes
  | Closed bytes
  | Handed bytes
  | Noted bytes bytes
  | Serving bytes bytes
  | Began nat bytes bytes job
  | Ended nat bytes bytes job

record turns =
  tn_ports :: "(bytes \<times> bytes list \<times> bytes list) list"
  tn_mutex :: "bytes \<Rightarrow> nat option"
  tn_relays :: "(bytes \<times> bytes) list"
  tn_threads :: "goroutine list"
  tn_trace :: "event list"

section \<open>Programs\<close>

definition localsOf :: "bytes list \<times> bytes list \<Rightarrow> bytes list" where
  "localsOf p = filter (\<lambda>s. s \<notin> set (snd p)) (fst p)"

text \<open>\<open>Acquire\<close> from the grant on. A phone that does not wake, or a failed Wi-Fi change, releases the lock.\<close>

definition acquireProgram :: "bytes \<Rightarrow> bytes list \<Rightarrow> bytes list \<Rightarrow> bool \<Rightarrow> instr list" where
  "acquireProgram lockID serials remote wifi =
     OpenPort lockID serials remote #
     concat (map (\<lambda>s. [Turn lockID s Prepare, OrElse [ClosePort lockID]]) (localsOf (serials, remote))) @
     [FanOut lockID [] (WifiTo wifi) [ClosePort lockID], OrElse [ClosePort lockID], HandOver lockID]"

definition releaseProgram :: "bytes \<Rightarrow> instr list" where
  "releaseProgram lockID = [ClosePort lockID]"

definition expireProgram :: "bytes \<Rightarrow> instr list" where
  "expireProgram lockID = [ClosePort lockID, FanRelayed lockID]"

definition wifiProgram :: "bytes \<Rightarrow> bytes list \<Rightarrow> bool \<Rightarrow> instr list" where
  "wifiProgram lockID serials on = [FanOut lockID serials (WifiTo on) []]"

definition bluetoothProgram :: "bytes \<Rightarrow> bytes list \<Rightarrow> instr list" where
  "bluetoothProgram lockID serials = [FanOut lockID serials BluetoothCycle []]"

text \<open>\<open>ServeRelay\<close>: it can give up wherever its tunnel can.\<close>

definition relayProgram :: "bytes \<Rightarrow> bytes \<Rightarrow> instr list" where
  "relayProgram lockID serial =
     [NoteRelay serial lockID, OrElse [], Turn lockID serial WaitOnly, OrElse [], Serve lockID serial]"

definition shutdownProgram :: "turns \<Rightarrow> instr list" where
  "shutdownProgram st = map (\<lambda>(lockID, _). ClosePort lockID) (tn_ports st)"

definition programs :: "turns \<Rightarrow> instr list set" where
  "programs st = {acquireProgram l ss rem wifi | l ss rem wifi. True} \<union> {releaseProgram l | l. True} \<union>
     {expireProgram l | l. True} \<union> {wifiProgram l ss on | l ss on. True} \<union>
     {bluetoothProgram l ss | l ss. True} \<union> {relayProgram l s | l s. True} \<union> {shutdownProgram st}"

section \<open>Steps\<close>

definition become :: "nat \<Rightarrow> goroutine \<Rightarrow> turns \<Rightarrow> turns" where
  "become i g st = st\<lparr>tn_threads := (tn_threads st)[i := g]\<rparr>"

definition say :: "event \<Rightarrow> turns \<Rightarrow> turns" where
  "say ev st = st\<lparr>tn_trace := tn_trace st @ [ev]\<rparr>"

text \<open>\<open>wg.Go\<close> for each, then \<open>wg.Wait\<close>.\<close>

definition fork :: "nat \<Rightarrow> instr list list \<Rightarrow> instr list \<Rightarrow> turns \<Rightarrow> turns" where
  "fork i ps rest st = (let n = length (tn_threads st)
     in st\<lparr>tn_threads := (tn_threads st)[i := (Ready, Await [n..<n + length ps] # rest)] @ map (Pair Ready) ps\<rparr>)"

definition heldByAny :: "turns \<Rightarrow> bytes \<Rightarrow> bool" where
  "heldByAny st serial \<longleftrightarrow> list_ex (\<lambda>(_, serials, _). serial \<in> set serials) (tn_ports st)"

definition isReset :: "job \<Rightarrow> bool" where
  "isReset j \<longleftrightarrow> j = ResetLocal \<or> j = ResetRelayed"

text \<open>
  A turn: the mutex, then for a reset the relay record and, under the mutex, the look whether a port names
  the phone by now; then the job; then the mutex is given back.
\<close>

definition takesRecord :: "turns \<Rightarrow> bytes \<Rightarrow> bytes \<Rightarrow> bool" where
  "takesRecord st lockID serial \<longleftrightarrow> map_of (tn_relays st) serial = Some lockID"

fun turn :: "nat \<Rightarrow> turn_phase \<Rightarrow> bytes \<Rightarrow> bytes \<Rightarrow> job \<Rightarrow> instr list \<Rightarrow> turns \<Rightarrow> turns option" where
  "turn i Ready l s j rest st =
     (if tn_mutex st s \<noteq> None then None
      else Some (become i (Locked, Turn l s j # rest) (st\<lparr>tn_mutex := (tn_mutex st)(s := Some i)\<rparr>)))"
| "turn i Locked l s j rest st =
     (if j = WaitOnly then Some (become i (Left, Turn l s j # rest) st)
      else if isReset j then
        Some (become i (if j = ResetRelayed \<and> \<not> takesRecord st l s then Left else Recorded, Turn l s j # rest)
          (if takesRecord st l s then st\<lparr>tn_relays := filter (\<lambda>(k, _). k \<noteq> s) (tn_relays st)\<rparr> else st))
      else Some (become i (Cleared, Turn l s j # rest) st))"
| "turn i Recorded l s j rest st =
     Some (become i (if heldByAny st s then Left else Cleared, Turn l s j # rest) st)"
| "turn i Cleared l s j rest st = Some (say (Began i l s j) (become i (Acting, Turn l s j # rest) st))"
| "turn i Acting l s j rest st = Some (say (Ended i l s j) (become i (Left, Turn l s j # rest) st))"
| "turn i Left l s j rest st = Some (become i (Ready, rest) (st\<lparr>tn_mutex := (tn_mutex st)(s := None)\<rparr>))"

text \<open>
  The rest of an operation. \<open>failed\<close> is what happens to go wrong at an \<open>OrElse\<close>.
\<close>

fun exec :: "bool \<Rightarrow> nat \<Rightarrow> turn_phase \<Rightarrow> instr \<Rightarrow> instr list \<Rightarrow> turns \<Rightarrow> turns option" where
  "exec failed i ph (Turn l s j) rest st = turn i ph l s j rest st"
| "exec failed i ph (OpenPort l serials remote) rest st =
     Some (if map_of (tn_ports st) l \<noteq> None then become i (Ready, []) st
       else say (Opened l) (become i (Ready, rest) (st\<lparr>tn_ports := (l, serials, remote) # tn_ports st\<rparr>)))"
| "exec failed i ph (ClosePort l) rest st = Some (case map_of (tn_ports st) l of
       None \<Rightarrow> become i (Ready, rest) st
     | Some p \<Rightarrow> say (Closed l) (become i (Ready, map (\<lambda>s. Turn l s ResetLocal) (localsOf p) @ rest)
         (st\<lparr>tn_ports := filter (\<lambda>(k, _). k \<noteq> l) (tn_ports st)\<rparr>)))"
| "exec failed i ph (FanOut l serials j orElse) rest st = Some (case map_of (tn_ports st) l of
       None \<Rightarrow> become i (Ready, orElse) st
     | Some p \<Rightarrow>
         let ss = (if serials = [] then localsOf p else serials)
         in if list_ex (\<lambda>s. s \<notin> set (fst p)) ss then become i (Ready, orElse) st
            else fork i (map (\<lambda>s. [Turn l s j]) ss) rest st)"
| "exec failed i ph (FanRelayed l) rest st =
     Some (fork i (map (\<lambda>(s, _). [Turn l s ResetRelayed]) (filter (\<lambda>(_, l'). l' = l) (tn_relays st))) rest st)"
| "exec failed i ph (Await ts) rest st =
     (if list_all (\<lambda>t. snd (tn_threads st ! t) = []) ts then Some (become i (Ready, rest) st) else None)"
| "exec failed i ph (NoteRelay s l) rest st =
     Some (say (Noted l s) (become i (Ready, rest)
       (st\<lparr>tn_relays := (s, l) # filter (\<lambda>(k, _). k \<noteq> s) (tn_relays st)\<rparr>)))"
| "exec failed i ph (OrElse p) rest st = Some (become i (Ready, if failed then p else rest) st)"
| "exec failed i ph (Serve l s) rest st = Some (say (Serving l s) (become i (Ready, rest) st))"
| "exec failed i ph (HandOver l) rest st = Some (say (Handed l) (become i (Ready, rest) st))"

inductive step :: "turns \<Rightarrow> turns \<Rightarrow> bool" where
  start: "p \<in> programs st \<Longrightarrow> step st (st\<lparr>tn_threads := tn_threads st @ [(Ready, p)]\<rparr>)"
| go: "i < length (tn_threads st) \<Longrightarrow> tn_threads st ! i = (ph, c # rest) \<Longrightarrow>
    exec failed i ph c rest st = Some st' \<Longrightarrow> step st st'"

definition noTurns :: turns where
  "noTurns = \<lparr>tn_ports = [], tn_mutex = (\<lambda>_. None), tn_relays = [], tn_threads = [], tn_trace = []\<rparr>"

inductive reach :: "turns \<Rightarrow> bool" where
  first: "reach noTurns"
| next_step: "reach st \<Longrightarrow> step st st' \<Longrightarrow> reach st'"

section \<open>Who holds a phone\<close>

fun holdsPhone :: "goroutine \<Rightarrow> bytes option" where
  "holdsPhone (ph, Turn l s j # rest) = (if ph = Ready then None else Some s)"
| "holdsPhone _ = None"

lemma holdsPhone_Ready [simp]: "holdsPhone (Ready, p) = None"
  by (cases "(Ready, p)" rule: holdsPhone.cases) simp_all

definition mutex_ok :: "turns \<Rightarrow> bool" where
  "mutex_ok st \<longleftrightarrow> (\<forall>s i. tn_mutex st s = Some i \<longleftrightarrow>
     i < length (tn_threads st) \<and> holdsPhone (tn_threads st ! i) = Some s)"

lemmas turns_simps = become_def say_def fork_def Let_def

text \<open>What a step of goroutine \<open>i\<close> does to the goroutines and to the mutexes.\<close>

definition moved :: "nat \<Rightarrow> goroutine \<Rightarrow> instr list list \<Rightarrow> turns \<Rightarrow> turns \<Rightarrow> bool" where
  "moved i g ps st st' \<longleftrightarrow> tn_threads st' = (tn_threads st)[i := g] @ map (Pair Ready) ps \<and>
     tn_mutex st' = (case (holdsPhone (tn_threads st ! i), holdsPhone g) of
        (None, Some s) \<Rightarrow> (tn_mutex st)(s := Some i)
      | (Some s, None) \<Rightarrow> (tn_mutex st)(s := None)
      | _ \<Rightarrow> tn_mutex st) \<and>
     (case (holdsPhone (tn_threads st ! i), holdsPhone g) of
        (None, Some s) \<Rightarrow> tn_mutex st s = None | (Some s, Some s') \<Rightarrow> s = s' | _ \<Rightarrow> True)"

definition forked :: "turns \<Rightarrow> turns \<Rightarrow> instr list list" where
  "forked st st' = map snd (drop (length (tn_threads st)) (tn_threads st'))"

lemma exec_moved:
  assumes "tn_threads st ! i = (ph, c # rest)" and "exec failed i ph c rest st = Some st'"
    and "i < length (tn_threads st)"
  shows "moved i (tn_threads st' ! i) (forked st st') st st'"
proof (cases c)
  case (Turn l s j)
  then show ?thesis
    using assms by (cases ph) (auto simp: moved_def forked_def turns_simps split: if_splits)
qed (use assms in \<open>auto simp: moved_def forked_def turns_simps comp_def nth_append split: option.splits if_splits\<close>)+

lemma moved_mutex_ok:
  assumes "mutex_ok st" and "moved i g ps st st'" and "i < length (tn_threads st)"
  shows "mutex_ok st'"
proof -
  have new: "holdsPhone ((xs @ map (Pair Ready) ps) ! k) = (if k < length xs then holdsPhone (xs ! k) else None)"
    if "k < length xs + length ps" for k and xs
    using that by (simp add: nth_append)
  have owner: "tn_mutex st s = Some k" if "k < length (tn_threads st)" "holdsPhone (tn_threads st ! k) = Some s" for k s
    using assms(1) that by (simp add: mutex_ok_def)
  show ?thesis
    using assms unfolding mutex_ok_def moved_def
    by (auto simp: new nth_list_update split: option.splits if_splits; metis owner option.distinct(1) option.inject)
qed

lemma reach_mutex_ok: "reach st \<Longrightarrow> mutex_ok st"
proof (induction rule: reach.induct)
  case first
  then show ?case by (simp add: mutex_ok_def noTurns_def)
next
  case (next_step st st')
  from next_step.hyps(2) next_step.IH show ?case
  proof cases
    case (start p)
    then show ?thesis using next_step.IH by (auto simp: mutex_ok_def nth_append)
  next
    case (go i ph c rest failed)
    from moved_mutex_ok [OF next_step.IH exec_moved [OF go(2,3,1)] go(1)] show ?thesis .
  qed
qed

section \<open>One at a time\<close>

text \<open>What is going on on a phone after a trace, \<open>None\<close> when two jobs ran into each other.\<close>

fun orderly :: "bytes \<Rightarrow> (nat \<times> bytes \<times> job) option \<Rightarrow> event list \<Rightarrow> (nat \<times> bytes \<times> job) option option" where
  "orderly s cur [] = Some cur"
| "orderly s cur (Began i l s' j # es) =
     (if s' \<noteq> s then orderly s cur es else if cur = None then orderly s (Some (i, l, j)) es else None)"
| "orderly s cur (Ended i l s' j # es) =
     (if s' \<noteq> s then orderly s cur es else if cur = Some (i, l, j) then orderly s None es else None)"
| "orderly s cur (_ # es) = orderly s cur es"

lemma orderly_snoc: "orderly s cur (xs @ [ev]) = Option.bind (orderly s cur xs) (\<lambda>c. orderly s c [ev])"
  by (induction s cur xs rule: orderly.induct) simp_all

fun actingOn :: "nat \<Rightarrow> goroutine \<Rightarrow> (nat \<times> bytes \<times> job) option" where
  "actingOn i (Acting, Turn l s j # rest) = Some (i, l, j)"
| "actingOn i _ = None"

definition busy :: "turns \<Rightarrow> bytes \<Rightarrow> (nat \<times> bytes \<times> job) option" where
  "busy st s = (case tn_mutex st s of None \<Rightarrow> None | Some i \<Rightarrow> actingOn i (tn_threads st ! i))"

definition trace_ok :: "turns \<Rightarrow> bool" where
  "trace_ok st \<longleftrightarrow> (\<forall>s. orderly s None (tn_trace st) = Some (busy st s))"

lemma actingOn_Ready [simp]: "actingOn i (Ready, p) = None"
  by (cases "(i, Ready, p)" rule: actingOn.cases) simp_all

lemma moved_busy:
  assumes "mutex_ok st" and "moved i g ps st st'" and "i < length (tn_threads st)"
    and "holdsPhone (tn_threads st ! i) \<noteq> Some s" and "holdsPhone g \<noteq> Some s"
  shows "busy st' s = busy st s"
proof -
  have "tn_mutex st' s = tn_mutex st s"
    using assms(2,4,5) by (auto simp: moved_def split: option.splits)
  moreover have "tn_threads st' ! k = tn_threads st ! k" if "tn_mutex st s = Some k" for k
    using assms that by (cases "k = i") (auto simp: mutex_ok_def moved_def nth_append)
  ultimately show ?thesis by (simp add: busy_def split: option.split)
qed

lemma exec_trace_other:
  assumes "exec failed i ph c rest st = Some st'" and "\<nexists>l j. c = Turn l s j"
  shows "orderly s None (tn_trace st') = orderly s None (tn_trace st)"
proof (cases c)
  case (Turn l s' j)
  then show ?thesis
    using assms by (cases ph) (auto simp: turns_simps orderly_snoc split: if_splits bind_split)
qed (use assms in \<open>auto simp: turns_simps orderly_snoc split: option.splits if_splits bind_split\<close>)

lemma exec_holds_other:
  assumes "exec failed i ph c rest st = Some st'" and "\<nexists>l j. c = Turn l s j" and "i < length (tn_threads st)"
  shows "holdsPhone (tn_threads st' ! i) \<noteq> Some s"
proof (cases c)
  case (Turn l s' j)
  then show ?thesis
    using assms by (cases ph) (auto simp: turns_simps split: if_splits)
qed (use assms in \<open>auto simp: turns_simps nth_append split: option.splits if_splits\<close>)

lemma exec_trace_ok:
  assumes "mutex_ok st" and "trace_ok st" and "i < length (tn_threads st)" and "tn_threads st ! i = (ph, c # rest)"
    and "exec failed i ph c rest st = Some st'"
  shows "trace_ok st'"
  unfolding trace_ok_def
proof
  fix s
  have ok: "orderly s None (tn_trace st) = Some (busy st s)"
    using assms(2) by (simp add: trace_ok_def)
  have moved: "moved i (tn_threads st' ! i) (forked st st') st st'"
    by (rule exec_moved [OF assms(4,5,3)])
  show "orderly s None (tn_trace st') = Some (busy st' s)"
  proof (cases "\<exists>l j. c = Turn l s j")
    case True
    then obtain l j where c: "c = Turn l s j" by blast
    have mutex: "tn_mutex st s = (if ph = Ready then None else Some i)" if "ph = Ready \<Longrightarrow> tn_mutex st s = None"
      using assms(1,3,4) that c by (auto simp: mutex_ok_def)
    show ?thesis
      using assms(3,4,5) ok mutex c
      by (cases ph) (auto simp: turns_simps busy_def orderly_snoc nth_append split: if_splits)
  next
    case False
    then have "holdsPhone (tn_threads st ! i) \<noteq> Some s"
      using assms(4) by (cases c) auto
    from moved_busy [OF assms(1) moved assms(3) this exec_holds_other [OF assms(5) False assms(3)]]
      exec_trace_other [OF assms(5) False] ok
    show ?thesis by simp
  qed
qed

lemma reach_trace_ok: "reach st \<Longrightarrow> trace_ok st"
proof (induction rule: reach.induct)
  case first
  then show ?case by (simp add: trace_ok_def noTurns_def busy_def)
next
  case (next_step st st')
  note mutex = reach_mutex_ok [OF next_step.hyps(1)]
  from next_step.hyps(2) show ?case
  proof cases
    case (start p)
    have "k < length (tn_threads st)" if "tn_mutex st s = Some k" for k s
      using mutex that by (simp add: mutex_ok_def)
    then have "busy st' s = busy st s" for s
      by (simp add: start(1) busy_def nth_append split: option.split)
    then show ?thesis using next_step.IH by (simp add: trace_ok_def start(1))
  next
    case (go i ph c rest failed)
    from exec_trace_ok [OF mutex next_step.IH go] show ?thesis .
  qed
qed

section \<open>No reset under a prepared lock\<close>

definition clearedReset :: "bytes \<Rightarrow> goroutine \<Rightarrow> bool" where
  "clearedReset s g \<longleftrightarrow> (\<exists>l j rest. g = (Cleared, Turn l s j # rest) \<and> isReset j)"

definition resetBegan :: "bytes \<Rightarrow> event \<Rightarrow> bool" where
  "resetBegan s ev \<longleftrightarrow> (\<exists>i l j. ev = Began i l s j \<and> isReset j)"

text \<open>Lock \<open>B\<close>, whose port is open, has prepared \<open>s\<close>, or is about to, and the port has been open since.\<close>

definition preparedBefore :: "turns \<Rightarrow> bytes \<Rightarrow> bytes \<Rightarrow> event list \<Rightarrow> bool" where
  "preparedBefore st B s ys \<longleftrightarrow> (\<exists>xs i. tn_trace st = xs @ Began i B s Prepare # ys) \<and>
     Opened B \<notin> set ys \<and> Closed B \<notin> set ys \<and>
     (\<exists>serials remote. map_of (tn_ports st) B = Some (serials, remote) \<and> s \<in> set serials)"

definition resets_ok :: "turns \<Rightarrow> bool" where
  "resets_ok st \<longleftrightarrow> (\<forall>B s ys. preparedBefore st B s ys \<longrightarrow>
     list_all (\<lambda>ev. \<not> resetBegan s ev) ys \<and> list_all (\<lambda>g. \<not> clearedReset s g) (tn_threads st))"

lemma held_open: "map_of (tn_ports st) B = Some (serials, remote) \<Longrightarrow> s \<in> set serials \<Longrightarrow> heldByAny st s"
  by (auto simp: heldByAny_def list_ex_iff dest!: map_of_SomeD)

lemma cleared_holds: "clearedReset s g \<Longrightarrow> holdsPhone g = Some s"
  by (auto simp: clearedReset_def)

lemma clearedReset_simps [simp]:
  "clearedReset s (ph, Turn l s' j # rest) \<longleftrightarrow> ph = Cleared \<and> s' = s \<and> isReset j"
  "\<not> clearedReset s (Ready, p)"
  by (auto simp: clearedReset_def)

lemma resetBegan_simps [simp]:
  "resetBegan s (Began i l s' j) \<longleftrightarrow> s' = s \<and> isReset j" "\<not> resetBegan s (Ended i l s' j)"
  "\<not> resetBegan s (Opened l)" "\<not> resetBegan s (Closed l)" "\<not> resetBegan s (Handed l)"
  "\<not> resetBegan s (Noted l s')" "\<not> resetBegan s (Serving l s')"
  by (auto simp: resetBegan_def)

lemma map_of_filter_key: "k \<noteq> l \<Longrightarrow> map_of (filter (\<lambda>(k', _). k' \<noteq> l) xs) k = map_of xs k"
  by (induction xs) auto

text \<open>A step that says nothing leaves the ports; one that does not open or close the port of \<open>B\<close> leaves it.\<close>

lemma exec_said:
  assumes "exec failed i ph c rest st = Some st'" and "tn_threads st ! i = (ph, c # rest)"
    and "i < length (tn_threads st)"
  shows "(tn_trace st' = tn_trace st \<and> tn_ports st' = tn_ports st \<and>
       (\<forall>s. clearedReset s (tn_threads st' ! i) \<longrightarrow> \<not> heldByAny st s)) \<or>
    (\<exists>ev. tn_trace st' = tn_trace st @ [ev] \<and> (\<forall>s. \<not> clearedReset s (tn_threads st' ! i)) \<and>
       (\<forall>s. resetBegan s ev \<longrightarrow> clearedReset s (tn_threads st ! i)) \<and>
       (\<forall>k l s. ev = Began k l s Prepare \<longrightarrow> holdsPhone (tn_threads st' ! i) = Some s) \<and>
       (\<forall>B. ev = Opened B \<or> ev = Closed B \<or> map_of (tn_ports st') B = map_of (tn_ports st) B))"
proof (cases c)
  case (Turn l s j)
  then show ?thesis
    using assms by (cases ph) (auto simp: turns_simps isReset_def heldByAny_def split: if_splits)
qed (use assms in \<open>auto simp: turns_simps nth_append map_of_filter_key split: option.splits if_splits\<close>)

lemma exec_resets_ok:
  assumes "resets_ok st" and "mutex_ok st'" and "i < length (tn_threads st)" and "tn_threads st ! i = (ph, c # rest)"
    and "exec failed i ph c rest st = Some st'"
  shows "resets_ok st'"
  unfolding resets_ok_def
proof (intro allI impI)
  fix B s ys
  assume prepared: "preparedBefore st' B s ys"
  have threads: "tn_threads st' = (tn_threads st)[i := tn_threads st' ! i] @ map (Pair Ready) (forked st st')"
    using exec_moved [OF assms(4,5,3)] by (simp add: moved_def)
  have quiet: "list_all (\<lambda>g. \<not> clearedReset s g) (tn_threads st')"
    if "list_all (\<lambda>g. \<not> clearedReset s g) (tn_threads st)" "\<not> clearedReset s (tn_threads st' ! i)"
    by (subst threads) (use that assms(3) in \<open>auto simp: list_all_length nth_append nth_list_update\<close>)
  have old: "list_all (\<lambda>ev. \<not> resetBegan s ev) zs \<and> list_all (\<lambda>g. \<not> clearedReset s g) (tn_threads st)"
    if "preparedBefore st B s zs" for zs
    using assms(1) that by (simp add: resets_ok_def)
  from exec_said [OF assms(5,4,3)]
  show "list_all (\<lambda>ev. \<not> resetBegan s ev) ys \<and> list_all (\<lambda>g. \<not> clearedReset s g) (tn_threads st')"
  proof (elim disjE exE conjE)
    assume same: "tn_trace st' = tn_trace st" "tn_ports st' = tn_ports st"
      and cleared: "\<forall>s. clearedReset s (tn_threads st' ! i) \<longrightarrow> \<not> heldByAny st s"
    have "preparedBefore st B s ys" using prepared same by (simp add: preparedBefore_def)
    moreover have "heldByAny st s" using prepared same by (auto simp: preparedBefore_def intro: held_open)
    ultimately show ?thesis using old quiet cleared by blast
  next
    fix ev
    assume said: "tn_trace st' = tn_trace st @ [ev]" "\<forall>s. \<not> clearedReset s (tn_threads st' ! i)"
        "\<forall>s. resetBegan s ev \<longrightarrow> clearedReset s (tn_threads st ! i)"
        "\<forall>k l s. ev = Began k l s Prepare \<longrightarrow> holdsPhone (tn_threads st' ! i) = Some s"
        "\<forall>B. ev = Opened B \<or> ev = Closed B \<or> map_of (tn_ports st') B = map_of (tn_ports st) B"
    from prepared obtain xs k where tr: "tn_trace st @ [ev] = xs @ Began k B s Prepare # ys"
      by (auto simp: preparedBefore_def said(1))
    show ?thesis
    proof (cases ys rule: rev_cases)
      case Nil
      then have "ev = Began k B s Prepare" using tr by simp
      then have "holdsPhone (tn_threads st' ! i) = Some s" using said(4) by blast
      moreover have "i < length (tn_threads st')" using assms(3) by (subst threads) simp
      ultimately have "tn_mutex st' s = Some i" using assms(2) by (simp add: mutex_ok_def)
      moreover have "tn_mutex st' s = Some m" if "m < length (tn_threads st')" "clearedReset s (tn_threads st' ! m)" for m
        using assms(2) cleared_holds [OF that(2)] that(1) by (simp add: mutex_ok_def)
      ultimately have "m = i" if "m < length (tn_threads st')" "clearedReset s (tn_threads st' ! m)" for m
        using that by fastforce
      then show ?thesis using said(2) Nil by (auto simp: list_all_length)
    next
      case (snoc zs ev')
      then have tr: "tn_trace st = xs @ Began k B s Prepare # zs" "ev' = ev" using tr by auto
      moreover have "map_of (tn_ports st') B = map_of (tn_ports st) B"
        using said(5) prepared snoc tr by (auto simp: preparedBefore_def)
      ultimately have "preparedBefore st B s zs"
        using prepared snoc by (auto simp: preparedBefore_def)
      from old [OF this] have before: "list_all (\<lambda>ev. \<not> resetBegan s ev) zs"
          and none: "list_all (\<lambda>g. \<not> clearedReset s g) (tn_threads st)" by blast+
      moreover have "\<not> resetBegan s ev"
        using said(3) none assms(3) by (auto simp: list_all_length)
      ultimately show ?thesis using quiet said(2) snoc tr by simp
    qed
  qed
qed

lemma reach_resets_ok: "reach st \<Longrightarrow> resets_ok st"
proof (induction rule: reach.induct)
  case first
  then show ?case by (simp add: resets_ok_def preparedBefore_def noTurns_def)
next
  case (next_step st st')
  note mutex = reach_mutex_ok [OF reach.next_step [OF next_step.hyps]]
  from next_step.hyps(2) show ?case
  proof cases
    case (start p)
    have "preparedBefore st B s ys" if "preparedBefore st' B s ys" for B s ys
      using that by (simp add: start(1) preparedBefore_def)
    then show ?thesis using next_step.IH by (simp add: resets_ok_def start(1)) blast
  next
    case (go i ph c rest failed)
    from exec_resets_ok [OF next_step.IH mutex go] show ?thesis .
  qed
qed

section \<open>Somebody can go on\<close>

fun plain :: "instr \<Rightarrow> bool" where
  "plain (Await ts) = False"
| "plain (OrElse p) = list_all plain p"
| "plain (FanOut l ss j p) = list_all plain p"
| "plain _ = True"

lemma programs_plain: "p \<in> programs st \<Longrightarrow> list_all plain p"
  by (auto simp: programs_def acquireProgram_def releaseProgram_def expireProgram_def wifiProgram_def bluetoothProgram_def
      relayProgram_def shutdownProgram_def list_all_iff)

text \<open>A goroutine waits only for ones that were started after it.\<close>

fun waits_for :: "nat \<Rightarrow> nat \<Rightarrow> instr list \<Rightarrow> bool" where
  "waits_for n i (Await ts # rest) = (list_all (\<lambda>t. i < t \<and> t < n) ts \<and> list_all plain rest)"
| "waits_for n i p = list_all plain p"

definition awaits_later :: "turns \<Rightarrow> bool" where
  "awaits_later st \<longleftrightarrow>
     (\<forall>i < length (tn_threads st). waits_for (length (tn_threads st)) i (snd (tn_threads st ! i)))"

lemma plain_waits_for: "list_all plain p \<Longrightarrow> waits_for n i p"
  by (cases "(n, i, p)" rule: waits_for.cases) simp_all

lemma waits_for_mono: "waits_for n i p \<Longrightarrow> n \<le> m \<Longrightarrow> waits_for m i p"
  by (cases "(n, i, p)" rule: waits_for.cases) (auto simp: list_all_iff)

lemma waits_for_Cons: "waits_for n i (c # rest) \<Longrightarrow> list_all plain rest \<and> (plain c \<or> (\<exists>ts. c = Await ts))"
  by (cases c) auto

lemma exec_waits:
  assumes "exec failed i ph c rest st = Some st'" and "waits_for (length (tn_threads st)) i (c # rest)"
    and "i < length (tn_threads st)"
  shows "waits_for (length (tn_threads st')) i (snd (tn_threads st' ! i)) \<and>
    list_all (list_all plain) (forked st st') \<and> length (tn_threads st) \<le> length (tn_threads st')"
proof (cases c)
  case (Turn l s j)
  then show ?thesis
    using assms by (cases ph) (auto simp: turns_simps forked_def intro: plain_waits_for split: if_splits)
next
  case (ClosePort l)
  then have "list_all plain rest" using assms(2) by simp
  then have "waits_for n i (map (\<lambda>s. Turn l s ResetLocal) ss @ rest)" for n ss
    by (intro plain_waits_for) (auto simp: list_all_iff)
  then show ?thesis
    using assms ClosePort by (auto simp: turns_simps forked_def intro: plain_waits_for split: option.splits)
qed (use assms waits_for_Cons [OF assms(2)] in
    \<open>auto simp: turns_simps forked_def nth_append list_all_iff intro: plain_waits_for split: option.splits if_splits\<close>)

lemma reach_awaits_later: "reach st \<Longrightarrow> awaits_later st"
proof (induction rule: reach.induct)
  case first
  then show ?case by (simp add: awaits_later_def noTurns_def)
next
  case (next_step st st')
  note old = next_step.IH [unfolded awaits_later_def, rule_format]
  from next_step.hyps(2) show ?case
  proof cases
    case (start p)
    then show ?thesis
      using waits_for_mono [OF old] programs_plain [OF start(2), THEN plain_waits_for]
      by (auto simp: awaits_later_def nth_append less_Suc_eq)
  next
    case (go i ph c rest failed)
    have threads: "tn_threads st' = (tn_threads st)[i := tn_threads st' ! i] @ map (Pair Ready) (forked st st')"
      using exec_moved [OF go(2,3,1)] by (simp add: moved_def)
    from old [OF go(1)] exec_waits [OF go(3) _ go(1)] go(2)
    have new: "waits_for (length (tn_threads st')) i (snd (tn_threads st' ! i))" "list_all (list_all plain) (forked st st')"
      "length (tn_threads st) \<le> length (tn_threads st')" by auto
    have "waits_for (length (tn_threads st')) k (snd (tn_threads st' ! k))" if "k < length (tn_threads st')" for k
    proof -
      consider "k = i" | "k \<noteq> i" "k < length (tn_threads st)" | "length (tn_threads st) \<le> k" by linarith
      then show ?thesis
      proof cases
        case 1
        then show ?thesis using new by simp
      next
        case 2
        have "tn_threads st' ! k = tn_threads st ! k" by (subst threads) (use 2 in \<open>simp add: nth_append\<close>)
        then show ?thesis using old [OF 2(2)] waits_for_mono new(3) by simp
      next
        case 3
        have "length (tn_threads st') = length (tn_threads st) + length (forked st st')"
          by (subst threads) simp
        then have "k - length (tn_threads st) < length (forked st st')" using 3 that by linarith
        moreover have "tn_threads st' ! k = (Ready, forked st st' ! (k - length (tn_threads st)))"
          by (subst threads) (use 3 calculation in \<open>simp add: nth_append\<close>)
        ultimately show ?thesis using new(2) by (auto simp: list_all_length intro: plain_waits_for)
      qed
    qed
    then show ?thesis by (simp add: awaits_later_def)
  qed
qed

lemma turn_goes_on: "ph \<noteq> Ready \<or> tn_mutex st s = None \<Longrightarrow> \<exists>st'. turn i ph l s j rest st = Some st'"
  by (cases ph) auto

lemma somebody_can_go_on:
  assumes "reach st" and "k < length (tn_threads st)" and "snd (tn_threads st ! k) \<noteq> []"
  shows "\<exists>i ph c rest st'. i < length (tn_threads st) \<and> tn_threads st ! i = (ph, c # rest) \<and>
    exec False i ph c rest st = Some st'"
proof (cases "\<exists>s i. tn_mutex st s = Some i")
  case True
  then obtain s i where "i < length (tn_threads st)" "holdsPhone (tn_threads st ! i) = Some s"
    using reach_mutex_ok [OF assms(1)] by (auto simp: mutex_ok_def)
  moreover from this(2) obtain ph l j rest where "tn_threads st ! i = (ph, Turn l s j # rest)" "ph \<noteq> Ready"
    by (cases "tn_threads st ! i" rule: holdsPhone.cases) (auto split: if_splits)
  ultimately show ?thesis using turn_goes_on by fastforce
next
  case False
  let ?open = "\<lambda>i. i < length (tn_threads st) \<and> snd (tn_threads st ! i) \<noteq> []"
  define i where "i = Max {i. ?open i}"
  have "finite {i. ?open i}" "{i. ?open i} \<noteq> {}" using assms(2,3) by auto
  from Max_in [OF this] Max_ge [OF this(1)] have i: "?open i" and last: "\<And>t. ?open t \<Longrightarrow> t \<le> i"
    by (auto simp: i_def)
  then obtain ph c rest where head: "tn_threads st ! i = (ph, c # rest)"
    by (cases "tn_threads st ! i") (auto simp: neq_Nil_conv)
  have waits: "waits_for (length (tn_threads st)) i (c # rest)"
    using reach_awaits_later [OF assms(1)] i head by (auto simp: awaits_later_def)
  have "\<exists>st'. exec False i ph c rest st = Some st'"
  proof (cases c)
    case (Turn l s j)
    then show ?thesis using turn_goes_on False by simp
  next
    case (Await ts)
    then have "snd (tn_threads st ! t) = []" if "t \<in> set ts" for t
      using waits that last [of t] by (fastforce simp: list_all_iff)
    then show ?thesis by (simp add: Await list_all_iff)
  qed simp_all
  then show ?thesis using i head by blast
qed

section \<open>The guarantees\<close>

text \<open>
  C8. Operations on one phone take turns. However the goroutines of acquires, releases, expiries, Wi-Fi and
  Bluetooth requests, relays and the shutdown interleave, what they do to a phone under its mutex never
  overlaps: each job on it ends, in the goroutine that began it, before the next begins, and the one that is
  going on belongs to the goroutine with the mutex.
\<close>

theorem phone_jobs_take_turns:
  assumes "reach st"
  shows "\<exists>cur. orderly s None (tn_trace st) = Some cur \<and>
    (\<forall>i l j. cur = Some (i, l, j) \<longrightarrow> tn_mutex st s = Some i)"
proof -
  have "tn_mutex st s = Some i" if "busy st s = Some (i, l, j)" for i l j
  proof (cases "tn_mutex st s")
    case (Some k)
    with that have "actingOn k (tn_threads st ! k) = Some (i, l, j)" by (simp add: busy_def)
    then have "k = i" by (cases "(k, tn_threads st ! k)" rule: actingOn.cases) auto
    then show ?thesis using Some by simp
  qed (use that in \<open>simp add: busy_def\<close>)
  then show ?thesis using reach_trace_ok [OF assms] by (auto simp: trace_ok_def)
qed

text \<open>
  C4. A lock that has begun to prepare a phone keeps it from every reset until its port closes. The reset of
  an ended lock can queue behind the next acquire on the phone's mutex, but no reset of any lock begins on
  the phone from the moment the preparation begins as long as the port stays open.
\<close>

theorem no_reset_under_prepared_lock:
  assumes "reach st" and "tn_trace st = xs @ Began i lockID s Prepare # ys"
    and "Opened lockID \<notin> set ys" and "Closed lockID \<notin> set ys"
    and "map_of (tn_ports st) lockID = Some (serials, remote)" and "s \<in> set serials"
  shows "Began k l s ResetLocal \<notin> set ys \<and> Began k l s ResetRelayed \<notin> set ys"
proof -
  have "preparedBefore st lockID s ys" using assms by (auto simp: preparedBefore_def)
  then have "list_all (\<lambda>ev. \<not> resetBegan s ev) ys"
    using reach_resets_ok [OF assms(1)] by (simp add: resets_ok_def)
  then show ?thesis by (auto simp: list_all_iff resetBegan_def isReset_def)
qed


section \<open>Schedules\<close>

datatype choice = Start "instr list" | Go nat | Fail nat

fun goOn :: "bool \<Rightarrow> nat \<Rightarrow> turns \<Rightarrow> turns option" where
  "goOn failed i st = (if i < length (tn_threads st)
     then (case tn_threads st ! i of (ph, c # rest) \<Rightarrow> exec failed i ph c rest st | _ \<Rightarrow> None) else None)"

fun schedule :: "choice list \<Rightarrow> turns \<Rightarrow> turns option" where
  "schedule [] st = Some st"
| "schedule (Start p # cs) st = schedule cs (st\<lparr>tn_threads := tn_threads st @ [(Ready, p)]\<rparr>)"
| "schedule (Go i # cs) st = Option.bind (goOn False i st) (schedule cs)"
| "schedule (Fail i # cs) st = Option.bind (goOn True i st) (schedule cs)"

lemma goOn_step: "goOn failed i st = Some st' \<Longrightarrow> step st st'"
  by (auto split: if_splits prod.splits list.splits intro: go)

lemma schedule_reach:
  "schedule cs st = Some st' \<Longrightarrow> reach st \<Longrightarrow> (\<And>p st. Start p \<in> set cs \<Longrightarrow> p \<in> programs st) \<Longrightarrow> reach st'"
proof (induction cs st rule: schedule.induct)
  case (2 p cs st)
  have "step st (st\<lparr>tn_threads := tn_threads st @ [(Ready, p)]\<rparr>)"
    by (rule start) (simp add: 2(4))
  from 2(1) [OF _ reach.next_step [OF 2(3) this]] 2(2,4) show ?case by simp
next
  case (3 i cs st)
  from 3(2) obtain u where u: "goOn False i st = Some u" "schedule cs u = Some st'"
    by (auto simp del: goOn.simps simp: bind_eq_Some_conv)
  from 3(1) [OF u reach.next_step [OF 3(3) goOn_step [OF u(1)]]] 3(4) show ?case by simp
next
  case (4 i cs st)
  from 4(2) obtain u where u: "goOn True i st = Some u" "schedule cs u = Some st'"
    by (auto simp del: goOn.simps simp: bind_eq_Some_conv)
  from 4(1) [OF u reach.next_step [OF 4(3) goOn_step [OF u(1)]]] 4(4) show ?case by simp
qed simp

lemma programs_start [simp]:
  "acquireProgram l ss rem wifi \<in> programs st" "releaseProgram l \<in> programs st" "expireProgram l \<in> programs st"
  "wifiProgram l ss on \<in> programs st" "bluetoothProgram l ss \<in> programs st" "relayProgram l s \<in> programs st"
  unfolding programs_def by blast+

text \<open>A lock that is handed over, by goroutines 0 and 1.\<close>

definition acquired :: "bytes \<Rightarrow> choice list" where
  "acquired l = Start (acquireProgram l [''P1''] [] True) # replicate 8 (Go 0) @ replicate 5 (Go 1) @ replicate 3 (Go 0)"

definition acquiredTrace :: "bytes \<Rightarrow> event list" where
  "acquiredTrace l = [Opened l, Began 0 l ''P1'' Prepare, Ended 0 l ''P1'' Prepare, Began 1 l ''P1'' (WifiTo True),
     Ended 1 l ''P1'' (WifiTo True), Handed l]"

text \<open>
  The reset of an expired lock queues behind the preparation of the next one: goroutine 2 closes the port of
  \<open>L0\<close>, goroutine 3 acquires \<open>L1\<close> and prepares the phone, and then 2 has its turn.
\<close>

definition queuedReset :: "choice list" where
  "queuedReset = acquired ''L0'' @ [Start (expireProgram ''L0''), Go 2,
     Start (acquireProgram ''L1'' [''P1''] [] False)] @ replicate 6 (Go 3) @ replicate 4 (Go 2)"

definition outcome :: "choice list \<Rightarrow> turns" where
  "outcome cs = the (schedule cs noTurns)"

lemma queuedReset_reach: "reach (outcome queuedReset) \<and> tn_trace (outcome queuedReset) =
    acquiredTrace ''L0'' @ [Closed ''L0'', Opened ''L1'', Began 3 ''L1'' ''P1'' Prepare, Ended 3 ''L1'' ''P1'' Prepare] \<and>
    tn_ports (outcome queuedReset) = [(''L1'', [''P1''], [])]"
proof -
  have "\<exists>st. schedule queuedReset noTurns = Some st \<and> tn_trace st =
    acquiredTrace ''L0'' @ [Closed ''L0'', Opened ''L1'', Began 3 ''L1'' ''P1'' Prepare, Ended 3 ''L1'' ''P1'' Prepare] \<and>
    tn_ports st = [(''L1'', [''P1''], [])]"
    by (simp add: queuedReset_def acquired_def acquiredTrace_def noTurns_def acquireProgram_def expireProgram_def localsOf_def turns_simps numeral_eq_Suc
        isReset_def takesRecord_def heldByAny_def)
  then show ?thesis
    using schedule_reach [OF _ first] by (fastforce simp: outcome_def queuedReset_def acquired_def)
qed

theorem phone_jobs_take_turns_witness:
  "orderly ''P1'' None (tn_trace (outcome queuedReset)) \<noteq> None"
  using phone_jobs_take_turns [of "outcome queuedReset" "''P1''"] queuedReset_reach by auto

theorem no_reset_under_prepared_lock_witness:
  "tn_trace (outcome queuedReset) = (acquiredTrace ''L0'' @ [Closed ''L0'', Opened ''L1'']) @
      Began 3 ''L1'' ''P1'' Prepare # [Ended 3 ''L1'' ''P1'' Prepare] \<and>
   Began 2 ''L0'' ''P1'' ResetLocal \<notin> set [Ended 3 ''L1'' ''P1'' Prepare]"
  using no_reset_under_prepared_lock [of "outcome queuedReset" "acquiredTrace ''L0'' @ [Closed ''L0'', Opened ''L1'']" 3 "''L1''" "''P1''"
      "[Ended 3 ''L1'' ''P1'' Prepare]" "[''P1'']" "[]" 2 "''L0''"] queuedReset_reach by simp


section \<open>Where the order is not kept\<close>

text \<open>
  A local lock's reset does not look at the relay records. An expired lock \<open>L1\<close> closes its port; before its
  reset has the mutex (closing waits for the port's keepalive), the phone is granted to \<open>L2\<close> of another
  proxy and relayed from here. The relay finds the mutex free and serves; then the reset of \<open>L1\<close> begins.
\<close>

definition relayOvertakes :: "choice list" where
  "relayOvertakes = acquired ''L1'' @ [Start (expireProgram ''L1''), Go 2,
     Start (relayProgram ''L2'' ''P1'')] @ replicate 7 (Go 3) @ replicate 4 (Go 2)"

theorem reset_begins_under_relay:
  "\<exists>st. reach st \<and> tn_trace st =
     acquiredTrace ''L1'' @ [Closed ''L1'', Noted ''L2'' ''P1'', Serving ''L2'' ''P1'', Began 2 ''L1'' ''P1'' ResetLocal] \<and>
     tn_relays st = [(''P1'', ''L2'')]"
proof -
  have "\<exists>st. schedule relayOvertakes noTurns = Some st \<and> tn_trace st =
     acquiredTrace ''L1'' @ [Closed ''L1'', Noted ''L2'' ''P1'', Serving ''L2'' ''P1'', Began 2 ''L1'' ''P1'' ResetLocal] \<and>
     tn_relays st = [(''P1'', ''L2'')]"
    by (simp add: relayOvertakes_def acquired_def acquiredTrace_def noTurns_def acquireProgram_def expireProgram_def relayProgram_def localsOf_def
        turns_simps numeral_eq_Suc isReset_def takesRecord_def heldByAny_def)
  then show ?thesis
    using schedule_reach [OF _ first] by (fastforce simp: relayOvertakes_def acquired_def)
qed

text \<open>
  A Wi-Fi change does not look again whether its lock still has the phone once it has the mutex: requested
  while the port was open, it can run after the port was closed and the phone reset, and the phone stays so.
\<close>

definition lateWifi :: "choice list" where
  "lateWifi = acquired ''L1'' @ [Start (wifiProgram ''L1'' [''P1''] False), Go 2,
     Start (releaseProgram ''L1'')] @ replicate 7 (Go 4) @ replicate 5 (Go 3)"

theorem wifi_changed_after_reset:
  "\<exists>st. reach st \<and> tn_trace st = acquiredTrace ''L1'' @ [Closed ''L1'', Began 4 ''L1'' ''P1'' ResetLocal,
     Ended 4 ''L1'' ''P1'' ResetLocal, Began 3 ''L1'' ''P1'' (WifiTo False), Ended 3 ''L1'' ''P1'' (WifiTo False)] \<and>
     tn_ports st = []"
proof -
  have "\<exists>st. schedule lateWifi noTurns = Some st \<and> tn_trace st =
     acquiredTrace ''L1'' @ [Closed ''L1'', Began 4 ''L1'' ''P1'' ResetLocal,
     Ended 4 ''L1'' ''P1'' ResetLocal, Began 3 ''L1'' ''P1'' (WifiTo False), Ended 3 ''L1'' ''P1'' (WifiTo False)] \<and>
     tn_ports st = []"
    by (simp add: lateWifi_def acquired_def acquiredTrace_def noTurns_def acquireProgram_def releaseProgram_def wifiProgram_def localsOf_def
        turns_simps numeral_eq_Suc isReset_def takesRecord_def heldByAny_def)
  then show ?thesis
    using schedule_reach [OF _ first] by (fastforce simp: lateWifi_def acquired_def)
qed

end
