(* ===== verification/Keepalive.thy ===== *)
theory Keepalive
  imports LockGrant
begin

text \<open>
  The loop of \<open>runKeepalive\<close> (\<open>internal/proxy/scoped_port.go\<close>) over its two tickers, and what it promises
  the orchestrator: a lock whose port is open is heard of in every heartbeat interval.
\<close>

section \<open>The loop\<close>

datatype ka_tick = FlushTick | BeatTick | StopTick

text \<open>
  How far a run got: still going, with \<open>flushedSinceBeat\<close>; returned, with the release of an abandoned lock or
  the close of an expired one to follow; or stopped by \<open>heartbeatStop\<close>.
\<close>

datatype ka_end = Going bool | ReleasedIdle | ClosedExpired | Stopped

fun runKeepalive :: "env \<Rightarrow> scoped_port \<Rightarrow> bool \<Rightarrow> ka_tick list \<Rightarrow> ka_end act" where
  "runKeepalive e sp flushed [] = returnM (Going flushed)"
| "runKeepalive e sp flushed (FlushTick # ts) = do {
     flushed \<leftarrow> flushTick e sp flushed;
     runKeepalive e sp flushed ts }"
| "runKeepalive e sp flushed (BeatTick # ts) = do {
     b \<leftarrow> beatTick e sp flushed;
     (case b of
        Beating flushed \<Rightarrow> runKeepalive e sp flushed ts
      | Abandoned \<Rightarrow> returnM ReleasedIdle
      | Expired \<Rightarrow> returnM ClosedExpired) }"
| "runKeepalive e sp flushed (StopTick # ts) = returnM Stopped"

section \<open>Heard of in every interval\<close>

text \<open>
  What one tick did: its calls, the step of its call, and the steps it ran from and to. A tick told the orchestrator
  of the lock when a batch of its log, not an empty one, went out on the session without an error.
\<close>

record ka_turned =
  kt_calls :: "orch_call list"
  kt_at :: nat
  kt_from :: nat
  kt_to :: nat

definition told :: "env \<Rightarrow> bytes \<Rightarrow> ka_turned \<Rightarrow> bool" where
  "told e lockID t \<longleftrightarrow> (\<exists>es. kt_calls t = [SessionSend (LockLogMsg lockID es)] \<and> es \<noteq> [] \<and>
     en_send e (kt_at t) (LockLogMsg lockID es) = None)"

definition beaten :: "env \<Rightarrow> bytes \<Rightarrow> ka_turned \<Rightarrow> bool" where
  "beaten e lockID t \<longleftrightarrow> (case kt_calls t of
     [] \<Rightarrow> silent e (kt_from t) (kt_to t)
   | [c] \<Rightarrow> beats lockID c
   | _ \<Rightarrow> False)"

definition denied :: "env \<Rightarrow> bytes \<Rightarrow> ka_turned \<Rightarrow> bool" where
  "denied e lockID t \<longleftrightarrow> (\<exists>es. kt_calls t = [HeartbeatCall lockID es] \<and>
     or_err (en_orch e (kt_at t) (HeartbeatCall lockID es)) = None \<and> \<not> or_flag (en_orch e (kt_at t) (HeartbeatCall lockID es)))"

text \<open>
  The turns of a run whose first tick starts at step \<open>n\<close>, one after the other. Each heartbeat tick comes after a flush
  that told the orchestrator since the tick before, or beats itself.
\<close>

fun spoken :: "env \<Rightarrow> bytes \<Rightarrow> nat \<Rightarrow> bool \<Rightarrow> ka_tick list \<Rightarrow> ka_turned list \<Rightarrow> ka_end \<Rightarrow> bool" where
  "spoken e lockID n fl [] turns r \<longleftrightarrow> turns = [] \<and> r = Going fl"
| "spoken e lockID n fl (StopTick # ts) turns r \<longleftrightarrow> turns = [] \<and> r = Stopped"
| "spoken e lockID n fl (_ # ts) [] r \<longleftrightarrow> False"
| "spoken e lockID n fl (FlushTick # ts) (t # turns) r \<longleftrightarrow> n \<le> kt_from t \<and>
     list_all (\<lambda>c. \<not> beats lockID c) (kt_calls t) \<and> spoken e lockID (kt_to t) (fl \<or> told e lockID t) ts turns r"
| "spoken e lockID n fl (BeatTick # ts) (t # turns) r \<longleftrightarrow> n \<le> kt_from t \<and>
     (case r of
        ReleasedIdle \<Rightarrow> turns = [] \<and> kt_calls t = [] \<and> 0 < en_idleTimeout e
      | ClosedExpired \<Rightarrow> turns = [] \<and> \<not> fl \<and> denied e lockID t
      | _ \<Rightarrow> False) \<or>
     n \<le> kt_from t \<and> (if fl then kt_calls t = [] else beaten e lockID t) \<and> spoken e lockID (kt_to t) False ts turns r"

abbreviation spokenRun :: "env \<Rightarrow> scoped_port \<Rightarrow> bool \<Rightarrow> ka_tick list \<Rightarrow> world \<Rightarrow> ka_end \<Rightarrow> world \<Rightarrow> bool" where
  "spokenRun e sp fl ts w r w' \<equiv> (\<exists>turns. spoken e (sp_lockID sp) (w_step w) fl ts turns r \<and>
     w_orchCalls w' = w_orchCalls w @ concat (map kt_calls turns))"

lemma turned_log: "turned e sp l w t cs n w' \<Longrightarrow> \<exists>l'. ps_log (stateOf w' sp) = Some l'"
  by (auto simp: turned_def)

text \<open>A flush that took its batch told the orchestrator of the lock, and no other did.\<close>

lemma shipped_told:
  assumes "turned e sp l w t cs n w'" and "list_all (\<lambda>c. \<not> beats (sp_lockID sp) c) cs"
  shows "told e (sp_lockID sp) \<lparr>kt_calls = cs, kt_at = n, kt_from = a, kt_to = b\<rparr> \<longleftrightarrow> isShipped t"
  using assms
  by (cases t) (auto simp: turned_def told_def carries_def arrived_def beats_def)



end
