(* ===== verification/RecvAhead.thy ===== *)
theory RecvAhead
  imports Relay
begin

text \<open>
  \<open>recvAheadStream\<close> of \<open>internal/proxy/relay.go\<close>: the owner's end of a tunnel reads its first message ahead,
  in a goroutine of its own, to see a tunnel that died while the phone was being reset.
\<close>

text \<open>
  What \<open>Recv\<close> of the stream below will return, the first result once the goroutine has it, and whether it
  has been handed over. A stream that has ended returns its last error again.
\<close>

record recv_ahead =
  ra_below :: "(goerr + tunnel_msg) list"
  ra_first :: "(goerr + tunnel_msg) option"
  ra_taken :: bool

definition newRecvAheadStream :: "(goerr + tunnel_msg) list \<Rightarrow> recv_ahead" where
  "newRecvAheadStream rs = \<lparr>ra_below = rs, ra_first = None, ra_taken = False\<rparr>"

definition recvBelow :: "(goerr + tunnel_msg) list \<Rightarrow> (goerr + tunnel_msg) \<times> (goerr + tunnel_msg) list" where
  "recvBelow rs = (case rs of [] \<Rightarrow> (Inl EOF, []) | r # rs' \<Rightarrow> (r, rs'))"

text \<open>The goroutine's \<open>Recv\<close> returns.\<close>

definition firstRecv :: "recv_ahead \<Rightarrow> recv_ahead" where
  "firstRecv t = (case ra_first t of Some _ \<Rightarrow> t
     | None \<Rightarrow> (case recvBelow (ra_below t) of (r, rs) \<Rightarrow> t\<lparr>ra_first := Some r, ra_below := rs\<rparr>))"

definition failedAhead :: "recv_ahead \<Rightarrow> goerr option" where
  "failedAhead t = (case ra_first t of Some (Inl err) \<Rightarrow> Some err | _ \<Rightarrow> None)"

text \<open>\<open>Recv\<close>: the first one waits for the goroutine.\<close>

definition RecvNext :: "recv_ahead \<Rightarrow> (goerr + tunnel_msg) \<times> recv_ahead" where
  "RecvNext t = (if ra_taken t
     then (case recvBelow (ra_below t) of (r, rs) \<Rightarrow> (r, t\<lparr>ra_below := rs\<rparr>))
     else (let u = firstRecv (t\<lparr>ra_taken := True\<rparr>) in (the (ra_first u), u)))"

section \<open>The same stream\<close>

datatype ra_op = Arrive | Look | Receive

text \<open>What the reader sees of any order of the goroutine's \<open>Recv\<close>, looks at \<open>failed\<close> and its own \<open>Recv\<close>s.\<close>

fun ahead :: "ra_op list \<Rightarrow> recv_ahead \<Rightarrow> (goerr + tunnel_msg) list \<times> goerr option list" where
  "ahead [] t = ([], [])"
| "ahead (Arrive # ops) t = ahead ops (firstRecv t)"
| "ahead (Look # ops) t = (case ahead ops t of (rs, looks) \<Rightarrow> (rs, failedAhead t # looks))"
| "ahead (Receive # ops) t = (case RecvNext t of (r, t') \<Rightarrow> case ahead ops t' of (rs, looks) \<Rightarrow> (r # rs, looks))"

fun plainRecv :: "nat \<Rightarrow> (goerr + tunnel_msg) list \<Rightarrow> (goerr + tunnel_msg) list" where
  "plainRecv 0 rs = []"
| "plainRecv (Suc n) rs = (case recvBelow rs of (r, rs') \<Rightarrow> r # plainRecv n rs')"

definition pending :: "recv_ahead \<Rightarrow> (goerr + tunnel_msg) list" where
  "pending t = (case ra_first t of Some r \<Rightarrow> if ra_taken t then ra_below t else r # ra_below t | None \<Rightarrow> ra_below t)"

definition ahead_ok :: "recv_ahead \<Rightarrow> bool" where
  "ahead_ok t \<longleftrightarrow> (ra_taken t \<longrightarrow> ra_first t \<noteq> None)"

lemma plainRecv_first: "plainRecv n (case recvBelow rs of (r, rs') \<Rightarrow> r # rs') = plainRecv n rs"
  by (cases n) (simp_all add: recvBelow_def split: list.split)

lemma firstRecv_pending:
  "ahead_ok t \<Longrightarrow> plainRecv n (pending (firstRecv t)) = plainRecv n (pending t) \<and> ahead_ok (firstRecv t)"
  using plainRecv_first [of n "ra_below t"]
  by (auto simp: firstRecv_def pending_def ahead_ok_def split: option.split prod.splits)

lemma RecvNext_pending:
  assumes "ahead_ok t" and "RecvNext t = (r, t')"
  shows "plainRecv (Suc n) (pending t) = r # plainRecv n (pending t') \<and> ahead_ok t'"
  using assms
  by (auto simp: RecvNext_def firstRecv_def pending_def ahead_ok_def Let_def recvBelow_def
      split: option.splits prod.splits if_splits list.splits)

lemma ahead_plain:
  "ahead_ok t \<Longrightarrow> fst (ahead ops t) = plainRecv (length (filter (\<lambda>op. op = Receive) ops)) (pending t)"
proof (induction ops t rule: ahead.induct)
  case (2 ops t)
  then show ?case using firstRecv_pending [OF 2(2)] by simp
next
  case (4 ops t)
  obtain r t' where r: "RecvNext t = (r, t')" by fastforce
  from RecvNext_pending [OF 4(2) r] 4(1) [OF r [symmetric]] show ?case
    by (simp add: r case_prod_beta)
qed (simp_all add: case_prod_beta)

text \<open>A look that saw an error saw the one the first \<open>Recv\<close> of the stream returns.\<close>

definition seesFirst :: "(goerr + tunnel_msg) list \<Rightarrow> goerr option \<Rightarrow> bool" where
  "seesFirst rs look \<longleftrightarrow> (\<forall>err. look = Some err \<longrightarrow> plainRecv 1 rs = [Inl err])"

text \<open>
  C33. Reading ahead takes nothing from the tunnel. Whatever the order in which the goroutine's first \<open>Recv\<close>
  returns, \<open>failed\<close> is asked and the pump reads, the pump gets what it would have got from the stream itself;
  and \<open>failed\<close> only ever reports the error the stream's first \<open>Recv\<close> returned.
\<close>

theorem recv_ahead_same_stream:
  "case ahead ops (newRecvAheadStream rs) of (got, looks) \<Rightarrow>
     got = plainRecv (length (filter (\<lambda>op. op = Receive) ops)) rs \<and>
     list_all (seesFirst rs) looks"
proof -
  have looks: "list_all (seesFirst rs) (snd (ahead ops t))"
    if "\<forall>r. ra_first t = Some r \<longrightarrow> plainRecv 1 rs = [r]" "ra_first t = None \<longrightarrow> ra_below t = rs \<and> \<not> ra_taken t" for t
    using that
  proof (induction ops t rule: ahead.induct)
    case (2 ops t)
    then show ?case by (auto simp: firstRecv_def split: option.splits prod.splits)
  next
    case (3 ops t)
    then have "seesFirst rs (failedAhead t)"
      by (auto simp: failedAhead_def seesFirst_def split: option.splits sum.splits)
    then show ?case using 3 by (simp add: case_prod_beta)
  next
    case (4 ops t)
    then show ?case
      by (cases "RecvNext t") (auto simp: RecvNext_def firstRecv_def Let_def case_prod_beta split: option.splits if_splits)
  qed simp
  have "fst (ahead ops (newRecvAheadStream rs)) = plainRecv (length (filter (\<lambda>op. op = Receive) ops)) rs"
    using ahead_plain [of "newRecvAheadStream rs" ops] by (simp add: newRecvAheadStream_def ahead_ok_def pending_def)
  moreover note looks [of "newRecvAheadStream rs"]
  ultimately show ?thesis
    by (simp add: newRecvAheadStream_def case_prod_beta)
qed

end
