(* ===== verification/ProxyMain.thy ===== *)
theory ProxyMain
  imports Prelude
begin

text \<open>
  The proxy's process (\<open>main\<close> of \<open>cmd/sair-proxy/main.go\<close>, with \<open>Start\<close> and \<open>Stop\<close> of
  \<open>http_api.go\<close> and \<open>proxy.go\<close>): the goroutine of \<open>main\<close>, the one that waits for a signal, the one that serves
  the HTTP API and the requests it has begun, in any order. Of the requests only those matter here that ask for a lock.
\<close>

section \<open>The process\<close>

datatype main_pc = NewRouter | BeginSession | ListenAdb | NotifySignals | GoSignal | StartHttp | StartAdb | Accepting

datatype signal_pc = NotStarted | Waiting | StopHttp | HttpStopping | ShutDownAll | StopAdb | CloseAdb | ShutDownRouter
  | ExitOk

text \<open>The HTTP listener: \<open>Start\<close> binds it, a goroutine of its own calls \<open>Serve\<close>.\<close>

datatype http_state = HttpOff | HttpBound | HttpServing | HttpClosed

datatype exit_state = Status nat | KilledBySignal

text \<open>
  A request has a number. A lock it was granted comes with the number and whether its port is in the manager's table.
  \<open>pp_late\<close> are the requests that were still going on when \<open>httpAPI.Stop\<close> returned.
\<close>

record proxy_proc =
  pp_main :: main_pc
  pp_signal :: signal_pc
  pp_notified :: bool
  pp_pending :: bool
  pp_router :: bool
  pp_session :: bool
  pp_adb :: bool
  pp_running :: bool
  pp_http :: http_state
  pp_shut :: bool
  pp_requests :: "nat list"
  pp_locks :: "(bytes \<times> nat \<times> bool) list"
  pp_late :: "nat list"
  pp_exit :: "exit_state option"

definition newProxy :: proxy_proc where
  "newProxy = \<lparr>pp_main = NewRouter, pp_signal = NotStarted, pp_notified = False, pp_pending = False, pp_router = False,
     pp_session = False, pp_adb = False, pp_running = False, pp_http = HttpOff, pp_shut = False, pp_requests = [],
     pp_locks = [], pp_late = [], pp_exit = None\<rparr>"

text \<open>
  A turn of \<open>main\<close>; \<open>fails\<close> is whether what it asks for fails. At \<open>Accepting\<close> it is a turn of the accept loop, with
  a connection or an error: only \<open>running\<close> ends it, and with it the process.
\<close>

fun mainTurn :: "bool \<Rightarrow> proxy_proc \<Rightarrow> proxy_proc" where
  "mainTurn fails p = (case pp_main p of
       NewRouter \<Rightarrow> if fails then p\<lparr>pp_exit := Some (Status 1)\<rparr> else p\<lparr>pp_router := True, pp_main := BeginSession\<rparr>
     | BeginSession \<Rightarrow> p\<lparr>pp_session := True, pp_main := ListenAdb\<rparr>
     | ListenAdb \<Rightarrow> if fails then p\<lparr>pp_exit := Some (Status 1)\<rparr> else p\<lparr>pp_adb := True, pp_main := NotifySignals\<rparr>
     | NotifySignals \<Rightarrow> p\<lparr>pp_notified := True, pp_main := GoSignal\<rparr>
     | GoSignal \<Rightarrow> p\<lparr>pp_signal := Waiting, pp_main := StartHttp\<rparr>
     | StartHttp \<Rightarrow> if fails then p\<lparr>pp_exit := Some (Status 1)\<rparr> else p\<lparr>pp_http := HttpBound, pp_main := StartAdb\<rparr>
     | StartAdb \<Rightarrow> p\<lparr>pp_running := True, pp_main := Accepting\<rparr>
     | Accepting \<Rightarrow> if pp_running p then p else p\<lparr>pp_exit := Some (Status 0)\<rparr>)"

text \<open>
  A turn of the goroutine that waits for a signal. \<open>Stop\<close> of the HTTP API shuts the listener, then waits until no
  request is left or two seconds are over (\<open>timeout\<close>).
\<close>

fun signalTurn :: "bool \<Rightarrow> proxy_proc \<Rightarrow> proxy_proc option" where
  "signalTurn timeout p = (case pp_signal p of
       NotStarted \<Rightarrow> None
     | Waiting \<Rightarrow> if pp_pending p then Some (p\<lparr>pp_pending := False, pp_signal := StopHttp\<rparr>) else None
     | StopHttp \<Rightarrow> Some (p\<lparr>pp_shut := True, pp_http := (if pp_http p = HttpServing then HttpClosed else pp_http p),
         pp_signal := HttpStopping\<rparr>)
     | HttpStopping \<Rightarrow>
         if timeout \<or> pp_requests p = [] then Some (p\<lparr>pp_late := pp_requests p, pp_signal := ShutDownAll\<rparr>) else None
     | ShutDownAll \<Rightarrow> Some (p\<lparr>pp_locks := filter (\<lambda>(_, _, opened). \<not> opened) (pp_locks p), pp_signal := StopAdb\<rparr>)
     | StopAdb \<Rightarrow> Some (p\<lparr>pp_running := False, pp_signal := CloseAdb\<rparr>)
     | CloseAdb \<Rightarrow> Some (p\<lparr>pp_adb := False, pp_signal := ShutDownRouter\<rparr>)
     | ShutDownRouter \<Rightarrow> Some (p\<lparr>pp_session := False, pp_router := False, pp_signal := ExitOk\<rparr>)
     | ExitOk \<Rightarrow> Some (p\<lparr>pp_exit := Some (Status 0)\<rparr>))"

text \<open>\<open>Serve\<close> returns at once, and closes the listener, when the server has been shut down before.\<close>

definition serveTurn :: "proxy_proc \<Rightarrow> proxy_proc option" where
  "serveTurn p = (if pp_http p = HttpBound
     then Some (p\<lparr>pp_http := (if pp_shut p then HttpClosed else HttpServing)\<rparr>) else None)"

text \<open>
  What else happens: a signal, which kills a process that is not notified of it and else waits in a channel of one place;
  a request for a lock, its grant, its port, its answer; and the end of a lock, by its holder, its keepalive, its expiry
  or because it could not be handed over.
\<close>

datatype proc_event = Main bool | Signalled bool | Serving | Kill | Request nat | Grant nat bytes | Open bytes | Answer nat
  | End bytes

definition granted :: "proxy_proc \<Rightarrow> nat \<Rightarrow> bool" where
  "granted p r \<longleftrightarrow> list_ex (\<lambda>(_, r', opened). r' = r \<and> \<not> opened) (pp_locks p)"

fun happen :: "proc_event \<Rightarrow> proxy_proc \<Rightarrow> proxy_proc option" where
  "happen (Main fails) p = Some (mainTurn fails p)"
| "happen (Signalled timeout) p = signalTurn timeout p"
| "happen Serving p = serveTurn p"
| "happen Kill p = Some (if pp_notified p then p\<lparr>pp_pending := True\<rparr> else p\<lparr>pp_exit := Some KilledBySignal\<rparr>)"
| "happen (Request r) p = (if pp_http p = HttpServing then Some (p\<lparr>pp_requests := r # pp_requests p\<rparr>) else None)"
| "happen (Grant r l) p =
     (if r \<in> set (pp_requests p) then Some (p\<lparr>pp_locks := (l, r, False) # pp_locks p\<rparr>) else None)"
| "happen (Open l) p = Some (p\<lparr>pp_locks := map (\<lambda>(l', r, opened). (l', r, opened \<or> l' = l)) (pp_locks p)\<rparr>)"
| "happen (Answer r) p = (if granted p r then None else Some (p\<lparr>pp_requests := removeAll r (pp_requests p)\<rparr>))"
| "happen (End l) p = Some (p\<lparr>pp_locks := filter (\<lambda>(l', _). l' \<noteq> l) (pp_locks p)\<rparr>)"

inductive proc_reach :: "proxy_proc \<Rightarrow> bool" where
  begun: "proc_reach newProxy"
| happens: "proc_reach p \<Longrightarrow> pp_exit p = None \<Longrightarrow> happen ev p = Some p' \<Longrightarrow> proc_reach p'"

fun history :: "proc_event list \<Rightarrow> proxy_proc \<Rightarrow> proxy_proc option" where
  "history [] p = Some p"
| "history (ev # evs) p = (if pp_exit p = None then Option.bind (happen ev p) (history evs) else None)"

lemma history_reach: "proc_reach p \<Longrightarrow> history evs p = Some p' \<Longrightarrow> proc_reach p'"
  by (induction evs p rule: history.induct) (auto split: if_splits bind_splits intro: happens)

section \<open>Up, and down again\<close>

definition drained :: "proxy_proc \<Rightarrow> bool" where
  "drained p \<longleftrightarrow> list_all (\<lambda>(_, r, _). r \<in> set (pp_late p)) (pp_locks p)"

text \<open>How far the two goroutines are, as numbers.\<close>

primrec main_rank :: "main_pc \<Rightarrow> nat" where
  "main_rank NewRouter = 0"
| "main_rank BeginSession = 1"
| "main_rank ListenAdb = 2"
| "main_rank NotifySignals = 3"
| "main_rank GoSignal = 4"
| "main_rank StartHttp = 5"
| "main_rank StartAdb = 6"
| "main_rank Accepting = 7"

primrec signal_rank :: "signal_pc \<Rightarrow> nat" where
  "signal_rank NotStarted = 0"
| "signal_rank Waiting = 1"
| "signal_rank StopHttp = 2"
| "signal_rank HttpStopping = 3"
| "signal_rank ShutDownAll = 4"
| "signal_rank StopAdb = 5"
| "signal_rank CloseAdb = 6"
| "signal_rank ShutDownRouter = 7"
| "signal_rank ExitOk = 8"

definition phases_ok :: "proxy_proc \<Rightarrow> bool" where
  "phases_ok p \<longleftrightarrow> (let m = main_rank (pp_main p); s = signal_rank (pp_signal p) in
     (pp_shut p \<longleftrightarrow> 3 \<le> s) \<and> (pp_notified p \<longleftrightarrow> 4 \<le> m) \<and> (0 < s \<longrightarrow> 5 \<le> m) \<and>
     (pp_http p \<noteq> HttpOff \<longrightarrow> 6 \<le> m) \<and> (pp_http p = HttpServing \<longrightarrow> s < 3) \<and>
     (3 \<le> m \<longrightarrow> pp_adb p \<or> 7 \<le> s) \<and> (m = 7 \<longrightarrow> pp_running p \<or> 6 \<le> s) \<and>
     (pp_exit p = Some (Status 0) \<longrightarrow> 6 \<le> s))"

definition locks_ok :: "proxy_proc \<Rightarrow> bool" where
  "locks_ok p \<longleftrightarrow>
     (pp_http p = HttpOff \<or> pp_http p = HttpBound \<longrightarrow> pp_requests p = [] \<and> pp_locks p = []) \<and>
     (\<forall>(l, r, opened) \<in> set (pp_locks p). opened \<or> r \<in> set (pp_requests p)) \<and>
     (4 \<le> signal_rank (pp_signal p) \<longrightarrow> set (pp_requests p) \<subseteq> set (pp_late p)) \<and>
     (5 \<le> signal_rank (pp_signal p) \<longrightarrow> drained p) \<and>
     (pp_exit p \<noteq> None \<and> pp_exit p \<noteq> Some (Status 0) \<longrightarrow> pp_locks p = [])"

lemma main_phases: "phases_ok p \<Longrightarrow> pp_exit p = None \<Longrightarrow> phases_ok (mainTurn fails p)"
  by (cases "pp_main p") (auto simp add: phases_ok_def Let_def)

lemma main_locks: "phases_ok p \<Longrightarrow> locks_ok p \<Longrightarrow> pp_exit p = None \<Longrightarrow> locks_ok (mainTurn fails p)"
  by (cases "pp_main p") (simp_all add: phases_ok_def locks_ok_def drained_def Let_def)

lemma signal_phases: "phases_ok p \<Longrightarrow> pp_exit p = None \<Longrightarrow> pred_option phases_ok (signalTurn timeout p)"
  by (cases "pp_signal p") (simp_all add: phases_ok_def Let_def)

lemma signal_locks: "phases_ok p \<Longrightarrow> locks_ok p \<Longrightarrow> pp_exit p = None \<Longrightarrow> pred_option locks_ok (signalTurn timeout p)"
  by (cases "pp_signal p") (auto simp add: phases_ok_def locks_ok_def drained_def Let_def list_all_iff)

lemma happen_phases:
  assumes "phases_ok p" "pp_exit p = None"
  shows "pred_option phases_ok (happen ev p)"
proof (cases ev)
  case (Main f)
  then show ?thesis using main_phases [OF assms] by (simp del: mainTurn.simps)
next
  case (Signalled t)
  then show ?thesis using signal_phases [OF assms] by (simp del: signalTurn.simps)
qed (use assms in \<open>simp_all add: phases_ok_def Let_def serveTurn_def\<close>)

lemma happen_locks:
  assumes "phases_ok p" "locks_ok p" "pp_exit p = None"
  shows "pred_option locks_ok (happen ev p)"
proof (cases ev)
  case (Main f)
  then show ?thesis using main_locks [OF assms] by (simp del: mainTurn.simps)
next
  case (Signalled t)
  then show ?thesis using signal_locks [OF assms] by (simp del: signalTurn.simps)
next
  case (Answer r)
  then show ?thesis using assms(2) by (auto simp: locks_ok_def drained_def list_all_iff granted_def list_ex_iff)
next
  case (Open l)
  then show ?thesis using assms(2) by (fastforce simp: locks_ok_def drained_def list_all_iff)
next
  case (End l)
  then show ?thesis using assms(2) by (auto simp: locks_ok_def drained_def list_all_iff)
next
  case Kill
  then show ?thesis using assms by (auto simp: locks_ok_def phases_ok_def Let_def drained_def list_all_iff)
next
  case Serving
  then show ?thesis using assms by (auto simp: locks_ok_def serveTurn_def drained_def list_all_iff)
next
  case (Request r)
  have "pp_http p = HttpServing \<Longrightarrow> signal_rank (pp_signal p) < 3" using assms(1) by (simp add: phases_ok_def Let_def)
  then show ?thesis using assms(2,3) Request by (auto simp: locks_ok_def)
next
  case (Grant r l)
  then show ?thesis using assms(2,3) by (auto simp: locks_ok_def drained_def list_all_iff)
qed

lemma proc_reach_ok: "proc_reach p \<Longrightarrow> phases_ok p \<and> locks_ok p"
proof (induction rule: proc_reach.induct)
  case begun
  then show ?case by (simp add: phases_ok_def locks_ok_def drained_def newProxy_def)
next
  case (happens p ev p')
  then show ?case using happen_phases [of p ev] happen_locks [of p ev] by simp
qed


text \<open>
  A job whose lock is given back by a shutdown, and another whose lock was granted before and whose phones were still
  being prepared: its port is opened after \<open>ShutdownAll\<close> has looked at the table. The accept loop has ended by then, so
  the process ends with \<open>main\<close>, before the router is shut down.
\<close>

definition lateAcquire :: "proc_event list" where
  "lateAcquire = replicate 7 (Main False) @ [Serving, Request 1, Grant 1 ''A'', Open ''A'', Answer 1, Request 2,
     Grant 2 ''B'', Kill, Signalled False, Signalled False, Signalled True, Signalled False, Open ''B'', Signalled False,
     Main False]"

lemma lateAcquire_end:
  "\<exists>p. history lateAcquire newProxy = Some p \<and> pp_exit p = Some (Status 0) \<and> pp_locks p = [(''B'', 2, True)] \<and>
     pp_late p = [2] \<and> pp_router p \<and> pp_session p"
  by (simp add: lateAcquire_def newProxy_def numeral_nat serveTurn_def granted_def)


text \<open>So a shutdown can leave a lock behind that nobody releases, and end before the session and the router are closed.\<close>

theorem acquire_outlives_shutdown:
  "\<exists>p. proc_reach p \<and> pp_exit p = Some (Status 0) \<and> pp_locks p = [(''B'', 2, True)] \<and> pp_router p \<and> pp_session p"
  using lateAcquire_end history_reach [OF begun] by blast

section \<open>A signal ends it\<close>

fun isSignalTurn :: "proc_event \<Rightarrow> bool" where
  "isSignalTurn (Signalled _) = True"
| "isSignalTurn _ = False"

text \<open>The goroutine runs, and a signal has come.\<close>

definition signalled :: "proxy_proc \<Rightarrow> bool" where
  "signalled p \<longleftrightarrow> pp_signal p \<noteq> NotStarted \<and> (pp_pending p \<or> pp_signal p \<noteq> Waiting)"

lemma signal_turn_rank:
  "signalled p \<Longrightarrow> pp_signal p \<noteq> ExitOk \<Longrightarrow>
    pred_option (\<lambda>p'. signalled p' \<and> signal_rank (pp_signal p') = Suc (signal_rank (pp_signal p))) (signalTurn timeout p)"
  by (cases "pp_signal p") (simp_all add: signalled_def)

lemma main_signal: "signalled p \<Longrightarrow> phases_ok p \<Longrightarrow>
    signalled (mainTurn fails p) \<and> pp_signal (mainTurn fails p) = pp_signal p"
  by (cases "pp_main p"; cases "pp_signal p") (simp_all add: signalled_def phases_ok_def Let_def)

lemma event_rank:
  assumes "signalled p" "phases_ok p" "happen ev p = Some q" "pp_exit q = None"
  shows "signalled q \<and> signal_rank (pp_signal q) = signal_rank (pp_signal p) + of_bool (isSignalTurn ev)"
proof (cases ev)
  case (Main fails)
  then show ?thesis using main_signal [OF assms(1,2)] assms(3) by (auto simp del: mainTurn.simps)
next
  case (Signalled timeout)
  have "pp_signal p \<noteq> ExitOk" using assms(3,4) Signalled by auto
  then show ?thesis using signal_turn_rank [OF assms(1), of timeout] assms(3) Signalled by (simp del: signalTurn.simps)
qed (use assms in \<open>auto simp: signalled_def serveTurn_def split: if_splits\<close>)

lemma history_rank:
  assumes "proc_reach p" "history evs p = Some p'" "signalled p" "pp_exit p' = None"
  shows "signalled p' \<and> signal_rank (pp_signal p') = signal_rank (pp_signal p) + length (filter isSignalTurn evs)"
  using assms
proof (induction evs arbitrary: p)
  case (Cons ev evs)
  then obtain q where q: "pp_exit p = None" "happen ev p = Some q" "history evs q = Some p'"
    by (auto split: if_splits bind_splits)
  have reach: "proc_reach q" by (rule happens [OF Cons.prems(1) q(1,2)])
  have "pp_exit q = None" using q(3) Cons.prems(4) by (cases evs) (auto split: if_splits)
  then have "signalled q \<and> signal_rank (pp_signal q) = signal_rank (pp_signal p) + of_bool (isSignalTurn ev)"
    using event_rank [OF Cons.prems(3) _ q(2)] proc_reach_ok [OF Cons.prems(1)] by blast
  then show ?case using Cons.IH [OF reach q(3) _ Cons.prems(4)] by auto
qed simp

lemma signal_rank_bound: "signal_rank s \<le> 8"
  by (cases s) simp_all


definition signalledEarly :: "proc_event list" where
  "signalledEarly = replicate 5 (Main False) @ [Kill]"


end
