(* ===== verification/Spec2Isabelle.thy ===== *)
theory Spec2Isabelle
  imports AdbProtocol Logging Features Updater LockLog DeviceTracker AdbConnection Session Pump HttpFacts DeviceSource PhoneForward PhoneExec Commands AgentTools
    LogLevel UpdateClient BenchRuns PhoneTurns Keepalive RecvAhead ProxyMain
begin

text \<open>
  A verification library for sair, a Go program that shares Android phones between continuous-integration
  jobs. Phones hang on machines that run the device source (\<open>internal/devicesource\<close>); the proxy
  (\<open>internal/proxy\<close>) takes their lists, asks an orchestrator for locks on behalf of runners, and gives
  every runner a TCP port of its own that speaks the ADB smart-socket protocol and shows only the phones of
  its lock. A phone of another proxy is reached through a tunnel that the orchestrator joins.

  Which theory models what, from the bottom up:

  \<^item> \<open>Prelude\<close>, \<open>GoLib\<close>, \<open>Utf8\<close>, \<open>GoTime\<close>, \<open>GoStatus\<close>: what the code uses of
    the Go library: strings as byte lists, \<open>strconv\<close>, durations and dates, \<open>%q\<close>, errors as values with
    gRPC status codes. \<open>Effects\<close>: stateful code as \<open>State_Monad\<close> programs, with weakest preconditions
    (\<open>wp\<close>) and preserved properties (\<open>keeps\<close>).
  \<^item> \<open>AdbProtocol\<close>: \<open>adb_protocol.go\<close> and the codec of \<open>devicesource/server.go\<close>.
    \<open>Features\<close>: \<open>features.go\<close>.
  \<^item> \<open>Logging\<close>, \<open>LogLevel\<close>: \<open>logging/redact.go\<close>, \<open>logging/recent.go\<close>,
    \<open>logging/level.go\<close>. \<open>Updater\<close>, \<open>UpdateClient\<close>: \<open>version/args.go\<close>,
    \<open>updater/updater.go\<close>, first the decisions and the replacement of the binary, then the HTTP client, its
    requests and \<open>CheckAndUpdate\<close> with all its effects, which refines the decision.
  \<^item> \<open>TunnelObserver\<close>, \<open>LockLog\<close>: the two halves of \<open>lock_log.go\<close>, what a tunnel's bytes
    say and the queue that is shipped to the orchestrator.
  \<^item> \<open>DeviceTracker\<close>: \<open>device_tracker.go\<close>, with the locale of a table of transport ids.
    \<open>AdbConnection\<close>: \<open>adb_connection.go\<close>, one client connection against that locale.
  \<^item> \<open>Session\<close>: \<open>session.go\<close> as a step relation between the goroutine that serves the stream and the
    callers of \<open>send\<close>.
  \<^item> \<open>Pump\<close>, \<open>Relay\<close>: \<open>pump.go\<close>, the forward of \<open>command_router.go\<close> and
    \<open>relay.go\<close>; a locale states what every copy loop guarantees and is interpreted for each of them.
    \<open>RecvAhead\<close>: the tunnel's stream that is read ahead, against the plain stream.
  \<^item> \<open>World\<close>, \<open>CommandRouter\<close>: the state the proxy's operations share, the outside they
    ask, and every call of \<open>command_router.go\<close>.
  \<^item> \<open>PortReset\<close>, \<open>ScopedPort\<close>: \<open>scoped_port.go\<close>, what a phone goes through between two jobs,
    and the life of a port. \<open>LockLife\<close> and \<open>LockGrant\<close> put the operations together. \<open>Keepalive\<close>: the
    loop of \<open>runKeepalive\<close> over its tickers.
  \<^item> \<open>PhoneTurns\<close>: the goroutines of \<open>scoped_port.go\<close> and \<open>ServeRelay\<close> in any interleaving, with the
    table of ports, the relay records and the mutex of each phone (\<open>wifiMu\<close>).
  \<^item> \<open>HttpApi\<close>, \<open>HttpFacts\<close>: \<open>http_api.go\<close> and what it grants to whom.
  \<^item> \<open>Phone\<close>: the device source's state and configuration, \<open>adbShell\<close>, \<open>waitFor\<close> and the
    serial filter. On it, one theory for each thing that is done to a phone: \<open>PhonePackages\<close>
    (\<open>packages.go\<close>), \<open>PhoneReboot\<close> (\<open>reboot.go\<close>, \<open>screen.go\<close>, \<open>uiautomation.go\<close>),
    \<open>PhoneBluetooth\<close> (\<open>bluetooth.go\<close>), \<open>PhoneWifi\<close> (\<open>wifi.go\<close>).
    \<open>DeviceSource\<close>: configuration, device list, accounts and updates (\<open>server.go\<close>,
    \<open>accounts.go\<close>, \<open>updates.go\<close>) and all requests about one phone together.
    \<open>PhoneForward\<close>: the source's end of a forward with \<open>forward_watch.go\<close>, joined with the proxy's end.
    \<open>PhoneExec\<close>: commands whose output is streamed.
  \<^item> \<open>Commands\<close>: \<open>cmd/sair-proxy\<close>, \<open>cmd/sair-device-source\<close>, \<open>identity.go\<close>,
    \<open>proxy/proxy.go\<close>: configuration, the bare port, and the device source's report, joined with the
    proxy's handler. \<open>ProxyMain\<close>: the proxy's process from start to exit, \<open>main\<close>, the signal's goroutine, the
    HTTP listener and the requests it has begun, in any order. \<open>AgentApi\<close>, \<open>AgentTools\<close>: \<open>internal/agentapi\<close> and \<open>internal/agentmcp\<close>.

  The two programs are joined where they meet: the answers of the device source are the environment's in the
  proxy's theories, \<open>PhoneForward\<close> puts the two ends of a forwarded connection together,
  \<open>Commands\<close> runs a report from \<open>adb devices\<close> to the proxy's list, and \<open>EndToEnd\<close> lets the sources
  serve every call of the proxy, with calls and answers lost anywhere, so that what the proxy promises about calls
  becomes what adb runs on which phone; \<open>BenchRuns\<close> holds the concrete runs of both programs that its
  theorems are applied to.

  How state and operations correspond to the code. A Go struct is a record with the code's fields, a map is
  an association list or a partial function, a bounded counter that can wrap is a word. The proxy is one
  \<open>world\<close> record: the tables of \<open>CommandRouter\<close> and of the \<open>ScopedPortManager\<close>, the state of
  each port under its number, and the calls made so far. What comes from outside, the clock, the devices,
  the orchestrator, the session, the network, is an \<open>env\<close> record of functions of a step number that
  grows with every question, so theorems hold for whatever is answered and two equal questions may be
  answered differently. An operation runs to its end as one step, in the order of its calls; where the code starts a
  goroutine per phone the phones take their turns, each under its own lock. That this is what the mutexes give
  is the matter of \<open>PhoneTurns\<close>: there an operation is a program of instructions, its steps come between those
  of all others, and what is done to a phone under its mutex is one job with a beginning and an end. Where
  interleaving matters further the model has it: the session, the event queue, the two halves of a rebuild of the device list, the lock log
  against its shipping, the two directions of a pump, a stream read ahead, the keeper of an agent's leases and
  the goroutines of the process are machines whose steps come in any order.

  The device source is one \<open>source\<close> record with everything it has run on adb so far, command, output and
  error; its outside is a \<open>bench\<close> record: adb, contexts and \<open>ParseFloat\<close>. A question takes at least a
  nanosecond, a timer that fires has taken its time. The phone is whatever answers.

  What the groups of lemmas show. Isolation: a connection reaches only phones its port allows, a reset or
  the end of a lock only phones of that lock that nobody else holds by now, a request without an accepted
  key nothing, or only what the device token of one lock may do. The life of a lock: the table of ports is
  well formed after any sequence of operations; an acquire hands over a prepared port or gives the lock
  back; a shutdown releases every lock with its whole log; the answer a runner gets is true. The log:
  nothing is lost, doubled or reordered between a record and a shipment, counters and caps hold, and the
  keepalive refines these operations. Streams: frames are read back exactly, forwards and relays carry exact
  bytes and half-closes, a refusal means that nothing was relayed. Liveness and termination: the session
  reconnects with a bounded backoff, events are sent once the session is back, asking for a lock and waiting
  for a phone end. The locales \<open>world_invariant\<close> and its extensions state what an invariant has to survive
  for every operation to keep it; each operation's preservation is proved once there, and every
  invariant of the development is an interpretation.
  From one program to the other (\<open>EndToEnd\<close>): a lender's packages survive relayed locks, the end of a lock runs
  adb on its own phones only, a port that is handed over has phones that said they are awake. Turns
  (\<open>PhoneTurns\<close>): jobs on a phone do not overlap, no reset begins on a phone that a lock has begun to prepare,
  and no order of mutexes and waits deadlocks. The process: the API answers only while the ADB port is held, a
  process that ends holds no lock but those of requests that outlived the two seconds of \<open>Stop\<close>, a
  signal ends it in nine turns; the update's token goes to no other host, and only the binary changes.
  A phone: its contracts say what the phone has answered
  when a request returns without an error (awake, on the bench Wi-Fi, Bluetooth cycled, rebooted, clear), what
  a request does on every path (settings put back, no reboot into a secure lock, nothing uninstalled that is
  to be kept) and that a request stays with its phone. They rest on \<open>emits\<close>, a calculus of what an
  operation has run and been answered, with one rule for each construct and each primitive; the locale
  \<open>phone_invariant\<close> does for the source what \<open>world_invariant\<close> does for the proxy.

  Bounds. \<open>acquireRetries\<close> is 10, as in the code. \<open>waitTurns\<close> is 31: the loop of \<open>waitForSource\<close>
  sleeps a second per turn against a deadline of 30 seconds, so 31 turns are enough when a sleep of a second
  takes at least one, which \<open>waitForSource_ends\<close> proves. \<open>pollTurns\<close> is one turn for every
  two seconds of a timeout and two more, enough for every wait of the device source (\<open>waits_end\<close>). No other
  definition has fuel.

  Agents: a call of the API client is read back from its request as it was made; the keeper of leases is a
  machine of goroutines, and a lease is heartbeated exactly as long as it lasts.

  Not modelled. Of \<open>cmd/\<close>, the listener and shutdown of the device source and the flags of \<open>sair-mcp\<close>, which
  call libraries only. The set-up and tear-down of gRPC connections (\<open>NewCommandRouter\<close>, \<open>ctx\<close>,
  \<open>Shutdown\<close>, \<open>NewHTTPApi\<close>) and \<open>start\<close> and \<open>stop\<close> of the session do the same.
  \<open>proto/\<close> is generated. Log lines are left out everywhere but for the ring of recent lines. In the device source
  \<open>time.Duration\<close> times a float is a parameter, times are exact integers, a write to the adb server that fails has
  written nothing, and mutexes are the atomicity of a step: two requests about one phone do not interleave there. Nor
  do they come to it at once from one proxy, whose jobs on a phone take turns by \<open>phone_jobs_take_turns\<close>, but two
  proxies could send them. In \<open>PhoneTurns\<close> the phones of a port are in a fixed order where Go's maps have any, and
  a goroutine of \<open>main\<close> that is killed in the middle of its work is not there. In the proxy Wi-Fi statistics are handed
  on unread and left out of a device's record.
\<close>

end
